(* ===== verification/Prelude.thy ===== *)
theory Prelude
  imports Main "HOL-Library.Word"
begin

unbundle bit_operations_syntax

section \<open>Shared types, results and lemmas\<close>

text \<open>
  What every component uses: the C integer types of \<^verbatim>\<open>include/type.h\<close> as words, C's
  two's-complement \<open>int\<close> written out where it can wrap, the value of a run that does not
  return normally (a failed \<open>assert\<close>, a \<open>panic\<close>, a loop that never ends) with the
  sequencing that stops at it, linked lists over a "next" field, and the lemmas on words and
  lists the component proofs share.
\<close>

type_synonym u8 = "8 word"
type_synonym u16 = "16 word"
type_synonym u32 = "32 word"
type_synonym u64 = "64 word"

named_theorems consts_simps \<open>the numeric constants of the headers\<close>
named_theorems res_simps \<open>sequencing of runs that may stop\<close>

subsection \<open>C integers\<close>

definition s32 :: "int \<Rightarrow> int" where
  "s32 x = signed_take_bit 31 x"

text \<open>C's \<open>/\<close> and \<open>%\<close> on \<open>int\<close> truncate towards zero.\<close>

definition c_div :: "int \<Rightarrow> int \<Rightarrow> int" where
  "c_div a b = sgn a * sgn b * (\<bar>a\<bar> div \<bar>b\<bar>)"

definition c_mod :: "int \<Rightarrow> int \<Rightarrow> int" where
  "c_mod a b = a - b * c_div a b"

lemma s32_id: "- (2 ^ 31) \<le> x \<Longrightarrow> x < 2 ^ 31 \<Longrightarrow> s32 x = x"
  by (simp add: s32_def signed_take_bit_int_eq_self_iff)

lemma s32_small: "- 2147483648 \<le> x \<Longrightarrow> x < 2147483648 \<Longrightarrow> s32 x = x"
  by (rule s32_id) simp_all

lemma s32_bounds: "- (2 ^ 31) \<le> s32 x" "s32 x < 2 ^ 31"
  using signed_take_bit_int_greater_eq_minus_exp [of 31 x] signed_take_bit_int_less_exp [of 31 x]
  by (simp_all add: s32_def)

lemma c_div_nonneg: "0 \<le> a \<Longrightarrow> 0 < b \<Longrightarrow> c_div a b = a div b"
  by (cases "a = 0") (simp_all add: c_div_def)

lemma c_mod_nonneg: "0 \<le> a \<Longrightarrow> 0 < b \<Longrightarrow> c_mod a b = a mod b"
  by (simp add: c_mod_def c_div_nonneg minus_mult_div_eq_mod)

subsection \<open>Masks\<close>

lemma and_masks:
  "(x :: 'a::len word) AND 0x1 = take_bit 1 x"
  "x AND 0xf = take_bit 4 x"
  "x AND 0x7f = take_bit 7 x"
  "x AND 0xff = take_bit 8 x"
  "x AND 0x1ff = take_bit 9 x"
  "x AND 0xffff = take_bit 16 x"
  by (simp_all add: take_bit_eq_mask mask_numeral)

lemma and_f0: "(x :: 'a::len word) AND 0xf0 = push_bit 4 (take_bit 4 (drop_bit 4 x))"
proof -
  have "(0xf0 :: 'a word) = push_bit 4 (mask 4)" by (simp add: mask_numeral push_bit_eq_mult)
  then show ?thesis by (simp add: bit_eq_iff bit_simps) fastforce
qed

subsection \<open>Runs that may stop\<close>

text \<open>
  \<open>AssertFailed\<close> is a call of \<open>assertion_failure()\<close> (\<^verbatim>\<open>lib/misc.c\<close>), \<open>Panic\<close> one of
  \<open>panic()\<close> (\<^verbatim>\<open>kernel/main.c\<close>): neither returns. \<open>Hang\<close> is a loop that never ends,
  \<open>Fault\<close> an access through a null pointer or outside an array, after which C promises nothing,
  and \<open>Blocked\<close> a rendezvous in which a task waits for a process that is not ready for it. The
  string names the place.
\<close>

datatype kerror = AssertFailed string | Panic string | Hang string | Fault string | Blocked string

type_synonym 'a res = "kerror + 'a"

definition bindE :: "'a res \<Rightarrow> ('a \<Rightarrow> 'b res) \<Rightarrow> 'b res" where
  "bindE m f = (case m of Inl e \<Rightarrow> Inl e | Inr x \<Rightarrow> f x)"

definition assertE :: "bool \<Rightarrow> string \<Rightarrow> 'a res \<Rightarrow> 'a res" where
  "assertE b e k = (if b then k else Inl (AssertFailed e))"

definition loopE :: "'a option \<Rightarrow> string \<Rightarrow> ('a \<Rightarrow> 'b res) \<Rightarrow> 'b res" where
  "loopE m e f = (case m of None \<Rightarrow> Inl (Hang e) | Some x \<Rightarrow> f x)"

lemma bindE_simps [simp, res_simps]:
  "bindE (Inl e) f = Inl e"
  "bindE (Inr x) f = f x"
  by (simp_all add: bindE_def)

lemma bindE_Inr [res_simps]: "bindE m f = Inr y \<longleftrightarrow> (\<exists>x. m = Inr x \<and> f x = Inr y)"
  by (simp add: bindE_def split: sum.splits)

lemma assertE_simps [simp, res_simps]:
  "assertE True e k = k"
  "assertE False e k = Inl (AssertFailed e)"
  by (simp_all add: assertE_def)

lemma assertE_Inr [res_simps]: "assertE b e k = Inr y \<longleftrightarrow> b \<and> k = Inr y"
  by (simp add: assertE_def)

lemma loopE_simps [simp, res_simps]:
  "loopE None e f = Inl (Hang e)"
  "loopE (Some x) e f = f x"
  by (simp_all add: loopE_def)

lemma loopE_Inr [res_simps]: "loopE m e f = Inr y \<longleftrightarrow> (\<exists>x. m = Some x \<and> f x = Inr y)"
  by (simp add: loopE_def split: option.splits)

subsection \<open>Memory and buffers\<close>

text \<open>
  \<open>phys_copy()\<close> between linear memory and a buffer, and buffers of bytes that are read and
  written as little-endian 32-bit fields, the way the code overlays a \<open>struct\<close> on them. A
  buffer is indexed by \<^typ>\<open>int\<close>: an index below 0 is the memory before it.
\<close>

definition phys_read :: "(u32 \<Rightarrow> u8) \<Rightarrow> u32 \<Rightarrow> nat \<Rightarrow> u8 list" where
  "phys_read m p n = map (\<lambda>i. m (p + of_nat i)) [0..<n]"

definition phys_write :: "(u32 \<Rightarrow> u8) \<Rightarrow> u32 \<Rightarrow> u8 list \<Rightarrow> (u32 \<Rightarrow> u8)" where
  "phys_write m p bs = (\<lambda>a. if unat (a - p) < length bs then bs ! unat (a - p) else m a)"

definition buf_read :: "(int \<Rightarrow> u8) \<Rightarrow> int \<Rightarrow> nat \<Rightarrow> u8 list" where
  "buf_read b off n = map (\<lambda>i. b (off + int i)) [0..<n]"

definition buf_write :: "(int \<Rightarrow> u8) \<Rightarrow> int \<Rightarrow> u8 list \<Rightarrow> (int \<Rightarrow> u8)" where
  "buf_write b off bs = (\<lambda>k. if off \<le> k \<and> k < off + int (length bs) then bs ! nat (k - off) else b k)"

definition buf_copy :: "(int \<Rightarrow> u8) \<Rightarrow> int \<Rightarrow> int \<Rightarrow> (int \<Rightarrow> u8) \<Rightarrow> int \<Rightarrow> (int \<Rightarrow> u8)" where
  "buf_copy dst d n src p = (\<lambda>k. if d \<le> k \<and> k < d + n then src (p + (k - d)) else dst k)"

definition get32 :: "(int \<Rightarrow> u8) \<Rightarrow> int \<Rightarrow> u32" where
  "get32 b k = ucast (b k) OR push_bit 8 (ucast (b (k + 1))) OR
     push_bit 16 (ucast (b (k + 2))) OR push_bit 24 (ucast (b (k + 3)))"

definition bytes32 :: "u32 \<Rightarrow> u8 list" where
  "bytes32 w = [ucast w, ucast (drop_bit 8 w), ucast (drop_bit 16 w), ucast (drop_bit 24 w)]"

definition put32 :: "int \<Rightarrow> u32 \<Rightarrow> (int \<Rightarrow> u8) \<Rightarrow> (int \<Rightarrow> u8)" where
  "put32 k w b = buf_write b k (bytes32 w)"

lemma length_phys_read [simp]: "length (phys_read m p n) = n"
  by (simp add: phys_read_def)

lemma length_buf_read [simp]: "length (buf_read b off n) = n"
  by (simp add: buf_read_def)

lemma nth_buf_read [simp]: "i < n \<Longrightarrow> buf_read b off n ! i = b (off + int i)"
  by (simp add: buf_read_def)

lemma nth_phys_read [simp]: "i < n \<Longrightarrow> phys_read m p n ! i = m (p + of_nat i)"
  by (simp add: phys_read_def)

lemma length_bytes32 [simp]: "length (bytes32 w) = 4"
  by (simp add: bytes32_def)

lemma buf_write_same [simp]:
  "off \<le> k \<Longrightarrow> k < off + int (length bs) \<Longrightarrow> buf_write b off bs k = bs ! nat (k - off)"
  by (simp add: buf_write_def)

lemma buf_write_other: "k < off \<or> off + int (length bs) \<le> k \<Longrightarrow> buf_write b off bs k = b k"
  by (auto simp: buf_write_def)

lemma buf_read_write: "buf_read (buf_write b off bs) off (length bs) = bs"
  by (rule nth_equalityI) simp_all

lemma phys_read_write:
  "length bs \<le> 2 ^ 32 \<Longrightarrow> phys_read (phys_write m p bs) p (length bs) = bs"
  by (rule nth_equalityI) (simp_all add: phys_write_def unat_of_nat)

lemma word_bytes:
  fixes w :: u32
  shows "ucast (ucast w :: u8) OR (push_bit 8 (ucast (ucast (drop_bit 8 w) :: u8)) OR
     (push_bit 16 (ucast (ucast (drop_bit 16 w) :: u8)) OR push_bit 24 (ucast (ucast (drop_bit 24 w) :: u8)))) = w"
  (is "?r = w")
proof (rule bit_word_eqI)
  fix n :: nat
  assume n: "n < LENGTH(32)"
  then consider "n < 8" | "8 \<le> n" "n < 16" | "16 \<le> n" "n < 24" | "24 \<le> n" "n < 32" by fastforce
  then show "bit ?r n \<longleftrightarrow> bit w n"
    by cases (auto simp: bit_or_iff bit_push_bit_iff bit_unsigned_iff bit_drop_bit_eq)
qed

lemma phys_read_append: "phys_read m lin (a + b) = phys_read m lin a @ phys_read m (lin + of_nat a) b"
  by (auto simp: phys_read_def nth_append algebra_simps of_nat_diff intro!: nth_equalityI)

lemma get32_put32 [simp]: "get32 (put32 k w b) k = w"
  using word_bytes [of w]
  by (simp add: get32_def put32_def buf_write_def bytes32_def or.assoc nth_Cons')

lemma get32_put32_other: "k + 4 \<le> j \<or> j + 4 \<le> k \<Longrightarrow> get32 (put32 k w b) j = get32 b j"
  by (auto simp: get32_def put32_def buf_write_def)

lemma put32_other: "k < j \<or> j + 4 \<le> k \<Longrightarrow> put32 j w b k = b k"
  by (auto simp: put32_def buf_write_def)

lemma get32_cong: "(\<And>i. k \<le> i \<Longrightarrow> i < k + 4 \<Longrightarrow> b i = b' i) \<Longrightarrow> get32 b k = get32 b' k"
  by (simp add: get32_def)

subsection \<open>Linked lists over a next field\<close>

text \<open>
  \<open>chain nxt h xs\<close>: following \<open>nxt\<close> from the pointer \<open>h\<close> visits exactly \<open>xs\<close> and then
  meets the null pointer.
\<close>

fun chain :: "('a \<Rightarrow> 'a option) \<Rightarrow> 'a option \<Rightarrow> 'a list \<Rightarrow> bool" where
  "chain nxt h [] \<longleftrightarrow> h = None"
| "chain nxt h (x # xs) \<longleftrightarrow> h = Some x \<and> chain nxt (nxt x) xs"

lemma chain_None [simp]: "chain nxt None xs \<longleftrightarrow> xs = []"
  by (cases xs) auto

lemma chain_Some: "chain nxt (Some x) xs \<longleftrightarrow> (\<exists>ys. xs = x # ys \<and> chain nxt (nxt x) ys)"
  by (cases xs) auto

lemma chain_cong:
  "\<forall>x\<in>set xs. nxt x = nxt' x \<Longrightarrow> chain nxt h xs = chain nxt' h xs"
  by (induction xs arbitrary: h) auto

lemma chain_unique: "chain nxt h xs \<Longrightarrow> chain nxt h ys \<Longrightarrow> xs = ys"
  by (induction xs arbitrary: h ys) (auto simp: chain_Some)

lemma chain_upd_other [simp]: "x \<notin> set xs \<Longrightarrow> chain (nxt(x := v)) h xs = chain nxt h xs"
  by (rule chain_cong) auto

lemma chain_append:
  "chain nxt h (xs @ [y]) \<Longrightarrow> distinct (xs @ [y]) \<Longrightarrow> z \<notin> set (xs @ [y]) \<Longrightarrow>
   chain (nxt(y := Some z, z := None)) h (xs @ [y, z])"
  by (induction xs arbitrary: h) auto

lemma chain_unlink:
  "chain nxt h (xs @ y # x # ys) \<Longrightarrow> distinct (xs @ y # x # ys) \<Longrightarrow>
   chain (nxt(y := nxt x, x := None)) h (xs @ y # ys)"
  by (induction xs arbitrary: h) (auto intro: chain_cong [THEN iffD1, rotated])

lemma chain_drop_head:
  "chain nxt (Some x) (x # xs) \<Longrightarrow> x \<notin> set xs \<Longrightarrow> chain (nxt(x := None)) (nxt x) xs"
  by simp

subsection \<open>Outcomes of fallible code\<close>

text \<open>
  \<open>ret r E P\<close>: an error of \<open>r\<close> satisfies \<open>E\<close>, a result satisfies \<open>P\<close>. The rules follow the
  structure of the code, so that a property of a routine is proved call by call.
\<close>

definition ret :: "'a res \<Rightarrow> (kerror \<Rightarrow> bool) \<Rightarrow> ('a \<Rightarrow> bool) \<Rightarrow> bool" where
  "ret r E P = (case r of Inl e \<Rightarrow> E e | Inr x \<Rightarrow> P x)"

named_theorems ret_rules

lemma ret_Inr [ret_rules]: "P x \<Longrightarrow> ret (Inr x) E P"
  by (simp add: ret_def)

lemma ret_Inl [ret_rules]: "E e \<Longrightarrow> ret (Inl e) E P"
  by (simp add: ret_def)

lemma ret_bind [ret_rules]: "ret r E (\<lambda>x. ret (f x) E P) \<Longrightarrow> ret (bindE r f) E P"
  by (cases r) (simp_all add: ret_def)

lemma ret_assert [ret_rules]:
  "(c \<Longrightarrow> ret r E P) \<Longrightarrow> (\<not> c \<Longrightarrow> E (AssertFailed m)) \<Longrightarrow> ret (assertE c m r) E P"
  by (cases c) (simp_all add: ret_def)

lemma ret_if [ret_rules]:
  "(b \<Longrightarrow> ret x E P) \<Longrightarrow> (\<not> b \<Longrightarrow> ret y E P) \<Longrightarrow> ret (if b then x else y) E P"
  by simp

lemma ret_prod [ret_rules]: "(\<And>a b. p = (a, b) \<Longrightarrow> ret (f a b) E P) \<Longrightarrow> ret (case p of (a, b) \<Rightarrow> f a b) E P"
  by (cases p) simp

lemma ret_conseq: "ret r E P \<Longrightarrow> (\<And>x. P x \<Longrightarrow> Q x) \<Longrightarrow> (\<And>e. E e \<Longrightarrow> E' e) \<Longrightarrow> ret r E' Q"
  by (cases r) (simp_all add: ret_def)

lemma ret_InrD: "ret r E P \<Longrightarrow> r = Inr x \<Longrightarrow> P x"
  by (simp add: ret_def)

lemma ret_InlD: "ret r E P \<Longrightarrow> r = Inl e \<Longrightarrow> E e"
  by (simp add: ret_def)

lemma ret_resultI: "(\<And>x. r = Inr x \<Longrightarrow> P x) \<Longrightarrow> (\<And>e. r = Inl e \<Longrightarrow> E e) \<Longrightarrow> ret r E P"
  by (cases r) (simp_all add: ret_def)

subsection \<open>State machines\<close>

text \<open>
  The contract of an invariant: it holds initially and every step keeps it. The runs of a
  machine are the reflexive-transitive closure of its step relation.
\<close>

locale state_machine =
  fixes step :: "'s \<Rightarrow> 's \<Rightarrow> bool" and inv :: "'s \<Rightarrow> bool"
  assumes step_inv: "inv s \<Longrightarrow> step s s' \<Longrightarrow> inv s'"
begin

lemma run_inv: "step\<^sup>*\<^sup>* s s' \<Longrightarrow> inv s \<Longrightarrow> inv s'"
  by (induction rule: rtranclp_induct) (auto intro: step_inv)

lemma run_total:
  assumes "\<And>s. inv s \<Longrightarrow> \<exists>s'. step s s'" "inv s"
  shows "\<exists>s'. step\<^sup>*\<^sup>* s s' \<and> (step ^^ n) s s' \<and> inv s'"
proof (induction n)
  case 0
  with assms(2) show ?case by auto
next
  case (Suc n)
  then obtain s1 where s1: "step\<^sup>*\<^sup>* s s1" "(step ^^ n) s s1" "inv s1" by blast
  with assms(1) obtain s2 where "step s1 s2" by blast
  with s1 step_inv show ?case by (meson relpowp_Suc_I rtranclp.rtrancl_into_rtrancl)
qed

end

end
