(* ===== verification/Console.thy ===== *)
theory Console
  imports Prelude
begin

section \<open>Virtual consoles (kernel/console.c)\<close>

text \<open>
  The three consoles share the video memory, \<open>VIDEO_MEM_SIZE / 2 = 16384\<close> cells of a
  character and a colour. \<open>vram\<close> maps a cell number (the byte address less
  \<open>VIDEO_MEM_BASE\<close>, halved) to the two bytes; \<open>crtc\<close> is the register file behind
  \<open>CRTC_ADDR_REG\<close> and \<open>CRTC_DATA_REG\<close>. A \<open>CONSOLE *\<close> is an index into \<open>console_table\<close>. The
  fields are \<open>unsigned int\<close>: they are integers here, with \<open>uint32\<close> writing out the wrap-around
  of a subtraction.

  The lemmas show when \<open>out_char()\<close> returns, that it keeps the cursor inside the console's
  own region and on the visible screen, and which cells it can change.
\<close>

subsection \<open>Data\<close>

record CONSOLE =
  crtc_start :: int
  orig :: int
  con_size :: int
  cursor :: int
  is_full :: bool

type_synonym cells = "int \<Rightarrow> u8 \<times> u8"

record screen =
  console_table :: "int \<Rightarrow> CONSOLE"
  nr_current_console :: int
  vram :: cells
  crtc :: "u8 \<Rightarrow> u8"
  disp_pos :: int

abbreviation (input) NR_CONSOLES :: int where "NR_CONSOLES \<equiv> 3"
abbreviation (input) SCREEN_SIZE :: int where "SCREEN_SIZE \<equiv> 2000"
abbreviation (input) SCREEN_WIDTH :: int where "SCREEN_WIDTH \<equiv> 80"
abbreviation (input) VIDEO_MEM_SIZE :: int where "VIDEO_MEM_SIZE \<equiv> 0x8000"
abbreviation (input) DEFAULT_CHAR_COLOR :: u8 where "DEFAULT_CHAR_COLOR \<equiv> 0x07"
abbreviation (input) START_ADDR_H :: u8 where "START_ADDR_H \<equiv> 0xc"
abbreviation (input) START_ADDR_L :: u8 where "START_ADDR_L \<equiv> 0xd"
abbreviation (input) CURSOR_H :: u8 where "CURSOR_H \<equiv> 0xe"
abbreviation (input) CURSOR_L :: u8 where "CURSOR_L \<equiv> 0xf"

datatype direction = SCROLL_UP | SCROLL_DOWN

definition uint32 :: "int \<Rightarrow> int" where
  "uint32 x = x mod 2 ^ 32"

definition upd_con :: "int \<Rightarrow> (CONSOLE \<Rightarrow> CONSOLE) \<Rightarrow> screen \<Rightarrow> screen" where
  "upd_con c f s = s\<lparr>console_table := (console_table s)(c := f (console_table s c))\<rparr>"

subsection \<open>Operations\<close>

definition is_current_console :: "int \<Rightarrow> screen \<Rightarrow> bool" where
  "is_current_console c s \<longleftrightarrow> c = nr_current_console s"

definition set_cursor :: "int \<Rightarrow> screen \<Rightarrow> screen" where
  "set_cursor position s = s\<lparr>crtc := (crtc s)(
     CURSOR_H := of_int (position div 2 ^ 8), CURSOR_L := of_int position)\<rparr>"

definition set_video_start_addr :: "int \<Rightarrow> screen \<Rightarrow> screen" where
  "set_video_start_addr addr s = s\<lparr>crtc := (crtc s)(
     START_ADDR_H := of_int (addr div 2 ^ 8), START_ADDR_L := of_int addr)\<rparr>"

definition flush :: "int \<Rightarrow> screen \<Rightarrow> screen" where
  "flush c s =
     (if is_current_console c s
      then set_video_start_addr (crtc_start (console_table s c))
             (set_cursor (cursor (console_table s c)) s)
      else s)"

text \<open>\<open>while (--len >= 0)\<close> over the cells from \<open>pos\<close>.\<close>

fun clear_cells :: "nat \<Rightarrow> int \<Rightarrow> cells \<Rightarrow> cells" where
  "clear_cells 0 pos v = v"
| "clear_cells (Suc n) pos v = clear_cells n (pos + 1) (v(pos := (0x20, DEFAULT_CHAR_COLOR)))"

definition clear_screen :: "int \<Rightarrow> nat \<Rightarrow> screen \<Rightarrow> screen" where
  "clear_screen pos len s = s\<lparr>vram := clear_cells len pos (vram s)\<rparr>"

text \<open>\<open>phys_copy\<close> is \<open>memcpy\<close>: ascending, one byte after another.\<close>

fun copy_cells :: "nat \<Rightarrow> int \<Rightarrow> int \<Rightarrow> cells \<Rightarrow> cells" where
  "copy_cells 0 dst src v = v"
| "copy_cells (Suc n) dst src v = copy_cells n (dst + 1) (src + 1) (v(dst := v src))"

definition w_copy :: "int \<Rightarrow> int \<Rightarrow> nat \<Rightarrow> screen \<Rightarrow> screen" where
  "w_copy dst src n s = s\<lparr>vram := copy_cells n dst src (vram s)\<rparr>"

definition select_console :: "int \<Rightarrow> screen \<Rightarrow> screen" where
  "select_console nr s =
     (if nr < 0 \<or> nr \<ge> NR_CONSOLES then s else flush nr (s\<lparr>nr_current_console := nr\<rparr>))"

definition scroll_start :: "CONSOLE \<Rightarrow> direction \<Rightarrow> int" where
  "scroll_start c d =
     (let newest = s32 (uint32 (cursor c - orig c) div SCREEN_WIDTH * SCREEN_WIDTH);
          oldest = (if is_full c then (newest + SCREEN_WIDTH) mod con_size c else 0);
          scr_top = s32 (crtc_start c - orig c)
      in case d of
        SCROLL_DOWN \<Rightarrow>
          if \<not> is_full c \<and> scr_top > 0 then crtc_start c - SCREEN_WIDTH
          else if is_full c \<and> scr_top \<noteq> oldest then
            if uint32 (cursor c - orig c) \<ge> con_size c - SCREEN_SIZE then
              if crtc_start c \<noteq> orig c then crtc_start c - SCREEN_WIDTH else crtc_start c
            else if crtc_start c = orig c then orig c + (con_size c - SCREEN_SIZE)
            else crtc_start c - SCREEN_WIDTH
          else crtc_start c
      | SCROLL_UP \<Rightarrow>
          if \<not> is_full c \<and> newest \<ge> scr_top + SCREEN_SIZE then crtc_start c + SCREEN_WIDTH
          else if is_full c \<and> scr_top + SCREEN_SIZE - SCREEN_WIDTH \<noteq> newest then
            if scr_top + SCREEN_SIZE = con_size c then orig c else crtc_start c + SCREEN_WIDTH
          else crtc_start c)"

definition scroll_screen :: "int \<Rightarrow> direction \<Rightarrow> screen \<Rightarrow> screen" where
  "scroll_screen c d s =
     flush c (upd_con c (\<lambda>con. con\<lparr>crtc_start := scroll_start con d\<rparr>) s)"

text \<open>The switch of \<open>out_char()\<close>, then the wrap of a cursor past the end of the region.\<close>

definition put_cell :: "int \<Rightarrow> char \<Rightarrow> screen \<Rightarrow> screen" where
  "put_cell c ch s =
     (let con = console_table s c;
          cursor_y = uint32 (cursor con - orig con) div SCREEN_WIDTH
      in if ch = CHR 0x0A then
           upd_con c (\<lambda>con. con\<lparr>cursor := orig con + SCREEN_WIDTH * (cursor_y + 1)\<rparr>) s
         else if ch = CHR 0x08 then
           (if cursor con > orig con
            then (upd_con c (\<lambda>con. con\<lparr>cursor := cursor con - 1\<rparr>) s)
              \<lparr>vram := (vram s)(cursor con - 1 := (0x20, DEFAULT_CHAR_COLOR))\<rparr>
            else s)
         else (upd_con c (\<lambda>con. con\<lparr>cursor := cursor con + 1\<rparr>) s)
            \<lparr>vram := (vram s)(cursor con := (of_char ch, DEFAULT_CHAR_COLOR))\<rparr>)"

definition wrap_region :: "int \<Rightarrow> screen \<Rightarrow> screen" where
  "wrap_region c s =
     (let con = console_table s c;
          off = uint32 (cursor con - orig con)
      in if off \<ge> con_size con then
           let cursor_x = off mod SCREEN_WIDTH;
               cursor_y = off div SCREEN_WIDTH;
               cp_orig = orig con + (cursor_y + 1) * SCREEN_WIDTH - SCREEN_SIZE;
               cur = orig con + (SCREEN_SIZE - SCREEN_WIDTH) + cursor_x
           in upd_con c (\<lambda>con. con\<lparr>is_full := True\<rparr>)
               (clear_screen cur (nat SCREEN_WIDTH)
                 (upd_con c (\<lambda>con. con\<lparr>crtc_start := orig con, cursor := cur\<rparr>)
                   (w_copy (orig con) cp_orig (nat (SCREEN_SIZE - SCREEN_WIDTH)) s)))
         else s)"

text \<open>The loop that scrolls until the cursor is on the screen.\<close>

partial_function (option) scroll_to_cursor :: "int \<Rightarrow> screen \<Rightarrow> screen option" where
  "scroll_to_cursor c s =
     (if cursor (console_table s c) \<ge> crtc_start (console_table s c) + SCREEN_SIZE \<or>
         cursor (console_table s c) < crtc_start (console_table s c)
      then let s1 = scroll_screen c SCROLL_UP s
           in scroll_to_cursor c (clear_screen (cursor (console_table s1 c)) (nat SCREEN_WIDTH) s1)
      else Some s)"

definition out_char :: "int \<Rightarrow> char \<Rightarrow> screen \<Rightarrow> screen res" where
  "out_char c ch s =
     assertE (uint32 (cursor (console_table s c) - orig (console_table s c)) <
              con_size (console_table s c)) ''cursor - orig < con_size''
      (let s1 = wrap_region c (put_cell c ch s)
       in assertE (uint32 (cursor (console_table s1 c) - orig (console_table s1 c)) <
                   con_size (console_table s1 c)) ''cursor - orig < con_size''
         (loopE (scroll_to_cursor c s1) ''out_char'' (\<lambda>s2. Inr (flush c s2))))"

fun out_chars :: "int \<Rightarrow> string \<Rightarrow> screen \<Rightarrow> screen res" where
  "out_chars c [] s = Inr s"
| "out_chars c (ch # chs) s = bindE (out_char c ch s) (out_chars c chs)"

definition init_screen :: "int \<Rightarrow> screen \<Rightarrow> screen res" where
  "init_screen nr_tty s =
     (let size_per_con = VIDEO_MEM_SIZE div 2 div NR_CONSOLES;
          s1 = upd_con nr_tty (\<lambda>con. con\<lparr>orig := size_per_con * nr_tty,
                 con_size := size_per_con div SCREEN_WIDTH * SCREEN_WIDTH,
                 crtc_start := size_per_con * nr_tty, cursor := size_per_con * nr_tty,
                 is_full := False\<rparr>) s
      in bindE (if nr_tty = 0
                then Inr ((upd_con nr_tty (\<lambda>con. con\<lparr>cursor := disp_pos s1 div 2\<rparr>) s1)\<lparr>disp_pos := 0\<rparr>)
                else out_chars nr_tty (''[TTY #'' @ [char_of (nat nr_tty + 48)] @ '']'' @ [CHR 0x0A]) s1)
           (\<lambda>s2. Inr (set_cursor (cursor (console_table s2 nr_tty)) s2)))"

subsection \<open>The invariant of a console\<close>

text \<open>
  \<open>con_ok\<close>: the window starts on a line boundary and lies inside the region, the cursor lies
  inside the region and never above the window of a console that has not wrapped yet.
\<close>

definition geometry_ok :: "CONSOLE \<Rightarrow> bool" where
  "geometry_ok c \<longleftrightarrow> 0 \<le> orig c \<and> orig c + con_size c \<le> VIDEO_MEM_SIZE div 2 \<and>
     SCREEN_SIZE \<le> con_size c \<and> con_size c mod SCREEN_WIDTH = 0 \<and>
     orig c \<le> crtc_start c \<and> (crtc_start c - orig c) mod SCREEN_WIDTH = 0 \<and>
     crtc_start c + SCREEN_SIZE \<le> orig c + con_size c \<and>
     orig c \<le> cursor c \<and> cursor c < orig c + con_size c"

definition con_ok :: "CONSOLE \<Rightarrow> bool" where
  "con_ok c \<longleftrightarrow> geometry_ok c \<and> (is_full c \<or> crtc_start c \<le> cursor c)"

definition on_screen :: "CONSOLE \<Rightarrow> bool" where
  "on_screen c \<longleftrightarrow> crtc_start c \<le> cursor c \<and> cursor c < crtc_start c + SCREEN_SIZE"

lemma uint32_id [simp]: "0 \<le> x \<Longrightarrow> x < 2 ^ 32 \<Longrightarrow> uint32 x = x"
  by (simp add: uint32_def)

lemma geometryD:
  assumes "geometry_ok c"
  shows "uint32 (cursor c - orig c) = cursor c - orig c" "s32 (crtc_start c - orig c) = crtc_start c - orig c"
    "s32 ((cursor c - orig c) div 80 * 80) = (cursor c - orig c) div 80 * 80"
proof -
  from assms have b: "0 \<le> cursor c - orig c" "cursor c - orig c < 16384" "0 \<le> crtc_start c - orig c"
    "crtc_start c - orig c < 16384" by (auto simp: geometry_ok_def)
  then show "uint32 (cursor c - orig c) = cursor c - orig c" "s32 (crtc_start c - orig c) = crtc_start c - orig c"
    by (simp_all add: s32_id)
  have "cursor c - orig c - 79 \<le> (cursor c - orig c) div 80 * 80" "(cursor c - orig c) div 80 * 80 \<le> cursor c - orig c"
    by presburger+
  with b show "s32 ((cursor c - orig c) div 80 * 80) = (cursor c - orig c) div 80 * 80"
    by (intro s32_small) linarith+
qed

lemma upd_con_simps [simp]:
  "console_table (upd_con c f s) = (console_table s)(c := f (console_table s c))"
  "vram (upd_con c f s) = vram s" "nr_current_console (upd_con c f s) = nr_current_console s"
  "crtc (upd_con c f s) = crtc s" "disp_pos (upd_con c f s) = disp_pos s"
  by (simp_all add: upd_con_def)

lemma flush_simps [simp]:
  "console_table (flush c s) = console_table s" "vram (flush c s) = vram s"
  "nr_current_console (flush c s) = nr_current_console s" "disp_pos (flush c s) = disp_pos s"
  by (simp_all add: flush_def set_cursor_def set_video_start_addr_def)

lemma clear_screen_simps [simp]:
  "console_table (clear_screen p n s) = console_table s" "vram (clear_screen p n s) = clear_cells n p (vram s)"
  "nr_current_console (clear_screen p n s) = nr_current_console s"
  by (simp_all add: clear_screen_def)

lemma w_copy_simps [simp]:
  "console_table (w_copy d p n s) = console_table s" "vram (w_copy d p n s) = copy_cells n d p (vram s)"
  "nr_current_console (w_copy d p n s) = nr_current_console s"
  by (simp_all add: w_copy_def)

lemma clear_cells_lookup:
  "clear_cells n p v k = (if p \<le> k \<and> k < p + int n then (0x20, DEFAULT_CHAR_COLOR) else v k)"
proof (induction n arbitrary: p v)
  case (Suc n)
  show ?case unfolding clear_cells.simps Suc.IH by auto
qed auto

lemma copy_cells_lookup:
  "d \<le> p \<Longrightarrow> copy_cells n d p v k = (if d \<le> k \<and> k < d + int n then v (k - d + p) else v k)"
proof (induction n arbitrary: d p v)
  case (Suc n)
  then have "d + 1 \<le> p + 1" by simp
  from Suc.prems show ?case unfolding copy_cells.simps Suc.IH [OF \<open>d + 1 \<le> p + 1\<close>]
    by (auto simp: algebra_simps)
qed auto

text \<open>The same in lines: the window at line \<open>t\<close>, the cursor at line \<open>l\<close>, column \<open>x\<close>, of \<open>z\<close>.\<close>

definition at_line :: "CONSOLE \<Rightarrow> int \<Rightarrow> int \<Rightarrow> int \<Rightarrow> int \<Rightarrow> bool" where
  "at_line c z t l x \<longleftrightarrow> crtc_start c = orig c + 80 * t \<and> con_size c = 80 * z \<and>
     cursor c = orig c + 80 * l + x \<and> 0 \<le> x \<and> x < 80 \<and> 0 \<le> l \<and> l < z \<and> 0 \<le> t \<and> t + 25 \<le> z \<and>
     0 \<le> orig c \<and> orig c + 80 * z \<le> 16384"

lemma geometry_at_line:
  assumes "geometry_ok c"
  obtains z t l x where "at_line c z t l x"
proof -
  obtain z where z: "con_size c = 80 * z" using assms by (auto simp: geometry_ok_def)
  obtain t where t: "crtc_start c - orig c = 80 * t" using assms by (auto simp: geometry_ok_def)
  define l x where "l = (cursor c - orig c) div 80" and "x = (cursor c - orig c) mod 80"
  then have lx: "cursor c - orig c = 80 * l + x" "0 \<le> x" "x < 80" by simp_all
  have t': "crtc_start c = orig c + 80 * t" using t by simp
  have l': "cursor c = orig c + 80 * l + x" using lx by simp
  have "at_line c z t l x"
    using assms lx(2,3) unfolding geometry_ok_def at_line_def z t' l' by (intro conjI; simp; presburger)
  then show thesis by (rule that)
qed

lemma at_line_geometry: "at_line c z t l x \<Longrightarrow> geometry_ok c"
  by (auto simp: at_line_def geometry_ok_def)

subsection \<open>Scrolling\<close>

lemma at_line_div:
  "at_line c z t l x \<Longrightarrow> (cursor c - orig c) div 80 = l" "at_line c z t l x \<Longrightarrow> (cursor c - orig c) mod 80 = x"
  by (simp_all add: at_line_def div_pos_pos_trivial)

lemma scroll_up_line:
  assumes a: "at_line c z t l x"
  shows "scroll_start c SCROLL_UP = orig c + 80 *
    (if \<not> is_full c \<and> l \<ge> t + 25 then t + 1
     else if is_full c \<and> t + 24 \<noteq> l then (if t + 25 = z then 0 else t + 1) else t)"
  using geometryD [OF at_line_geometry [OF a]] at_line_div [OF a] a
  by (auto simp: scroll_start_def Let_def at_line_def)

lemma scroll_down_line:
  assumes a: "at_line c z t l x"
  shows "\<exists>t'. 0 \<le> t' \<and> t' + 25 \<le> z \<and> (\<not> is_full c \<longrightarrow> t' \<le> t) \<and> scroll_start c SCROLL_DOWN = orig c + 80 * t'"
proof -
  have "scroll_start c SCROLL_DOWN = orig c + 80 * t \<or>
      (t > 0 \<and> scroll_start c SCROLL_DOWN = orig c + 80 * (t - 1)) \<or>
      (is_full c \<and> scroll_start c SCROLL_DOWN = orig c + 80 * (z - 25))"
    using geometryD [OF at_line_geometry [OF a]] at_line_div [OF a] a
    by (auto simp: scroll_start_def Let_def at_line_def)
  then show ?thesis
  proof (elim disjE conjE)
    assume "scroll_start c SCROLL_DOWN = orig c + 80 * t"
    with a show ?thesis by (intro exI [of _ t]) (simp add: at_line_def)
  next
    assume "t > 0" "scroll_start c SCROLL_DOWN = orig c + 80 * (t - 1)"
    with a show ?thesis by (intro exI [of _ "t - 1"]) (simp add: at_line_def)
  next
    assume "is_full c" "scroll_start c SCROLL_DOWN = orig c + 80 * (z - 25)"
    with a show ?thesis by (intro exI [of _ "z - 25"]) (simp add: at_line_def)
  qed
qed

lemma scroll_start_ok:
  assumes "con_ok c"
  shows "con_ok (c\<lparr>crtc_start := scroll_start c d\<rparr>)"
proof -
  obtain z t l x where a: "at_line c z t l x" using assms geometry_at_line con_ok_def by metis
  have vis: "is_full c \<or> t \<le> l" using assms a by (auto simp: con_ok_def at_line_def)
  have "\<exists>t'. scroll_start c d = orig c + 80 * t' \<and> 0 \<le> t' \<and> t' + 25 \<le> z \<and> (is_full c \<or> t' \<le> l)"
  proof (cases d)
    case SCROLL_UP
    with scroll_up_line [OF a] a vis show ?thesis by (auto simp: at_line_def)
  next
    case SCROLL_DOWN
    with scroll_down_line [OF a] vis show ?thesis by fastforce
  qed
  then obtain t' where t': "scroll_start c d = orig c + 80 * t'" "0 \<le> t'" "t' + 25 \<le> z" "is_full c \<or> t' \<le> l" by blast
  with a have "at_line (c\<lparr>crtc_start := orig c + 80 * t'\<rparr>) z t' l x" by (simp add: at_line_def)
  from at_line_geometry [OF this] t'(4) a show ?thesis
    unfolding t'(1) con_ok_def by (auto simp: at_line_def)
qed

subsection \<open>The loop of out_char()\<close>

definition scroll_once :: "int \<Rightarrow> screen \<Rightarrow> screen" where
  "scroll_once c s = (let s1 = scroll_screen c SCROLL_UP s
     in clear_screen (cursor (console_table s1 c)) (nat SCREEN_WIDTH) s1)"

lemma scroll_once_simps [simp]:
  "console_table (scroll_once c s) =
     (console_table s)(c := (console_table s c)\<lparr>crtc_start := scroll_start (console_table s c) SCROLL_UP\<rparr>)"
  "vram (scroll_once c s) = clear_cells 80 (cursor (console_table s c)) (vram s)"
  "nr_current_console (scroll_once c s) = nr_current_console s"
  by (simp_all add: scroll_once_def scroll_screen_def Let_def)

lemma scroll_to_cursor_step:
  "scroll_to_cursor c s =
     (if on_screen (console_table s c) then Some s else scroll_to_cursor c (scroll_once c s))"
  by (subst scroll_to_cursor.simps) (auto simp: on_screen_def scroll_once_def Let_def)

text \<open>What the loop leaves: the window moved so that the cursor shows, 80 cells cleared from the cursor.\<close>

definition scrolled :: "int \<Rightarrow> screen \<Rightarrow> screen \<Rightarrow> bool" where
  "scrolled c s s' \<longleftrightarrow>
     (\<exists>t. console_table s' = (console_table s)(c := (console_table s c)\<lparr>crtc_start := t\<rparr>)) \<and>
     con_ok (console_table s' c) \<and> on_screen (console_table s' c) \<and>
     nr_current_console s' = nr_current_console s \<and>
     vram s' = (if on_screen (console_table s c) then vram s
       else clear_cells 80 (cursor (console_table s c)) (vram s))"

lemma scrolled_refl: "con_ok (console_table s c) \<Longrightarrow> on_screen (console_table s c) \<Longrightarrow> scrolled c s s"
  unfolding scrolled_def by (auto intro: exI [of _ "crtc_start (console_table s c)"])

lemma clear_cells_twice: "clear_cells n p (clear_cells n p v) = clear_cells n p v"
  by (rule ext) (simp add: clear_cells_lookup)

lemma scrolled_step:
  "scrolled c (scroll_once c s) s' \<Longrightarrow> \<not> on_screen (console_table s c) \<Longrightarrow> scrolled c s s'"
  by (auto simp: scrolled_def clear_cells_twice)

lemma scroll_down_to:
  assumes "at_line (console_table s c) z t l x" "t \<le> l"
  shows "\<exists>s'. scroll_to_cursor c s = Some s' \<and> scrolled c s s'"
  using assms
proof (induction "nat (l - t)" arbitrary: s t rule: less_induct)
  case less
  let ?con = "console_table s c"
  note a = less.prems(1)
  have ok: "con_ok ?con" using a less.prems(2) at_line_geometry [OF a] by (auto simp: con_ok_def at_line_def)
  show ?case
  proof (cases "l < t + 25")
    case True
    then have "on_screen ?con" using a less.prems(2) by (auto simp: on_screen_def at_line_def)
    with scrolled_refl [OF ok] show ?thesis by (subst scroll_to_cursor_step) auto
  next
    case False
    then have off: "\<not> on_screen ?con" using a by (auto simp: on_screen_def at_line_def)
    have "at_line (console_table (scroll_once c s) c) z (t + 1) l x"
      using scroll_up_line [OF a] False a by (auto simp: at_line_def)
    with less.hyps [of "t + 1" "scroll_once c s"] False obtain s' where
      "scroll_to_cursor c (scroll_once c s) = Some s'" "scrolled c (scroll_once c s) s'" by auto
    with off scrolled_step show ?thesis by (subst scroll_to_cursor_step) auto
  qed
qed

lemma scroll_around_to:
  assumes "at_line (console_table s c) z t l x" "is_full (console_table s c)"
  shows "\<exists>s'. scroll_to_cursor c s = Some s' \<and> scrolled c s s'"
  using assms
proof (induction "nat (z - t)" arbitrary: s t rule: less_induct)
  case less
  let ?con = "console_table s c"
  note a = less.prems(1)
  show ?case
  proof (cases "t \<le> l")
    case True
    with scroll_down_to [OF a] show ?thesis .
  next
    case False
    then have off: "\<not> on_screen ?con" using a by (auto simp: on_screen_def at_line_def)
    have fin: ?thesis if "\<exists>s'. scroll_to_cursor c (scroll_once c s) = Some s' \<and> scrolled c (scroll_once c s) s'"
      using that off scrolled_step by (subst scroll_to_cursor_step) auto
    show ?thesis
    proof (cases "t + 25 = z")
      case True
      with False a less.prems(2) have "at_line (console_table (scroll_once c s) c) z 0 l x"
        using scroll_up_line [OF a] by (auto simp: at_line_def)
      from scroll_down_to [OF this] a fin show ?thesis by (auto simp: at_line_def)
    next
      case neq: False
      have "at_line (console_table (scroll_once c s) c) z (t + 1) l x"
        using scroll_up_line [OF a] False neq a less.prems(2) by (auto simp: at_line_def)
      moreover have "nat (z - (t + 1)) < nat (z - t)" using a by (auto simp: at_line_def)
      ultimately show ?thesis using less.hyps [of "t + 1" "scroll_once c s"] less.prems(2) fin by auto
    qed
  qed
qed

lemma scroll_to_cursor_total:
  assumes "con_ok (console_table s c)"
  shows "\<exists>s'. scroll_to_cursor c s = Some s' \<and> scrolled c s s'"
proof -
  obtain z t l x where a: "at_line (console_table s c) z t l x"
    using assms geometry_at_line con_ok_def by metis
  show ?thesis
  proof (cases "is_full (console_table s c)")
    case True
    with scroll_around_to [OF a] show ?thesis .
  next
    case False
    with assms a have "t \<le> l" by (auto simp: con_ok_def at_line_def)
    with scroll_down_to [OF a] show ?thesis .
  qed
qed

text \<open>A cursor above the window of a console that is not full: the loop changes nothing and never ends.\<close>

lemma scroll_to_cursor_hangs:
  assumes "geometry_ok (console_table s c)" "\<not> is_full (console_table s c)"
    "cursor (console_table s c) < crtc_start (console_table s c)"
  shows "scroll_to_cursor c s = None"
proof (rule ccontr)
  let ?P = "\<lambda>con. geometry_ok con \<and> \<not> is_full con \<and> cursor con < crtc_start con"
  have stuck: "?P (console_table (scroll_once c s) c)" if P: "?P (console_table s c)" for s c
  proof -
    obtain z t l x where a: "at_line (console_table s c) z t l x" using P geometry_at_line by blast
    with P have "l < t" by (auto simp: at_line_def)
    with scroll_up_line [OF a] P a have "scroll_start (console_table s c) SCROLL_UP = crtc_start (console_table s c)"
      by (auto simp: at_line_def)
    with P show ?thesis by simp
  qed
  assume "scroll_to_cursor c s \<noteq> None"
  then obtain s' where "scroll_to_cursor c s = Some s'" by blast
  then have "\<not> ?P (console_table s c)"
  proof (rule scroll_to_cursor.raw_induct [rotated, where P = "\<lambda>c s s'. \<not> ?P (console_table s c)"])
    fix f :: "int \<Rightarrow> screen \<Rightarrow> screen option" and c s s'
    assume IH: "\<And>c s s'. f c s = Some s' \<Longrightarrow> \<not> ?P (console_table s c)"
      and run: "(if cursor (console_table s c) \<ge> crtc_start (console_table s c) + SCREEN_SIZE \<or>
         cursor (console_table s c) < crtc_start (console_table s c)
      then let s1 = scroll_screen c SCROLL_UP s
           in f c (clear_screen (cursor (console_table s1 c)) (nat SCREEN_WIDTH) s1)
      else Some s) = Some s'"
    show "\<not> ?P (console_table s c)"
    proof
      assume P: "?P (console_table s c)"
      with run have "f c (scroll_once c s) = Some s'" by (simp add: scroll_once_def Let_def)
      from IH [OF this] stuck [OF P] show False by blast
    qed
  qed
  with assms show False by blast
qed

subsection \<open>One character\<close>

definition advance :: "CONSOLE \<Rightarrow> char \<Rightarrow> int" where
  "advance con ch =
     (if ch = CHR 0x0A then orig con + 80 * ((cursor con - orig con) div 80 + 1)
      else if ch = CHR 0x08 then (if cursor con > orig con then cursor con - 1 else cursor con)
      else cursor con + 1)"

text \<open>A backspace that leaves the window of a console that has not wrapped yet.\<close>

definition backs_out :: "CONSOLE \<Rightarrow> char \<Rightarrow> bool" where
  "backs_out con ch \<longleftrightarrow> ch = CHR 0x08 \<and> \<not> is_full con \<and> orig con < cursor con \<and> cursor con = crtc_start con"

lemma put_cell_con:
  assumes "geometry_ok (console_table s c)"
  shows "console_table (put_cell c ch s) =
      (console_table s)(c := (console_table s c)\<lparr>cursor := advance (console_table s c) ch\<rparr>)"
    "nr_current_console (put_cell c ch s) = nr_current_console s"
  using geometryD(1) [OF assms] by (simp_all add: put_cell_def advance_def Let_def fun_eq_iff)

lemma put_cell_vram:
  assumes "geometry_ok (console_table s c)" "k < orig (console_table s c) \<or> k \<ge> orig (console_table s c) + con_size (console_table s c)"
  shows "vram (put_cell c ch s) k = vram s k"
  using assms by (auto simp: put_cell_def Let_def geometry_ok_def)

lemma advance_bounds:
  assumes "geometry_ok con"
  shows "orig con \<le> advance con ch" "advance con ch \<le> orig con + con_size con"
    "advance con ch = orig con + con_size con \<Longrightarrow> (advance con ch - orig con) mod 80 = 0"
proof -
  obtain z t l x where a: "at_line con z t l x" using geometry_at_line [OF assms] .
  show "orig con \<le> advance con ch" "advance con ch \<le> orig con + con_size con"
    "advance con ch = orig con + con_size con \<Longrightarrow> (advance con ch - orig con) mod 80 = 0"
    using a unfolding advance_def at_line_div(1) [OF a] by (auto simp: at_line_def)
qed

definition wrapped :: "CONSOLE \<Rightarrow> CONSOLE" where
  "wrapped con = con\<lparr>crtc_start := orig con, cursor := orig con + 1920, is_full := True\<rparr>"

definition after_char :: "CONSOLE \<Rightarrow> char \<Rightarrow> CONSOLE" where
  "after_char con ch = (let con1 = con\<lparr>cursor := advance con ch\<rparr>
     in if cursor con1 = orig con + con_size con then wrapped con1 else con1)"

lemma wrap_region_con:
  assumes g: "geometry_ok (console_table s c)" and s1_def: "s1 = put_cell c ch s"
  shows "console_table (wrap_region c s1) = (console_table s)(c := after_char (console_table s c) ch)"
    "nr_current_console (wrap_region c s1) = nr_current_console s"
    "vram (wrap_region c s1) =
      (if advance (console_table s c) ch = orig (console_table s c) + con_size (console_table s c)
       then clear_cells 80 (orig (console_table s c) + 1920) (copy_cells 1920 (orig (console_table s c))
         (orig (console_table s c) + con_size (console_table s c) - 1920) (vram s1))
       else vram s1)"
proof -
  let ?con = "console_table s c"
  note b = advance_bounds [OF g, of ch]
  have sz: "con_size ?con \<le> 16384" "0 \<le> orig ?con" "con_size ?con mod 80 = 0"
    using g by (auto simp: geometry_ok_def)
  have off: "uint32 (advance ?con ch - orig ?con) = advance ?con ch - orig ?con"
    using b sz by (intro uint32_id) auto
  have c1: "console_table s1 = (console_table s)(c := ?con\<lparr>cursor := advance ?con ch\<rparr>)"
    "nr_current_console s1 = nr_current_console s"
    unfolding s1_def by (rule put_cell_con [OF g])+
  have eq: "(con_size ?con div 80 + 1) * 80 - 2000 = con_size ?con - 1920"
    using mult_div_mod_eq [of 80 "con_size ?con"] sz(3) by simp
  have c2: "wrap_region c s1 =
      (if advance ?con ch = orig ?con + con_size ?con then
         upd_con c (\<lambda>con. con\<lparr>is_full := True\<rparr>)
           (clear_screen (orig ?con + 1920) 80
             (upd_con c (\<lambda>con. con\<lparr>crtc_start := orig con, cursor := orig ?con + 1920\<rparr>)
               (w_copy (orig ?con) (orig ?con + con_size ?con - 1920) 1920 s1)))
       else s1)"
  proof (cases "advance ?con ch = orig ?con + con_size ?con")
    case True
    then have "advance ?con ch - orig ?con = con_size ?con" by simp
    with True off sz(3) eq show ?thesis
      by (simp add: wrap_region_def Let_def c1 add_diff_eq [symmetric])
  next
    case False
    with b(2) off have "\<not> uint32 (advance ?con ch - orig ?con) \<ge> con_size ?con" by simp
    with False show ?thesis by (simp add: wrap_region_def Let_def c1)
  qed
  show "console_table (wrap_region c s1) = (console_table s)(c := after_char ?con ch)"
    "nr_current_console (wrap_region c s1) = nr_current_console s"
    "vram (wrap_region c s1) = (if advance ?con ch = orig ?con + con_size ?con
       then clear_cells 80 (orig ?con + 1920) (copy_cells 1920 (orig ?con) (orig ?con + con_size ?con - 1920) (vram s1))
       else vram s1)"
    by (auto simp: c2 c1 after_char_def wrapped_def Let_def)
qed

lemma after_char_ok:
  assumes "con_ok con" "\<not> backs_out con ch"
  shows "con_ok (after_char con ch)"
proof -
  have g: "geometry_ok con" using assms by (simp add: con_ok_def)
  obtain z t l x where a: "at_line con z t l x" using geometry_at_line [OF g] .
  note b = advance_bounds [OF g, of ch]
  show ?thesis
  proof (cases "advance con ch = orig con + con_size con")
    case True
    then show ?thesis using g by (auto simp: after_char_def wrapped_def con_ok_def geometry_ok_def)
  next
    case False
    have "is_full con \<or> crtc_start con \<le> advance con ch"
    proof (cases "is_full con")
      case nf: False
      then have "crtc_start con \<le> cursor con" using assms(1) by (simp add: con_ok_def)
      then have tl: "t \<le> l" using a by (auto simp: at_line_def)
      show ?thesis
        using a tl nf assms(2) unfolding advance_def at_line_div(1) [OF a] backs_out_def
        by (auto simp: at_line_def)
    qed simp
    with False g b show ?thesis by (auto simp: after_char_def con_ok_def geometry_ok_def)
  qed
qed

lemma uint32_cursor: "geometry_ok con \<Longrightarrow> uint32 (cursor con - orig con) < con_size con"
  using geometryD(1) [of con] by (simp add: geometry_ok_def)

lemma after_char_geometry:
  assumes "geometry_ok con"
  shows "geometry_ok (after_char con ch)"
  using assms advance_bounds [OF assms, of ch]
  by (auto simp: after_char_def wrapped_def geometry_ok_def Let_def)

lemma out_char_unfold:
  assumes g: "geometry_ok (console_table s c)"
  shows "out_char c ch s =
    loopE (scroll_to_cursor c (wrap_region c (put_cell c ch s))) ''out_char'' (\<lambda>s2. Inr (flush c s2))"
  using uint32_cursor [OF g] uint32_cursor [OF after_char_geometry [OF g, of ch]]
    wrap_region_con(1) [OF g refl, of ch]
  by (simp add: out_char_def Let_def)

lemma after_char_cleared:
  assumes "con_ok con" "on_screen con" "\<not> on_screen (after_char con ch)"
  shows "orig con \<le> cursor (after_char con ch) \<and> cursor (after_char con ch) + 80 \<le> orig con + con_size con"
proof -
  have g: "geometry_ok con" using assms by (simp add: con_ok_def)
  obtain z t l x where a: "at_line con z t l x" using geometry_at_line [OF g] .
  have on: "t \<le> l" "l < t + 25" using a assms(2) by (auto simp: at_line_def on_screen_def)
  have nw: "advance con ch \<noteq> orig con + con_size con"
    using assms(3) by (auto simp: after_char_def wrapped_def on_screen_def)
  then have ac: "after_char con ch = con\<lparr>cursor := advance con ch\<rparr>" by (simp add: after_char_def)
  with assms(3) have off: "\<not> on_screen (con\<lparr>cursor := advance con ch\<rparr>)" by simp
  note A = a [unfolded at_line_def]
  consider (nl) "ch = CHR 0x0A" | (bs) "ch = CHR 0x08" | (ot) "ch \<noteq> CHR 0x0A" "ch \<noteq> CHR 0x08" by blast
  then show ?thesis
  proof cases
    case nl
    then have adv: "advance con ch = orig con + 80 * (l + 1)" by (simp add: advance_def at_line_div(1) [OF a])
    with nw A have "l + 2 \<le> z" by auto
    with adv A show ?thesis by (simp add: ac)
  next
    case bs
    with off on A have "advance con ch = orig con + 80 * t - 1" "0 < t"
      by (auto simp: advance_def on_screen_def split: if_splits)
    with A show ?thesis by (simp add: ac)
  next
    case ot
    then have adv: "advance con ch = orig con + 80 * l + x + 1" using A by (simp add: advance_def)
    with off on A have "l = t + 24" "x = 79" by (auto simp: on_screen_def)
    with adv nw A have "advance con ch = orig con + 80 * (t + 25)" "t + 26 \<le> z" by auto
    with A show ?thesis by (simp add: ac)
  qed
qed

definition in_region :: "CONSOLE \<Rightarrow> int \<Rightarrow> bool" where
  "in_region con k \<longleftrightarrow> orig con \<le> k \<and> k < orig con + con_size con"

lemma wrap_region_vram:
  assumes "geometry_ok (console_table s c)" "\<not> in_region (console_table s c) k"
  shows "vram (wrap_region c (put_cell c ch s)) k = vram s k"
proof -
  let ?con = "console_table s c"
  have "orig ?con \<le> orig ?con + con_size ?con - 1920" "2000 \<le> con_size ?con"
    using assms(1) by (auto simp: geometry_ok_def)
  with put_cell_vram [OF assms(1), of k ch] assms show ?thesis
    by (auto simp: wrap_region_con(3) [OF assms(1) refl] clear_cells_lookup copy_cells_lookup in_region_def)
qed

lemma put_cell_char:
  "ch \<noteq> CHR 0x0A \<Longrightarrow> ch \<noteq> CHR 0x08 \<Longrightarrow>
   vram (put_cell c ch s) (cursor (console_table s c)) = (of_char ch, DEFAULT_CHAR_COLOR)"
  by (simp add: put_cell_def Let_def)

lemma crtc_readback:
  assumes "is_current_console c s" "geometry_ok (console_table s c)"
  shows "uint (crtc (flush c s) CURSOR_H) * 256 + uint (crtc (flush c s) CURSOR_L) = cursor (console_table s c)"
    "uint (crtc (flush c s) START_ADDR_H) * 256 + uint (crtc (flush c s) START_ADDR_L) = crtc_start (console_table s c)"
proof -
  have "uint (of_int (p div 256) :: u8) * 256 + uint (of_int p :: u8) = p" if "0 \<le> p" "p < 16384" for p :: int
    using that by (simp add: uint_word_of_int) 
  moreover have "0 \<le> cursor (console_table s c)" "cursor (console_table s c) < 16384"
    "0 \<le> crtc_start (console_table s c)" "crtc_start (console_table s c) < 16384"
    using assms(2) by (auto simp: geometry_ok_def)
  ultimately show
    "uint (crtc (flush c s) CURSOR_H) * 256 + uint (crtc (flush c s) CURSOR_L) = cursor (console_table s c)"
    "uint (crtc (flush c s) START_ADDR_H) * 256 + uint (crtc (flush c s) START_ADDR_L) = crtc_start (console_table s c)"
    using assms(1) by (simp_all add: flush_def set_cursor_def set_video_start_addr_def)
qed

lemma out_char_run:
  assumes ok: "con_ok (console_table s c)" and nb: "\<not> backs_out (console_table s c) ch"
  shows "\<exists>s2. out_char c ch s = Inr (flush c s2) \<and> scrolled c (wrap_region c (put_cell c ch s)) s2"
proof -
  have g: "geometry_ok (console_table s c)" using ok by (simp add: con_ok_def)
  have "con_ok (console_table (wrap_region c (put_cell c ch s)) c)"
    using after_char_ok [OF ok nb] by (simp add: wrap_region_con(1) [OF g refl])
  with scroll_to_cursor_total out_char_unfold [OF g, of ch] show ?thesis by force
qed

subsection \<open>Properties\<close>

lemma out_char_con:
  assumes ok: "con_ok (console_table s c)" and nb: "\<not> backs_out (console_table s c) ch"
    and run: "out_char c ch s = Inr s'"
  shows "\<exists>t. console_table s' = (console_table s)(c := (after_char (console_table s c) ch)\<lparr>crtc_start := t\<rparr>)"
    "con_ok (console_table s' c)" "on_screen (console_table s' c)"
    "vram s' = (if on_screen (after_char (console_table s c) ch) then vram (wrap_region c (put_cell c ch s))
       else clear_cells 80 (cursor (after_char (console_table s c) ch)) (vram (wrap_region c (put_cell c ch s))))"
    "nr_current_console s' = nr_current_console s" "\<exists>s2. s' = flush c s2"
proof -
  have g: "geometry_ok (console_table s c)" using ok by (simp add: con_ok_def)
  from out_char_run [OF ok nb] run obtain s2 where
    s2: "s' = flush c s2" "scrolled c (wrap_region c (put_cell c ch s)) s2" by auto
  then show "\<exists>t. console_table s' = (console_table s)(c := (after_char (console_table s c) ch)\<lparr>crtc_start := t\<rparr>)"
    "con_ok (console_table s' c)" "on_screen (console_table s' c)"
    "vram s' = (if on_screen (after_char (console_table s c) ch) then vram (wrap_region c (put_cell c ch s))
       else clear_cells 80 (cursor (after_char (console_table s c) ch)) (vram (wrap_region c (put_cell c ch s))))"
    "nr_current_console s' = nr_current_console s"
    by (auto simp: scrolled_def wrap_region_con(1,2) [OF g refl])
  from s2(1) show "\<exists>s2. s' = flush c s2" by auto
qed

lemma after_char_region [simp]:
  "orig (after_char con ch) = orig con" "con_size (after_char con ch) = con_size con"
  by (simp_all add: after_char_def wrapped_def Let_def)

text \<open>
  C15: Printing a character on a well-formed console, other than a backspace that would move
  the cursor above the window of a console that has not wrapped yet, returns: no assertion
  fails and the scrolling loop ends. Afterwards the console is well formed again, the cursor is inside the
  console's region and on its screen, the other consoles are as before, a printable
  character that does not wrap the region is in the cell the cursor was on, and for the
  console on display the CRT controller holds the new cursor and start address.
\<close>

theorem out_char_correct:
  assumes "con_ok (console_table s c)" "\<not> backs_out (console_table s c) ch"
  shows "\<exists>s'. out_char c ch s = Inr s' \<and> con_ok (console_table s' c) \<and> on_screen (console_table s' c) \<and>
    (\<forall>d. d \<noteq> c \<longrightarrow> console_table s' d = console_table s d) \<and>
    orig (console_table s' c) = orig (console_table s c) \<and>
    con_size (console_table s' c) = con_size (console_table s c) \<and>
    (ch \<noteq> CHR 0x0A \<and> ch \<noteq> CHR 0x08 \<and> in_region (console_table s c) (cursor (console_table s c) + 1) \<longrightarrow>
       cursor (console_table s' c) = cursor (console_table s c) + 1 \<and>
       vram s' (cursor (console_table s c)) = (of_char ch, DEFAULT_CHAR_COLOR)) \<and>
    (nr_current_console s = c \<longrightarrow>
       uint (crtc s' CURSOR_H) * 256 + uint (crtc s' CURSOR_L) = cursor (console_table s' c) \<and>
       uint (crtc s' START_ADDR_H) * 256 + uint (crtc s' START_ADDR_L) = crtc_start (console_table s' c))"
proof -
  have g: "geometry_ok (console_table s c)" using assms by (simp add: con_ok_def)
  obtain s' where run: "out_char c ch s = Inr s'" using out_char_run [OF assms] by blast
  note R = out_char_con [OF assms run]
  have char: "cursor (console_table s' c) = cursor (console_table s c) + 1 \<and>
       vram s' (cursor (console_table s c)) = (of_char ch, DEFAULT_CHAR_COLOR)"
    if "ch \<noteq> CHR 0x0A" "ch \<noteq> CHR 0x08" "in_region (console_table s c) (cursor (console_table s c) + 1)"
  proof -
    have adv: "advance (console_table s c) ch = cursor (console_table s c) + 1"
      using that by (simp add: advance_def)
    then have ac: "after_char (console_table s c) ch = (console_table s c)\<lparr>cursor := cursor (console_table s c) + 1\<rparr>"
      using that(3) by (simp add: after_char_def in_region_def)
    have "vram (wrap_region c (put_cell c ch s)) = vram (put_cell c ch s)"
      using that(3) adv by (simp add: wrap_region_con(3) [OF g refl] in_region_def)
    with R(4) put_cell_char [OF that(1,2)]
    have "vram s' (cursor (console_table s c)) = (of_char ch, DEFAULT_CHAR_COLOR)"
      by (simp add: ac clear_cells_lookup)
    with R(1) ac show ?thesis by auto
  qed
  have regs: "uint (crtc s' CURSOR_H) * 256 + uint (crtc s' CURSOR_L) = cursor (console_table s' c) \<and>
       uint (crtc s' START_ADDR_H) * 256 + uint (crtc s' START_ADDR_L) = crtc_start (console_table s' c)"
    if "nr_current_console s = c"
  proof -
    from R(6) obtain s2 where s2: "s' = flush c s2" by blast
    have "is_current_console c s2" using that R(5) by (simp add: is_current_console_def s2)
    moreover have "geometry_ok (console_table s2 c)" using R(2) by (simp add: con_ok_def s2)
    ultimately show ?thesis using crtc_readback [of c s2] by (simp add: s2)
  qed
  obtain t where t: "console_table s' = (console_table s)(c := (after_char (console_table s c) ch)\<lparr>crtc_start := t\<rparr>)"
    using R(1) by blast
  have "\<And>d. d \<noteq> c \<Longrightarrow> console_table s' d = console_table s d"
    "orig (console_table s' c) = orig (console_table s c)"
    "con_size (console_table s' c) = con_size (console_table s c)" by (simp_all add: t)
  with run R(2,3) char regs show ?thesis by (intro exI [of _ s'] conjI allI impI) blast+
qed

definition demo_screen :: screen where
  "demo_screen = \<lparr>console_table = (\<lambda>c. \<lparr>crtc_start = 5461 * c, orig = 5461 * c, con_size = 5440,
       cursor = 5461 * c, is_full = False\<rparr>), nr_current_console = 1, vram = (\<lambda>_. (0, 0)),
     crtc = (\<lambda>_. 0), disp_pos = 0\<rparr>"

lemma demo_screen_ok: "0 \<le> c \<Longrightarrow> c < NR_CONSOLES \<Longrightarrow> con_ok (console_table demo_screen c)"
  by (auto simp: demo_screen_def con_ok_def geometry_ok_def)

theorem out_char_correct_witness:
  "\<exists>s'. out_char 1 (CHR ''A'') demo_screen = Inr s' \<and> cursor (console_table s' 1) = 5462 \<and>
     vram s' 5461 = (65, DEFAULT_CHAR_COLOR) \<and> uint (crtc s' CURSOR_H) * 256 + uint (crtc s' CURSOR_L) = 5462"
proof -
  have "\<not> backs_out (console_table demo_screen 1) (CHR ''A'')" by (simp add: backs_out_def)
  from out_char_correct [OF demo_screen_ok this] show ?thesis
    by (auto simp: demo_screen_def in_region_def)
qed

text \<open>
  C16: What printing a character on a well-formed console (again other than a backspace that
  moves the cursor above the window) does to the cells outside the console's own region.
  While the cursor is on the console's screen it changes none of them, so the text of the
  other consoles is untouched. With the window scrolled back, so that the cursor is off the
  screen before and after, \<open>out_char()\<close> clears the \<open>SCREEN_WIDTH\<close> cells from the new cursor
  on, and these may lie beyond the region: on the last line of a full console printing one
  character wipes the start of the next console's text.
\<close>

theorem out_char_isolated:
  assumes "con_ok (console_table s c)" "\<not> backs_out (console_table s c) ch"
    "out_char c ch s = Inr s'" "\<not> in_region (console_table s c) k"
  shows "vram s' k =
    (if \<not> on_screen (console_table s c) \<and> \<not> on_screen (after_char (console_table s c) ch) \<and>
        cursor (console_table s' c) \<le> k \<and> k < cursor (console_table s' c) + SCREEN_WIDTH
     then (0x20, DEFAULT_CHAR_COLOR) else vram s k)"
proof -
  have g: "geometry_ok (console_table s c)" using assms by (simp add: con_ok_def)
  note R = out_char_con [OF assms(1,2,3)]
  from R(1,4) wrap_region_vram [OF g assms(4), of ch] after_char_cleared [OF assms(1), of ch] assms(4)
  show ?thesis by (auto simp: clear_cells_lookup in_region_def)
qed

text \<open>A console that prints on its screen, and one whose window was scrolled back by a line.\<close>

theorem out_char_isolated_witness:
  "(\<exists>s'. out_char 1 (CHR ''A'') demo_screen = Inr s' \<and> vram s' 0 = vram demo_screen 0) \<and>
   (let s = upd_con 0 (\<lambda>con. con\<lparr>crtc_start := 3360, cursor := 5400, is_full := True\<rparr>) demo_screen
    in con_ok (console_table s 0) \<and> in_region (console_table s 1) 5470 \<and> vram s 5470 = (0, 0) \<and>
      (\<exists>s'. out_char 0 (CHR ''A'') s = Inr s' \<and> vram s' 5470 = (0x20, DEFAULT_CHAR_COLOR)))"
proof -
  have nb: "\<not> backs_out (console_table demo_screen 1) (CHR ''A'')" by (simp add: backs_out_def)
  have ok: "con_ok (console_table demo_screen 1)" by (rule demo_screen_ok) simp_all
  obtain s' where s': "out_char 1 (CHR ''A'') demo_screen = Inr s'" using out_char_run [OF ok nb] by blast
  have v: "vram s' 0 = vram demo_screen 0"
    using out_char_isolated [OF ok nb s', of 0] by (simp add: demo_screen_def on_screen_def in_region_def)
  let ?s = "upd_con 0 (\<lambda>con. con\<lparr>crtc_start := 3360, cursor := 5400, is_full := True\<rparr>) demo_screen"
  have con: "console_table ?s 0 = \<lparr>crtc_start = 3360, orig = 0, con_size = 5440, cursor = 5400, is_full = True\<rparr>"
    by (simp add: demo_screen_def)
  have ok2: "con_ok (console_table ?s 0)" unfolding con by (simp add: con_ok_def geometry_ok_def)
  have nb2: "\<not> backs_out (console_table ?s 0) (CHR ''A'')" by (simp add: backs_out_def)
  obtain t where t: "out_char 0 (CHR ''A'') ?s = Inr t" using out_char_run [OF ok2 nb2] by blast
  have ac: "after_char (console_table ?s 0) (CHR ''A'') = (console_table ?s 0)\<lparr>cursor := 5401\<rparr>"
    unfolding con by (simp add: after_char_def advance_def)
  have "vram t 5470 = (0x20, DEFAULT_CHAR_COLOR)"
    using out_char_isolated [OF ok2 nb2 t, of 5470] out_char_con(1) [OF ok2 nb2 t] ac con
    by (auto simp: on_screen_def in_region_def demo_screen_def)
  moreover have "in_region (console_table ?s 1) 5470" "vram ?s 5470 = (0, 0)"
    by (simp_all add: demo_screen_def in_region_def)
  ultimately show ?thesis using s' v ok2 t by (simp only: Let_def) blast
qed

text \<open>
  C18: The scrolling loop of \<open>out_char()\<close> never ends after a backspace that moves the cursor
  above the window of a console that has not wrapped yet: \<open>scroll_screen()\<close> leaves such a
  console as it is.
\<close>

theorem out_char_backspace_hangs:
  assumes "geometry_ok (console_table s c)" "backs_out (console_table s c) ch"
  shows "out_char c ch s = Inl (Hang ''out_char'')"
proof -
  let ?con = "console_table s c"
  have "advance ?con ch = cursor ?con - 1" "advance ?con ch \<noteq> orig ?con + con_size ?con"
    using assms by (auto simp: backs_out_def advance_def geometry_ok_def)
  then have ac: "after_char ?con ch = ?con\<lparr>cursor := cursor ?con - 1\<rparr>" by (simp add: after_char_def)
  have "scroll_to_cursor c (wrap_region c (put_cell c ch s)) = None"
    using after_char_geometry [OF assms(1), of ch] assms(2) ac
    by (intro scroll_to_cursor_hangs) (auto simp: wrap_region_con(1) [OF assms(1) refl] backs_out_def)
  then show ?thesis by (simp add: out_char_unfold [OF assms(1)])
qed

theorem out_char_backspace_hangs_witness:
  "let s = upd_con 1 (\<lambda>con. con\<lparr>crtc_start := 5541, cursor := 5541\<rparr>) demo_screen
   in out_char 1 (CHR 0x08) s = Inl (Hang ''out_char'')"
proof -
  let ?s = "upd_con 1 (\<lambda>con. con\<lparr>crtc_start := 5541, cursor := 5541\<rparr>) demo_screen"
  have "out_char 1 (CHR 0x08) ?s = Inl (Hang ''out_char'')"
    by (rule out_char_backspace_hangs) (auto simp: demo_screen_def geometry_ok_def backs_out_def)
  then show ?thesis by (simp add: Let_def)
qed

lemma not_backspace: "ch \<noteq> CHR 0x08 \<Longrightarrow> \<not> backs_out con ch"
  by (simp add: backs_out_def)

definition same_region :: "CONSOLE \<Rightarrow> CONSOLE \<Rightarrow> bool" where
  "same_region a b \<longleftrightarrow> orig a = orig b \<and> con_size a = con_size b"

lemma out_char_keeps:
  assumes "con_ok (console_table s c)" "ch \<noteq> CHR 0x08" "out_char c ch s = Inr s'"
  shows "con_ok (console_table s' c)" "same_region (console_table s' c) (console_table s c)"
    "\<And>d. d \<noteq> c \<Longrightarrow> console_table s' d = console_table s d"
  using out_char_con [OF assms(1) not_backspace [OF assms(2)] assms(3)] by (auto simp: same_region_def)

lemma out_chars_total:
  assumes "con_ok (console_table s c)" "CHR 0x08 \<notin> set cs"
  shows "\<exists>s'. out_chars c cs s = Inr s' \<and> con_ok (console_table s' c) \<and>
    same_region (console_table s' c) (console_table s c) \<and>
    (\<forall>d. d \<noteq> c \<longrightarrow> console_table s' d = console_table s d)"
  using assms
proof (induction cs arbitrary: s)
  case (Cons ch cs)
  then have ch: "ch \<noteq> CHR 0x08" by auto
  obtain s1 where s1: "out_char c ch s = Inr s1"
    using out_char_run [OF Cons.prems(1) not_backspace [OF ch]] by blast
  note k = out_char_keeps [OF Cons.prems(1) ch s1]
  from Cons.IH [OF k(1)] Cons.prems(2) k(2,3) s1 show ?case by (force simp: same_region_def)
qed (simp add: same_region_def)

lemma init_screen_total:
  assumes "0 \<le> nr" "nr < NR_CONSOLES" "0 \<le> disp_pos s" "disp_pos s < 2 * SCREEN_SIZE"
  shows "\<exists>s'. init_screen nr s = Inr s' \<and> con_ok (console_table s' nr) \<and>
    orig (console_table s' nr) = 5461 * nr \<and> con_size (console_table s' nr) = 5440 \<and>
    (\<forall>d. d \<noteq> nr \<longrightarrow> console_table s' d = console_table s d)"
proof -
  define s1 where "s1 = upd_con nr (\<lambda>con. con\<lparr>orig := 5461 * nr, con_size := 5440,
                 crtc_start := 5461 * nr, cursor := 5461 * nr, is_full := False\<rparr>) s"
  have ok1: "con_ok (console_table s1 nr)" using assms by (simp add: s1_def con_ok_def geometry_ok_def)
  show ?thesis
  proof (cases "nr = 0")
    case True
    with assms show ?thesis
      by (simp add: init_screen_def Let_def set_cursor_def con_ok_def geometry_ok_def)
  next
    case False
    let ?p = "''[TTY #'' @ [char_of (nat nr + 48)] @ '']'' @ [CHR 0x0A]"
    have "nr = 1 \<or> nr = 2" using assms False by auto
    then have "CHR 0x08 \<notin> set ?p" by (auto simp: char_of_def)
    with out_chars_total [OF ok1] obtain s2 where s2: "out_chars nr ?p s1 = Inr s2"
      "con_ok (console_table s2 nr)" "same_region (console_table s2 nr) (console_table s1 nr)"
      "\<forall>d. d \<noteq> nr \<longrightarrow> console_table s2 d = console_table s1 d" by blast
    from s2(1) have "init_screen nr s = Inr (set_cursor (cursor (console_table s2 nr)) s2)"
      using False by (simp add: init_screen_def Let_def s1_def)
    with s2 show ?thesis by (simp add: set_cursor_def same_region_def s1_def)
  qed
qed

text \<open>
  \<open>init_screen()\<close> returns for each of the three consoles and leaves it well formed, on a
  region of 5440 cells of the video memory that is disjoint from the regions of the other
  consoles.
\<close>

theorem init_screen_correct:
  assumes "0 \<le> nr" "nr < NR_CONSOLES" "0 \<le> disp_pos s" "disp_pos s < 2 * SCREEN_SIZE"
  shows "\<exists>s'. init_screen nr s = Inr s' \<and> con_ok (console_table s' nr) \<and>
    (\<forall>d. d \<noteq> nr \<longrightarrow> console_table s' d = console_table s d) \<and>
    (\<forall>d k. d \<noteq> nr \<and> orig (console_table s d) = 5461 * d \<and> con_size (console_table s d) = 5440 \<and>
       in_region (console_table s' nr) k \<longrightarrow> \<not> in_region (console_table s' d) k)"
proof -
  obtain s' where s': "init_screen nr s = Inr s'" "con_ok (console_table s' nr)"
    "orig (console_table s' nr) = 5461 * nr" "con_size (console_table s' nr) = 5440"
    "\<And>d. d \<noteq> nr \<Longrightarrow> console_table s' d = console_table s d"
    using init_screen_total [OF assms] by blast
  have "\<not> in_region (console_table s' d) k"
    if "d \<noteq> nr" "orig (console_table s d) = 5461 * d" "con_size (console_table s d) = 5440"
      "in_region (console_table s' nr) k" for d k
    using that s'(3,4) s'(5) [OF that(1)] by (auto simp: in_region_def)
  with s' show ?thesis by blast
qed

theorem init_screen_correct_witness:
  "\<exists>s'. init_screen 2 demo_screen = Inr s' \<and> con_ok (console_table s' 2) \<and>
     console_table s' 1 = console_table demo_screen 1"
proof -
  have "\<exists>s'. init_screen 2 demo_screen = Inr s' \<and> con_ok (console_table s' 2) \<and>
    (\<forall>d. d \<noteq> 2 \<longrightarrow> console_table s' d = console_table demo_screen d)"
    using init_screen_correct [of 2 demo_screen] by (auto simp: demo_screen_def)
  then show ?thesis by auto
qed

end
