(* ===== verification/Ring.thy ===== *)
theory Ring
  imports Prelude
begin

section \<open>Ring buffers\<close>

text \<open>
  The keyboard's \<open>kb_in\<close> and the terminals' \<open>inbuf\<close> are arrays with a head, a tail and a
  count. \<open>bounded_fifo\<close> is the contract their users rely on: a queue of at most \<open>cap\<close>
  elements, in order, in which an element put into a full buffer is dropped. The lemmas on
  \<open>ring_list\<close> are what an implementation with wrapping indices needs to meet it.
\<close>

locale bounded_fifo =
  fixes cap :: nat
    and inv :: "'b \<Rightarrow> bool"
    and contents :: "'b \<Rightarrow> 'a list"
    and put :: "'a \<Rightarrow> 'b \<Rightarrow> 'b"
    and get :: "'b \<Rightarrow> 'a \<times> 'b"
  assumes bounded: "inv b \<Longrightarrow> length (contents b) \<le> cap"
    and put_inv: "inv b \<Longrightarrow> inv (put x b)"
    and put_room: "inv b \<Longrightarrow> length (contents b) < cap \<Longrightarrow> contents (put x b) = contents b @ [x]"
    and put_full: "inv b \<Longrightarrow> length (contents b) = cap \<Longrightarrow> contents (put x b) = contents b"
    and get_hd: "inv b \<Longrightarrow> contents b \<noteq> [] \<Longrightarrow> fst (get b) = hd (contents b)"
    and get_tl: "inv b \<Longrightarrow> contents b \<noteq> [] \<Longrightarrow> contents (snd (get b)) = tl (contents b)"
    and get_inv: "inv b \<Longrightarrow> contents b \<noteq> [] \<Longrightarrow> inv (snd (get b))"
begin

lemma fold_put_inv: "inv b \<Longrightarrow> inv (fold put xs b)"
  by (induction xs arbitrary: b) (simp_all add: put_inv)

lemma fold_put: "inv b \<Longrightarrow> contents (fold put xs b) = contents b @ take (cap - length (contents b)) xs"
proof (induction xs arbitrary: b)
  case (Cons x xs)
  show ?case
  proof (cases "length (contents b) < cap")
    case True
    then have "take (cap - length (contents b)) (x # xs) = x # take (cap - Suc (length (contents b))) xs"
      by (simp add: take_Cons')
    with True Cons.IH [OF put_inv [OF Cons.prems]] put_room [OF Cons.prems True] show ?thesis by simp
  next
    case False
    with bounded [OF Cons.prems] have "length (contents b) = cap" by simp
    with Cons.IH [OF put_inv [OF Cons.prems]] put_full [OF Cons.prems] show ?thesis by simp
  qed
qed simp

primrec drain :: "nat \<Rightarrow> 'b \<Rightarrow> 'a list \<times> 'b" where
  "drain 0 b = ([], b)"
| "drain (Suc n) b = (let (x, b1) = get b; (xs, b2) = drain n b1 in (x # xs, b2))"

lemma drain_contents:
  "inv b \<Longrightarrow> n \<le> length (contents b) \<Longrightarrow>
   fst (drain n b) = take n (contents b) \<and> contents (snd (drain n b)) = drop n (contents b) \<and> inv (snd (drain n b))"
proof (induction n arbitrary: b)
  case (Suc n)
  then have ne: "contents b \<noteq> []" by auto
  note g = get_hd [OF Suc.prems(1) ne] get_tl [OF Suc.prems(1) ne] get_inv [OF Suc.prems(1) ne]
  have "n \<le> length (contents (snd (get b)))" using Suc.prems(2) g(2) by simp
  note IH = Suc.IH [OF g(3) this]
  from ne obtain y ys where c: "contents b = y # ys" by (cases "contents b") auto
  from IH g c show ?case by (simp add: case_prod_unfold Let_def)
qed simp

lemma put_then_drain:
  assumes "inv b" "contents b = []" "length xs \<le> cap"
  shows "fst (drain (length xs) (fold put xs b)) = xs"
  using drain_contents [OF fold_put_inv [OF assms(1)], of "length xs" xs] fold_put [OF assms(1)] assms by simp

end

subsection \<open>Arrays with wrapping indices\<close>

definition ring_list :: "nat \<Rightarrow> (nat \<Rightarrow> 'a) \<Rightarrow> nat \<Rightarrow> nat \<Rightarrow> 'a list" where
  "ring_list cap buf t n = map (\<lambda>i. buf ((t + i) mod cap)) [0..<n]"

definition ring_inv :: "nat \<Rightarrow> nat \<Rightarrow> nat \<Rightarrow> nat \<Rightarrow> bool" where
  "ring_inv cap h t n \<longleftrightarrow> 0 < cap \<and> t < cap \<and> n \<le> cap \<and> h = (t + n) mod cap"

lemma length_ring_list [simp]: "length (ring_list cap buf t n) = n"
  by (simp add: ring_list_def)

lemma ring_next: "0 < cap \<Longrightarrow> i < cap \<Longrightarrow> (if Suc i = cap then 0 else Suc i) = Suc i mod cap"
  by auto

lemma mod_add_less:
  assumes "i < j" "j < cap"
  shows "(t + i) mod cap \<noteq> (t + j) mod (cap :: nat)"
proof
  assume "(t + i) mod cap = (t + j) mod cap"
  then have "cap dvd (t + j) - (t + i)" using assms by (metis add_le_cancel_left less_imp_le mod_eq_dvd_iff_nat)
  then have "cap dvd j - i" by simp
  with assms show False by (auto dest!: dvd_imp_le)
qed

lemma mod_add_inj: "i < cap \<Longrightarrow> j < cap \<Longrightarrow> (t + i) mod cap = (t + j) mod cap \<Longrightarrow> i = (j :: nat)"
  using mod_add_less [of i j cap t] mod_add_less [of j i cap t] by (cases i j rule: linorder_cases) auto

lemma ring_put_list:
  assumes "ring_inv cap h t n" "n < cap"
  shows "ring_list cap (buf(h := x)) t (Suc n) = ring_list cap buf t n @ [x]"
    "ring_inv cap (Suc h mod cap) t (Suc n)"
proof -
  have "(buf(h := x)) ((t + i) mod cap) = buf ((t + i) mod cap)" if "i < n" for i
    using assms that mod_add_inj [of i cap n t] by (auto simp: ring_inv_def)
  with assms show "ring_list cap (buf(h := x)) t (Suc n) = ring_list cap buf t n @ [x]"
    by (simp add: ring_list_def ring_inv_def)
  from assms show "ring_inv cap (Suc h mod cap) t (Suc n)" by (simp add: ring_inv_def mod_Suc_eq)
qed

lemma ring_get_list:
  assumes "ring_inv cap h t (Suc n)"
  shows "ring_list cap buf t (Suc n) = buf t # ring_list cap buf (Suc t mod cap) n"
    "ring_inv cap h (Suc t mod cap) n"
proof -
  have "buf ((t + Suc i) mod cap) = buf ((Suc t mod cap + i) mod cap)" for i
    by (simp add: mod_add_left_eq)
  with assms show "ring_list cap buf t (Suc n) = buf t # ring_list cap buf (Suc t mod cap) n"
    by (simp add: ring_list_def ring_inv_def upt_conv_Cons map_Suc_upt [symmetric] del: upt_Suc)
  from assms show "ring_inv cap h (Suc t mod cap) n" by (auto simp: ring_inv_def mod_add_left_eq)
qed

end
