(* ===== verification/Ktypes.thy ===== *)
theory Ktypes
  imports Prelude
begin

section \<open>Constants and messages\<close>

text \<open>
  The constants of \<^verbatim>\<open>include/sys/const.h\<close>, \<^verbatim>\<open>include/sys/proc.h\<close> and
  \<^verbatim>\<open>include/stdio.h\<close> that the modelled code uses, under the names of the source, and the
  \<open>MESSAGE\<close> of \<^verbatim>\<open>include/type.h\<close>. Process numbers, message types and message
  fields are C \<open>int\<close>s; process flags are bit sets, modelled as 32-bit words.
\<close>

subsection \<open>Processes and tasks (proc.h, const.h)\<close>

abbreviation (input) NR_TASKS :: int where "NR_TASKS \<equiv> 5"
abbreviation (input) NR_PROCS :: int where "NR_PROCS \<equiv> 32"
abbreviation (input) NR_NATIVE_PROCS :: int where "NR_NATIVE_PROCS \<equiv> 4"

abbreviation (input) SENDING :: u32 where "SENDING \<equiv> 0x02"
abbreviation (input) RECEIVING :: u32 where "RECEIVING \<equiv> 0x04"
abbreviation (input) WAITING :: u32 where "WAITING \<equiv> 0x08"
abbreviation (input) HANGING :: u32 where "HANGING \<equiv> 0x10"
abbreviation (input) FREE_SLOT :: u32 where "FREE_SLOT \<equiv> 0x20"

abbreviation (input) INVALID_DRIVER :: int where "INVALID_DRIVER \<equiv> -20"
abbreviation (input) INTERRUPT :: int where "INTERRUPT \<equiv> -10"
abbreviation (input) TASK_TTY :: int where "TASK_TTY \<equiv> 0"
abbreviation (input) TASK_SYS :: int where "TASK_SYS \<equiv> 1"
abbreviation (input) TASK_HD :: int where "TASK_HD \<equiv> 2"
abbreviation (input) TASK_FS :: int where "TASK_FS \<equiv> 3"
abbreviation (input) TASK_MM :: int where "TASK_MM \<equiv> 4"
abbreviation (input) INIT :: int where "INIT \<equiv> 5"

text \<open>\<open>ANY\<close> is \<open>NR_TASKS + NR_PROCS + 10\<close>, \<open>NO_TASK\<close> is \<open>NR_TASKS + NR_PROCS + 20\<close>.\<close>

abbreviation (input) ANY :: int where "ANY \<equiv> 47"
abbreviation (input) NO_TASK :: int where "NO_TASK \<equiv> 57"

abbreviation (input) NR_FILES :: nat where "NR_FILES \<equiv> 64"
abbreviation (input) MAX_TICKS :: int where "MAX_TICKS \<equiv> 0x7fffabcd"

abbreviation (input) SEND :: int where "SEND \<equiv> 1"
abbreviation (input) RECEIVE :: int where "RECEIVE \<equiv> 2"
abbreviation (input) BOTH :: int where "BOTH \<equiv> 3"

lemma any_no_task: "ANY = NR_TASKS + NR_PROCS + 10" "NO_TASK = NR_TASKS + NR_PROCS + 20"
  by simp_all

subsection \<open>Message types (enum msgtype)\<close>

abbreviation (input) HARDWARE_INT :: int where "HARDWARE_INT \<equiv> 1"
abbreviation (input) GET_TICKS :: int where "GET_TICKS \<equiv> 2"
abbreviation (input) GET_PID :: int where "GET_PID \<equiv> 3"
abbreviation (input) GET_RTC_TIME :: int where "GET_RTC_TIME \<equiv> 4"
abbreviation (input) OPEN :: int where "OPEN \<equiv> 5"
abbreviation (input) CLOSE :: int where "CLOSE \<equiv> 6"
abbreviation (input) READ :: int where "READ \<equiv> 7"
abbreviation (input) WRITE :: int where "WRITE \<equiv> 8"
abbreviation (input) LSEEK :: int where "LSEEK \<equiv> 9"
abbreviation (input) STAT :: int where "STAT \<equiv> 10"
abbreviation (input) UNLINK :: int where "UNLINK \<equiv> 11"
abbreviation (input) SUSPEND_PROC :: int where "SUSPEND_PROC \<equiv> 12"
abbreviation (input) RESUME_PROC :: int where "RESUME_PROC \<equiv> 13"
abbreviation (input) EXEC :: int where "EXEC \<equiv> 14"
abbreviation (input) WAIT :: int where "WAIT \<equiv> 15"
abbreviation (input) FORK :: int where "FORK \<equiv> 16"
abbreviation (input) EXIT :: int where "EXIT \<equiv> 17"
abbreviation (input) SYSCALL_RET :: int where "SYSCALL_RET \<equiv> 18"
abbreviation (input) DEV_OPEN :: int where "DEV_OPEN \<equiv> 1001"
abbreviation (input) DEV_CLOSE :: int where "DEV_CLOSE \<equiv> 1002"
abbreviation (input) DEV_READ :: int where "DEV_READ \<equiv> 1003"
abbreviation (input) DEV_WRITE :: int where "DEV_WRITE \<equiv> 1004"
abbreviation (input) DEV_IOCTL :: int where "DEV_IOCTL \<equiv> 1005"
abbreviation (input) DISK_LOG :: int where "DISK_LOG \<equiv> 1006"

subsection \<open>Messages (type.h)\<close>

text \<open>
  \<open>MESSAGE\<close> ends in a union of three structs. The macros of \<^verbatim>\<open>const.h\<close>
  (\<open>FD\<close>, \<open>CNT\<close>, \<open>BUF\<close>, \<dots>) all go through its largest member \<open>m3\<close>, and no code
  names the other two, so the model keeps the fields of \<open>m3\<close>. Pointers are 32-bit
  addresses.
\<close>

record MESSAGE =
  source :: int
  mtype :: int
  m3i1 :: int
  m3i2 :: int
  m3i3 :: int
  m3i4 :: int
  m3l1 :: u64
  m3l2 :: u64
  m3p1 :: u32
  m3p2 :: u32

text \<open>The message \<open>reset_msg()\<close> leaves: every byte zero.\<close>

definition zero_msg :: MESSAGE where
  "zero_msg = \<lparr>source = 0, mtype = 0, m3i1 = 0, m3i2 = 0, m3i3 = 0, m3i4 = 0,
     m3l1 = 0, m3l2 = 0, m3p1 = 0, m3p2 = 0\<rparr>"

end
