(* ===== verification/Keyboard.thy ===== *)
theory Keyboard
  imports Ring Ktypes
begin

section \<open>The keyboard driver (kernel/keyboard.c)\<close>

text \<open>
  The scan-code buffer, the keymap and the decoder. Pointers into \<open>kb_in.buf\<close> are indices.
  The key codes of \<^verbatim>\<open>include/sys/keyboard.h\<close> keep their names. What the hardware does is
  part of the state: \<open>arrivals\<close> are the scan codes whose interrupts come in while
  \<open>get_byte_from_kbuf()\<close> waits on an empty buffer, \<open>kb_status\<close> and \<open>kb_replies\<close> the bytes the
  controller's two ports return, \<open>kb_outs\<close> the bytes written to it. A routine that waits
  for a byte that never comes is a \<^const>\<open>Hang\<close>.

  The decoder passes every key to \<open>in_process()\<close>, a parameter here that the theory of the
  terminals instantiates. The variable \<open>make\<close> of \<open>keyboard_read()\<close> has no initial value in
  the source: it is an argument.
\<close>

subsection \<open>Key codes and the keymap\<close>

abbreviation (input) ESC :: u32 where "ESC \<equiv> 0x101"
abbreviation (input) TAB :: u32 where "TAB \<equiv> 0x102"
abbreviation (input) ENTER :: u32 where "ENTER \<equiv> 0x103"
abbreviation (input) BACKSPACE :: u32 where "BACKSPACE \<equiv> 0x104"
abbreviation (input) GUI_L :: u32 where "GUI_L \<equiv> 0x105"
abbreviation (input) GUI_R :: u32 where "GUI_R \<equiv> 0x106"
abbreviation (input) APPS :: u32 where "APPS \<equiv> 0x107"
abbreviation (input) SHIFT_L :: u32 where "SHIFT_L \<equiv> 0x108"
abbreviation (input) SHIFT_R :: u32 where "SHIFT_R \<equiv> 0x109"
abbreviation (input) CTRL_L :: u32 where "CTRL_L \<equiv> 0x10a"
abbreviation (input) CTRL_R :: u32 where "CTRL_R \<equiv> 0x10b"
abbreviation (input) ALT_L :: u32 where "ALT_L \<equiv> 0x10c"
abbreviation (input) ALT_R :: u32 where "ALT_R \<equiv> 0x10d"
abbreviation (input) CAPS_LOCK :: u32 where "CAPS_LOCK \<equiv> 0x10e"
abbreviation (input) NUM_LOCK :: u32 where "NUM_LOCK \<equiv> 0x10f"
abbreviation (input) SCROLL_LOCK :: u32 where "SCROLL_LOCK \<equiv> 0x110"
abbreviation (input) F1 :: u32 where "F1 \<equiv> 0x111"
abbreviation (input) F2 :: u32 where "F2 \<equiv> 0x112"
abbreviation (input) F3 :: u32 where "F3 \<equiv> 0x113"
abbreviation (input) F4 :: u32 where "F4 \<equiv> 0x114"
abbreviation (input) F5 :: u32 where "F5 \<equiv> 0x115"
abbreviation (input) F6 :: u32 where "F6 \<equiv> 0x116"
abbreviation (input) F7 :: u32 where "F7 \<equiv> 0x117"
abbreviation (input) F8 :: u32 where "F8 \<equiv> 0x118"
abbreviation (input) F9 :: u32 where "F9 \<equiv> 0x119"
abbreviation (input) F10 :: u32 where "F10 \<equiv> 0x11a"
abbreviation (input) F11 :: u32 where "F11 \<equiv> 0x11b"
abbreviation (input) F12 :: u32 where "F12 \<equiv> 0x11c"
abbreviation (input) PRINTSCREEN :: u32 where "PRINTSCREEN \<equiv> 0x11d"
abbreviation (input) PAUSEBREAK :: u32 where "PAUSEBREAK \<equiv> 0x11e"
abbreviation (input) INSERT :: u32 where "INSERT \<equiv> 0x11f"
abbreviation (input) DELETE :: u32 where "DELETE \<equiv> 0x120"
abbreviation (input) HOME :: u32 where "HOME \<equiv> 0x121"
abbreviation (input) END :: u32 where "END \<equiv> 0x122"
abbreviation (input) PAGEUP :: u32 where "PAGEUP \<equiv> 0x123"
abbreviation (input) PAGEDOWN :: u32 where "PAGEDOWN \<equiv> 0x124"
abbreviation (input) UP :: u32 where "UP \<equiv> 0x125"
abbreviation (input) DOWN :: u32 where "DOWN \<equiv> 0x126"
abbreviation (input) LEFT :: u32 where "LEFT \<equiv> 0x127"
abbreviation (input) RIGHT :: u32 where "RIGHT \<equiv> 0x128"
abbreviation (input) POWER :: u32 where "POWER \<equiv> 0x129"
abbreviation (input) SLEEP :: u32 where "SLEEP \<equiv> 0x12a"
abbreviation (input) WAKE :: u32 where "WAKE \<equiv> 0x12b"
abbreviation (input) PAD_SLASH :: u32 where "PAD_SLASH \<equiv> 0x12c"
abbreviation (input) PAD_STAR :: u32 where "PAD_STAR \<equiv> 0x12d"
abbreviation (input) PAD_MINUS :: u32 where "PAD_MINUS \<equiv> 0x12e"
abbreviation (input) PAD_PLUS :: u32 where "PAD_PLUS \<equiv> 0x12f"
abbreviation (input) PAD_ENTER :: u32 where "PAD_ENTER \<equiv> 0x130"
abbreviation (input) PAD_DEL :: u32 where "PAD_DEL \<equiv> 0x131"
abbreviation (input) PAD_DOT :: u32 where "PAD_DOT \<equiv> 0x131"
abbreviation (input) PAD_0 :: u32 where "PAD_0 \<equiv> 0x132"
abbreviation (input) PAD_INS :: u32 where "PAD_INS \<equiv> 0x132"
abbreviation (input) PAD_1 :: u32 where "PAD_1 \<equiv> 0x133"
abbreviation (input) PAD_END :: u32 where "PAD_END \<equiv> 0x133"
abbreviation (input) PAD_2 :: u32 where "PAD_2 \<equiv> 0x134"
abbreviation (input) PAD_DOWN :: u32 where "PAD_DOWN \<equiv> 0x134"
abbreviation (input) PAD_3 :: u32 where "PAD_3 \<equiv> 0x135"
abbreviation (input) PAD_PAGEDOWN :: u32 where "PAD_PAGEDOWN \<equiv> 0x135"
abbreviation (input) PAD_4 :: u32 where "PAD_4 \<equiv> 0x136"
abbreviation (input) PAD_LEFT :: u32 where "PAD_LEFT \<equiv> 0x136"
abbreviation (input) PAD_5 :: u32 where "PAD_5 \<equiv> 0x137"
abbreviation (input) PAD_MID :: u32 where "PAD_MID \<equiv> 0x137"
abbreviation (input) PAD_RIGHT :: u32 where "PAD_RIGHT \<equiv> 0x137"
abbreviation (input) PAD_6 :: u32 where "PAD_6 \<equiv> 0x138"
abbreviation (input) PAD_7 :: u32 where "PAD_7 \<equiv> 0x139"
abbreviation (input) PAD_HOME :: u32 where "PAD_HOME \<equiv> 0x139"
abbreviation (input) PAD_8 :: u32 where "PAD_8 \<equiv> 0x13a"
abbreviation (input) PAD_UP :: u32 where "PAD_UP \<equiv> 0x13a"
abbreviation (input) PAD_9 :: u32 where "PAD_9 \<equiv> 0x13b"
abbreviation (input) PAD_PAGEUP :: u32 where "PAD_PAGEUP \<equiv> 0x13b"
abbreviation (input) FLAG_BREAK :: u32 where "FLAG_BREAK \<equiv> 0x0080"
abbreviation (input) FLAG_EXT :: u32 where "FLAG_EXT \<equiv> 0x0100"
abbreviation (input) FLAG_SHIFT_L :: u32 where "FLAG_SHIFT_L \<equiv> 0x0200"
abbreviation (input) FLAG_SHIFT_R :: u32 where "FLAG_SHIFT_R \<equiv> 0x0400"
abbreviation (input) FLAG_CTRL_L :: u32 where "FLAG_CTRL_L \<equiv> 0x0800"
abbreviation (input) FLAG_CTRL_R :: u32 where "FLAG_CTRL_R \<equiv> 0x1000"
abbreviation (input) FLAG_ALT_L :: u32 where "FLAG_ALT_L \<equiv> 0x2000"
abbreviation (input) FLAG_ALT_R :: u32 where "FLAG_ALT_R \<equiv> 0x4000"
abbreviation (input) FLAG_PAD :: u32 where "FLAG_PAD \<equiv> 0x8000"
abbreviation (input) MASK_RAW :: u32 where "MASK_RAW \<equiv> 0x01ff"
abbreviation (input) ck :: "char \<Rightarrow> u32" where "ck c \<equiv> of_char c"
abbreviation (input) KB_IN_BYTES :: nat where "KB_IN_BYTES \<equiv> 32"
abbreviation (input) LED_CODE :: u8 where "LED_CODE \<equiv> 0xed"
abbreviation (input) KB_ACK :: u8 where "KB_ACK \<equiv> 0xfa"

text \<open>One row per scan code: without shift, with shift, after \<open>0xE0\<close>.\<close>

definition keymap :: "(u32 \<times> u32 \<times> u32) list" where
  "keymap = [
     (0, 0, 0),
     (ESC, ESC, 0),
     (ck (CHR ''1''), ck (CHR ''!''), 0),
     (ck (CHR ''2''), ck (CHR ''@''), 0),
     (ck (CHR ''3''), ck (CHR ''#''), 0),
     (ck (CHR ''4''), ck (CHR ''$''), 0),
     (ck (CHR ''5''), ck (CHR ''%''), 0),
     (ck (CHR ''6''), ck (CHR ''^''), 0),
     (ck (CHR ''7''), ck (CHR ''&''), 0),
     (ck (CHR ''8''), ck (CHR ''*''), 0),
     (ck (CHR ''9''), ck (CHR ''(''), 0),
     (ck (CHR ''0''), ck (CHR '')''), 0),
     (ck (CHR ''-''), ck (CHR ''_''), 0),
     (ck (CHR ''=''), ck (CHR ''+''), 0),
     (BACKSPACE, BACKSPACE, 0),
     (TAB, TAB, 0),
     (ck (CHR ''q''), ck (CHR ''Q''), 0),
     (ck (CHR ''w''), ck (CHR ''W''), 0),
     (ck (CHR ''e''), ck (CHR ''E''), 0),
     (ck (CHR ''r''), ck (CHR ''R''), 0),
     (ck (CHR ''t''), ck (CHR ''T''), 0),
     (ck (CHR ''y''), ck (CHR ''Y''), 0),
     (ck (CHR ''u''), ck (CHR ''U''), 0),
     (ck (CHR ''i''), ck (CHR ''I''), 0),
     (ck (CHR ''o''), ck (CHR ''O''), 0),
     (ck (CHR ''p''), ck (CHR ''P''), 0),
     (ck (CHR ''[''), ck (CHR ''{''), 0),
     (ck (CHR '']''), ck (CHR ''}''), 0),
     (ENTER, ENTER, PAD_ENTER),
     (CTRL_L, CTRL_L, CTRL_R),
     (ck (CHR ''a''), ck (CHR ''A''), 0),
     (ck (CHR ''s''), ck (CHR ''S''), 0),
     (ck (CHR ''d''), ck (CHR ''D''), 0),
     (ck (CHR ''f''), ck (CHR ''F''), 0),
     (ck (CHR ''g''), ck (CHR ''G''), 0),
     (ck (CHR ''h''), ck (CHR ''H''), 0),
     (ck (CHR ''j''), ck (CHR ''J''), 0),
     (ck (CHR ''k''), ck (CHR ''K''), 0),
     (ck (CHR ''l''), ck (CHR ''L''), 0),
     (ck (CHR '';''), ck (CHR '':''), 0),
     (ck (CHR 0x27), ck (CHR 0x22), 0),
     (ck (CHR 0x60), ck (CHR ''~''), 0),
     (SHIFT_L, SHIFT_L, 0),
     (ck (CHR 0x5C), ck (CHR ''|''), 0),
     (ck (CHR ''z''), ck (CHR ''Z''), 0),
     (ck (CHR ''x''), ck (CHR ''X''), 0),
     (ck (CHR ''c''), ck (CHR ''C''), 0),
     (ck (CHR ''v''), ck (CHR ''V''), 0),
     (ck (CHR ''b''), ck (CHR ''B''), 0),
     (ck (CHR ''n''), ck (CHR ''N''), 0),
     (ck (CHR ''m''), ck (CHR ''M''), 0),
     (ck (CHR '',''), ck (CHR ''<''), 0),
     (ck (CHR ''.''), ck (CHR ''>''), 0),
     (ck (CHR ''/''), ck (CHR ''?''), PAD_SLASH),
     (SHIFT_R, SHIFT_R, 0),
     (ck (CHR ''*''), ck (CHR ''*''), 0),
     (ALT_L, ALT_L, ALT_R),
     (ck (CHR '' ''), ck (CHR '' ''), 0),
     (CAPS_LOCK, CAPS_LOCK, 0),
     (F1, F1, 0),
     (F2, F2, 0),
     (F3, F3, 0),
     (F4, F4, 0),
     (F5, F5, 0),
     (F6, F6, 0),
     (F7, F7, 0),
     (F8, F8, 0),
     (F9, F9, 0),
     (F10, F10, 0),
     (NUM_LOCK, NUM_LOCK, 0),
     (SCROLL_LOCK, SCROLL_LOCK, 0),
     (PAD_HOME, ck (CHR ''7''), HOME),
     (PAD_UP, ck (CHR ''8''), UP),
     (PAD_PAGEUP, ck (CHR ''9''), PAGEUP),
     (PAD_MINUS, ck (CHR ''-''), 0),
     (PAD_LEFT, ck (CHR ''4''), LEFT),
     (PAD_MID, ck (CHR ''5''), 0),
     (PAD_RIGHT, ck (CHR ''6''), RIGHT),
     (PAD_PLUS, ck (CHR ''+''), 0),
     (PAD_END, ck (CHR ''1''), END),
     (PAD_DOWN, ck (CHR ''2''), DOWN),
     (PAD_PAGEDOWN, ck (CHR ''3''), PAGEDOWN),
     (PAD_INS, ck (CHR ''0''), INSERT),
     (PAD_DOT, ck (CHR ''.''), DELETE),
     (0, 0, 0),
     (0, 0, 0),
     (0, 0, 0),
     (F11, F11, 0),
     (F12, F12, 0),
     (0, 0, 0),
     (0, 0, 0),
     (0, 0, GUI_L),
     (0, 0, GUI_R),
     (0, 0, APPS),
     (0, 0, 0),
     (0, 0, 0),
     (0, 0, 0),
     (0, 0, 0),
     (0, 0, 0),
     (0, 0, 0),
     (0, 0, 0),
     (0, 0, 0),
     (0, 0, 0),
     (0, 0, 0),
     (0, 0, 0),
     (0, 0, 0),
     (0, 0, 0),
     (0, 0, 0),
     (0, 0, 0),
     (0, 0, 0),
     (0, 0, 0),
     (0, 0, 0),
     (0, 0, 0),
     (0, 0, 0),
     (0, 0, 0),
     (0, 0, 0),
     (0, 0, 0),
     (0, 0, 0),
     (0, 0, 0),
     (0, 0, 0),
     (0, 0, 0),
     (0, 0, 0),
     (0, 0, 0),
     (0, 0, 0),
     (0, 0, 0),
     (0, 0, 0),
     (0, 0, 0),
     (0, 0, 0)]"

subsection \<open>The scan-code buffer\<close>

record KB_INPUT =
  kb_head :: nat
  kb_tail :: nat
  kb_count :: int
  kb_buf :: "nat \<Rightarrow> u8"

record kbd =
  kb_in :: KB_INPUT
  code_with_e0 :: bool
  shift_l :: bool
  shift_r :: bool
  alt_l :: bool
  alt_r :: bool
  ctrl_l :: bool
  ctrl_r :: bool
  caps_lock :: bool
  num_lock :: bool
  scroll_lock :: bool
  column :: nat
  kb_key_pressed :: int
  arrivals :: "u8 list"
  kb_status :: "u8 list"
  kb_replies :: "u8 list"
  kb_outs :: "u8 list"

definition kb_put :: "u8 \<Rightarrow> KB_INPUT \<Rightarrow> KB_INPUT" where
  "kb_put scan_code b =
     (if kb_count b < int KB_IN_BYTES then
        b\<lparr>kb_buf := (kb_buf b)(kb_head b := scan_code),
          kb_head := (if Suc (kb_head b) = KB_IN_BYTES then 0 else Suc (kb_head b)),
          kb_count := kb_count b + 1\<rparr>
      else b)"

definition kb_get :: "KB_INPUT \<Rightarrow> u8 \<times> KB_INPUT" where
  "kb_get b =
     (kb_buf b (kb_tail b),
      b\<lparr>kb_tail := (if Suc (kb_tail b) = KB_IN_BYTES then 0 else Suc (kb_tail b)),
        kb_count := kb_count b - 1\<rparr>)"

text \<open>\<open>scan_code\<close> is what \<open>in_byte (KB_DATA)\<close> returns.\<close>

definition keyboard_handler :: "u8 \<Rightarrow> kbd \<Rightarrow> kbd" where
  "keyboard_handler scan_code k = k\<lparr>kb_in := kb_put scan_code (kb_in k), kb_key_pressed := 1\<rparr>"

text \<open>\<open>while (kb_in.count <= 0) {}\<close>: interrupts keep coming in while the routine waits.\<close>

fun wait_scan :: "u8 list \<Rightarrow> kbd \<Rightarrow> kbd res" where
  "wait_scan [] k =
     (if kb_count (kb_in k) > 0 then Inr (k\<lparr>arrivals := []\<rparr>) else Inl (Hang ''get_byte_from_kbuf''))"
| "wait_scan (a # as) k =
     (if kb_count (kb_in k) > 0 then Inr (k\<lparr>arrivals := a # as\<rparr>)
      else wait_scan as (keyboard_handler a k))"

definition get_byte_from_kbuf :: "kbd \<Rightarrow> (u8 \<times> kbd) res" where
  "get_byte_from_kbuf k =
     bindE (wait_scan (arrivals k) k) (\<lambda>k1.
       let (c, b) = kb_get (kb_in k1) in Inr (c, k1\<lparr>kb_in := b\<rparr>))"

subsection \<open>The lights\<close>

fun kb_wait :: "u8 list \<Rightarrow> kbd \<Rightarrow> kbd res" where
  "kb_wait [] k = Inl (Hang ''kb_wait'')"
| "kb_wait (kb_stat # rest) k =
     (if kb_stat AND 0x02 \<noteq> 0 then kb_wait rest k else Inr (k\<lparr>kb_status := rest\<rparr>))"

fun kb_ack :: "u8 list \<Rightarrow> kbd \<Rightarrow> kbd res" where
  "kb_ack [] k = Inl (Hang ''kb_ack'')"
| "kb_ack (kb_read # rest) k =
     (if kb_read \<noteq> KB_ACK then kb_ack rest k else Inr (k\<lparr>kb_replies := rest\<rparr>))"

definition kb_send :: "u8 \<Rightarrow> kbd \<Rightarrow> kbd res" where
  "kb_send b k =
     bindE (kb_wait (kb_status k) k) (\<lambda>k1.
       let k2 = k1\<lparr>kb_outs := kb_outs k1 @ [b]\<rparr> in kb_ack (kb_replies k2) k2)"

definition leds :: "kbd \<Rightarrow> u8" where
  "leds k = push_bit 2 (of_bool (caps_lock k)) OR push_bit 1 (of_bool (num_lock k)) OR
     of_bool (scroll_lock k)"

definition set_leds :: "kbd \<Rightarrow> kbd res" where
  "set_leds k = (let l = leds k in bindE (kb_send LED_CODE k) (kb_send l))"

text \<open>\<open>init_keyboard()\<close>, but for the two calls that install its interrupt handler.\<close>

definition init_keyboard :: "kbd \<Rightarrow> kbd res" where
  "init_keyboard k =
     set_leds (k\<lparr>kb_in := (kb_in k)\<lparr>kb_count := 0, kb_head := 0, kb_tail := 0\<rparr>,
       code_with_e0 := False, shift_l := False, shift_r := False, alt_l := False,
       alt_r := False, ctrl_l := False, ctrl_r := False, caps_lock := False,
       num_lock := True, scroll_lock := False, column := 0\<rparr>)"

subsection \<open>The decoder\<close>

fun match_bytes :: "u8 list \<Rightarrow> kbd \<Rightarrow> (bool \<times> kbd) res" where
  "match_bytes [] k = Inr (True, k)"
| "match_bytes (b # bs) k =
     bindE (get_byte_from_kbuf k) (\<lambda>(c, k1). if c \<noteq> b then Inr (False, k1) else match_bytes bs k1)"

text \<open>
  The two PrintScreen sequences. In \<open>if (scan_code = get_byte_from_kbuf() == 0xe0)\<close> the
  comparison binds first: \<open>scan_code\<close> becomes 1 or 0.
\<close>

definition printscreen :: "u8 \<Rightarrow> bool \<Rightarrow> u32 \<Rightarrow> bool \<Rightarrow> kbd \<Rightarrow> (u8 \<times> u32 \<times> bool \<times> kbd) res" where
  "printscreen second mk key is_make k =
     bindE (get_byte_from_kbuf (k\<lparr>code_with_e0 := False\<rparr>)) (\<lambda>(c, k1).
       if c = 0xe0 then
         bindE (get_byte_from_kbuf (k1\<lparr>code_with_e0 := True\<rparr>)) (\<lambda>(d, k2).
           if d = second then Inr (1, PRINTSCREEN, mk, k2) else Inr (0, key, is_make, k2))
       else Inr (0, key, is_make, k1))"

text \<open>Lines 92 to 147: returns \<open>scan_code\<close>, \<open>key\<close> and \<open>make\<close>.\<close>

definition parse_scan :: "u32 \<Rightarrow> bool \<Rightarrow> kbd \<Rightarrow> (u8 \<times> u32 \<times> bool \<times> kbd) res" where
  "parse_scan key is_make k =
     bindE (get_byte_from_kbuf (k\<lparr>code_with_e0 := False\<rparr>)) (\<lambda>(c, k1).
       if c = 0xe1 then
         bindE (match_bytes [0x1d, 0x45, 0xe1, 0x9d, 0xc5] k1) (\<lambda>(ok, k2).
           Inr (c, if ok then PAUSEBREAK else key, is_make, k2))
       else if c = 0xe0 then
         bindE (get_byte_from_kbuf (k1\<lparr>code_with_e0 := True\<rparr>)) (\<lambda>(d, k2).
           if d = 0x2a then printscreen 0x37 True key is_make k2
           else if d = 0xb7 then printscreen 0xaa False key is_make k2
           else Inr (d, key, is_make, k2))
       else Inr (c, key, is_make, k1))"

definition row_col :: "u32 \<times> u32 \<times> u32 \<Rightarrow> nat \<Rightarrow> u32" where
  "row_col r c = (case r of (a, b, e) \<Rightarrow> if c = 0 then a else if c = 1 then b else e)"

definition key_column :: "u8 \<Rightarrow> kbd \<Rightarrow> nat" where
  "key_column scan_code k =
     (let keyrow = keymap ! unat (scan_code AND 0x7f);
          shift = shift_l k \<or> shift_r k;
          caps = (if caps_lock k \<and> ck (CHR ''a'') \<le> row_col keyrow 0 \<and> row_col keyrow 0 \<le> ck (CHR ''z'')
                  then \<not> shift else shift)
      in if code_with_e0 k then 2 else if caps then 1 else 0)"

text \<open>The switch on the modifier and lock keys.\<close>

definition apply_modifier :: "u32 \<Rightarrow> bool \<Rightarrow> kbd \<Rightarrow> kbd res" where
  "apply_modifier key is_make k =
     (if key = SHIFT_L then Inr (k\<lparr>shift_l := is_make\<rparr>)
      else if key = SHIFT_R then Inr (k\<lparr>shift_r := is_make\<rparr>)
      else if key = CTRL_L then Inr (k\<lparr>ctrl_l := is_make\<rparr>)
      else if key = CTRL_R then Inr (k\<lparr>ctrl_r := is_make\<rparr>)
      else if key = ALT_L then Inr (k\<lparr>alt_l := is_make\<rparr>)
      else if key = ALT_R then Inr (k\<lparr>alt_r := is_make\<rparr>)
      else if key = CAPS_LOCK \<and> is_make then set_leds (k\<lparr>caps_lock := \<not> caps_lock k\<rparr>)
      else if key = NUM_LOCK \<and> is_make then set_leds (k\<lparr>num_lock := \<not> num_lock k\<rparr>)
      else if key = SCROLL_LOCK \<and> is_make then set_leds (k\<lparr>scroll_lock := \<not> scroll_lock k\<rparr>)
      else Inr k)"

text \<open>Lines 149 to 220.\<close>

definition translate :: "u8 \<Rightarrow> u32 \<Rightarrow> bool \<Rightarrow> kbd \<Rightarrow> (u32 \<times> bool \<times> kbd) res" where
  "translate scan_code key is_make k =
     (if key \<noteq> PAUSEBREAK \<and> key \<noteq> PRINTSCREEN then
        let mk = (scan_code AND 0x80 = 0);
            col = key_column scan_code k;
            key' = row_col (keymap ! unat (scan_code AND 0x7f)) col
        in bindE (apply_modifier key' mk (k\<lparr>column := col\<rparr>)) (\<lambda>k1. Inr (key', mk, k1))
      else Inr (key, is_make, k))"

text \<open>Lines 226 to 294: the number pad.\<close>

definition pad_key :: "bool \<Rightarrow> u32 \<Rightarrow> u32" where
  "pad_key numlock key =
     (if key = PAD_SLASH then ck (CHR ''/'')
      else if key = PAD_STAR then ck (CHR ''*'')
      else if key = PAD_MINUS then ck (CHR ''-'')
      else if key = PAD_PLUS then ck (CHR ''+'')
      else if key = PAD_ENTER then ENTER
      else if numlock then
        if PAD_0 \<le> key \<and> key \<le> PAD_9 then key - PAD_0 + ck (CHR ''0'')
        else if key = PAD_DOT then ck (CHR ''.'') else key
      else if key = PAD_HOME then HOME
      else if key = PAD_END then END
      else if key = PAD_PAGEUP then PAGEUP
      else if key = PAD_PAGEDOWN then PAGEDOWN
      else if key = PAD_INS then INSERT
      else if key = PAD_UP then UP
      else if key = PAD_DOWN then DOWN
      else if key = PAD_LEFT then LEFT
      else if key = PAD_RIGHT then RIGHT
      else if key = PAD_DOT then DELETE
      else key)"

definition key_flags :: "bool \<Rightarrow> kbd \<Rightarrow> u32" where
  "key_flags pad k =
     (if shift_l k then FLAG_SHIFT_L else 0) OR (if shift_r k then FLAG_SHIFT_R else 0) OR
     (if ctrl_l k then FLAG_CTRL_L else 0) OR (if ctrl_r k then FLAG_CTRL_R else 0) OR
     (if alt_l k then FLAG_ALT_L else 0) OR (if alt_r k then FLAG_ALT_R else 0) OR
     (if pad then FLAG_PAD else 0)"

definition emit_key :: "u32 \<Rightarrow> kbd \<Rightarrow> u32" where
  "emit_key key k =
     (if PAD_SLASH \<le> key \<and> key \<le> PAD_9 then pad_key (num_lock k) key OR key_flags True k
      else key OR key_flags False k)"

text \<open>
  The loop of \<open>keyboard_read()\<close>. Every round takes a byte out of the buffer, so the bytes in
  the buffer and those still to come bound the rounds.
\<close>

fun keyboard_loop :: "(u32 \<Rightarrow> 't \<Rightarrow> 't res) \<Rightarrow> nat \<Rightarrow> u32 \<Rightarrow> bool \<Rightarrow> kbd \<Rightarrow> 't \<Rightarrow> (kbd \<times> 't) res" where
  "keyboard_loop in_process 0 key is_make k t =
     (if kb_count (kb_in k) > 0 then Inl (Hang ''keyboard_read'') else Inr (k, t))"
| "keyboard_loop in_process (Suc n) key is_make k t =
     (if kb_count (kb_in k) > 0 then
        bindE (parse_scan key is_make k) (\<lambda>(scan_code, key1, make1, k1).
        bindE (translate scan_code key1 make1 k1) (\<lambda>(key2, make2, k2).
          if make2 then
            let key3 = emit_key key2 k2
            in bindE (in_process key3 t) (\<lambda>t'. keyboard_loop in_process n key3 make2 k2 t')
          else keyboard_loop in_process n key2 make2 k2 t))
      else Inr (k, t))"

definition keyboard_read :: "(u32 \<Rightarrow> 't \<Rightarrow> 't res) \<Rightarrow> bool \<Rightarrow> kbd \<Rightarrow> 't \<Rightarrow> (kbd \<times> 't) res" where
  "keyboard_read in_process is_make k t =
     keyboard_loop in_process (nat (kb_count (kb_in k)) + length (arrivals k)) 0 is_make k t"

subsection \<open>The buffer is a bounded queue\<close>

definition kb_inv :: "KB_INPUT \<Rightarrow> bool" where
  "kb_inv b \<longleftrightarrow> 0 \<le> kb_count b \<and> ring_inv KB_IN_BYTES (kb_head b) (kb_tail b) (nat (kb_count b))"

definition kb_contents :: "KB_INPUT \<Rightarrow> u8 list" where
  "kb_contents b = ring_list KB_IN_BYTES (kb_buf b) (kb_tail b) (nat (kb_count b))"

lemma length_kb_contents [simp]: "length (kb_contents b) = nat (kb_count b)"
  by (simp add: kb_contents_def)

lemma kb_contents_empty: "kb_contents b = [] \<longleftrightarrow> kb_count b \<le> 0"
  using length_kb_contents [of b] by (auto simp flip: length_0_conv)

lemma kb_put_spec:
  assumes "kb_inv b" "kb_count b < 32"
  shows "kb_inv (kb_put x b)" "kb_contents (kb_put x b) = kb_contents b @ [x]"
proof -
  have r: "ring_inv 32 (kb_head b) (kb_tail b) (nat (kb_count b))" and c: "0 \<le> kb_count b"
    using assms(1) by (auto simp: kb_inv_def)
  have n: "nat (kb_count b) < 32" "nat (kb_count b + 1) = Suc (nat (kb_count b))" using assms(2) c by auto
  have h: "(if Suc (kb_head b) = 32 then 0 else Suc (kb_head b)) = Suc (kb_head b) mod 32"
    using r by (intro ring_next) (auto simp: ring_inv_def)
  show "kb_inv (kb_put x b)"
    using ring_put_list(2) [OF r n(1)] assms(2) c n(2) unfolding kb_inv_def kb_put_def h by simp
  show "kb_contents (kb_put x b) = kb_contents b @ [x]"
    using ring_put_list(1) [OF r n(1), of "kb_buf b" x] assms(2) n(2)
    unfolding kb_contents_def kb_put_def h by simp
qed

lemma kb_get_spec:
  assumes "kb_inv b" "kb_count b > 0"
  shows "kb_contents b = fst (kb_get b) # kb_contents (snd (kb_get b))" "kb_inv (snd (kb_get b))"
proof -
  define n where "n = nat (kb_count b - 1)"
  have n: "nat (kb_count b) = Suc n" using assms(2) by (simp add: n_def)
  have r: "ring_inv 32 (kb_head b) (kb_tail b) (Suc n)" using assms(1) n by (simp add: kb_inv_def)
  have t: "(if Suc (kb_tail b) = 32 then 0 else Suc (kb_tail b)) = Suc (kb_tail b) mod 32"
    using r by (intro ring_next) (auto simp: ring_inv_def)
  show "kb_contents b = fst (kb_get b) # kb_contents (snd (kb_get b))"
    using ring_get_list(1) [OF r, of "kb_buf b"] unfolding kb_contents_def kb_get_def t n by (simp add: n_def)
  show "kb_inv (snd (kb_get b))"
    using ring_get_list(2) [OF r] assms(2) unfolding kb_inv_def kb_get_def t by (simp add: n_def)
qed

interpretation kb_fifo: bounded_fifo KB_IN_BYTES kb_inv kb_contents kb_put kb_get
proof
  fix b x assume b: "kb_inv b"
  show "length (kb_contents b) \<le> 32" using b by (auto simp: kb_inv_def ring_inv_def)
  show "kb_inv (kb_put x b)" using kb_put_spec [OF b] b by (cases "kb_count b < 32") (auto simp: kb_put_def)
  show "kb_contents (kb_put x b) = kb_contents b @ [x]" if "length (kb_contents b) < 32"
    using kb_put_spec [OF b] that by auto
  show "kb_contents (kb_put x b) = kb_contents b" if "length (kb_contents b) = 32"
    using that by (auto simp: kb_put_def)
  assume "kb_contents b \<noteq> []"
  then have "kb_count b > 0" by (simp add: kb_contents_empty)
  note g = kb_get_spec [OF b this]
  show "fst (kb_get b) = hd (kb_contents b)" "kb_contents (snd (kb_get b)) = tl (kb_contents b)"
    "kb_inv (snd (kb_get b))" using g(2) by (simp_all add: g(1))
qed

subsection \<open>Reading bytes\<close>

text \<open>The scan codes the decoder will see: those in the buffer, then those that still arrive.\<close>

definition pending :: "kbd \<Rightarrow> u8 list" where
  "pending k = kb_contents (kb_in k) @ arrivals k"

text \<open>Reading bytes leaves the decoder's own variables alone.\<close>

definition buf_frame :: "kbd \<Rightarrow> kbd \<Rightarrow> bool" where
  "buf_frame k k' \<longleftrightarrow> code_with_e0 k' = code_with_e0 k \<and> shift_l k' = shift_l k \<and> shift_r k' = shift_r k \<and>
     alt_l k' = alt_l k \<and> alt_r k' = alt_r k \<and> ctrl_l k' = ctrl_l k \<and> ctrl_r k' = ctrl_r k \<and>
     caps_lock k' = caps_lock k \<and> num_lock k' = num_lock k \<and> scroll_lock k' = scroll_lock k \<and>
     column k' = column k \<and> kb_status k' = kb_status k \<and> kb_replies k' = kb_replies k \<and> kb_outs k' = kb_outs k"

lemma buf_frame_refl [simp]: "buf_frame k k"
  by (simp add: buf_frame_def)

lemma buf_frame_trans: "buf_frame k k1 \<Longrightarrow> buf_frame k1 k2 \<Longrightarrow> buf_frame k k2"
  by (simp add: buf_frame_def)

lemma wait_scan_spec:
  assumes "kb_inv (kb_in k)"
  shows "case kb_contents (kb_in k) @ as of
      [] \<Rightarrow> wait_scan as k = Inl (Hang ''get_byte_from_kbuf'')
    | _ \<Rightarrow> \<exists>k'. wait_scan as k = Inr k' \<and> kb_inv (kb_in k') \<and> kb_count (kb_in k') > 0 \<and>
        pending k' = kb_contents (kb_in k) @ as \<and> buf_frame k k'"
proof (cases "kb_count (kb_in k) > 0")
  case True
  then have "kb_contents (kb_in k) \<noteq> []" by (simp add: kb_contents_empty)
  with True assms show ?thesis
    by (cases as) (auto simp: neq_Nil_conv pending_def buf_frame_def)
next
  case False
  then have e: "kb_contents (kb_in k) = []" by (simp add: kb_contents_empty)
  show ?thesis
  proof (cases as)
    case Nil
    with False e show ?thesis by simp
  next
    case (Cons a as')
    let ?k = "keyboard_handler a k"
    have p: "kb_inv (kb_in ?k)" "kb_contents (kb_in ?k) = [a]"
      using kb_put_spec [OF assms, of a] False e by (auto simp: keyboard_handler_def)
    then have c: "kb_count (kb_in ?k) > 0" using kb_contents_empty [of "kb_in ?k"] by simp
    have "wait_scan as' ?k = Inr (?k\<lparr>arrivals := as'\<rparr>)" using c by (cases as') simp_all
    with False Cons e p c show ?thesis
      by (auto simp: pending_def buf_frame_def keyboard_handler_def)
  qed
qed

lemma get_byte_spec:
  assumes "kb_inv (kb_in k)"
  shows "case pending k of
      [] \<Rightarrow> get_byte_from_kbuf k = Inl (Hang ''get_byte_from_kbuf'')
    | c # cs \<Rightarrow> \<exists>k'. get_byte_from_kbuf k = Inr (c, k') \<and> kb_inv (kb_in k') \<and> pending k' = cs \<and> buf_frame k k'"
proof (cases "pending k")
  case Nil
  with wait_scan_spec [OF assms, of "arrivals k"] show ?thesis
    by (simp add: get_byte_from_kbuf_def pending_def)
next
  case (Cons c cs)
  with wait_scan_spec [OF assms, of "arrivals k"] obtain k1 where
    k1: "wait_scan (arrivals k) k = Inr k1" "kb_inv (kb_in k1)" "kb_count (kb_in k1) > 0"
      "pending k1 = c # cs" "buf_frame k k1" by (auto simp: pending_def)
  note g = kb_get_spec [OF k1(2,3)]
  from k1(4) g(1) have "c = fst (kb_get (kb_in k1))" "kb_contents (snd (kb_get (kb_in k1))) @ arrivals k1 = cs"
    by (simp_all add: pending_def)
  with k1 g(2) Cons show ?thesis
    by (auto simp: get_byte_from_kbuf_def case_prod_unfold Let_def pending_def buf_frame_def)
qed

lemma kb_upd_simps [simp]:
  "pending (k\<lparr>code_with_e0 := v\<rparr>) = pending k" "pending (k\<lparr>column := n\<rparr>) = pending k"
  by (simp_all add: pending_def)

subsection \<open>The decoder's loop ends\<close>

text \<open>\<open>consumed n k k'\<close>: the buffer is well formed and at least \<open>n\<close> bytes shorter.\<close>

definition consumed :: "nat \<Rightarrow> kbd \<Rightarrow> kbd \<Rightarrow> bool" where
  "consumed n k k' \<longleftrightarrow> kb_inv (kb_in k') \<and> length (pending k') + n \<le> length (pending k)"

abbreviation waits :: "kerror \<Rightarrow> bool" where
  "waits e \<equiv> e = Hang ''get_byte_from_kbuf'' \<or> e = Hang ''kb_wait'' \<or> e = Hang ''kb_ack''"

lemma get_byte_ret:
  "kb_inv (kb_in k) \<Longrightarrow> ret (get_byte_from_kbuf k) waits
     (\<lambda>(c, k'). kb_inv (kb_in k') \<and> pending k = c # pending k' \<and> buf_frame k k')"
  using get_byte_spec [of k] by (auto simp: ret_def split: list.splits)

lemma get_byte_consumed:
  assumes "consumed n k0 k"
  shows "ret (get_byte_from_kbuf k) waits (\<lambda>(c, k'). consumed (Suc n) k0 k')"
  using assms by (intro ret_conseq [OF get_byte_ret]) (auto simp: consumed_def)

lemma consumed_e0: "consumed n k0 k \<Longrightarrow> consumed n k0 (k\<lparr>code_with_e0 := v\<rparr>)"
  by (simp add: consumed_def)

lemma consumed_Suc: "consumed (Suc n) k0 k \<Longrightarrow> consumed n k0 k"
  by (simp add: consumed_def)

lemma match_bytes_consumed:
  "consumed n k0 k \<Longrightarrow> ret (match_bytes bs k) waits (\<lambda>(ok, k'). consumed n k0 k')"
proof (induction bs arbitrary: k)
  case (Cons b bs)
  show ?case unfolding match_bytes.simps
    by (rule ret_bind, rule ret_conseq [OF get_byte_consumed [OF Cons.prems]])
      (auto intro!: ret_rules Cons.IH intro: consumed_Suc)
qed (auto intro: ret_rules)

lemma printscreen_consumed:
  assumes "consumed n k0 k"
  shows "ret (printscreen b mk key mk0 k) waits (\<lambda>(c, key', mk', k'). consumed n k0 k')"
  unfolding printscreen_def
  by (rule ret_bind, rule ret_conseq [OF get_byte_consumed [OF consumed_e0 [OF assms]]])
    (auto intro!: ret_rules ret_conseq [OF get_byte_consumed [OF consumed_e0]] intro: consumed_Suc)

lemma parse_scan_consumed:
  assumes "kb_inv (kb_in k)"
  shows "ret (parse_scan key mk k) waits (\<lambda>(c, key', mk', k'). consumed 1 k k')"
proof -
  have 0: "consumed 0 k (k\<lparr>code_with_e0 := False\<rparr>)" using assms by (simp add: consumed_def)
  show ?thesis
    unfolding parse_scan_def
    by (rule ret_bind, rule ret_conseq [OF get_byte_consumed [OF 0]])
      (auto intro!: ret_rules ret_conseq [OF match_bytes_consumed]
        ret_conseq [OF get_byte_consumed [OF consumed_e0]] printscreen_consumed intro: consumed_Suc)
qed

definition same_buf :: "kbd \<Rightarrow> kbd \<Rightarrow> bool" where
  "same_buf k k' \<longleftrightarrow> kb_in k' = kb_in k \<and> arrivals k' = arrivals k"

lemma kb_wait_buf: "ret (kb_wait xs k) waits (same_buf k)"
  by (induction xs k rule: kb_wait.induct) (auto simp: same_buf_def intro!: ret_rules)

lemma kb_ack_buf: "ret (kb_ack xs k) waits (same_buf k)"
  by (induction xs k rule: kb_ack.induct) (auto simp: same_buf_def intro!: ret_rules)

lemma kb_send_buf: "ret (kb_send b k) waits (same_buf k)"
  unfolding kb_send_def Let_def
  by (rule ret_bind, rule ret_conseq [OF kb_wait_buf])
    (auto intro!: ret_conseq [OF kb_ack_buf] simp: same_buf_def)

lemma set_leds_buf: "ret (set_leds k) waits (same_buf k)"
  unfolding set_leds_def Let_def
  by (rule ret_bind, rule ret_conseq [OF kb_send_buf])
    (auto intro!: ret_conseq [OF kb_send_buf] simp: same_buf_def)

lemma apply_modifier_buf: "ret (apply_modifier key mk k) waits (same_buf k)"
  unfolding apply_modifier_def
  by (intro ret_if ret_Inr) (auto intro!: ret_conseq [OF set_leds_buf] simp: same_buf_def)

lemma translate_consumed:
  assumes "consumed n k0 k"
  shows "ret (translate c key mk k) waits (\<lambda>(key', mk', k'). consumed n k0 k')"
  using assms unfolding translate_def Let_def
  by (auto intro!: ret_rules ret_conseq [OF apply_modifier_buf] simp: same_buf_def consumed_def pending_def)

lemma length_pending: "kb_inv (kb_in k) \<Longrightarrow> length (pending k) = nat (kb_count (kb_in k)) + length (arrivals k)"
  by (simp add: pending_def)

lemma keyboard_loop_ret:
  assumes "kb_inv (kb_in k)" "length (pending k) \<le> n" "I t"
    and step: "\<And>key t. I t \<Longrightarrow> ret (in_process key t) E I"
  shows "ret (keyboard_loop in_process n key mk k t) (\<lambda>e. waits e \<or> E e)
    (\<lambda>(k', t'). kb_inv (kb_in k') \<and> kb_contents (kb_in k') = [] \<and> I t')"
  using assms(1-3)
proof (induction n arbitrary: key mk k t)
  case 0
  then have "kb_contents (kb_in k) = []" by (simp add: pending_def kb_contents_empty)
  with 0 show ?case by (auto intro!: ret_rules simp: kb_contents_empty)
next
  case (Suc n)
  show ?case
  proof (cases "kb_count (kb_in k) > 0")
    case True
    have IHc: "ret (keyboard_loop in_process n key' mk' k' t') (\<lambda>e. waits e \<or> E e)
        (\<lambda>(k', t'). kb_inv (kb_in k') \<and> kb_contents (kb_in k') = [] \<and> I t')"
      if "consumed (Suc 0) k k'" "I t'" for key' mk' k' t'
      using that Suc.prems(2) by (intro Suc.IH) (auto simp: consumed_def)
    have body: "ret (translate c key1 mk1 k1) (\<lambda>e. waits e \<or> E e) (\<lambda>(key2, mk2, k2). consumed 1 k k2)"
      if "consumed 1 k k1" for c key1 mk1 k1
      by (rule ret_conseq [OF translate_consumed [OF that]]) auto
    show ?thesis
      using True unfolding keyboard_loop.simps Let_def
      by (auto intro!: ret_rules ret_conseq [OF parse_scan_consumed [OF Suc.prems(1)]] ret_conseq [OF body]
          ret_conseq [OF step [OF Suc.prems(3)]] ret_conseq [OF IHc] Suc.prems(3))
  next
    case False
    with Suc.prems show ?thesis by (auto intro!: ret_rules simp: kb_contents_empty)
  qed
qed

subsection \<open>The code of a key\<close>

text \<open>Every entry of the keymap is a raw key code: nine bits.\<close>

lemma keymap_raw: "\<forall>(a, b, e)\<in>set keymap. a AND MASK_RAW = a \<and> b AND MASK_RAW = b \<and> e AND MASK_RAW = e"
  by (simp add: keymap_def)

lemma keymap_letters:
  "\<forall>(a, b, e)\<in>set keymap. ck (CHR ''a'') \<le> a \<and> a \<le> ck (CHR ''z'') \<longrightarrow> b = a - 32"
  by (simp add: keymap_def)

lemma length_keymap: "length keymap = 128"
  by (simp add: keymap_def)

lemma raw_iff: "key AND MASK_RAW = key \<longleftrightarrow> uint (key :: u32) < 512"
  using mask_eq_iff [of key 9] by (simp add: mask_eq_exp_minus_1)

lemma unat_scan: "unat (c AND 0x7f :: u8) < 128"
proof -
  have "c AND mask 7 < 2 ^ 7" by (rule and_mask_less_size) (simp add: word_size)
  then have "c AND 0x7f < 0x80" by (simp add: mask_eq_exp_minus_1)
  then have "unat (c AND 0x7f) < unat (0x80 :: u8)" by (simp only: word_less_nat_alt)
  then show ?thesis by simp
qed

lemma keymap_row: "keymap ! unat (c AND 0x7f :: u8) \<in> set keymap"
  using unat_scan [of c] by (intro nth_mem) (simp add: length_keymap)

lemma pad_digit_cases:
  assumes "PAD_0 \<le> key" "key \<le> PAD_9"
  shows "key \<in> {PAD_0, PAD_1, PAD_2, PAD_3, PAD_4, PAD_5, PAD_6, PAD_7, PAD_8, PAD_9}"
proof -
  have "306 \<le> uint key" "uint key \<le> 315" using assms by (simp_all add: word_le_def)
  then have "uint key \<in> {306, 307, 308, 309, 310, 311, 312, 313, 314, 315}" by simp presburger
  then show ?thesis by (simp add: word_uint_eq_iff)
qed

lemma pad_key_raw:
  assumes "key AND MASK_RAW = key"
  shows "pad_key nl key AND MASK_RAW = pad_key nl key"
proof (cases "PAD_0 \<le> key \<and> key \<le> PAD_9")
  case True
  with pad_digit_cases have "key \<in> {PAD_0, PAD_1, PAD_2, PAD_3, PAD_4, PAD_5, PAD_6, PAD_7, PAD_8, PAD_9}" by blast
  then show ?thesis by (auto simp: pad_key_def)
next
  case False
  with assms show ?thesis by (auto simp: pad_key_def)
qed

lemma flags_raw: "key_flags pad k AND MASK_RAW = 0" "key_flags pad k AND 0xff = 0" "key_flags pad k AND FLAG_EXT = 0"
  by (simp_all add: key_flags_def)

lemma or_flags: "(key OR key_flags pad k) AND MASK_RAW = key AND MASK_RAW"
  "(key OR key_flags pad k) AND 0xff = key AND 0xff" "(key OR key_flags pad k) AND FLAG_EXT = key AND FLAG_EXT"
  by (simp_all add: bit.conj_disj_distrib2 flags_raw)

lemma raw_flag:
  assumes "key AND MASK_RAW = key" "MASK_RAW AND f = 0"
  shows "key AND f = (0 :: u32)"
proof -
  have "key AND f = key AND (MASK_RAW AND f)" using assms(1) by (simp only: and.assoc [symmetric])
  with assms(2) show ?thesis by simp
qed

text \<open>
  The code the decoder passes on keeps the key and the modifiers apart: its low nine
  bits are the key of the keymap (a number-pad key replaced by what it stands for), and each
  modifier flag is set exactly when that modifier is held.
\<close>

theorem emit_key_roundtrip:
  assumes "key AND MASK_RAW = key"
  shows "emit_key key k AND MASK_RAW =
      (if PAD_SLASH \<le> key \<and> key \<le> PAD_9 then pad_key (num_lock k) key else key) \<and>
    (emit_key key k AND FLAG_SHIFT_L \<noteq> 0 \<longleftrightarrow> shift_l k) \<and> (emit_key key k AND FLAG_SHIFT_R \<noteq> 0 \<longleftrightarrow> shift_r k) \<and>
    (emit_key key k AND FLAG_CTRL_L \<noteq> 0 \<longleftrightarrow> ctrl_l k) \<and> (emit_key key k AND FLAG_CTRL_R \<noteq> 0 \<longleftrightarrow> ctrl_r k) \<and>
    (emit_key key k AND FLAG_ALT_L \<noteq> 0 \<longleftrightarrow> alt_l k) \<and> (emit_key key k AND FLAG_ALT_R \<noteq> 0 \<longleftrightarrow> alt_r k)"
proof -
  define r where "r = (if PAD_SLASH \<le> key \<and> key \<le> PAD_9 then pad_key (num_lock k) key else key)"
  define pad where "pad = (PAD_SLASH \<le> key \<and> key \<le> PAD_9)"
  have r: "r AND MASK_RAW = r" using assms pad_key_raw [OF assms] by (simp add: r_def)
  have e: "emit_key key k = r OR key_flags pad k" 
    by (cases "PAD_SLASH \<le> key \<and> key \<le> PAD_9") (auto simp: emit_key_def r_def pad_def)
  have z: "r AND FLAG_SHIFT_L = 0" "r AND FLAG_SHIFT_R = 0" "r AND FLAG_CTRL_L = 0" "r AND FLAG_CTRL_R = 0"
    "r AND FLAG_ALT_L = 0" "r AND FLAG_ALT_R = 0" by (rule raw_flag [OF r], simp)+
  show ?thesis
    unfolding e or_flags r r_def [symmetric]
    by (simp add: bit.conj_disj_distrib2 z) (simp add: key_flags_def)
qed

theorem emit_key_roundtrip_witness:
  "\<exists>k. shift_l k \<and> \<not> alt_r k \<and> emit_key PAD_7 k AND MASK_RAW = pad_key (num_lock k) PAD_7 \<and>
     emit_key PAD_7 k AND FLAG_SHIFT_L \<noteq> 0 \<and> emit_key PAD_7 k AND FLAG_ALT_R = 0"
proof -
  let ?k = "undefined\<lparr>shift_l := True, alt_r := False\<rparr> :: kbd"
  have "(PAD_7 :: u32) AND MASK_RAW = PAD_7" by simp
  from emit_key_roundtrip [OF this, of ?k] show ?thesis by (intro exI [of _ ?k]) simp
qed

subsection \<open>Interrupts and the decoder\<close>

lemma fold_handler: "kb_in (fold keyboard_handler xs k) = fold kb_put xs (kb_in k)"
  "arrivals (fold keyboard_handler xs k) = arrivals k"
  by (induction xs arbitrary: k) (simp_all add: keyboard_handler_def)

text \<open>
  C17: The scan codes of any number of keyboard interrupts are kept in order, as many as the
  32-byte buffer has room for and never more, and \<open>get_byte_from_kbuf()\<close> hands out the oldest
  one: what the interrupt handler stored is what the decoder reads.
\<close>

theorem keyboard_buffer_fifo:
  assumes "kb_inv (kb_in k)"
  shows "kb_inv (kb_in (fold keyboard_handler xs k)) \<and>
    kb_contents (kb_in (fold keyboard_handler xs k)) =
      kb_contents (kb_in k) @ take (KB_IN_BYTES - length (kb_contents (kb_in k))) xs \<and>
    (\<forall>c cs. pending k = c # cs \<longrightarrow>
       (\<exists>k'. get_byte_from_kbuf k = Inr (c, k') \<and> kb_inv (kb_in k') \<and> pending k' = cs))"
  using kb_fifo.fold_put [OF assms] kb_fifo.fold_put_inv [OF assms] get_byte_spec [OF assms]
  by (auto simp: fold_handler)

definition demo_kbd :: kbd where
  "demo_kbd = \<lparr>kb_in = \<lparr>kb_head = 0, kb_tail = 0, kb_count = 0, kb_buf = (\<lambda>_. 0)\<rparr>,
     code_with_e0 = False, shift_l = False, shift_r = False, alt_l = False, alt_r = False,
     ctrl_l = False, ctrl_r = False, caps_lock = False, num_lock = True, scroll_lock = False,
     column = 0, kb_key_pressed = 0, arrivals = [], kb_status = [], kb_replies = [], kb_outs = []\<rparr>"

lemma demo_kbd_inv: "kb_inv (kb_in demo_kbd)" "kb_contents (kb_in demo_kbd) = []"
  by (simp_all add: demo_kbd_def kb_inv_def ring_inv_def kb_contents_def ring_list_def)

theorem keyboard_buffer_fifo_witness:
  "kb_contents (kb_in (fold keyboard_handler [0x1e, 0x9e] demo_kbd)) = [0x1e, 0x9e]"
  using keyboard_buffer_fifo [OF demo_kbd_inv(1), of "[0x1e, 0x9e]"] demo_kbd_inv(2) by simp

text \<open>
  \<open>keyboard_read()\<close> ends: its loop runs at most once per byte in the buffer or still
  arriving, it leaves the buffer empty and well formed, and the only way not to return is to
  wait for hardware (the rest of a multi-byte code, or the keyboard controller) or an error
  of \<open>in_process()\<close>.
\<close>

theorem keyboard_read_ends:
  assumes "kb_inv (kb_in k)" "\<And>key t. ret (in_process key t) E (\<lambda>_. True)"
  shows "(\<exists>k' t'. keyboard_read in_process mk k t = Inr (k', t') \<and> kb_inv (kb_in k') \<and>
      kb_contents (kb_in k') = []) \<or>
    (\<exists>e. keyboard_read in_process mk k t = Inl e \<and> (waits e \<or> E e))"
proof -
  have "ret (keyboard_read in_process mk k t) (\<lambda>e. waits e \<or> E e)
      (\<lambda>(k', t'). kb_inv (kb_in k') \<and> kb_contents (kb_in k') = [] \<and> True)"
    unfolding keyboard_read_def
    using assms by (intro keyboard_loop_ret) (simp_all add: length_pending)
  then show ?thesis by (cases "keyboard_read in_process mk k t") (auto simp: ret_def)
qed

theorem keyboard_read_ends_witness:
  "let k = fold keyboard_handler [0x1e] demo_kbd
   in (\<exists>k' t'. keyboard_read (\<lambda>key t. Inr (t @ [key])) True k [] = Inr (k', t') \<and> kb_inv (kb_in k') \<and>
      kb_contents (kb_in k') = []) \<or>
    (\<exists>e. keyboard_read (\<lambda>key t. Inr (t @ [key])) True k [] = Inl e \<and> (waits e \<or> False))"
proof -
  let ?k = "fold keyboard_handler [0x1e] demo_kbd"
  have "kb_inv (kb_in ?k)" using kb_fifo.fold_put_inv [OF demo_kbd_inv(1), of "[0x1e]"] by (simp add: keyboard_handler_def)
  from keyboard_read_ends [OF this, of "\<lambda>key t. Inr (t @ [key])" "\<lambda>_. False" True "[]"] show ?thesis
    by (simp add: Let_def ret_def)
qed

lemma parse_plain:
  assumes "kb_inv (kb_in k)" "pending k = c # cs" "c \<noteq> 0xe0" "c \<noteq> 0xe1"
  shows "\<exists>k'. parse_scan key mk k = Inr (c, key, mk, k') \<and> kb_inv (kb_in k') \<and> pending k' = cs \<and>
    buf_frame (k\<lparr>code_with_e0 := False\<rparr>) k'"
  using get_byte_spec [of "k\<lparr>code_with_e0 := False\<rparr>"] assms by (auto simp: parse_scan_def)

lemma pending_Nil: "pending k = [] \<Longrightarrow> \<not> kb_count (kb_in k) > 0"
  by (simp add: pending_def kb_contents_empty)

lemma low_scan:
  assumes "c < (0x80 :: u8)"
  shows "c AND 0x7f = c" "c AND 0x80 = 0" "c \<noteq> 0xe0" "c \<noteq> 0xe1"
proof -
  have "c AND mask 7 = c" using assms by (intro less_mask_eq) simp
  then show a: "c AND 0x7f = c" by (simp add: mask_eq_exp_minus_1)
  have "c AND 0x80 = c AND (0x7f AND 0x80)" using a by (simp only: and.assoc [symmetric])
  then show "c AND 0x80 = 0" by simp
  show "c \<noteq> 0xe0" "c \<noteq> 0xe1" using assms by auto
qed

lemma ascii_key:
  assumes "uint (key :: u32) < 128"
  shows "apply_modifier key mk k = Inr k" "emit_key key k = key OR key_flags False k"
    "key AND 0xff = key" "key AND FLAG_EXT = 0" "key \<noteq> PAUSEBREAK" "key \<noteq> PRINTSCREEN"
proof -
  show "apply_modifier key mk k = Inr k" "emit_key key k = key OR key_flags False k"
    "key \<noteq> PAUSEBREAK" "key \<noteq> PRINTSCREEN"
    using assms by (auto simp: apply_modifier_def emit_key_def word_uint_eq_iff word_le_def)
  show a: "key AND 0xff = key" using mask_eq_iff [of key 8] assms by (simp add: mask_eq_exp_minus_1)
  have "key AND FLAG_EXT = key AND (0xff AND FLAG_EXT)" using a by (simp only: and.assoc [symmetric])
  then show "key AND FLAG_EXT = 0" by simp
qed

lemma letter_row:
  assumes "(a, b, e) \<in> set keymap" "ck (CHR ''a'') \<le> a" "a \<le> ck (CHR ''z'')"
  shows "b = a - 32" "uint a < 128" "uint (a - 32) < 128"
proof -
  from keymap_letters assms show "b = a - 32" by fastforce
  have "97 \<le> uint a" "uint a \<le> 122" using assms(2,3) by (simp_all add: word_le_def)
  then show "uint a < 128" "uint (a - 32) < 128" by (simp_all add: uint_sub_lem [THEN iffD1])
qed

text \<open>
  A letter typed on its own is passed on once, as a plain character: upper case exactly
  when caps lock and the shift keys disagree, lower case otherwise.
\<close>

theorem keyboard_letter_case:
  assumes "kb_inv (kb_in k)" "kb_contents (kb_in k) = [c]" "arrivals k = []" "c < 0x80"
    "keymap ! unat c = (a, b, e)" "ck (CHR ''a'') \<le> a" "a \<le> ck (CHR ''z'')"
  shows "\<exists>key k'. keyboard_read in_process mk k t = bindE (in_process key t) (\<lambda>t'. Inr (k', t')) \<and>
    key AND FLAG_EXT = 0 \<and>
    key AND 0xff = (if caps_lock k \<noteq> (shift_l k \<or> shift_r k) then a - 32 else a)"
proof -
  note c = low_scan [OF assms(4)]
  have row: "(a, b, e) \<in> set keymap" using keymap_row [of c] assms(5) c(1) by simp
  note L = letter_row [OF row assms(6,7)]
  define l where "l = (if caps_lock k \<noteq> (shift_l k \<or> shift_r k) then a - 32 else a)"
  note A = ascii_key [of l]
  have l: "uint l < 128" using L by (simp add: l_def)
  have pk: "pending k = [c]" using assms(2,3) by (simp add: pending_def)
  from parse_plain [OF assms(1) pk c(3,4), of 0 mk] obtain k1 where
    k1: "parse_scan 0 mk k = Inr (c, 0, mk, k1)" "pending k1 = []" "buf_frame (k\<lparr>code_with_e0 := False\<rparr>) k1" by blast
  define col where "col = key_column c k1"
  have key: "row_col (keymap ! unat (c AND 0x7f)) col = l"
    using k1(3) assms(5-7) L(1) c(1)
    by (auto simp: col_def key_column_def row_col_def l_def buf_frame_def Let_def)
  let ?k2 = "k1\<lparr>column := col\<rparr>"
  have tr: "translate c 0 mk k1 = Inr (l, True, ?k2)"
    using c(2) A(1) [OF l] key by (simp add: translate_def Let_def col_def)
  have cnt: "kb_count (kb_in k) > 0" "\<not> kb_count (kb_in ?k2) > 0"
    using assms(2) kb_contents_empty [of "kb_in k"] pending_Nil [OF k1(2)] by auto
  have fuel: "nat (kb_count (kb_in k)) + length (arrivals k) = Suc 0"
    using assms(2,3) length_kb_contents [of "kb_in k"] by simp
  have fin: "keyboard_loop in_process 0 key' mk' ?k2 = (\<lambda>t'. Inr (?k2, t'))" for key' mk'
    using cnt(2) by (intro ext) simp
  have "keyboard_read in_process mk k t = bindE (in_process (emit_key l ?k2) t) (\<lambda>t'. Inr (?k2, t'))"
    unfolding keyboard_read_def fuel using cnt(1) k1(1) tr by (simp add: Let_def fin)
  moreover have "emit_key l ?k2 AND FLAG_EXT = 0" "emit_key l ?k2 AND 0xff = l"
    using A(2-4) [OF l] by (simp_all add: or_flags)
  ultimately show ?thesis unfolding l_def by blast
qed

theorem keyboard_letter_case_witness:
  "let k = (fold keyboard_handler [0x1e] demo_kbd)\<lparr>shift_r := True\<rparr>
   in \<exists>key k'. keyboard_read (\<lambda>key t. Inr (t @ [key])) True k [] = Inr (k', [key]) \<and> key AND 0xff = 65"
proof -
  let ?k = "(fold keyboard_handler [0x1e] demo_kbd)\<lparr>shift_r := True\<rparr>"
  have k: "kb_inv (kb_in ?k)" "kb_contents (kb_in ?k) = [0x1e]" "arrivals ?k = []" "\<not> caps_lock ?k" "shift_r ?k"
    using kb_put_spec [OF demo_kbd_inv(1), of "0x1e"] demo_kbd_inv
    by (simp_all add: keyboard_handler_def) (simp_all add: demo_kbd_def)
  have row: "keymap ! unat (0x1e :: u8) = (ck (CHR ''a''), ck (CHR ''A''), 0)" by (simp add: keymap_def)
  from keyboard_letter_case [OF k(1-3) _ row, of "\<lambda>key t. Inr (t @ [key])" True "[]"] k(4,5) show ?thesis
    by (auto simp: Let_def)
qed

lemma get_byte_arrivals: "get_byte_from_kbuf k = Inr (c, k') \<Longrightarrow> arrivals k = [] \<Longrightarrow> arrivals k' = []"
  by (auto simp: get_byte_from_kbuf_def Let_def case_prod_unfold split: if_splits)

definition no_modifiers :: "kbd \<Rightarrow> bool" where
  "no_modifiers k \<longleftrightarrow> \<not> shift_l k \<and> \<not> shift_r k \<and> \<not> ctrl_l k \<and> \<not> ctrl_r k \<and> \<not> alt_l k \<and> \<not> alt_r k"

lemma no_modifiers_frame: "buf_frame k k' \<Longrightarrow> no_modifiers k' = no_modifiers k"
  "no_modifiers (k\<lparr>code_with_e0 := v\<rparr>) = no_modifiers k"
  by (simp_all add: buf_frame_def no_modifiers_def)

text \<open>A decoder with nothing but \<open>cs\<close> left, all of it in the buffer, and no modifier held.\<close>

definition idle_with :: "u8 list \<Rightarrow> kbd \<Rightarrow> bool" where
  "idle_with cs k \<longleftrightarrow> kb_inv (kb_in k) \<and> pending k = cs \<and> arrivals k = [] \<and> no_modifiers k"

lemma idle_with_step:
  assumes "idle_with (c # cs) k"
  shows "\<exists>k'. get_byte_from_kbuf (k\<lparr>code_with_e0 := v\<rparr>) = Inr (c, k') \<and> idle_with cs k'"
proof -
  let ?k = "k\<lparr>code_with_e0 := v\<rparr>"
  from get_byte_spec [of ?k] assms obtain k' where k': "get_byte_from_kbuf ?k = Inr (c, k')" "kb_inv (kb_in k')"
    "pending k' = cs" "buf_frame ?k k'" by (auto simp: idle_with_def)
  with get_byte_arrivals [OF k'(1)] no_modifiers_frame(1) [OF k'(4)] assms show ?thesis
    by (auto simp: idle_with_def no_modifiers_frame(2))
qed

lemma idle_with_count: "idle_with cs k \<Longrightarrow> kb_count (kb_in k) > 0 \<longleftrightarrow> cs \<noteq> []"
  using kb_contents_empty [of "kb_in k"] by (auto simp: idle_with_def pending_def)

lemma parse_printscreen:
  assumes "idle_with (0xe0 # 0x2a # 0xe0 # 0x37 # cs) k"
  shows "\<exists>k'. parse_scan key mk k = Inr (1, PRINTSCREEN, True, k') \<and> idle_with cs k'"
proof -
  obtain k1 where k1: "get_byte_from_kbuf (k\<lparr>code_with_e0 := False\<rparr>) = Inr (0xe0, k1)"
    "idle_with (0x2a # 0xe0 # 0x37 # cs) k1" using idle_with_step [OF assms] by blast
  obtain k2 where k2: "get_byte_from_kbuf (k1\<lparr>code_with_e0 := True\<rparr>) = Inr (0x2a, k2)"
    "idle_with (0xe0 # 0x37 # cs) k2" using idle_with_step [OF k1(2)] by blast
  obtain k3 where k3: "get_byte_from_kbuf (k2\<lparr>code_with_e0 := False\<rparr>) = Inr (0xe0, k3)"
    "idle_with (0x37 # cs) k3" using idle_with_step [OF k2(2)] by blast
  obtain k4 where k4: "get_byte_from_kbuf (k3\<lparr>code_with_e0 := True\<rparr>) = Inr (0x37, k4)" "idle_with cs k4"
    using idle_with_step [OF k3(2)] by blast
  from k1(1) k2(1) k3(1) k4 show ?thesis by (simp add: parse_scan_def printscreen_def)
qed

lemma parse_idle:
  assumes "idle_with (c # cs) k" "c \<noteq> 0xe0" "c \<noteq> 0xe1"
  shows "\<exists>k'. parse_scan key mk k = Inr (c, key, mk, k') \<and> idle_with cs k'"
  using idle_with_step [OF assms(1), of False] assms(2,3) by (auto simp: parse_scan_def)

lemma no_modifiers_emit: "no_modifiers k \<Longrightarrow> emit_key PRINTSCREEN k = PRINTSCREEN"
  by (simp add: emit_key_def key_flags_def no_modifiers_def)

text \<open>
  The decoder does not forget a PrintScreen: \<open>key\<close> keeps its value in the next round, so
  the key typed after PrintScreen and still in the buffer is lost and PrintScreen is passed
  on a second time in its place.
\<close>

theorem printscreen_swallows:
  assumes "kb_inv (kb_in k)" "kb_contents (kb_in k) = [0xe0, 0x2a, 0xe0, 0x37, c]" "arrivals k = []"
    "c \<noteq> 0xe0" "c \<noteq> 0xe1" "no_modifiers k"
  shows "\<exists>k'. keyboard_read (\<lambda>key ks. Inr (ks @ [key])) mk k [] = Inr (k', [PRINTSCREEN, PRINTSCREEN])"
proof -
  let ?ip = "\<lambda>key ks. Inr (ks @ [key]) :: u32 list res"
  have pk: "idle_with [0xe0, 0x2a, 0xe0, 0x37, c] k" using assms by (simp add: idle_with_def pending_def)
  obtain k1 where k1: "parse_scan 0 mk k = Inr (1, PRINTSCREEN, True, k1)" "idle_with [c] k1"
    using parse_printscreen [OF pk] by blast
  obtain k2 where k2: "parse_scan PRINTSCREEN True k1 = Inr (c, PRINTSCREEN, True, k2)" "idle_with [] k2"
    using parse_idle [OF k1(2) assms(4,5)] by blast
  note cnt = idle_with_count [OF pk] idle_with_count [OF k1(2)] idle_with_count [OF k2(2)]
  have em: "emit_key PRINTSCREEN k1 = PRINTSCREEN" "emit_key PRINTSCREEN k2 = PRINTSCREEN"
    using k1(2) k2(2) by (auto simp: idle_with_def intro: no_modifiers_emit)
  have tr: "translate b PRINTSCREEN True k' = Inr (PRINTSCREEN, True, k')" for b k' by (simp add: translate_def)
  have fuel: "nat (kb_count (kb_in k)) + length (arrivals k) = Suc (Suc (Suc (Suc (Suc 0))))"
    using assms(2,3) length_kb_contents [of "kb_in k"] by simp
  have "keyboard_read ?ip mk k [] = Inr (k2, [PRINTSCREEN, PRINTSCREEN])"
    unfolding keyboard_read_def fuel using cnt by (simp add: k1(1) k2(1) tr em Let_def)
  then show ?thesis by blast
qed

theorem printscreen_swallows_witness:
  "let k = fold keyboard_handler [0xe0, 0x2a, 0xe0, 0x37, 0x1e] demo_kbd
   in \<exists>k'. keyboard_read (\<lambda>key ks. Inr (ks @ [key])) True k [] = Inr (k', [PRINTSCREEN, PRINTSCREEN])"
proof -
  let ?xs = "[0xe0, 0x2a, 0xe0, 0x37, 0x1e] :: u8 list"
  have "kb_inv (kb_in (fold keyboard_handler ?xs demo_kbd))"
    "kb_contents (kb_in (fold keyboard_handler ?xs demo_kbd)) = ?xs"
    using kb_fifo.fold_put_inv [OF demo_kbd_inv(1), of ?xs] kb_fifo.fold_put [OF demo_kbd_inv(1), of ?xs] demo_kbd_inv(2)
    unfolding fold_handler by simp_all
  moreover have "arrivals (fold keyboard_handler ?xs demo_kbd) = []" "no_modifiers (fold keyboard_handler ?xs demo_kbd)"
    by (simp_all add: keyboard_handler_def demo_kbd_def no_modifiers_def)
  ultimately show ?thesis unfolding Let_def by (intro printscreen_swallows [where c = "0x1e"]) simp_all
qed

end
