(* ===== verification/Irq.thy ===== *)
theory Irq
  imports Prelude
begin

section \<open>Interrupt controllers and timer (kernel/i8259.c, kernel/clock.c)\<close>

text \<open>
  Programming the two 8259A controllers and the timer, and the table of interrupt handlers. The
  state keeps the bytes written to ports, in order, and the table. A controller's mask register,
  which \<open>enable_irq()\<close> and \<open>disable_irq()\<close> of lib/kliba.asm read, holds the byte last written to
  its port. The last theorem puts the initialisations of boot together.
\<close>

datatype irq_handler = Spurious_irq | Clock_handler | Keyboard_handler | Hd_handler

record pic =
  outs :: "(u16 \<times> u8) list"
  irq_table :: "nat \<Rightarrow> irq_handler"

abbreviation (input) NR_IRQ :: nat where "NR_IRQ \<equiv> 16"
abbreviation (input) INT_M_CTL :: u16 where "INT_M_CTL \<equiv> 0x20"
abbreviation (input) INT_M_CTLMASK :: u16 where "INT_M_CTLMASK \<equiv> 0x21"
abbreviation (input) INT_S_CTL :: u16 where "INT_S_CTL \<equiv> 0xa0"
abbreviation (input) INT_S_CTLMASK :: u16 where "INT_S_CTLMASK \<equiv> 0xa1"
abbreviation (input) TIMER0 :: u16 where "TIMER0 \<equiv> 0x40"
abbreviation (input) TIMER_MODE :: u16 where "TIMER_MODE \<equiv> 0x43"

definition out_byte :: "u16 \<Rightarrow> u8 \<Rightarrow> pic \<Rightarrow> pic" where
  "out_byte port b s = s\<lparr>outs := outs s @ [(port, b)]\<rparr>"

definition mask_byte :: "u16 \<Rightarrow> pic \<Rightarrow> u8" where
  "mask_byte port s = (case find (\<lambda>(p, b). p = port) (rev (outs s)) of Some (p, b) \<Rightarrow> b | None \<Rightarrow> 0)"

subsection \<open>Masking (lib/kliba.asm)\<close>

text \<open>\<open>rol\<close> of a byte by \<open>n\<close> places, and the port that masks interrupt \<open>irq\<close>.\<close>

definition rol :: "nat \<Rightarrow> u8 \<Rightarrow> u8" where
  "rol n b = push_bit (n mod 8) b OR drop_bit (8 - n mod 8) b"

definition mask_port :: "nat \<Rightarrow> u16" where
  "mask_port irq = (if irq < 8 then INT_M_CTLMASK else INT_S_CTLMASK)"

definition disable_irq :: "nat \<Rightarrow> pic \<Rightarrow> pic" where
  "disable_irq irq s =
     (let ah = rol irq 1; al = mask_byte (mask_port irq) s
      in if al AND ah \<noteq> 0 then s else out_byte (mask_port irq) (al OR ah) s)"

definition enable_irq :: "nat \<Rightarrow> pic \<Rightarrow> pic" where
  "enable_irq irq s = out_byte (mask_port irq) (mask_byte (mask_port irq) s AND rol irq (NOT 1)) s"

definition put_irq_handler :: "nat \<Rightarrow> irq_handler \<Rightarrow> pic \<Rightarrow> pic" where
  "put_irq_handler irq handler s = (let s1 = disable_irq irq s in s1\<lparr>irq_table := (irq_table s1)(irq := handler)\<rparr>)"

subsection \<open>Initialisation\<close>

definition init_8259A :: "pic \<Rightarrow> pic" where
  "init_8259A s =
     (let s1 = fold (\<lambda>(p, b). out_byte p b)
            [(INT_M_CTL, 0x11), (INT_S_CTL, 0x11), (INT_M_CTLMASK, 0x20), (INT_S_CTLMASK, 0x28), (INT_M_CTLMASK, 4), (INT_S_CTLMASK, 2),
             (INT_M_CTLMASK, 1), (INT_S_CTLMASK, 1), (INT_M_CTLMASK, 0xff), (INT_S_CTLMASK, 0xff)] s
      in s1\<lparr>irq_table := (\<lambda>i. if i < NR_IRQ then Spurious_irq else irq_table s1 i)\<rparr>)"

definition init_clock :: "pic \<Rightarrow> pic" where
  "init_clock s =
     (let d = c_div 1193182 100
      in enable_irq 0 (put_irq_handler 0 Clock_handler
           (out_byte TIMER0 (of_int (d div 2 ^ 8)) (out_byte TIMER0 (of_int d) (out_byte TIMER_MODE 0x34 s)))))"

text \<open>The calls of \<open>init_keyboard()\<close> and \<open>init_hd()\<close> that install their handlers.\<close>

definition keyboard_irq :: "pic \<Rightarrow> pic" where
  "keyboard_irq s = enable_irq 1 (put_irq_handler 1 Keyboard_handler s)"

definition hd_irq :: "pic \<Rightarrow> pic" where
  "hd_irq s = enable_irq 14 (enable_irq 2 (put_irq_handler 14 Hd_handler s))"

text \<open>The loop of \<open>milli_delay()\<close> over the values \<open>get_ticks()\<close> returns: what is left of them.\<close>

fun delay_loop :: "int \<Rightarrow> int \<Rightarrow> int list \<Rightarrow> int list res" where
  "delay_loop milli_sec t [] = Inl (Blocked ''milli_delay'')"
| "delay_loop milli_sec t (tick # tks) =
     (if c_div (s32 (s32 (tick - t) * 1000)) 100 < milli_sec then delay_loop milli_sec t tks else Inr tks)"

definition milli_delay :: "int \<Rightarrow> int list \<Rightarrow> int list res" where
  "milli_delay milli_sec tks = (case tks of [] \<Rightarrow> Inl (Blocked ''get_ticks'') | t # tks' \<Rightarrow> delay_loop milli_sec t tks')"

subsection \<open>Masks\<close>

definition irq_on :: "pic \<Rightarrow> nat \<Rightarrow> bool" where
  "irq_on s irq \<longleftrightarrow> \<not> bit (mask_byte (mask_port irq) s) (irq mod 8)"

lemma mask_byte_out [simp]: "mask_byte port (out_byte p b s) = (if p = port then b else mask_byte port s)"
  by (simp add: mask_byte_def out_byte_def)

lemma irq_table_out [simp]: "irq_table (out_byte p b s) = irq_table s"
  by (simp add: out_byte_def)

lemma mask_byte_table [simp]: "mask_byte port (s\<lparr>irq_table := t\<rparr>) = mask_byte port s"
  by (simp add: mask_byte_def)

lemma rol_one: "rol n 1 = push_bit (n mod 8) 1" "rol n (NOT 1) = NOT (push_bit (n mod 8) 1)"
proof -
  have "n mod 8 < 8" by simp
  then have "n mod 8 \<in> {0, 1, 2, 3, 4, 5, 6, 7}" by auto
  then show "rol n 1 = push_bit (n mod 8) 1" "rol n (NOT 1) = NOT (push_bit (n mod 8) 1)"
    by (auto simp: rol_def push_bit_eq_mult drop_bit_eq_div)
qed

lemma rol_clear: "rol n (- 2) = NOT (push_bit (n mod 8) 1)"
  using rol_one(2) [of n] by simp

lemma same_line: "irq < 16 \<Longrightarrow> i < 16 \<Longrightarrow> mask_port irq = mask_port i \<Longrightarrow> irq mod 8 = i mod 8 \<longleftrightarrow> i = irq"
  by (auto simp: mask_port_def mod_if split: if_splits)

lemma irq_on_enable: "irq < 16 \<Longrightarrow> i < 16 \<Longrightarrow> irq_on (enable_irq irq s) i \<longleftrightarrow> i = irq \<or> irq_on s i"
  using same_line [of irq i] by (auto simp: irq_on_def enable_irq_def rol_clear bit_simps)

lemma irq_on_disable: "irq < 16 \<Longrightarrow> i < 16 \<Longrightarrow> irq_on (disable_irq irq s) i \<longleftrightarrow> i \<noteq> irq \<and> irq_on s i"
proof -
  assume i: "irq < 16" "i < 16"
  have "mask_byte (mask_port irq) s AND push_bit (irq mod 8) 1 \<noteq> 0 \<longleftrightarrow> bit (mask_byte (mask_port irq) s) (irq mod 8)"
    by (simp add: bit_iff_and_push_bit_not_eq_0)
  then show ?thesis using i same_line [of irq i]
    by (auto simp: irq_on_def disable_irq_def rol_one Let_def bit_simps)
qed

lemma irq_table_mask [simp]: "irq_table (enable_irq irq s) = irq_table s" "irq_table (disable_irq irq s) = irq_table s"
  by (simp_all add: enable_irq_def disable_irq_def Let_def)

lemma irq_on_table [simp]: "irq_on (s\<lparr>irq_table := t\<rparr>) = irq_on s" "p \<notin> {INT_M_CTLMASK, INT_S_CTLMASK} \<Longrightarrow> irq_on (out_byte p b s) = irq_on s"
  by (auto simp: irq_on_def mask_port_def fun_eq_iff)

lemma put_irq_handler_props [simp]:
  "irq_table (put_irq_handler irq h s) = (irq_table s)(irq := h)"
  "irq < 16 \<Longrightarrow> i < 16 \<Longrightarrow> irq_on (put_irq_handler irq h s) i \<longleftrightarrow> i \<noteq> irq \<and> irq_on s i"
  by (simp_all add: put_irq_handler_def Let_def irq_on_disable)

lemma init_8259A_off: "i < 16 \<Longrightarrow> \<not> irq_on (init_8259A s) i" "i < 16 \<Longrightarrow> irq_table (init_8259A s) i = Spurious_irq"
proof -
  assume "i < 16"
  then have "i mod 8 \<in> {0, 1, 2, 3, 4, 5, 6, 7}" by auto
  then show "\<not> irq_on (init_8259A s) i" by (auto simp: irq_on_def init_8259A_def Let_def mask_port_def)
qed (simp add: init_8259A_def Let_def)

text \<open>The bytes sent to the timer.\<close>

definition timer_bytes :: "pic \<Rightarrow> u8 list" where
  "timer_bytes s = map snd (filter (\<lambda>x. fst x = TIMER0) (outs s))"

lemma timer_bytes_out [simp]: "timer_bytes (out_byte p b s) = timer_bytes s @ (if p = TIMER0 then [b] else [])"
  by (simp add: timer_bytes_def out_byte_def)

lemma timer_bytes_mask [simp]:
  "timer_bytes (enable_irq irq s) = timer_bytes s" "timer_bytes (disable_irq irq s) = timer_bytes s"
  "timer_bytes (s\<lparr>irq_table := t\<rparr>) = timer_bytes s"
  by (simp_all add: enable_irq_def disable_irq_def mask_port_def Let_def timer_bytes_def [of "s\<lparr>irq_table := t\<rparr>"] timer_bytes_def [of s])

lemma init_8259A_timer [simp]: "timer_bytes (init_8259A s) = timer_bytes s"
  by (simp add: init_8259A_def Let_def)

text \<open>
  After the controllers, the clock, the keyboard and the disk have been initialised in the
  order of boot, exactly the lines 0, 1, 2 and 14 are let through, the clock, the keyboard and
  the disk have their handlers, and every other line has the one for spurious interrupts; the
  timer was sent the low and the high byte of the divisor for 100 interrupts a second.
\<close>

theorem boot_interrupts:
  assumes "i < 16"
  shows "(irq_on (hd_irq (keyboard_irq (init_clock (init_8259A s)))) i \<longleftrightarrow> i \<in> {0, 1, 2, 14}) \<and>
    irq_table (hd_irq (keyboard_irq (init_clock (init_8259A s)))) i =
      (if i = 0 then Clock_handler else if i = 1 then Keyboard_handler else if i = 14 then Hd_handler else Spurious_irq) \<and>
    (\<exists>lo hi. timer_bytes (hd_irq (keyboard_irq (init_clock (init_8259A s)))) = timer_bytes s @ [lo, hi] \<and> uint hi * 256 + uint lo = 1193182 div 100)"
  using assms
  by (auto simp: hd_irq_def keyboard_irq_def init_clock_def put_irq_handler_def Let_def irq_on_enable irq_on_disable init_8259A_off c_div_def)

theorem boot_interrupts_witness:
  "irq_on (hd_irq (keyboard_irq (init_clock (init_8259A \<lparr>outs = [], irq_table = \<lambda>_. Spurious_irq\<rparr>)))) 14 \<and>
   irq_table (hd_irq (keyboard_irq (init_clock (init_8259A \<lparr>outs = [], irq_table = \<lambda>_. Spurious_irq\<rparr>)))) 14 = Hd_handler"
  using boot_interrupts [of 14 "\<lparr>outs = [], irq_table = \<lambda>_. Spurious_irq\<rparr>"] by simp

end
