(* ===== verification/Protect.thy ===== *)
theory Protect
  imports Ktypes Irq
begin

section \<open>Segment descriptors and gates (kernel/protect.c)\<close>

text \<open>
  The descriptor and gate layouts of \<^verbatim>\<open>include/sys/protect.h\<close>, the process structure of
  \<^verbatim>\<open>include/sys/proc.h\<close>, the routines of
  \<^verbatim>\<open>kernel/protect.c\<close> that fill and read them, and \<open>init_protect()\<close>. The addresses the
  linker assigns (interrupt entry points, \<open>tss\<close>, the LDTs inside the process table) are
  parameters. The lemmas show that what the routines store is what the processor and the
  kernel read back.
\<close>

record DESCRIPTOR =
  limit_low :: u16
  base_low :: u16
  base_mid :: u8
  attr1 :: u8
  limit_high_attr2 :: u8
  base_high :: u8

record GATE =
  offset_low :: u16
  selector :: u16
  dcount :: u8
  attribute :: u8
  offset_high :: u16

abbreviation (input) INDEX_TSS :: nat where "INDEX_TSS \<equiv> 4"
abbreviation (input) INDEX_LDT_FIRST :: nat where "INDEX_LDT_FIRST \<equiv> 5"
abbreviation (input) SELECTOR_KERNEL_CS :: u16 where "SELECTOR_KERNEL_CS \<equiv> 0x08"
abbreviation (input) SELECTOR_KERNEL_DS :: u16 where "SELECTOR_KERNEL_DS \<equiv> 0x10"
abbreviation (input) SELECTOR_LDT_FIRST :: u16 where "SELECTOR_LDT_FIRST \<equiv> 0x28"
abbreviation (input) INDEX_LDT_CODE :: nat where "INDEX_LDT_CODE \<equiv> 0"
abbreviation (input) INDEX_LDT_DATA :: nat where "INDEX_LDT_DATA \<equiv> 1"
abbreviation (input) DA_32 :: u16 where "DA_32 \<equiv> 0x4000"
abbreviation (input) DA_LIMIT_4K :: u16 where "DA_LIMIT_4K \<equiv> 0x8000"
abbreviation (input) DA_C :: u16 where "DA_C \<equiv> 0x98"
abbreviation (input) DA_DRW :: u16 where "DA_DRW \<equiv> 0x92"
abbreviation (input) DA_LDT :: u16 where "DA_LDT \<equiv> 0x82"
abbreviation (input) DA_386TSS :: u16 where "DA_386TSS \<equiv> 0x89"
abbreviation (input) DA_386IGate :: u8 where "DA_386IGate \<equiv> 0x8e"
abbreviation (input) PRIVILEGE_KERNEL :: u8 where "PRIVILEGE_KERNEL \<equiv> 0"
abbreviation (input) PRIVILEGE_TASK :: u8 where "PRIVILEGE_TASK \<equiv> 1"
abbreviation (input) PRIVILEGE_USER :: u8 where "PRIVILEGE_USER \<equiv> 3"
abbreviation (input) GDT_SIZE :: nat where "GDT_SIZE \<equiv> 128"

subsection \<open>Filling and reading a descriptor\<close>

definition init_desc :: "u32 \<Rightarrow> u32 \<Rightarrow> u16 \<Rightarrow> DESCRIPTOR" where
  "init_desc base limit attrib = \<lparr>
     limit_low = ucast (limit AND 0xffff),
     base_low = ucast (base AND 0xffff),
     base_mid = ucast (drop_bit 16 base AND 0xff),
     attr1 = ucast (attrib AND 0xff),
     limit_high_attr2 = ucast ((drop_bit 16 limit AND 0xf) OR (drop_bit 8 (ucast attrib) AND 0xf0)),
     base_high = ucast (drop_bit 24 base AND 0xff)\<rparr>"

text \<open>The base as \<open>seg2linear()\<close> and \<open>ldt_seg_linear()\<close> put it together.\<close>

definition desc_base :: "DESCRIPTOR \<Rightarrow> u32" where
  "desc_base d = push_bit 24 (ucast (base_high d)) OR push_bit 16 (ucast (base_mid d)) OR
     ucast (base_low d)"

definition seg2linear :: "(nat \<Rightarrow> DESCRIPTOR) \<Rightarrow> u16 \<Rightarrow> u32" where
  "seg2linear gdt seg = desc_base (gdt (unat (drop_bit 3 seg)))"

text \<open>The macros \<open>reassembly\<close> and \<open>makelinear\<close> of \<^verbatim>\<open>protect.h\<close>.\<close>

definition reassembly :: "u32 \<Rightarrow> nat \<Rightarrow> u32 \<Rightarrow> nat \<Rightarrow> u32 \<Rightarrow> u32" where
  "reassembly high high_shift mid mid_shift low =
     push_bit high_shift high + push_bit mid_shift mid + low"

definition makelinear :: "(nat \<Rightarrow> DESCRIPTOR) \<Rightarrow> u16 \<Rightarrow> u32 \<Rightarrow> u32" where
  "makelinear gdt seg off = seg2linear gdt seg + off"

definition init_idt_desc :: "u8 \<Rightarrow> u8 \<Rightarrow> u32 \<Rightarrow> u8 \<Rightarrow> (nat \<Rightarrow> GATE) \<Rightarrow> (nat \<Rightarrow> GATE)" where
  "init_idt_desc vector desc_type handler privilege idt = idt(unat vector := \<lparr>
     offset_low = ucast (handler AND 0xffff),
     selector = SELECTOR_KERNEL_CS,
     dcount = 0,
     attribute = desc_type OR push_bit 5 privilege,
     offset_high = ucast (drop_bit 16 handler AND 0xffff)\<rparr>)"

subsection \<open>The interrupt descriptor table and init_protect()\<close>

text \<open>The entry points of \<^verbatim>\<open>kernel/kernel.asm\<close>; \<open>hwint i\<close> is \<open>hwint00\<close> to \<open>hwint15\<close>.\<close>

datatype entry_point = divide_error | single_step_exception | nmi | breakpoint_exception
  | overflow | bounds_check | inval_opcode | copr_not_available | double_fault
  | copr_seg_overrun | inval_tss | segment_not_present | stack_exception
  | general_protection | page_fault | copr_error | hwint nat | sys_call

text \<open>The \<open>init_idt_desc()\<close> calls of \<open>init_protect()\<close>, in order: vector, entry, privilege.\<close>

definition idt_calls :: "(u8 \<times> entry_point \<times> u8) list" where
  "idt_calls = [
     (0x0, divide_error, PRIVILEGE_KERNEL), (0x1, single_step_exception, PRIVILEGE_KERNEL),
     (0x2, nmi, PRIVILEGE_KERNEL), (0x3, breakpoint_exception, PRIVILEGE_USER),
     (0x4, overflow, PRIVILEGE_USER), (0x5, bounds_check, PRIVILEGE_KERNEL),
     (0x6, inval_opcode, PRIVILEGE_KERNEL), (0x7, copr_not_available, PRIVILEGE_KERNEL),
     (0x8, double_fault, PRIVILEGE_KERNEL), (0x9, copr_seg_overrun, PRIVILEGE_KERNEL),
     (0xa, inval_tss, PRIVILEGE_KERNEL), (0xb, segment_not_present, PRIVILEGE_KERNEL),
     (0xc, stack_exception, PRIVILEGE_KERNEL), (0xd, general_protection, PRIVILEGE_KERNEL),
     (0xe, page_fault, PRIVILEGE_KERNEL), (0x10, copr_error, PRIVILEGE_KERNEL),
     (0x20, hwint 0, PRIVILEGE_KERNEL), (0x21, hwint 1, PRIVILEGE_KERNEL),
     (0x22, hwint 2, PRIVILEGE_KERNEL), (0x23, hwint 3, PRIVILEGE_KERNEL),
     (0x24, hwint 4, PRIVILEGE_KERNEL), (0x25, hwint 5, PRIVILEGE_KERNEL),
     (0x26, hwint 6, PRIVILEGE_KERNEL), (0x27, hwint 7, PRIVILEGE_KERNEL),
     (0x28, hwint 8, PRIVILEGE_KERNEL), (0x29, hwint 9, PRIVILEGE_KERNEL),
     (0x2a, hwint 10, PRIVILEGE_KERNEL), (0x2b, hwint 11, PRIVILEGE_KERNEL),
     (0x2c, hwint 12, PRIVILEGE_KERNEL), (0x2d, hwint 13, PRIVILEGE_KERNEL),
     (0x2e, hwint 14, PRIVILEGE_KERNEL), (0x2f, hwint 15, PRIVILEGE_KERNEL),
     (0x90, sys_call, PRIVILEGE_USER)]"

record TSS =
  backlink :: u32
  esp0 :: u32
  ss0 :: u32
  esp1 :: u32
  ss1 :: u32
  esp2 :: u32
  ss2 :: u32
  cr3 :: u32
  tss_eip :: u32
  tss_eflags :: u32
  tss_eax :: u32
  tss_ecx :: u32
  tss_edx :: u32
  tss_ebx :: u32
  tss_esp :: u32
  tss_ebp :: u32
  tss_esi :: u32
  tss_edi :: u32
  tss_es :: u32
  tss_cs :: u32
  tss_ss :: u32
  tss_ds :: u32
  tss_fs :: u32
  tss_gs :: u32
  ldt :: u32
  trap :: u16
  iobase :: u16

definition zero_tss :: TSS where
  "zero_tss = \<lparr>backlink = 0, esp0 = 0, ss0 = 0, esp1 = 0, ss1 = 0, esp2 = 0, ss2 = 0, cr3 = 0,
     tss_eip = 0, tss_eflags = 0, tss_eax = 0, tss_ecx = 0, tss_edx = 0, tss_ebx = 0,
     tss_esp = 0, tss_ebp = 0, tss_esi = 0, tss_edi = 0, tss_es = 0, tss_cs = 0, tss_ss = 0,
     tss_ds = 0, tss_fs = 0, tss_gs = 0, ldt = 0, trap = 0, iobase = 0\<rparr>"

record STACK_FRAME =
  r_gs :: u32
  r_fs :: u32
  r_es :: u32
  r_ds :: u32
  r_edi :: u32
  r_esi :: u32
  r_ebp :: u32
  r_kernel_esp :: u32
  r_ebx :: u32
  r_edx :: u32
  r_ecx :: u32
  r_eax :: u32
  r_retaddr :: u32
  r_eip :: u32
  r_cs :: u32
  r_eflags :: u32
  r_esp :: u32
  r_ss :: u32

text \<open>
  A \<open>PROCESS *\<close> is the index of the slot it points to and the null pointer is \<^const>\<open>None\<close>; a
  \<open>MESSAGE *\<close> is a 32-bit address; an entry of \<open>filp\<close> is an index into the descriptor table.
\<close>

record PROCESS =
  p_regs :: STACK_FRAME
  p_ldt_sel :: u16
  p_ldts :: "nat \<Rightarrow> DESCRIPTOR"
  p_pid :: u32
  p_name :: string
  p_ticks :: int
  p_priority :: int
  p_flags :: u32
  p_msg :: u32
  p_recvfrom :: int
  p_sendto :: int
  p_has_int_msg :: int
  p_sending_queue :: "int option"
  p_next_sending :: "int option"
  p_filp :: "nat \<Rightarrow> nat option"
  p_parent :: int
  p_exit_status :: int

text \<open>What \<open>memset (.., 0, sizeof (PROCESS))\<close> leaves.\<close>

definition zero_frame :: STACK_FRAME where
  "zero_frame = \<lparr>r_gs = 0, r_fs = 0, r_es = 0, r_ds = 0, r_edi = 0, r_esi = 0, r_ebp = 0,
     r_kernel_esp = 0, r_ebx = 0, r_edx = 0, r_ecx = 0, r_eax = 0, r_retaddr = 0, r_eip = 0,
     r_cs = 0, r_eflags = 0, r_esp = 0, r_ss = 0\<rparr>"

definition zero_desc :: DESCRIPTOR where
  "zero_desc = \<lparr>limit_low = 0, base_low = 0, base_mid = 0, attr1 = 0, limit_high_attr2 = 0,
     base_high = 0\<rparr>"

definition zero_process :: PROCESS where
  "zero_process = \<lparr>p_regs = zero_frame, p_ldt_sel = 0, p_ldts = (\<lambda>_. zero_desc), p_pid = 0,
     p_name = [], p_ticks = 0, p_priority = 0, p_flags = 0, p_msg = 0, p_recvfrom = 0,
     p_sendto = 0, p_has_int_msg = 0, p_sending_queue = None, p_next_sending = None,
     p_filp = (\<lambda>_. None), p_parent = 0, p_exit_status = 0\<rparr>"

record prot =
  gdt :: "nat \<Rightarrow> DESCRIPTOR"
  idt :: "nat \<Rightarrow> GATE"
  tss :: TSS
  procs :: "nat \<Rightarrow> PROCESS"
  pics :: pic

text \<open>
  One round of the loop over the process table: process \<open>i\<close> is cleared and gets its LDT
  selector, and the GDT the descriptor of its LDT (\<open>sizeof (DESCRIPTOR) = 8\<close>, so the limit is \<open>LDT_SIZE * 8 - 1\<close>).
\<close>

definition init_ldt :: "(nat \<Rightarrow> u32) \<Rightarrow> nat \<Rightarrow> prot \<Rightarrow> prot res" where
  "init_ldt ldts_addr i s =
     assertE (INDEX_LDT_FIRST + i < GDT_SIZE) ''INDEX_LDT_FIRST + i < GDT_SIZE''
      (Inr (s\<lparr>procs := (procs s)(i := zero_process\<lparr>p_ldt_sel := SELECTOR_LDT_FIRST + push_bit 3 (of_nat i)\<rparr>),
              gdt := (gdt s)(INDEX_LDT_FIRST + i :=
                init_desc (makelinear (gdt s) SELECTOR_KERNEL_DS (ldts_addr i)) 15 DA_LDT)\<rparr>))"

fun init_ldts :: "(nat \<Rightarrow> u32) \<Rightarrow> nat list \<Rightarrow> prot \<Rightarrow> prot res" where
  "init_ldts ldts_addr [] s = Inr s"
| "init_ldts ldts_addr (i # is) s = bindE (init_ldt ldts_addr i s) (init_ldts ldts_addr is)"

definition init_protect :: "(entry_point \<Rightarrow> u32) \<Rightarrow> u32 \<Rightarrow> (nat \<Rightarrow> u32) \<Rightarrow> prot \<Rightarrow> prot res" where
  "init_protect addr tss_addr ldts_addr s =
     (let s1 = s\<lparr>pics := init_8259A (pics s),
                 idt := fold (\<lambda>(v, h, pr). init_idt_desc v DA_386IGate (addr h) pr)
                        idt_calls (idt s),
                 tss := zero_tss\<lparr>ss0 := ucast SELECTOR_KERNEL_DS\<rparr>\<rparr>;
          s2 = s1\<lparr>gdt := (gdt s1)(INDEX_TSS :=
                   init_desc (makelinear (gdt s1) SELECTOR_KERNEL_DS tss_addr) 103 DA_386TSS),
                 tss := (tss s1)\<lparr>iobase := 104\<rparr>\<rparr>
      in init_ldts ldts_addr [0..<nat (NR_TASKS + NR_PROCS)] s2)"

subsection \<open>Read-back lemmas\<close>

lemma desc_base_init_desc [simp]: "desc_base (init_desc base limit attrib) = base"
proof (rule bit_word_eqI)
  fix n assume "n < LENGTH(32)"
  then consider "n < 16" | "16 \<le> n" "n < 24" | "24 \<le> n" "n < 32" by fastforce
  then show "bit (desc_base (init_desc base limit attrib)) n \<longleftrightarrow> bit base n"
    by cases (auto simp: desc_base_def init_desc_def and_masks bit_simps)
qed

text \<open>The limit the processor reads: 16 low bits and the low nibble of the fifth field.\<close>

definition desc_limit :: "DESCRIPTOR \<Rightarrow> u32" where
  "desc_limit d = ucast (limit_low d) OR push_bit 16 (ucast (limit_high_attr2 d AND 0xf))"

lemma desc_limit_init_desc: "desc_limit (init_desc base limit attrib) = take_bit 20 limit"
proof (rule bit_word_eqI)
  fix n assume "n < LENGTH(32)"
  then consider "n < 16" | "16 \<le> n" "n < 20" | "20 \<le> n" "n < 32" by fastforce
  then show "bit (desc_limit (init_desc base limit attrib)) n \<longleftrightarrow> bit (take_bit 20 limit) n"
    by cases (auto simp: desc_limit_def init_desc_def and_masks and_f0 bit_simps)
qed

lemma desc_attr_init_desc:
  "attr1 (init_desc base limit attrib) = ucast attrib"
  "drop_bit 4 (limit_high_attr2 (init_desc base limit attrib)) = ucast (drop_bit 12 attrib)"
proof -
  show "attr1 (init_desc base limit attrib) = ucast attrib"
    by (rule bit_word_eqI) (auto simp: init_desc_def and_masks bit_simps)
  show "drop_bit 4 (limit_high_attr2 (init_desc base limit attrib)) = ucast (drop_bit 12 attrib)"
    by (rule bit_word_eqI) (auto simp: init_desc_def and_masks and_f0 bit_simps dest: bit_imp_le_length)
qed

text \<open>The address and privilege level the processor reads out of a gate.\<close>

definition gate_offset :: "GATE \<Rightarrow> u32" where
  "gate_offset g = push_bit 16 (ucast (offset_high g)) OR ucast (offset_low g)"

definition gate_dpl :: "GATE \<Rightarrow> u8" where
  "gate_dpl g = drop_bit 5 (attribute g) AND 3"

lemma gate_offset_init_idt_desc:
  "gate_offset (init_idt_desc v t h pr tbl (unat v)) = h"
  by (rule bit_word_eqI)
    (auto simp: init_idt_desc_def gate_offset_def and_masks bit_simps not_less)

lemma init_idt_desc_other: "n \<noteq> unat v \<Longrightarrow> init_idt_desc v t h pr tbl n = tbl n"
  by (simp add: init_idt_desc_def)

lemma fold_idt_other:
  "n \<notin> (\<lambda>c. unat (fst c)) ` set cs \<Longrightarrow>
   fold (\<lambda>(v, h, pr). init_idt_desc v t (addr h) pr) cs tbl n = tbl n"
  by (induction cs arbitrary: tbl) (auto simp: init_idt_desc_other)

lemma fold_idt_lookup:
  "distinct (map (\<lambda>c. unat (fst c)) cs) \<Longrightarrow> (v, h, pr) \<in> set cs \<Longrightarrow>
   fold (\<lambda>(v, h, pr). init_idt_desc v t (addr h) pr) cs tbl (unat v) =
   init_idt_desc v t (addr h) pr tbl' (unat v)"
proof (induction cs arbitrary: tbl)
  case (Cons c cs)
  show ?case
  proof (cases "c = (v, h, pr)")
    case True
    with Cons.prems have "unat v \<notin> (\<lambda>c. unat (fst c)) ` set cs" by auto
    with True show ?thesis by (simp add: fold_idt_other) (simp add: init_idt_desc_def)
  next
    case False
    with Cons.prems have "(v, h, pr) \<in> set cs" "distinct (map (\<lambda>c. unat (fst c)) cs)" by simp_all
    with Cons.IH show ?thesis by simp
  qed
qed simp

lemma idt_calls_distinct: "distinct (map (\<lambda>c. unat (fst c)) idt_calls)"
  by (simp add: idt_calls_def)

lemma idt_calls_privilege:
  "(v, h, pr) \<in> set idt_calls \<Longrightarrow> pr = (if v \<in> {3, 4, 0x90} then PRIVILEGE_USER else PRIVILEGE_KERNEL)"
  by (auto simp: idt_calls_def)

lemma init_ldts_frame:
  "init_ldts ldts_addr is s = Inr s' \<Longrightarrow>
   idt s' = idt s \<and> tss s' = tss s \<and> pics s' = pics s \<and>
   (\<forall>n. n < INDEX_LDT_FIRST \<longrightarrow> gdt s' n = gdt s n) \<and>
   (\<forall>i. i \<notin> set is \<longrightarrow> procs s' i = procs s i \<and>
      gdt s' (INDEX_LDT_FIRST + i) = gdt s (INDEX_LDT_FIRST + i))"
proof (induction "is" arbitrary: s)
  case (Cons i "is")
  from Cons.prems obtain s1 where s1: "init_ldt ldts_addr i s = Inr s1"
    and rest: "init_ldts ldts_addr is s1 = Inr s'"
    by (auto simp: res_simps)
  from Cons.IH [OF rest] s1 show ?case
    by (auto simp: init_ldt_def res_simps)
qed simp

lemma init_ldts_total:
  "\<forall>i\<in>set is. INDEX_LDT_FIRST + i < GDT_SIZE \<Longrightarrow> \<exists>s'. init_ldts ldts_addr is s = Inr s'"
  by (induction "is" arbitrary: s) (simp_all add: init_ldt_def)

lemma init_ldts_lookup:
  assumes "init_ldts ldts_addr is s = Inr s'" "i \<in> set is" "distinct is"
  shows "procs s' i = zero_process\<lparr>p_ldt_sel := SELECTOR_LDT_FIRST + push_bit 3 (of_nat i)\<rparr> \<and>
    gdt s' (INDEX_LDT_FIRST + i) =
      init_desc (makelinear (gdt s) SELECTOR_KERNEL_DS (ldts_addr i)) 15 DA_LDT"
  using assms
proof (induction "is" arbitrary: s)
  case (Cons j "is")
  from Cons.prems(1) obtain s1 where s1: "init_ldt ldts_addr j s = Inr s1"
    and rest: "init_ldts ldts_addr is s1 = Inr s'"
    by (auto simp: res_simps)
  have same: "makelinear (gdt s1) SELECTOR_KERNEL_DS x = makelinear (gdt s) SELECTOR_KERNEL_DS x" for x
    using s1 by (auto simp: init_ldt_def res_simps makelinear_def seg2linear_def)
  show ?case
  proof (cases "i = j")
    case True
    with Cons.prems(3) have "i \<notin> set is" by simp
    with init_ldts_frame [OF rest] s1 True show ?thesis by (auto simp: init_ldt_def res_simps)
  next
    case False
    with Cons.prems Cons.IH [OF rest] same show ?thesis by auto
  qed
qed simp

lemma ldt_selector_index:
  "i < 37 \<Longrightarrow> unat (drop_bit 3 (SELECTOR_LDT_FIRST + push_bit 3 (of_nat i :: u16))) = INDEX_LDT_FIRST + i"
proof -
  assume "i < 37"
  then have "i \<in> set [0..<37]" by simp
  then show ?thesis by (simp add: upt_rec) (elim disjE; simp)
qed

subsection \<open>Properties\<close>

text \<open>The descriptors below the one of the TSS stay as they are.\<close>

lemma init_protect_frame:
  "\<exists>s'. init_protect addr tss_addr ldts_addr s = Inr s' \<and> (\<forall>i<INDEX_TSS. gdt s' i = gdt s i)"
proof -
  define s2 where "s2 = s\<lparr>pics := init_8259A (pics s), idt := fold (\<lambda>(v, h, pr). init_idt_desc v DA_386IGate (addr h) pr) idt_calls (idt s),
    gdt := (gdt s)(INDEX_TSS := init_desc (makelinear (gdt s) SELECTOR_KERNEL_DS tss_addr) 103 DA_386TSS),
    tss := zero_tss\<lparr>ss0 := ucast SELECTOR_KERNEL_DS, iobase := 104\<rparr>\<rparr>"
  obtain s' where s': "init_ldts ldts_addr [0..<37] s2 = Inr s'" using init_ldts_total [of "[0..<37]" ldts_addr s2] by auto
  then have "init_protect addr tss_addr ldts_addr s = Inr s'" by (simp add: init_protect_def s2_def Let_def)
  moreover have "gdt s' i = gdt s i" if "i < INDEX_TSS" for i using init_ldts_frame [OF s'] that by (simp add: s2_def)
  ultimately show ?thesis by blast
qed

text \<open>
  A descriptor filled by \<open>init_desc()\<close> reads back its base through the shifts of
  \<open>seg2linear()\<close> and \<open>ldt_seg_linear()\<close>, the low 20 bits of its limit, and all attribute
  bits outside the limit nibble.
\<close>

theorem init_desc_roundtrip:
  "desc_base (init_desc base limit attrib) = base \<and>
   desc_limit (init_desc base limit attrib) = take_bit 20 limit \<and>
   attr1 (init_desc base limit attrib) = ucast attrib \<and>
   drop_bit 4 (limit_high_attr2 (init_desc base limit attrib)) = ucast (drop_bit 12 attrib)"
  by (simp add: desc_limit_init_desc desc_attr_init_desc)

text \<open>
  C9: \<open>init_protect()\<close> never fails its assertion; afterwards every interrupt line is masked
  and has the handler for spurious interrupts, the LDT selector of every
  process slot names the GDT descriptor whose base is the linear address of that
  process's LDT, every gate installed points at its entry point through the kernel code
  segment, and user code can raise exactly the breakpoint, overflow and system-call
  vectors.
\<close>

theorem init_protect_correct:
  "\<exists>s'. init_protect addr tss_addr ldts_addr s = Inr s' \<and>
     (\<forall>i<37. desc_base (gdt s' (unat (drop_bit 3 (p_ldt_sel (procs s' i))))) =
        seg2linear (gdt s) SELECTOR_KERNEL_DS + ldts_addr i) \<and>
     desc_base (gdt s' INDEX_TSS) = seg2linear (gdt s) SELECTOR_KERNEL_DS + tss_addr \<and>
     (\<forall>(v, h, pr)\<in>set idt_calls. gate_offset (idt s' (unat v)) = addr h \<and>
        selector (idt s' (unat v)) = SELECTOR_KERNEL_CS \<and>
        (gate_dpl (idt s' (unat v)) = 3 \<longleftrightarrow> v \<in> {3, 4, 0x90})) \<and>
     (\<forall>irq<NR_IRQ. \<not> irq_on (pics s') irq \<and> irq_table (pics s') irq = Spurious_irq)"
proof -
  let ?tbl = "fold (\<lambda>(v, h, pr). init_idt_desc v DA_386IGate (addr h) pr) idt_calls (idt s)"
  define s2 where "s2 = s\<lparr>pics := init_8259A (pics s), idt := ?tbl,
    gdt := (gdt s)(INDEX_TSS :=
      init_desc (makelinear (gdt s) SELECTOR_KERNEL_DS tss_addr) 103 DA_386TSS),
    tss := zero_tss\<lparr>ss0 := ucast SELECTOR_KERNEL_DS, iobase := 104\<rparr>\<rparr>"
  obtain s' where s': "init_ldts ldts_addr [0..<37] s2 = Inr s'"
    using init_ldts_total [of "[0..<37]" ldts_addr s2] by auto
  have run: "init_protect addr tss_addr ldts_addr s = Inr s'"
    using s' by (simp add: init_protect_def s2_def Let_def)
  have ds: "seg2linear (gdt s2) SELECTOR_KERNEL_DS = seg2linear (gdt s) SELECTOR_KERNEL_DS"
    by (simp add: s2_def seg2linear_def)
  have ldts: "desc_base (gdt s' (unat (drop_bit 3 (p_ldt_sel (procs s' i))))) =
      seg2linear (gdt s) SELECTOR_KERNEL_DS + ldts_addr i" if "i < 37" for i
    using init_ldts_lookup [OF s', of i] that ds
    by (simp add: ldt_selector_index makelinear_def)
  have frame: "idt s' = ?tbl" "gdt s' INDEX_TSS = gdt s2 INDEX_TSS" "pics s' = init_8259A (pics s)"
    using init_ldts_frame [OF s'] by (simp_all add: s2_def)
  have gates: "gate_offset (?tbl (unat v)) = addr h \<and> selector (?tbl (unat v)) = SELECTOR_KERNEL_CS \<and>
      (gate_dpl (?tbl (unat v)) = 3 \<longleftrightarrow> v \<in> {3, 4, 0x90})" if "(v, h, pr) \<in> set idt_calls" for v h pr
    unfolding fold_idt_lookup [OF idt_calls_distinct that, where tbl' = "idt s"]
    using idt_calls_privilege [OF that]
    by (simp only: gate_offset_init_idt_desc) (simp add: init_idt_desc_def gate_dpl_def)
  show ?thesis
    using run ldts gates by (intro exI [of _ s']) (auto simp: frame s2_def makelinear_def init_8259A_off)
qed

theorem init_protect_correct_witness:
  "let s = \<lparr>gdt = (\<lambda>_. init_desc 0 0xfffff 0xc092), idt = (\<lambda>_. undefined), tss = zero_tss,
        procs = (\<lambda>_. zero_process), pics = \<lparr>outs = [], irq_table = (\<lambda>_. Spurious_irq)\<rparr>\<rparr>
   in \<exists>s'. init_protect (\<lambda>_. 0x1234) 0x5000 (\<lambda>i. 0x6000 + of_nat i * 16) s = Inr s' \<and>
     desc_base (gdt s' (unat (drop_bit 3 (p_ldt_sel (procs s' 3))))) = 0x6030"
proof -
  let ?s = "\<lparr>gdt = (\<lambda>_. init_desc 0 0xfffff 0xc092), idt = (\<lambda>_. undefined), tss = zero_tss,
        procs = (\<lambda>_. zero_process), pics = \<lparr>outs = [], irq_table = (\<lambda>_. Spurious_irq)\<rparr>\<rparr>"
  obtain s' where "init_protect (\<lambda>_. 0x1234) 0x5000 (\<lambda>i. 0x6000 + of_nat i * 16) ?s = Inr s'"
    "\<forall>i<37. desc_base (gdt s' (unat (drop_bit 3 (p_ldt_sel (procs s' i))))) =
        seg2linear (gdt ?s) SELECTOR_KERNEL_DS + (0x6000 + of_nat i * 16)"
    using init_protect_correct [where addr = "\<lambda>_. 0x1234" and tss_addr = "0x5000"
        and ldts_addr = "\<lambda>i. 0x6000 + of_nat i * 16" and s = ?s] by auto
  then show ?thesis by (auto simp: Let_def seg2linear_def)
qed

end
