(* ===== verification/Proc.thy ===== *)
theory Proc
  imports Protect
begin

section \<open>The process table, the scheduler and message passing (kernel/proc.c)\<close>

text \<open>
  The kernel's globals the routines of \<^verbatim>\<open>kernel/proc.c\<close> and \<^verbatim>\<open>kernel/clock.c\<close> change,
  and those routines.

  A \<open>PROCESS *\<close> is the index of the slot it points to (so \<open>proc2pid\<close> is the identity) and
  the null pointer is \<^const>\<open>None\<close>. The table is a function on \<^typ>\<open>int\<close>: an index
  outside the table stands for the memory next to it, because \<open>msg_receive()\<close> does read
  \<open>proc_table[INTERRUPT]\<close>, that is \<open>proc_table[-10]\<close>. \<^verbatim>\<open>kernel/global.c\<close> declares nine entries while
  the loops of the code walk 37; the model has the table the loops assume, with memory of its
  own for each of the 37 slots. A \<open>MESSAGE *\<close> is a 32-bit address,
  0 the null pointer, and \<open>messages\<close> is the store of \<open>MESSAGE\<close> objects by linear address,
  so that two pointers to the same message alias.
\<close>

subsection \<open>Data\<close>

record kernel =
  proc_table :: "int \<Rightarrow> PROCESS"
  p_proc_ready :: int
  messages :: "u32 \<Rightarrow> MESSAGE"
  k_reenter :: u32
  ticks :: int
  key_pressed :: int

definition upd_proc :: "int \<Rightarrow> (PROCESS \<Rightarrow> PROCESS) \<Rightarrow> kernel \<Rightarrow> kernel" where
  "upd_proc p f s = s\<lparr>proc_table := (proc_table s)(p := f (proc_table s p))\<rparr>"

text \<open>Slots \<open>FIRST_PROC\<close> to \<open>LAST_PROC\<close>, in the order of the loops over the table.\<close>

definition slots :: "int list" where
  "slots = [0..NR_TASKS + NR_PROCS - 1]"

subsection \<open>The scheduler\<close>

text \<open>
  The inner loop of \<open>schedule()\<close>: \<open>g\<close> is \<open>greatest_ticks\<close>, \<open>r\<close> is \<open>p_proc_ready\<close>.
\<close>

fun scan_ready :: "(int \<Rightarrow> PROCESS) \<Rightarrow> int list \<Rightarrow> int \<Rightarrow> int \<Rightarrow> int \<times> int" where
  "scan_ready pt [] g r = (g, r)"
| "scan_ready pt (p # ps) g r =
     (if p_flags (pt p) = 0 \<and> p_ticks (pt p) > g then scan_ready pt ps (p_ticks (pt p)) p
      else scan_ready pt ps g r)"

definition refill :: "(int \<Rightarrow> PROCESS) \<Rightarrow> (int \<Rightarrow> PROCESS)" where
  "refill pt = (\<lambda>p. if p \<in> set slots then (pt p)\<lparr>p_ticks := p_priority (pt p)\<rparr> else pt p)"

text \<open>\<open>schedule()\<close> loops until some slot is chosen; \<^const>\<open>None\<close> is a loop that never ends.\<close>

partial_function (option) schedule :: "kernel \<Rightarrow> kernel option" where
  "schedule s =
     (let (g, r) = scan_ready (proc_table s) slots 0 (p_proc_ready s);
          s1 = s\<lparr>p_proc_ready := r\<rparr>
      in if g \<noteq> 0 then Some s1 else schedule (s1\<lparr>proc_table := refill (proc_table s1)\<rparr>))"

subsection \<open>Addresses\<close>

definition ldt_seg_linear :: "PROCESS \<Rightarrow> nat \<Rightarrow> u32" where
  "ldt_seg_linear p index =
     (let desc = p_ldts p index
      in push_bit 24 (ucast (base_high desc)) OR push_bit 16 (ucast (base_mid desc)) OR
         ucast (base_low desc))"

definition va2la :: "kernel \<Rightarrow> int \<Rightarrow> u32 \<Rightarrow> u32 res" where
  "va2la s pid va =
     (let seg_base = ldt_seg_linear (proc_table s pid) INDEX_LDT_DATA;
          la = seg_base + va
      in if pid < NR_TASKS + NR_NATIVE_PROCS then assertE (la = va) ''la == (u32)va'' (Inr la)
         else Inr la)"

subsection \<open>Blocking, deadlock detection\<close>

definition block :: "int \<Rightarrow> kernel \<Rightarrow> kernel res" where
  "block p s = assertE (p_flags (proc_table s p) \<noteq> 0) ''p->flags''
     (loopE (schedule s) ''schedule'' Inr)"

definition unblock :: "int \<Rightarrow> kernel \<Rightarrow> kernel res" where
  "unblock p s = assertE (p_flags (proc_table s p) = 0) ''p->flags == 0'' (Inr s)"

text \<open>
  The do-while loop of \<open>deadlock()\<close> that prints the cycle: it asserts that every process on
  it has a message and stops at \<open>src\<close>. The printed names are not kept: \<open>msg_send()\<close>
  panics when the routine returns 1.
\<close>

partial_function (option) print_cycle :: "(int \<Rightarrow> PROCESS) \<Rightarrow> int \<Rightarrow> int \<Rightarrow> (unit res) option" where
  "print_cycle pt src p =
     (if p_msg (pt p) = 0 then Some (Inl (AssertFailed ''p->msg''))
      else let q = p_sendto (pt p) in
        if q = src then Some (Inr ()) else print_cycle pt src q)"

partial_function (option) deadlock_from ::
    "(int \<Rightarrow> PROCESS) \<Rightarrow> int \<Rightarrow> int \<Rightarrow> int \<Rightarrow> (bool res) option" where
  "deadlock_from pt src dest p =
     (if p_flags (pt p) AND SENDING \<noteq> 0 then
        if p_sendto (pt p) = src then
          (case print_cycle pt src dest of None \<Rightarrow> None
           | Some r \<Rightarrow> Some (bindE r (\<lambda>_. Inr True)))
        else deadlock_from pt src dest (p_sendto (pt p))
      else Some (Inr False))"

definition deadlock :: "kernel \<Rightarrow> int \<Rightarrow> int \<Rightarrow> bool res" where
  "deadlock s src dest =
     loopE (deadlock_from (proc_table s) src dest dest) ''deadlock'' (\<lambda>r. r)"

subsection \<open>msg_send()\<close>

text \<open>The walk to the end of the sending queue: \<open>while (p->next_sending) p = p->next_sending\<close>.\<close>

partial_function (option) last_sending :: "(int \<Rightarrow> PROCESS) \<Rightarrow> int \<Rightarrow> int option" where
  "last_sending pt p =
     (case p_next_sending (pt p) of None \<Rightarrow> Some p | Some q \<Rightarrow> last_sending pt q)"

definition append_sender :: "int \<Rightarrow> int \<Rightarrow> kernel \<Rightarrow> kernel res" where
  "append_sender sender dest s =
     bindE (case p_sending_queue (proc_table s dest) of
              Some q \<Rightarrow> loopE (last_sending (proc_table s) q) ''sending_queue''
                (\<lambda>l. Inr (upd_proc l (\<lambda>p. p\<lparr>p_next_sending := Some sender\<rparr>) s))
            | None \<Rightarrow> Inr (upd_proc dest (\<lambda>p. p\<lparr>p_sending_queue := Some sender\<rparr>) s))
       (\<lambda>s1. Inr (upd_proc sender (\<lambda>p. p\<lparr>p_next_sending := None\<rparr>) s1))"

text \<open>The assertions both routines make of a process that is not taking part in a transfer.\<close>

definition assert_idle :: "int \<Rightarrow> kernel \<Rightarrow> 'a res \<Rightarrow> 'a res" where
  "assert_idle p s k =
     assertE (p_flags (proc_table s p) = 0) ''flags == 0''
    (assertE (p_msg (proc_table s p) = 0) ''msg == 0''
    (assertE (p_recvfrom (proc_table s p) = NO_TASK) ''recvfrom == NO_TASK''
    (assertE (p_sendto (proc_table s p) = NO_TASK) ''sendto == NO_TASK'' k)))"

definition send_deliver :: "int \<Rightarrow> int \<Rightarrow> u32 \<Rightarrow> kernel \<Rightarrow> kernel res" where
  "send_deliver sender dest msg s =
     assertE (p_msg (proc_table s dest) \<noteq> 0) ''pdest->msg''
    (assertE (msg \<noteq> 0) ''msg''
    (bindE (va2la s dest (p_msg (proc_table s dest))) (\<lambda>dst.
     bindE (va2la s sender msg) (\<lambda>src.
       let s1 = s\<lparr>messages := (messages s)(dst := messages s src)\<rparr>;
           s2 = upd_proc dest (\<lambda>p. p\<lparr>p_msg := 0, p_flags := p_flags p AND NOT RECEIVING,
                                     p_recvfrom := NO_TASK\<rparr>) s1
       in bindE (unblock dest s2) (\<lambda>s3. assert_idle dest s3 (assert_idle sender s3 (Inr s3)))))))"

definition send_block :: "int \<Rightarrow> int \<Rightarrow> u32 \<Rightarrow> kernel \<Rightarrow> kernel res" where
  "send_block sender dest msg s =
     (let s1 = upd_proc sender (\<lambda>p. p\<lparr>p_flags := p_flags p OR SENDING\<rparr>) s
      in assertE (p_flags (proc_table s1 sender) = SENDING) ''sender->flags == SENDING''
        (bindE (append_sender sender dest
                 (upd_proc sender (\<lambda>p. p\<lparr>p_sendto := dest, p_msg := msg\<rparr>) s1)) (\<lambda>s2.
         bindE (block sender s2) (\<lambda>s3.
           assertE (p_flags (proc_table s3 sender) = SENDING) ''sender->flags == SENDING''
          (assertE (p_msg (proc_table s3 sender) \<noteq> 0) ''sender->msg != 0''
          (assertE (p_recvfrom (proc_table s3 sender) = NO_TASK) ''sender->recvfrom == NO_TASK''
          (assertE (p_sendto (proc_table s3 sender) = dest) ''sender->sendto == dest'' (Inr s3))))))))"

definition msg_send :: "int \<Rightarrow> int \<Rightarrow> u32 \<Rightarrow> kernel \<Rightarrow> kernel res" where
  "msg_send sender dest msg s =
     assertE (sender \<noteq> dest) ''proc2pid(sender) != dest''
    (bindE (deadlock s sender dest) (\<lambda>cyclic.
       if cyclic then Inl (Panic ''>>DEADLOCK<<'')
       else if p_flags (proc_table s dest) AND RECEIVING \<noteq> 0 \<and>
               (p_recvfrom (proc_table s dest) = sender \<or> p_recvfrom (proc_table s dest) = ANY)
       then send_deliver sender dest msg s
       else send_block sender dest msg s))"

subsection \<open>msg_receive()\<close>

text \<open>
  The search of the sending queue for \<open>src\<close>, \<open>prev\<close> trailing behind, entered with a
  non-null \<open>p\<close> (asserted before it). The assertion inside the loop,
  \<open>from->flags & SENDING\<close>, repeats the condition under which the loop is entered.
\<close>

partial_function (option) find_prev ::
    "(int \<Rightarrow> PROCESS) \<Rightarrow> int \<Rightarrow> int option \<Rightarrow> int \<Rightarrow> (int option) option" where
  "find_prev pt src prev p =
     (if p = src then Some prev
      else case p_next_sending (pt p) of None \<Rightarrow> Some (Some p)
           | Some q \<Rightarrow> find_prev pt src (Some p) q)"

definition receive_interrupt :: "int \<Rightarrow> u32 \<Rightarrow> kernel \<Rightarrow> kernel res" where
  "receive_interrupt r msg s =
     assertE (msg \<noteq> 0) ''msg''
    (bindE (va2la s r msg) (\<lambda>dst.
       let m = zero_msg\<lparr>source := INTERRUPT, mtype := HARDWARE_INT\<rparr>;
           s1 = upd_proc r (\<lambda>p. p\<lparr>p_has_int_msg := 0\<rparr>)
                  (s\<lparr>messages := (messages s)(dst := m)\<rparr>)
       in assertE (p_flags (proc_table s1 r) = 0) ''flags == 0''
         (assertE (p_msg (proc_table s1 r) = 0) ''msg == 0''
         (assertE (p_sendto (proc_table s1 r) = NO_TASK) ''sendto == NO_TASK''
         (assertE (p_has_int_msg (proc_table s1 r) = 0) ''has_int_msg == 0'' (Inr s1))))))"

definition assert_sending :: "int \<Rightarrow> int \<Rightarrow> kernel \<Rightarrow> 'a res \<Rightarrow> 'a res" where
  "assert_sending from r s k =
     assertE (p_flags (proc_table s from) = SENDING) ''from->flags == SENDING''
    (assertE (p_msg (proc_table s from) \<noteq> 0) ''from->msg != 0''
    (assertE (p_recvfrom (proc_table s from) = NO_TASK) ''from->recvfrom == NO_TASK''
    (assertE (p_sendto (proc_table s from) = r) ''from->sendto'' k)))"

definition unlink_sender :: "int \<Rightarrow> int \<Rightarrow> int option \<Rightarrow> kernel \<Rightarrow> kernel res" where
  "unlink_sender r from prev s =
     (if p_sending_queue (proc_table s r) = Some from then
        assertE (prev = None) ''prev == 0''
          (Inr (upd_proc from (\<lambda>p. p\<lparr>p_next_sending := None\<rparr>)
             (upd_proc r (\<lambda>p. p\<lparr>p_sending_queue := p_next_sending (proc_table s from)\<rparr>) s)))
      else (case prev of
          None \<Rightarrow> Inl (AssertFailed ''prev'')
        | Some q \<Rightarrow> Inr (upd_proc from (\<lambda>p. p\<lparr>p_next_sending := None\<rparr>)
             (upd_proc q (\<lambda>p. p\<lparr>p_next_sending := p_next_sending (proc_table s from)\<rparr>) s))))"

definition receive_copy :: "int \<Rightarrow> int \<Rightarrow> int option \<Rightarrow> u32 \<Rightarrow> kernel \<Rightarrow> kernel res" where
  "receive_copy r from prev msg s =
     bindE (unlink_sender r from prev s) (\<lambda>s1.
       assertE (msg \<noteq> 0) ''msg''
      (assertE (p_msg (proc_table s1 from) \<noteq> 0) ''from->msg''
      (bindE (va2la s1 r msg) (\<lambda>dst.
       bindE (va2la s1 from (p_msg (proc_table s1 from))) (\<lambda>src.
         unblock from
           (upd_proc from (\<lambda>p. p\<lparr>p_msg := 0, p_sendto := NO_TASK,
                                 p_flags := p_flags p AND NOT SENDING\<rparr>)
             (s1\<lparr>messages := (messages s1)(dst := messages s1 src)\<rparr>)))))))"

definition receive_block :: "int \<Rightarrow> int \<Rightarrow> u32 \<Rightarrow> kernel \<Rightarrow> kernel res" where
  "receive_block r from msg s =
     bindE (block r (upd_proc r (\<lambda>p. p\<lparr>p_flags := p_flags p OR RECEIVING, p_msg := msg,
                                       p_recvfrom := from\<rparr>) s)) (\<lambda>s1.
       assertE (p_flags (proc_table s1 r) = RECEIVING) ''flags == RECEIVING''
      (assertE (p_msg (proc_table s1 r) \<noteq> 0) ''msg != 0''
      (assertE (p_recvfrom (proc_table s1 r) \<noteq> NO_TASK) ''recvfrom != NO_TASK''
      (assertE (p_sendto (proc_table s1 r) = NO_TASK) ''sendto == NO_TASK''
      (assertE (p_has_int_msg (proc_table s1 r) = 0) ''has_int_msg == 0'' (Inr s1))))))"

definition msg_receive :: "int \<Rightarrow> int \<Rightarrow> u32 \<Rightarrow> kernel \<Rightarrow> kernel res" where
  "msg_receive r src msg s =
     assertE (r \<noteq> src) ''proc2pid(p_who_wanna_recv) != src''
    (if p_has_int_msg (proc_table s r) \<noteq> 0 \<and> (src = ANY \<or> src = INTERRUPT)
     then receive_interrupt r msg s
     else if src = ANY then
       (case p_sending_queue (proc_table s r) of
          Some from \<Rightarrow> assert_idle r s (assert_sending from r s (receive_copy r from None msg s))
        | None \<Rightarrow> receive_block r ANY msg s)
     else if p_flags (proc_table s src) AND SENDING \<noteq> 0 \<and> p_sendto (proc_table s src) = r then
       (case p_sending_queue (proc_table s r) of
          None \<Rightarrow> Inl (AssertFailed ''p'')
        | Some p \<Rightarrow> loopE (find_prev (proc_table s) src None p) ''sending_queue''
           (\<lambda>prev. assert_idle r s (assert_sending src r s (receive_copy r src prev msg s))))
     else receive_block r src msg s)"

subsection \<open>Interrupts and the system call\<close>

definition inform_init :: "int \<Rightarrow> kernel \<Rightarrow> kernel res" where
  "inform_init task_nr s =
     (let p = proc_table s task_nr
      in if p_flags p AND RECEIVING \<noteq> 0 \<and> (p_recvfrom p = INTERRUPT \<or> p_recvfrom p = ANY) then
           let s1 = s\<lparr>messages := (messages s)(p_msg p := (messages s (p_msg p))
                        \<lparr>source := INTERRUPT, mtype := HARDWARE_INT\<rparr>)\<rparr>;
               s2 = upd_proc task_nr (\<lambda>p. p\<lparr>p_msg := 0, p_has_int_msg := 0,
                      p_flags := p_flags p AND NOT RECEIVING, p_recvfrom := NO_TASK\<rparr>) s1
           in assertE (p_flags (proc_table s2 task_nr) = 0) ''p->flags == 0''
             (bindE (unblock task_nr s2) (\<lambda>s3. assert_idle task_nr s3 (Inr s3)))
         else Inr (upd_proc task_nr (\<lambda>p. p\<lparr>p_has_int_msg := 1\<rparr>) s))"

definition sys_sendrec :: "int \<Rightarrow> int \<Rightarrow> u32 \<Rightarrow> int \<Rightarrow> kernel \<Rightarrow> kernel res" where
  "sys_sendrec function src_dest msg p s =
     assertE (k_reenter s = 0) ''k_reenter == 0''
    (assertE ((0 \<le> src_dest \<and> src_dest < NR_TASKS + NR_NATIVE_PROCS) \<or> src_dest = ANY \<or>
              src_dest = INTERRUPT) ''src_dest''
    (bindE (va2la s p msg) (\<lambda>mla.
       let s1 = s\<lparr>messages := (messages s)(mla := (messages s mla)\<lparr>source := p\<rparr>)\<rparr>
       in assertE (source (messages s1 mla) \<noteq> src_dest) ''mla->source != src_dest''
         (if function = SEND then msg_send p src_dest msg s1
          else if function = RECEIVE then msg_receive p src_dest msg s1
          else Inl (Panic ''{sys_sendrec} invalid function'')))))"

definition clock_handler :: "kernel \<Rightarrow> kernel res" where
  "clock_handler s =
     (let t = s32 (ticks s + 1);
          s1 = s\<lparr>ticks := (if t \<ge> MAX_TICKS then 0 else t)\<rparr>;
          s2 = (if p_ticks (proc_table s1 (p_proc_ready s1)) \<noteq> 0
                then upd_proc (p_proc_ready s1) (\<lambda>p. p\<lparr>p_ticks := s32 (p_ticks p - 1)\<rparr>) s1
                else s1)
      in bindE (if key_pressed s2 \<noteq> 0 then inform_init TASK_TTY s2 else Inr s2) (\<lambda>s3.
           if k_reenter s3 \<noteq> 0 then Inr s3
           else if p_ticks (proc_table s3 (p_proc_ready s3)) > 0 then Inr s3
           else loopE (schedule s3) ''schedule'' Inr))"

end
