(* ===== verification/Tty.thy ===== *)
theory Tty
  imports Console Keyboard Proc
begin

section \<open>Terminals (kernel/tty.c)\<close>

text \<open>
  A terminal joins a console, a ring buffer of keys and at most one pending read request.
  The task's state is the terminal table, the screen, the keyboard, the kernel (for address
  translation) and the linear memory that requests read and write. \<open>send_recv (SEND, d, &m)\<close>
  is an entry in \<open>outbox\<close>: what the kernel does with it is the subject of the theories on
  message passing. A message the code sends without filling all of it starts from \<open>junk\<close>,
  the previous content of that stack slot; \<open>loc\<close> is the address of the local variable a
  routine copies from or to.
\<close>

subsection \<open>Data\<close>

record TTY =
  inbuf :: "nat \<Rightarrow> u32"
  inbuf_head :: nat
  inbuf_tail :: nat
  inbuf_count :: int
  tty_caller :: int
  tty_procnr :: int
  tty_req_buf :: u32
  tty_left_cnt :: int
  tty_trans_cnt :: int
  tty_console :: int

record tty_state =
  tty_table :: "int \<Rightarrow> TTY"
  scr :: screen
  kb :: kbd
  kern :: kernel
  mem8 :: "u32 \<Rightarrow> u8"
  outbox :: "(int \<times> MESSAGE) list"

abbreviation (input) TTY_IN_BYTES :: nat where "TTY_IN_BYTES \<equiv> 256"
abbreviation (input) TTY_OUT_BUF_LEN :: nat where "TTY_OUT_BUF_LEN \<equiv> 2"

definition upd_tty :: "int \<Rightarrow> (TTY \<Rightarrow> TTY) \<Rightarrow> tty_state \<Rightarrow> tty_state" where
  "upd_tty t f s = s\<lparr>tty_table := (tty_table s)(t := f (tty_table s t))\<rparr>"

definition tty_out :: "int \<Rightarrow> char \<Rightarrow> tty_state \<Rightarrow> tty_state res" where
  "tty_out c ch s = bindE (out_char c ch (scr s)) (\<lambda>v. Inr (s\<lparr>scr := v\<rparr>))"

definition tty_send :: "int \<Rightarrow> MESSAGE \<Rightarrow> tty_state \<Rightarrow> tty_state" where
  "tty_send d m s = s\<lparr>outbox := outbox s @ [(d, m)]\<rparr>"

subsection \<open>The key buffer\<close>

definition put_key :: "u32 \<Rightarrow> TTY \<Rightarrow> TTY" where
  "put_key key t =
     (if inbuf_count t < int TTY_IN_BYTES then
        t\<lparr>inbuf := (inbuf t)(inbuf_head t := key),
          inbuf_head := (if Suc (inbuf_head t) = TTY_IN_BYTES then 0 else Suc (inbuf_head t)),
          inbuf_count := inbuf_count t + 1\<rparr>
      else t)"

definition take_key :: "TTY \<Rightarrow> u32 \<times> TTY" where
  "take_key t =
     (inbuf t (inbuf_tail t),
      t\<lparr>inbuf_tail := (if Suc (inbuf_tail t) = TTY_IN_BYTES then 0 else Suc (inbuf_tail t)),
        inbuf_count := inbuf_count t - 1\<rparr>)"

definition init_tty :: "int \<Rightarrow> tty_state \<Rightarrow> tty_state res" where
  "init_tty t s =
     (let s1 = upd_tty t (\<lambda>x. x\<lparr>inbuf_count := 0, inbuf_head := 0, inbuf_tail := 0, tty_console := t\<rparr>) s
      in bindE (init_screen t (scr s1)) (\<lambda>v. Inr (s1\<lparr>scr := v\<rparr>)))"

definition in_process :: "int \<Rightarrow> u32 \<Rightarrow> tty_state \<Rightarrow> tty_state res" where
  "in_process t key s =
     (if key AND FLAG_EXT = 0 then Inr (upd_tty t (put_key key) s)
      else
        let raw_code = key AND MASK_RAW;
            shift = key AND FLAG_SHIFT_L \<noteq> 0 \<or> key AND FLAG_SHIFT_R \<noteq> 0;
            alt = key AND FLAG_ALT_L \<noteq> 0 \<or> key AND FLAG_ALT_R \<noteq> 0
        in if raw_code = ENTER then Inr (upd_tty t (put_key 0x0a) s)
           else if raw_code = BACKSPACE then Inr (upd_tty t (put_key 0x08) s)
           else if raw_code = UP then
             Inr (if shift then s\<lparr>scr := scroll_screen (tty_console (tty_table s t)) SCROLL_DOWN (scr s)\<rparr> else s)
           else if raw_code = DOWN then
             Inr (if shift then s\<lparr>scr := scroll_screen (tty_console (tty_table s t)) SCROLL_UP (scr s)\<rparr> else s)
           else if F1 \<le> raw_code \<and> raw_code \<le> F12 then
             Inr (if alt then s\<lparr>scr := select_console (uint (raw_code - F1)) (scr s)\<rparr> else s)
           else Inr s)"

subsection \<open>Reading and writing\<close>

definition tty_dev_read :: "int \<Rightarrow> bool \<Rightarrow> tty_state \<Rightarrow> tty_state res" where
  "tty_dev_read t is_make s =
     (if is_current_console (tty_console (tty_table s t)) (scr s) then
        bindE (keyboard_read (in_process t) is_make (kb s) s) (\<lambda>(k, s1). Inr (s1\<lparr>kb := k\<rparr>))
      else Inr s)"

text \<open>
  The part of \<open>tty_dev_write()\<close> that serves a pending request, for the character \<open>ch\<close>:
  echo and copy, or rub out; then finish the request.
\<close>

definition tty_echo :: "u32 \<Rightarrow> int \<Rightarrow> u8 \<Rightarrow> tty_state \<Rightarrow> tty_state res" where
  "tty_echo loc t ch s =
     (if 0x20 \<le> ch \<and> ch \<le> 0x7e then
        bindE (tty_out (tty_console (tty_table s t)) (char_of (unat ch)) s) (\<lambda>s1.
          let p = tty_req_buf (tty_table s1 t) + of_int (tty_trans_cnt (tty_table s1 t))
          in bindE (va2la (kern s1) TASK_TTY loc) (\<lambda>_.
             Inr (upd_tty t (\<lambda>x. x\<lparr>tty_trans_cnt := tty_trans_cnt x + 1, tty_left_cnt := tty_left_cnt x - 1\<rparr>)
               (s1\<lparr>mem8 := (mem8 s1)(p := ch)\<rparr>))))
      else if ch = 0x08 \<and> tty_trans_cnt (tty_table s t) \<noteq> 0 then
        bindE (tty_out (tty_console (tty_table s t)) (char_of (unat ch)) s) (\<lambda>s1.
          Inr (upd_tty t (\<lambda>x. x\<lparr>tty_trans_cnt := tty_trans_cnt x - 1, tty_left_cnt := tty_left_cnt x + 1\<rparr>) s1))
      else Inr s)"

definition tty_finish :: "MESSAGE \<Rightarrow> int \<Rightarrow> u8 \<Rightarrow> tty_state \<Rightarrow> tty_state res" where
  "tty_finish junk t ch s =
     (if ch = 0x0a \<or> tty_left_cnt (tty_table s t) = 0 then
        bindE (tty_out (tty_console (tty_table s t)) (CHR 0x0A) s) (\<lambda>s1.
          Inr (upd_tty t (\<lambda>x. x\<lparr>tty_left_cnt := 0\<rparr>)
            (tty_send (tty_caller (tty_table s1 t))
              (junk\<lparr>mtype := RESUME_PROC, m3i3 := tty_procnr (tty_table s1 t),
                    m3i2 := tty_trans_cnt (tty_table s1 t)\<rparr>) s1)))
      else Inr s)"

definition tty_dev_write :: "MESSAGE \<Rightarrow> u32 \<Rightarrow> int \<Rightarrow> tty_state \<Rightarrow> tty_state res" where
  "tty_dev_write junk loc t s =
     (if inbuf_count (tty_table s t) > 0 then
        let (key, x) = take_key (tty_table s t);
            ch = ucast key;
            s1 = upd_tty t (\<lambda>_. x) s
        in if tty_left_cnt (tty_table s1 t) \<noteq> 0
           then bindE (tty_echo loc t ch s1) (tty_finish junk t ch)
           else Inr s1
      else Inr s)"

definition tty_do_read :: "int \<Rightarrow> MESSAGE \<Rightarrow> tty_state \<Rightarrow> tty_state res" where
  "tty_do_read t m s =
     bindE (va2la (kern s) (m3i3 m) (m3p2 m)) (\<lambda>buf.
       Inr (tty_send (source m) (m\<lparr>mtype := SUSPEND_PROC\<rparr>)
         (upd_tty t (\<lambda>x. x\<lparr>tty_caller := source m, tty_procnr := m3i3 m, tty_req_buf := buf,
                           tty_left_cnt := m3i2 m, tty_trans_cnt := 0\<rparr>) s)))"

fun tty_out_bytes :: "int \<Rightarrow> u8 list \<Rightarrow> tty_state \<Rightarrow> tty_state res" where
  "tty_out_bytes c [] s = Inr s"
| "tty_out_bytes c (b # bs) s = bindE (tty_out c (char_of (unat b)) s) (tty_out_bytes c bs)"

text \<open>The \<open>while (i)\<close> loop: \<open>TTY_OUT_BUF_LEN\<close> bytes at a time through the task's own buffer.\<close>

fun tty_write_loop :: "u32 \<Rightarrow> int \<Rightarrow> nat \<Rightarrow> u32 \<Rightarrow> tty_state \<Rightarrow> tty_state res" where
  "tty_write_loop loc c i p s =
     (if i = 0 then Inr s
      else let n = min TTY_OUT_BUF_LEN i
           in bindE (va2la (kern s) TASK_TTY loc) (\<lambda>_.
              bindE (tty_out_bytes c (phys_read (mem8 s) p n) s)
                (tty_write_loop loc c (i - n) (p + of_nat n))))"

declare tty_write_loop.simps [simp del]

text \<open>A negative count makes \<open>phys_copy()\<close> run through all of memory.\<close>

definition tty_do_write :: "u32 \<Rightarrow> int \<Rightarrow> MESSAGE \<Rightarrow> tty_state \<Rightarrow> tty_state res" where
  "tty_do_write loc t m s =
     bindE (va2la (kern s) (m3i3 m) (m3p2 m)) (\<lambda>p.
       if m3i2 m < 0 then Inl (Hang ''phys_copy'')
       else bindE (tty_write_loop loc (tty_console (tty_table s t)) (nat (m3i2 m)) p s) (\<lambda>s1.
              Inr (tty_send (source m) (m\<lparr>mtype := SYSCALL_RET\<rparr>) s1)))"

text \<open>One message of the task's main loop.\<close>

definition task_tty_msg :: "u32 \<Rightarrow> MESSAGE \<Rightarrow> tty_state \<Rightarrow> tty_state res" where
  "task_tty_msg loc m s =
     assertE (source m \<noteq> TASK_TTY) ''src != TASK_TTY''
      (if mtype m = DEV_OPEN then Inr (tty_send (source m) (zero_msg\<lparr>mtype := SYSCALL_RET\<rparr>) s)
       else if mtype m = DEV_READ then tty_do_read (m3i4 m) m s
       else if mtype m = DEV_WRITE then tty_do_write loc (m3i4 m) m s
       else if mtype m = HARDWARE_INT then Inr (s\<lparr>kern := (kern s)\<lparr>key_pressed := 0\<rparr>\<rparr>)
       else Inr s)"

subsection \<open>printx\<close>

text \<open>
  \<open>sys_printx()\<close>: a string that starts with one of the two magic characters (the second only
  from a task) fills the screen with its text and halts the machine; every other string goes
  to the first terminal, magic characters left out. \<open>k_reenter\<close> is unsigned: the third branch
  of the source, for a negative value, cannot be taken. \<open>n\<close> bounds the search for the
  terminating zero.
\<close>

fun read_cstr :: "nat \<Rightarrow> (u32 \<Rightarrow> u8) \<Rightarrow> u32 \<Rightarrow> (u8 list) option" where
  "read_cstr 0 m p = None"
| "read_cstr (Suc n) m p =
     (if m p = 0 then Some [] else map_option (\<lambda>bs. m p # bs) (read_cstr n m (p + 1)))"

abbreviation (input) MAGIC_CHAR_PANIC :: u8 where "MAGIC_CHAR_PANIC \<equiv> 2"
abbreviation (input) MAGIC_CHAR_ASSERT :: u8 where "MAGIC_CHAR_ASSERT \<equiv> 3"

definition sys_printx :: "nat \<Rightarrow> u32 \<Rightarrow> int \<Rightarrow> tty_state \<Rightarrow> tty_state res" where
  "sys_printx n string process s =
     bindE (if k_reenter (kern s) = 0 then va2la (kern s) process string else Inr string) (\<lambda>p.
       if mem8 s p = MAGIC_CHAR_PANIC \<or>
          (mem8 s p = MAGIC_CHAR_ASSERT \<and> p_proc_ready (kern s) < NR_TASKS)
       then Inl (Panic ''hlt'')
       else case read_cstr n (mem8 s) p of
           None \<Rightarrow> Inl (Hang ''sys_printx'')
         | Some bs \<Rightarrow> tty_out_bytes (tty_console (tty_table s 0))
             (filter (\<lambda>b. b \<noteq> MAGIC_CHAR_PANIC \<and> b \<noteq> MAGIC_CHAR_ASSERT) bs) s)"

subsection \<open>The key buffer is a bounded queue\<close>

definition tty_inv :: "TTY \<Rightarrow> bool" where
  "tty_inv t \<longleftrightarrow> 0 \<le> inbuf_count t \<and> ring_inv TTY_IN_BYTES (inbuf_head t) (inbuf_tail t) (nat (inbuf_count t))"

definition tty_keys :: "TTY \<Rightarrow> u32 list" where
  "tty_keys t = ring_list TTY_IN_BYTES (inbuf t) (inbuf_tail t) (nat (inbuf_count t))"

lemma length_tty_keys [simp]: "length (tty_keys t) = nat (inbuf_count t)"
  by (simp add: tty_keys_def)

lemma tty_keys_empty: "tty_keys t = [] \<longleftrightarrow> inbuf_count t \<le> 0"
  using length_tty_keys [of t] by (auto simp flip: length_0_conv)

lemma put_key_spec:
  assumes "tty_inv t" "inbuf_count t < 256"
  shows "tty_inv (put_key x t)" "tty_keys (put_key x t) = tty_keys t @ [x]"
proof -
  have r: "ring_inv 256 (inbuf_head t) (inbuf_tail t) (nat (inbuf_count t))" and c: "0 \<le> inbuf_count t"
    using assms(1) by (auto simp: tty_inv_def)
  have n: "nat (inbuf_count t) < 256" "nat (inbuf_count t + 1) = Suc (nat (inbuf_count t))" using assms(2) c by auto
  have h: "(if Suc (inbuf_head t) = 256 then 0 else Suc (inbuf_head t)) = Suc (inbuf_head t) mod 256"
    using r by (intro ring_next) (auto simp: ring_inv_def)
  show "tty_inv (put_key x t)"
    using ring_put_list(2) [OF r n(1)] assms(2) c n(2) unfolding tty_inv_def put_key_def h by simp
  show "tty_keys (put_key x t) = tty_keys t @ [x]"
    using ring_put_list(1) [OF r n(1), of "inbuf t" x] assms(2) n(2)
    unfolding tty_keys_def put_key_def h by simp
qed

lemma take_key_spec:
  assumes "tty_inv t" "inbuf_count t > 0"
  shows "tty_keys t = fst (take_key t) # tty_keys (snd (take_key t))" "tty_inv (snd (take_key t))"
proof -
  define n where "n = nat (inbuf_count t - 1)"
  have n: "nat (inbuf_count t) = Suc n" using assms(2) by (simp add: n_def)
  have r: "ring_inv 256 (inbuf_head t) (inbuf_tail t) (Suc n)" using assms(1) n by (simp add: tty_inv_def)
  have t: "(if Suc (inbuf_tail t) = 256 then 0 else Suc (inbuf_tail t)) = Suc (inbuf_tail t) mod 256"
    using r by (intro ring_next) (auto simp: ring_inv_def)
  show "tty_keys t = fst (take_key t) # tty_keys (snd (take_key t))"
    using ring_get_list(1) [OF r, of "inbuf t"] unfolding tty_keys_def take_key_def t n by (simp add: n_def)
  show "tty_inv (snd (take_key t))"
    using ring_get_list(2) [OF r] assms(2) unfolding tty_inv_def take_key_def t by (simp add: n_def)
qed

interpretation tty_fifo: bounded_fifo TTY_IN_BYTES tty_inv tty_keys put_key take_key
proof
  fix t x assume t: "tty_inv t"
  show "length (tty_keys t) \<le> 256" using t by (auto simp: tty_inv_def ring_inv_def)
  show "tty_inv (put_key x t)" using put_key_spec [OF t] t by (cases "inbuf_count t < 256") (auto simp: put_key_def)
  show "tty_keys (put_key x t) = tty_keys t @ [x]" if "length (tty_keys t) < 256"
    using put_key_spec [OF t] that by auto
  show "tty_keys (put_key x t) = tty_keys t" if "length (tty_keys t) = 256"
    using that by (auto simp: put_key_def)
  assume "tty_keys t \<noteq> []"
  then have "inbuf_count t > 0" by (simp add: tty_keys_empty)
  note g = take_key_spec [OF t this]
  show "fst (take_key t) = hd (tty_keys t)" "tty_keys (snd (take_key t)) = tl (tty_keys t)"
    "tty_inv (snd (take_key t))" using g(2) by (simp_all add: g(1))
qed

subsection \<open>Line editing\<close>

text \<open>
  The abstract line discipline: a line of characters that grows by printable characters and
  shrinks by backspaces. \<open>serving s t n line\<close> relates it to the request of \<open>n\<close> characters a
  terminal is serving: the counters, and the bytes already in the caller's buffer.
\<close>

definition edit :: "u8 \<Rightarrow> u8 list \<Rightarrow> u8 list" where
  "edit ch line =
     (if 0x20 \<le> ch \<and> ch \<le> 0x7e then line @ [ch]
      else if ch = 0x08 then butlast line else line)"

definition serving :: "tty_state \<Rightarrow> int \<Rightarrow> nat \<Rightarrow> u8 list \<Rightarrow> bool" where
  "serving s t n line \<longleftrightarrow> n < 2 ^ 31 \<and> length line < n \<and>
     tty_trans_cnt (tty_table s t) = int (length line) \<and>
     tty_left_cnt (tty_table s t) = int n - int (length line) \<and>
     phys_read (mem8 s) (tty_req_buf (tty_table s t)) (length line) = line"

lemma upd_tty_simps [simp]:
  "tty_table (upd_tty t f s) = (tty_table s)(t := f (tty_table s t))"
  "scr (upd_tty t f s) = scr s" "kern (upd_tty t f s) = kern s" "mem8 (upd_tty t f s) = mem8 s"
  "outbox (upd_tty t f s) = outbox s" "kb (upd_tty t f s) = kb s"
  by (simp_all add: upd_tty_def)

lemma tty_send_simps [simp]:
  "tty_table (tty_send d m s) = tty_table s" "scr (tty_send d m s) = scr s" "kern (tty_send d m s) = kern s"
  "mem8 (tty_send d m s) = mem8 s" "outbox (tty_send d m s) = outbox s @ [(d, m)]"
  by (simp_all add: tty_send_def)

lemma tty_out_total:
  assumes "con_ok (console_table (scr s) c)" "\<not> backs_out (console_table (scr s) c) ch"
  shows "\<exists>v. tty_out c ch s = Inr (s\<lparr>scr := v\<rparr>) \<and> con_ok (console_table v c)"
proof -
  obtain v where v: "out_char c ch (scr s) = Inr v" using out_char_run [OF assms] by blast
  with out_char_con(2) [OF assms v] show ?thesis by (auto simp: tty_out_def)
qed

lemma char_of_backspace: "char_of (unat (b :: u8)) = CHR 0x08 \<longleftrightarrow> b = 0x08"
proof -
  have "unat b < 2 ^ LENGTH(8)" by (rule unsigned_less)
  then have "unat b < 256" by simp
  then have "take_bit 8 (unat b) = unat b" by (simp add: take_bit_nat_eq_self)
  then show ?thesis by (auto simp: char_of_eq_iff word_unat_eq_iff)
qed

lemma phys_read_snoc:
  assumes "n < 2 ^ 31"
  shows "phys_read (m(p + of_nat n := b)) p (Suc n) = phys_read m p n @ [b]"
proof -
  have "p + of_nat i \<noteq> p + (of_nat n :: u32)" if "i < n" for i
  proof -
    have "unat (of_nat i :: u32) = i" "unat (of_nat n :: u32) = n" using that assms by (simp_all add: unat_of_nat)
    with that show ?thesis by auto
  qed
  then show ?thesis by (simp add: phys_read_def)
qed

lemma phys_read_butlast: "phys_read m p (n - 1) = butlast (phys_read m p n)"
  by (cases n) (simp_all add: phys_read_def)

text \<open>The task's own segment starts at 0, so its assertion in \<open>va2la()\<close> holds.\<close>

definition tty_flat :: "tty_state \<Rightarrow> bool" where
  "tty_flat s \<longleftrightarrow> ldt_seg_linear (proc_table (kern s) TASK_TTY) INDEX_LDT_DATA = 0"

lemma tty_flat_va2la: "tty_flat s \<Longrightarrow> va2la (kern s) TASK_TTY loc = Inr loc"
  by (simp add: tty_flat_def va2la_def Let_def)

lemma tty_echo_edit:
  assumes srv: "serving s t n line" and ok: "con_ok (console_table (scr s) (tty_console (tty_table s t)))"
    and nb: "\<not> (ch = 0x08 \<and> backs_out (console_table (scr s) (tty_console (tty_table s t))) (CHR 0x08))"
    and flat: "tty_flat s"
  shows "\<exists>s'. tty_echo loc t ch s = Inr s' \<and>
    con_ok (console_table (scr s') (tty_console (tty_table s t))) \<and> outbox s' = outbox s \<and> kern s' = kern s \<and>
    tty_table s' t = (tty_table s t)\<lparr>tty_trans_cnt := int (length (edit ch line)),
      tty_left_cnt := int n - int (length (edit ch line))\<rparr> \<and>
    phys_read (mem8 s') (tty_req_buf (tty_table s t)) (length (edit ch line)) = edit ch line"
proof -
  let ?x = "tty_table s t"
  have S: "n < 2 ^ 31" "length line < n" "tty_trans_cnt ?x = int (length line)"
    "tty_left_cnt ?x = int n - int (length line)" "phys_read (mem8 s) (tty_req_buf ?x) (length line) = line"
    using srv by (auto simp: serving_def)
  consider (pr) "0x20 \<le> ch \<and> ch \<le> 0x7e" | (bs) "ch = 0x08" "line \<noteq> []" "\<not> (0x20 \<le> ch \<and> ch \<le> 0x7e)"
    | (no) "\<not> (0x20 \<le> ch \<and> ch \<le> 0x7e)" "\<not> (ch = 0x08 \<and> line \<noteq> [])" by blast
  then show ?thesis
  proof cases
    case pr
    then have "char_of (unat ch) \<noteq> CHR 0x08" by (auto simp: char_of_backspace)
    then obtain v where v: "tty_out (tty_console ?x) (char_of (unat ch)) s = Inr (s\<lparr>scr := v\<rparr>)"
      "con_ok (console_table v (tty_console ?x))" using tty_out_total [OF ok] not_backspace by blast
    have len: "length line < 2 ^ 31" using S by simp
    from pr v S tty_flat_va2la [OF flat, of loc] phys_read_snoc [OF len, of "mem8 s" "tty_req_buf ?x" ch] show ?thesis
      by (simp add: tty_echo_def edit_def Let_def)
  next
    case bs
    with nb obtain v where v: "tty_out (tty_console ?x) (char_of (unat ch)) s = Inr (s\<lparr>scr := v\<rparr>)"
      "con_ok (console_table v (tty_console ?x))"
      using tty_out_total [OF ok, of "CHR 0x08"] char_of_backspace [of ch] by auto
    from bs(2) have l: "int (length line - Suc 0) = int (length line) - 1" by (cases line) auto
    from bs v S l phys_read_butlast [of "mem8 s" "tty_req_buf ?x" "length line"] show ?thesis
      by (simp add: tty_echo_def edit_def)
  next
    case no
    then have "edit ch line = line" by (auto simp: edit_def)
    moreover have "tty_echo loc t ch s = Inr s" using no S(3) by (auto simp: tty_echo_def)
    ultimately show ?thesis using S ok by simp
  qed
qed

text \<open>
  A terminal serves a read request as a line editor. Each key taken from the buffer
  edits the line in the caller's memory: a printable character is appended and echoed, a
  backspace removes the last character, other keys are ignored. The request ends exactly at
  a newline or when the line has the requested length; then, and only then, the caller is
  sent one \<open>RESUME_PROC\<close> with the process number and the length of the line.
\<close>

lemma tty_key_edits:
  assumes "serving s t n line" "tty_inv (tty_table s t)" "tty_keys (tty_table s t) = key # keys"
    "con_ok (console_table (scr s) (tty_console (tty_table s t)))"
    "\<not> (ucast key = (0x08 :: u8) \<and> backs_out (console_table (scr s) (tty_console (tty_table s t))) (CHR 0x08))"
    "tty_flat s"
  shows "\<exists>s'. tty_dev_write junk loc t s = Inr s' \<and> tty_keys (tty_table s' t) = keys \<and>
    tty_inv (tty_table s' t) \<and> con_ok (console_table (scr s') (tty_console (tty_table s' t))) \<and> kern s' = kern s \<and>
    tty_console (tty_table s' t) = tty_console (tty_table s t) \<and> tty_caller (tty_table s' t) = tty_caller (tty_table s t) \<and>
    tty_procnr (tty_table s' t) = tty_procnr (tty_table s t) \<and> tty_req_buf (tty_table s' t) = tty_req_buf (tty_table s t) \<and>
    (let line' = edit (ucast key) line in
     phys_read (mem8 s') (tty_req_buf (tty_table s' t)) (length line') = line' \<and>
     (if ucast key = (0x0a :: u8) \<or> length line' = n
      then tty_left_cnt (tty_table s' t) = 0 \<and>
        outbox s' = outbox s @ [(tty_caller (tty_table s t),
          junk\<lparr>mtype := RESUME_PROC, m3i3 := tty_procnr (tty_table s t), m3i2 := int (length line')\<rparr>)]
      else serving s' t n line' \<and> outbox s' = outbox s))"
proof -
  let ?x = "tty_table s t" and ?ch = "ucast key :: u8" and ?line' = "edit (ucast key) line"
  obtain y where y: "take_key ?x = (key, y)" "tty_keys y = keys" "tty_inv y" and cnt: "inbuf_count ?x > 0"
  proof -
    have c: "inbuf_count ?x > 0" using assms(3) tty_keys_empty [of ?x] by simp
    note g = take_key_spec [OF assms(2) c]
    show thesis using that [of "snd (take_key ?x)"] g assms(3) c by (cases "take_key ?x") simp
  qed
  have yf: "tty_console y = tty_console ?x" "tty_caller y = tty_caller ?x" "tty_procnr y = tty_procnr ?x"
    "tty_req_buf y = tty_req_buf ?x" "tty_left_cnt y = tty_left_cnt ?x" "tty_trans_cnt y = tty_trans_cnt ?x"
    using y(1) by (auto simp: take_key_def)
  let ?s1 = "upd_tty t (\<lambda>_. y) s"
  have "serving ?s1 t n line" using assms(1) yf by (simp add: serving_def)
  then obtain s2 where s2: "tty_echo loc t ?ch ?s1 = Inr s2"
    "con_ok (console_table (scr s2) (tty_console ?x))" "outbox s2 = outbox s" "kern s2 = kern s"
    "tty_table s2 t = y\<lparr>tty_trans_cnt := int (length ?line'), tty_left_cnt := int n - int (length ?line')\<rparr>"
    "phys_read (mem8 s2) (tty_req_buf ?x) (length ?line') = ?line'"
    using tty_echo_edit [of ?s1 t n line ?ch loc] assms(4-6) yf by (auto simp: tty_flat_def)
  have left: "tty_left_cnt y \<noteq> 0" using assms(1) yf by (simp add: serving_def)
  have run: "tty_dev_write junk loc t s = tty_finish junk t ?ch s2"
    using cnt y(1) left s2(1) by (simp add: tty_dev_write_def)
  have le: "length ?line' \<le> n" using assms(1) by (auto simp: serving_def edit_def)
  show ?thesis
  proof (cases "?ch = 0x0a \<or> length ?line' = n")
    case True
    obtain v where v: "tty_out (tty_console ?x) (CHR 0x0A) s2 = Inr (s2\<lparr>scr := v\<rparr>)" "con_ok (console_table v (tty_console ?x))"
      using tty_out_total [OF s2(2), of "CHR 0x0A"] by (auto simp: backs_out_def)
    let ?s3 = "upd_tty t (\<lambda>x. x\<lparr>tty_left_cnt := 0\<rparr>) (tty_send (tty_caller y)
       (junk\<lparr>mtype := RESUME_PROC, m3i3 := tty_procnr y, m3i2 := int (length ?line')\<rparr>) (s2\<lparr>scr := v\<rparr>))"
    have "tty_finish junk t ?ch s2 = Inr ?s3" using True v s2(5) yf by (auto simp: tty_finish_def)
    with True run y v(2) s2(3-6) yf show ?thesis
      by (intro exI [of _ ?s3]) (auto simp: Let_def tty_keys_def tty_inv_def)
  next
    case False
    then have fin: "tty_finish junk t ?ch s2 = Inr s2" using s2(5) by (auto simp: tty_finish_def)
    have "serving s2 t n ?line'" using assms(1) False le s2(5,6) yf by (simp add: serving_def)
    with fin False run y s2(2-6) yf show ?thesis
      by (intro exI [of _ s2]) (auto simp: Let_def tty_keys_def tty_inv_def)
  qed
qed

definition demo_tty :: tty_state where
  "demo_tty = \<lparr>tty_table = (\<lambda>t. put_key 0x0a (put_key 0x61 \<lparr>inbuf = (\<lambda>_. 0), inbuf_head = 0, inbuf_tail = 0,
       inbuf_count = 0, tty_caller = TASK_FS, tty_procnr = 6, tty_req_buf = 0x5000,
       tty_left_cnt = 4, tty_trans_cnt = 0, tty_console = t\<rparr>)),
     scr = demo_screen, kb = demo_kbd,
     kern = \<lparr>proc_table = (\<lambda>_. zero_process), p_proc_ready = 0, messages = (\<lambda>_. zero_msg),
       k_reenter = 0, ticks = 0, key_pressed = 0\<rparr>,
     mem8 = (\<lambda>_. 0), outbox = []\<rparr>"

lemma demo_tty_ok:
  "serving demo_tty 1 4 []" "tty_inv (tty_table demo_tty 1)" "tty_keys (tty_table demo_tty 1) = [0x61, 0x0a]"
  "con_ok (console_table (scr demo_tty) (tty_console (tty_table demo_tty 1)))" "tty_flat demo_tty"
  by (simp_all add: demo_tty_def serving_def put_key_def phys_read_def tty_inv_def ring_inv_def tty_keys_def
      ring_list_def demo_screen_ok tty_flat_def ldt_seg_linear_def zero_process_def zero_desc_def upt_rec)

subsection \<open>Writing\<close>

lemma tty_out_bytes_scr:
  "tty_out_bytes c bs s = bindE (out_chars c (map (\<lambda>b. char_of (unat b)) bs) (scr s)) (\<lambda>v. Inr (s\<lparr>scr := v\<rparr>))"
proof (induction bs arbitrary: s)
  case (Cons b bs)
  show ?case by (cases "out_char c (char_of (unat b)) (scr s)") (simp_all add: tty_out_def Cons.IH)
qed simp

lemma out_chars_append: "out_chars c (xs @ ys) v = bindE (out_chars c xs v) (out_chars c ys)"
proof (induction xs arbitrary: v)
  case (Cons x xs)
  show ?case by (cases "out_char c x v") (simp_all add: Cons.IH)
qed simp

lemma tty_write_loop_eq:
  "tty_flat s \<Longrightarrow> tty_write_loop loc c n p s =
     bindE (out_chars c (map (\<lambda>b. char_of (unat b)) (phys_read (mem8 s) p n)) (scr s)) (\<lambda>v. Inr (s\<lparr>scr := v\<rparr>))"
proof (induction n arbitrary: p s rule: less_induct)
  case (less n)
  show ?case
  proof (cases "n = 0")
    case False
    define k where "k = min 2 n"
    have k: "n = k + (n - k)" "n - k < n" using False by (auto simp: k_def)
    let ?f = "\<lambda>b. char_of (unat (b :: u8))"
    have rd: "phys_read (mem8 s) p n = phys_read (mem8 s) p k @ phys_read (mem8 s) (p + of_nat k) (n - k)"
      using phys_read_append [of "mem8 s" p k "n - k"] k(1) by simp
    show ?thesis
    proof (cases "out_chars c (map ?f (phys_read (mem8 s) p k)) (scr s)")
      case (Inl e)
      with False less.prems show ?thesis
        by (subst tty_write_loop.simps)
          (simp add: tty_flat_va2la tty_out_bytes_scr rd out_chars_append k_def [symmetric] Let_def)
    next
      case (Inr v)
      have "tty_flat (s\<lparr>scr := v\<rparr>)" using less.prems by (simp add: tty_flat_def)
      from less.IH [OF k(2) this, of "p + of_nat k"] Inr False less.prems show ?thesis
        by (subst tty_write_loop.simps)
          (simp add: tty_flat_va2la tty_out_bytes_scr rd out_chars_append k_def [symmetric] Let_def)
    qed
  qed (simp add: tty_write_loop.simps phys_read_def)
qed

text \<open>
  A write request prints exactly the caller's bytes, in order, whatever the size of the
  task's transfer buffer, and answers the caller with one \<open>SYSCALL_RET\<close>.
\<close>

theorem tty_write_correct:
  assumes "tty_flat s" "va2la (kern s) (m3i3 m) (m3p2 m) = Inr p" "0 \<le> m3i2 m"
  shows "tty_do_write loc t m s =
    bindE (out_chars (tty_console (tty_table s t))
             (map (\<lambda>b. char_of (unat b)) (phys_read (mem8 s) p (nat (m3i2 m)))) (scr s))
      (\<lambda>v. Inr (tty_send (source m) (m\<lparr>mtype := SYSCALL_RET\<rparr>) (s\<lparr>scr := v\<rparr>)))"
  using assms
  by (cases "out_chars (tty_console (tty_table s t))
             (map (\<lambda>b. char_of (unat b)) (phys_read (mem8 s) p (nat (m3i2 m)))) (scr s)")
    (simp_all add: tty_do_write_def tty_write_loop_eq)

theorem tty_write_correct_witness:
  "tty_do_write 0 1 (zero_msg\<lparr>source := 3, m3i3 := 20, m3i2 := 3, m3p2 := 0x100\<rparr>) demo_tty =
    bindE (out_chars 1 [CHR 0x00, CHR 0x00, CHR 0x00] demo_screen)
      (\<lambda>v. Inr (tty_send 3 (zero_msg\<lparr>source := 3, m3i3 := 20, m3i2 := 3, m3p2 := 0x100, mtype := SYSCALL_RET\<rparr>)
        (demo_tty\<lparr>scr := v\<rparr>)))"
proof -
  let ?m = "zero_msg\<lparr>source := 3, m3i3 := 20, m3i2 := 3, m3p2 := 0x100\<rparr>"
  have "va2la (kern demo_tty) (m3i3 ?m) (m3p2 ?m) = Inr 0x100"
    by (simp add: va2la_def Let_def demo_tty_def ldt_seg_linear_def zero_process_def zero_desc_def)
  from tty_write_correct [OF demo_tty_ok(5) this, of 0 1] show ?thesis
    by (simp add: demo_tty_def put_key_def phys_read_def upt_rec char_of_def)
qed

subsection \<open>Keys that are commands\<close>

lemma function_key:
  assumes "i < 12"
  shows "(F1 + of_nat i :: u32) \<noteq> ENTER \<and> (F1 + of_nat i :: u32) \<noteq> BACKSPACE \<and> (F1 + of_nat i :: u32) \<noteq> UP \<and>
    (F1 + of_nat i :: u32) \<noteq> DOWN \<and> F1 \<le> (F1 + of_nat i :: u32) \<and> (F1 + of_nat i :: u32) \<le> F12 \<and>
    uint (F1 + of_nat i - F1 :: u32) = int i \<and> (F1 + of_nat i) AND FLAG_EXT \<noteq> (0 :: u32)"
proof -
  have "i = 0 \<or> i = 1 \<or> i = 2 \<or> i = 3 \<or> i = 4 \<or> i = 5 \<or> i = 6 \<or> i = 7 \<or> i = 8 \<or> i = 9 \<or> i = 10 \<or> i = 11"
    using assms by presburger
  then show ?thesis by (elim disjE) simp_all
qed

lemma select_console_keeps [simp]:
  "console_table (select_console n v) = console_table v" "vram (select_console n v) = vram v"
  "nr_current_console (select_console n v) = (if 0 \<le> n \<and> n < NR_CONSOLES then n else nr_current_console v)"
  by (simp_all add: select_console_def)

text \<open>
  Alt with a function key selects a console: \<open>F1\<close> to \<open>F3\<close> put the first, second or third
  console on display, and the CRT controller is told where its screen starts; the other
  function keys and function keys without Alt change nothing.
\<close>

theorem in_process_select:
  assumes "i < 12" "key AND MASK_RAW = F1 + of_nat i"
  shows "\<exists>s'. in_process t key s = Inr s' \<and> tty_table s' = tty_table s \<and>
    console_table (scr s') = console_table (scr s) \<and> vram (scr s') = vram (scr s) \<and>
    nr_current_console (scr s') =
      (if (key AND FLAG_ALT_L \<noteq> 0 \<or> key AND FLAG_ALT_R \<noteq> 0) \<and> i < 3 then int i
       else nr_current_console (scr s))"
proof -
  note f = function_key [OF assms(1)]
  have "key AND FLAG_EXT = (key AND MASK_RAW) AND FLAG_EXT" by (simp add: and.assoc)
  with f assms(2) have "key AND FLAG_EXT \<noteq> 0" by simp
  then have "in_process t key s = Inr (if key AND FLAG_ALT_L \<noteq> 0 \<or> key AND FLAG_ALT_R \<noteq> 0
      then s\<lparr>scr := select_console (int i) (scr s)\<rparr> else s)"
    using f unfolding in_process_def Let_def assms(2) by simp
  then show ?thesis by auto
qed

theorem in_process_select_witness:
  "\<exists>s'. in_process 0 (F2 OR FLAG_ALT_L) demo_tty = Inr s' \<and> nr_current_console (scr s') = 1"
  using in_process_select [of 1 "F2 OR FLAG_ALT_L" 0 demo_tty] by auto

end
