(* ===== verification/Sched.thy ===== *)
theory Sched
  imports Proc
begin

section \<open>The scheduler and the clock\<close>

text \<open>
  When \<open>schedule()\<close> returns, which slot it chooses, and what of the process table it
  changes. \<open>same_but_ticks\<close> is the frame every later proof about blocking uses: the
  scheduler touches nothing but \<open>p_proc_ready\<close> and the tick counters.
\<close>

definition same_but_ticks :: "kernel \<Rightarrow> kernel \<Rightarrow> bool" where
  "same_but_ticks s s' \<longleftrightarrow>
     (\<forall>p. (proc_table s' p)\<lparr>p_ticks := 0\<rparr> = (proc_table s p)\<lparr>p_ticks := 0\<rparr>) \<and>
     messages s' = messages s \<and> k_reenter s' = k_reenter s \<and> ticks s' = ticks s \<and>
     key_pressed s' = key_pressed s"

lemma ticks_upd_eqD:
  assumes "(x :: PROCESS)\<lparr>p_ticks := 0\<rparr> = y\<lparr>p_ticks := 0\<rparr>"
  shows "p_flags x = p_flags y" "p_msg x = p_msg y" "p_recvfrom x = p_recvfrom y"
    "p_sendto x = p_sendto y" "p_has_int_msg x = p_has_int_msg y"
    "p_sending_queue x = p_sending_queue y" "p_next_sending x = p_next_sending y"
    "p_ldts x = p_ldts y" "p_priority x = p_priority y" "p_parent x = p_parent y"
  using assms by (cases x; cases y; simp)+

lemma same_but_ticksD:
  assumes "same_but_ticks s s'"
  shows "p_flags (proc_table s' p) = p_flags (proc_table s p)"
    "p_msg (proc_table s' p) = p_msg (proc_table s p)"
    "p_recvfrom (proc_table s' p) = p_recvfrom (proc_table s p)"
    "p_sendto (proc_table s' p) = p_sendto (proc_table s p)"
    "p_has_int_msg (proc_table s' p) = p_has_int_msg (proc_table s p)"
    "p_sending_queue (proc_table s' p) = p_sending_queue (proc_table s p)"
    "p_next_sending (proc_table s' p) = p_next_sending (proc_table s p)"
    "p_ldts (proc_table s' p) = p_ldts (proc_table s p)"
    "p_priority (proc_table s' p) = p_priority (proc_table s p)"
    "p_parent (proc_table s' p) = p_parent (proc_table s p)"
    "messages s' = messages s" "k_reenter s' = k_reenter s" "key_pressed s' = key_pressed s"
  using assms unfolding same_but_ticks_def by (blast intro: ticks_upd_eqD)+

lemma same_but_ticks_refl [simp]: "same_but_ticks s s"
  by (simp add: same_but_ticks_def)

lemma same_but_ticks_trans:
  "same_but_ticks s t \<Longrightarrow> same_but_ticks t u \<Longrightarrow> same_but_ticks s u"
  by (simp add: same_but_ticks_def)

lemma set_slots: "p \<in> set slots \<longleftrightarrow> 0 \<le> p \<and> p < NR_TASKS + NR_PROCS"
  by (auto simp: slots_def)

lemma sorted_slots: "sorted_wrt (<) slots"
  by (simp add: slots_def)

subsection \<open>One pass over the table\<close>

lemma scan_ready_spec:
  assumes "scan_ready pt ps g r = (g', r')" "sorted_wrt (<) ps"
  shows "g \<le> g' \<and> (\<forall>p\<in>set ps. p_flags (pt p) = 0 \<longrightarrow> p_ticks (pt p) \<le> g') \<and>
    (if g' = g then r' = r
     else r' \<in> set ps \<and> p_flags (pt r') = 0 \<and> p_ticks (pt r') = g' \<and>
       (\<forall>p\<in>set ps. p < r' \<and> p_flags (pt p) = 0 \<longrightarrow> p_ticks (pt p) < g'))"
  using assms
proof (induction pt ps g r rule: scan_ready.induct)
  case (2 pt p ps g r)
  have sorted: "sorted_wrt (<) ps" "\<forall>q\<in>set ps. p < q" using "2.prems" by auto
  show ?case
  proof (cases "p_flags (pt p) = 0 \<and> p_ticks (pt p) > g")
    case True
    with "2.prems" have "scan_ready pt ps (p_ticks (pt p)) p = (g', r')" by simp
    note IH = "2.IH"(1) [OF True this sorted(1)]
    from IH True sorted show ?thesis by (cases "g' = p_ticks (pt p)") (force split: if_splits)+
  next
    case False
    with "2.prems" have "scan_ready pt ps g r = (g', r')" by (simp split: if_splits)
    note IH = "2.IH"(2) [OF False this sorted(1)]
    from IH False sorted show ?thesis by (force split: if_splits)
  qed
qed simp

lemma scan_slots_found:
  assumes "scan_ready pt slots 0 r0 = (g, r)" "g \<noteq> 0"
  shows "r \<in> set slots" "p_flags (pt r) = 0" "p_ticks (pt r) = g" "0 < g"
    "\<And>p. p \<in> set slots \<Longrightarrow> p_flags (pt p) = 0 \<Longrightarrow> p_ticks (pt p) \<le> g"
    "\<And>p. p \<in> set slots \<Longrightarrow> p_flags (pt p) = 0 \<Longrightarrow> p < r \<Longrightarrow> p_ticks (pt p) < g"
  using scan_ready_spec [OF assms(1) sorted_slots] assms(2) by (auto split: if_splits)

lemma scan_slots_none:
  assumes "scan_ready pt slots 0 r0 = (0, r)"
  shows "r = r0" "\<And>p. p \<in> set slots \<Longrightarrow> p_flags (pt p) = 0 \<Longrightarrow> p_ticks (pt p) \<le> 0"
  using scan_ready_spec [OF assms sorted_slots] by auto

lemma refill_same: "same_but_ticks s (s\<lparr>proc_table := refill (proc_table s)\<rparr>)"
  by (auto simp: same_but_ticks_def refill_def)

lemma refill_fields [simp]:
  "p_flags (refill pt p) = p_flags (pt p)" "p_priority (refill pt p) = p_priority (pt p)"
  "p_ticks (refill pt p) = (if p \<in> set slots then p_priority (pt p) else p_ticks (pt p))"
  by (simp_all add: refill_def)

subsection \<open>schedule()\<close>

definition runnable :: "kernel \<Rightarrow> int \<Rightarrow> bool" where
  "runnable s p \<longleftrightarrow> p \<in> set slots \<and> p_flags (proc_table s p) = 0 \<and>
     (0 < p_ticks (proc_table s p) \<or> 0 < p_priority (proc_table s p))"

text \<open>What a chosen slot satisfies: it is ready, no ready slot has more ticks, and no earlier
  ready slot has as many.\<close>

definition chosen :: "kernel \<Rightarrow> bool" where
  "chosen s \<longleftrightarrow> (let c = p_proc_ready s in
     c \<in> set slots \<and> p_flags (proc_table s c) = 0 \<and> 0 < p_ticks (proc_table s c) \<and>
     (\<forall>p\<in>set slots. p_flags (proc_table s p) = 0 \<longrightarrow>
        (if p < c then p_ticks (proc_table s p) < p_ticks (proc_table s c)
         else p_ticks (proc_table s p) \<le> p_ticks (proc_table s c))))"

lemma schedule_now:
  assumes "scan_ready (proc_table s) slots 0 (p_proc_ready s) = (g, r)" "g \<noteq> 0"
  shows "schedule s = Some (s\<lparr>p_proc_ready := r\<rparr>) \<and> chosen (s\<lparr>p_proc_ready := r\<rparr>)"
proof -
  note f = scan_slots_found [OF assms]
  have "schedule s = Some (s\<lparr>p_proc_ready := r\<rparr>)"
    using assms by (subst schedule.simps) simp
  moreover have "chosen (s\<lparr>p_proc_ready := r\<rparr>)"
    using f by (auto simp: chosen_def Let_def)
  ultimately show ?thesis by simp
qed

lemma schedule_later:
  assumes "scan_ready (proc_table s) slots 0 (p_proc_ready s) = (0, r)"
  shows "schedule s = schedule (s\<lparr>proc_table := refill (proc_table s)\<rparr>)"
  using assms scan_slots_none(1) [OF assms] by (subst schedule.simps) simp

lemma scan_nonzero:
  assumes "p \<in> set slots" "p_flags (pt p) = 0" "0 < p_ticks (pt p)"
  shows "fst (scan_ready pt slots 0 r) \<noteq> 0"
proof
  assume "fst (scan_ready pt slots 0 r) = 0"
  then obtain r' where "scan_ready pt slots 0 r = (0, r')" by (metis prod.collapse)
  from scan_slots_none(2) [OF this assms(1,2)] assms(3) show False by simp
qed

lemma schedule_total:
  assumes "runnable s p"
  shows "\<exists>s'. schedule s = Some s' \<and> same_but_ticks s s' \<and> chosen s'"
proof -
  obtain g r where scan: "scan_ready (proc_table s) slots 0 (p_proc_ready s) = (g, r)" by fastforce
  show ?thesis
  proof (cases "g = 0")
    case False
    with schedule_now [OF scan] show ?thesis by (simp add: same_but_ticks_def)
  next
    case True
    let ?t = "s\<lparr>proc_table := refill (proc_table s)\<rparr>"
    from True scan have none: "scan_ready (proc_table s) slots 0 (p_proc_ready s) = (0, r)" by simp
    have "0 < p_priority (proc_table s p)"
      using assms scan_slots_none(2) [OF none, of p] by (auto simp: runnable_def)
    then have "fst (scan_ready (proc_table ?t) slots 0 (p_proc_ready ?t)) \<noteq> 0"
      using assms by (intro scan_nonzero [of p]) (auto simp: runnable_def)
    then obtain g' r' where "scan_ready (proc_table ?t) slots 0 (p_proc_ready ?t) = (g', r')" "g' \<noteq> 0"
      by (cases "scan_ready (proc_table ?t) slots 0 (p_proc_ready ?t)") auto
    from schedule_now [OF this] schedule_later [OF none] refill_same [of s]
    show ?thesis by (auto simp: same_but_ticks_def)
  qed
qed

lemma schedule_only_if:
  assumes "schedule s = Some s'"
  shows "\<exists>p. runnable s p"
proof (rule schedule.raw_induct [where P = "\<lambda>s s'. \<exists>p. runnable s p", OF _ assms])
  fix f :: "kernel \<Rightarrow> kernel option" and s s' :: kernel
  assume IH: "\<And>s s'. f s = Some s' \<Longrightarrow> \<exists>p. runnable s p"
  obtain g r where scan: "scan_ready (proc_table s) slots 0 (p_proc_ready s) = (g, r)" by fastforce
  assume eq: "(let (g, r) = scan_ready (proc_table s) slots 0 (p_proc_ready s);
          s1 = s\<lparr>p_proc_ready := r\<rparr>
      in if g \<noteq> 0 then Some s1 else f (s1\<lparr>proc_table := refill (proc_table s1)\<rparr>)) = Some s'"
  show "\<exists>p. runnable s p"
  proof (cases "g = 0")
    case False
    from scan_slots_found [OF scan this] show ?thesis
      by (intro exI [of _ r]) (simp add: runnable_def)
  next
    case True
    with eq scan have "f (s\<lparr>p_proc_ready := r, proc_table := refill (proc_table s)\<rparr>) = Some s'"
      by simp
    from IH [OF this] obtain p where "runnable (s\<lparr>p_proc_ready := r, proc_table := refill (proc_table s)\<rparr>) p"
      by blast
    then have "runnable s p" by (auto simp: runnable_def)
    then show ?thesis ..
  qed
qed

lemma schedule_Some: "schedule s = Some s' \<Longrightarrow> same_but_ticks s s' \<and> chosen s'"
  using schedule_only_if [of s s'] schedule_total [of s] by auto

lemma block_total:
  "p_flags (proc_table s p) \<noteq> 0 \<Longrightarrow> runnable s q \<Longrightarrow>
   \<exists>s'. block p s = Inr s' \<and> same_but_ticks s s' \<and> chosen s'"
  using schedule_total [of s q] by (auto simp: block_def)

lemma block_hang:
  assumes "p_flags (proc_table s p) \<noteq> 0" "\<nexists>q. runnable s q"
  shows "block p s = Inl (Hang ''schedule'')"
proof -
  from assms(2) schedule_only_if [of s] have "schedule s = None" by (cases "schedule s") auto
  with assms(1) show ?thesis by (simp add: block_def)
qed

lemma block_Inr: "block p s = Inr s' \<Longrightarrow> same_but_ticks s s' \<and> chosen s'"
  by (auto simp: block_def res_simps dest: schedule_Some)

subsection \<open>Properties\<close>

text \<open>
  C7: \<open>schedule()\<close> returns exactly when some slot of the table is ready (no flag set) and
  has ticks left or a positive priority; otherwise its loop never ends. When it returns,
  the chosen process is ready, has the greatest number of ticks among the ready ones and
  is the first such slot, and nothing but the tick counters and \<open>p_proc_ready\<close> changed.
\<close>

theorem schedule_correct:
  "((\<exists>s'. schedule s = Some s') \<longleftrightarrow> (\<exists>p. runnable s p)) \<and>
   (\<forall>s'. schedule s = Some s' \<longrightarrow> same_but_ticks s s' \<and> chosen s')"
  using schedule_total schedule_only_if schedule_Some by blast

theorem schedule_correct_witness:
  "let s = \<lparr>proc_table = (\<lambda>p. zero_process\<lparr>p_priority := p\<rparr>), p_proc_ready = 0,
        messages = (\<lambda>_. zero_msg), k_reenter = 0, ticks = 0, key_pressed = 0\<rparr>
   in \<exists>s'. schedule s = Some s' \<and> same_but_ticks s s' \<and> chosen s'"
proof -
  let ?s = "\<lparr>proc_table = (\<lambda>p. zero_process\<lparr>p_priority := p\<rparr>), p_proc_ready = 0,
        messages = (\<lambda>_. zero_msg), k_reenter = 0, ticks = 0, key_pressed = 0\<rparr>"
  have "runnable ?s 7" by (simp add: runnable_def set_slots zero_process_def)
  with schedule_correct [of ?s] show ?thesis by (auto simp: Let_def)
qed

end
