(* ===== verification/Ipc.thy ===== *)
theory Ipc
  imports Sched
begin

section \<open>Message passing against an abstract rendezvous\<close>

text \<open>
  The abstract machine: every process is idle, sending to a destination, receiving from a
  source (a process, \<open>ANY\<close> or \<open>INTERRUPT\<close>) or dormant (a free slot); every process has a
  FIFO list of the processes blocked sending to it. \<open>ipc_rep\<close> relates a kernel state to an
  abstract one, \<open>ipc_ok\<close> is the invariant of the abstract one. The refinement lemmas show
  that \<open>msg_send()\<close>, \<open>msg_receive()\<close>, \<open>inform_init()\<close> and \<open>sys_sendrec()\<close> perform the
  abstract operation, which includes that none of their assertions fails and that the
  loops over the linked sending queues end.
\<close>

subsection \<open>The abstract machine\<close>

datatype pstate = Idle | Sending int u32 | Receiving int u32 | Dormant

record ipc =
  st :: "int \<Rightarrow> pstate"
  queue :: "int \<Rightarrow> int list"
  pend :: "int \<Rightarrow> bool"
  mem :: "u32 \<Rightarrow> MESSAGE"
  base :: "int \<Rightarrow> u32"

abbreviation la :: "ipc \<Rightarrow> int \<Rightarrow> u32 \<Rightarrow> u32" where
  "la a p m \<equiv> base a p + m"

definition waits_for :: "ipc \<Rightarrow> (int \<times> int) set" where
  "waits_for a = {(p, d). p \<in> set slots \<and> (\<exists>m. st a p = Sending d m)}"

text \<open>\<open>None\<close> is the deadlock panic.\<close>

definition a_send :: "int \<Rightarrow> int \<Rightarrow> u32 \<Rightarrow> ipc \<Rightarrow> ipc option" where
  "a_send p d m a =
     (if (d, p) \<in> (waits_for a)\<^sup>+ then None
      else Some (case st a d of
          Receiving f b \<Rightarrow>
            if f = p \<or> f = ANY
            then a\<lparr>st := (st a)(d := Idle), mem := (mem a)(la a d b := mem a (la a p m))\<rparr>
            else a\<lparr>st := (st a)(p := Sending d m), queue := (queue a)(d := queue a d @ [p])\<rparr>
        | _ \<Rightarrow> a\<lparr>st := (st a)(p := Sending d m), queue := (queue a)(d := queue a d @ [p])\<rparr>))"

definition a_take :: "int \<Rightarrow> int \<Rightarrow> u32 \<Rightarrow> u32 \<Rightarrow> ipc \<Rightarrow> ipc" where
  "a_take r f m b a = a\<lparr>st := (st a)(f := Idle), queue := (queue a)(r := remove1 f (queue a r)),
     mem := (mem a)(la a r m := mem a (la a f b))\<rparr>"

definition a_receive :: "int \<Rightarrow> int \<Rightarrow> u32 \<Rightarrow> ipc \<Rightarrow> ipc" where
  "a_receive r src m a =
     (if pend a r \<and> (src = ANY \<or> src = INTERRUPT) then
        a\<lparr>pend := (pend a)(r := False),
          mem := (mem a)(la a r m := zero_msg\<lparr>source := INTERRUPT, mtype := HARDWARE_INT\<rparr>)\<rparr>
      else case (if src = ANY then (case queue a r of [] \<Rightarrow> None | f # _ \<Rightarrow> Some f)
                 else if src \<in> set (queue a r) then Some src else None) of
          Some f \<Rightarrow> (case st a f of Sending _ b \<Rightarrow> a_take r f m b a | _ \<Rightarrow> a)
        | None \<Rightarrow> a\<lparr>st := (st a)(r := Receiving src m)\<rparr>)"

definition a_interrupt :: "int \<Rightarrow> ipc \<Rightarrow> ipc" where
  "a_interrupt t a =
     (case st a t of
        Receiving f b \<Rightarrow>
          if f = INTERRUPT \<or> f = ANY
          then a\<lparr>st := (st a)(t := Idle), pend := (pend a)(t := False),
                 mem := (mem a)(la a t b := (mem a (la a t b))
                          \<lparr>source := INTERRUPT, mtype := HARDWARE_INT\<rparr>)\<rparr>
          else a\<lparr>pend := (pend a)(t := True)\<rparr>
      | _ \<Rightarrow> a\<lparr>pend := (pend a)(t := True)\<rparr>)"

text \<open>The invariant.\<close>

definition native :: "int \<Rightarrow> bool" where
  "native p \<longleftrightarrow> 0 \<le> p \<and> p < NR_TASKS + NR_NATIVE_PROCS"

definition ipc_ok :: "ipc \<Rightarrow> bool" where
  "ipc_ok a \<longleftrightarrow>
     (\<forall>d\<in>set slots. distinct (queue a d) \<and>
        set (queue a d) = {p \<in> set slots. \<exists>m. st a p = Sending d m}) \<and>
     (\<forall>p\<in>set slots. \<forall>d m. st a p = Sending d m \<longrightarrow> native d \<and> m \<noteq> 0) \<and>
     (\<forall>p\<in>set slots. \<forall>f m. st a p = Receiving f m \<longrightarrow>
        (native f \<or> f = ANY \<or> f = INTERRUPT) \<and> m \<noteq> 0) \<and>
     (\<forall>p. native p \<longrightarrow> st a p \<noteq> Dormant \<and> base a p = 0) \<and>
     acyclic (waits_for a) \<and>
     (\<forall>p\<in>set slots. \<forall>d m f b. st a p = Sending d m \<and> st a d = Receiving f b \<longrightarrow>
        f \<noteq> p \<and> f \<noteq> ANY) \<and>
     (\<forall>p\<in>set slots. \<forall>f m. st a p = Receiving f m \<and> pend a p \<longrightarrow> native f)"

subsection \<open>The relation to the kernel's state\<close>

fun rep_proc :: "PROCESS \<Rightarrow> pstate \<Rightarrow> bool" where
  "rep_proc p Idle \<longleftrightarrow> p_flags p = 0 \<and> p_msg p = 0 \<and> p_recvfrom p = NO_TASK \<and> p_sendto p = NO_TASK"
| "rep_proc p (Sending d m) \<longleftrightarrow> p_flags p = SENDING \<and> p_msg p = m \<and> p_recvfrom p = NO_TASK \<and>
     p_sendto p = d"
| "rep_proc p (Receiving f m) \<longleftrightarrow> p_flags p = RECEIVING \<and> p_msg p = m \<and> p_recvfrom p = f \<and>
     p_sendto p = NO_TASK"
| "rep_proc p Dormant \<longleftrightarrow> p_flags p \<noteq> 0 \<and> p_flags p AND SENDING = 0 \<and> p_flags p AND RECEIVING = 0"

abbreviation next_of :: "kernel \<Rightarrow> int \<Rightarrow> int option" where
  "next_of s \<equiv> \<lambda>p. p_next_sending (proc_table s p)"

definition ipc_rep :: "kernel \<Rightarrow> ipc \<Rightarrow> bool" where
  "ipc_rep s a \<longleftrightarrow>
     (\<forall>p\<in>set slots. rep_proc (proc_table s p) (st a p) \<and>
        chain (next_of s) (p_sending_queue (proc_table s p)) (queue a p) \<and>
        (pend a p \<longleftrightarrow> p_has_int_msg (proc_table s p) \<noteq> 0) \<and>
        ldt_seg_linear (proc_table s p) INDEX_LDT_DATA = base a p) \<and>
     mem a = messages s \<and>
     p_flags (proc_table s INTERRUPT) AND SENDING = 0"

subsection \<open>The waits-for graph\<close>

lemma waits_for_iff: "(p, d) \<in> waits_for a \<longleftrightarrow> p \<in> set slots \<and> (\<exists>m. st a p = Sending d m)"
  by (simp add: waits_for_def)

lemma waits_for_functional: "(p, d) \<in> waits_for a \<Longrightarrow> (p, e) \<in> waits_for a \<Longrightarrow> d = e"
  by (auto simp: waits_for_iff)

lemma waits_for_step: "(p, q) \<in> waits_for a \<Longrightarrow> (p, x) \<in> (waits_for a)\<^sup>+ \<longleftrightarrow> q = x \<or> (q, x) \<in> (waits_for a)\<^sup>+"
  by (auto elim: converse_tranclE dest: waits_for_functional intro: trancl_into_trancl2)

lemma waits_for_block:
  "p \<in> set slots \<Longrightarrow> st a p = Idle \<Longrightarrow>
   waits_for (a\<lparr>st := (st a)(p := Sending d m), queue := q\<rparr>) = insert (p, d) (waits_for a)"
  by (auto simp: waits_for_def split: if_splits)

lemma waits_for_clear:
  "\<nexists>d m. x = Sending d m \<Longrightarrow> waits_for (a\<lparr>st := (st a)(p := x)\<rparr>) \<subseteq> waits_for a"
  by (auto simp: waits_for_def split: if_splits)

lemma native_slots: "native p \<Longrightarrow> p \<in> set slots"
  by (simp add: native_def set_slots)

lemma ipc_ok_waits:
  assumes "ipc_ok a" "(p, d) \<in> waits_for a"
  shows "native d" "d \<in> set slots" "p \<in> set slots"
  using assms native_slots unfolding ipc_ok_def waits_for_iff by blast+

lemma ipc_ok_wf: "ipc_ok a \<Longrightarrow> wf ((waits_for a)\<inverse>)"
proof (rule finite_acyclic_wf_converse)
  assume ok: "ipc_ok a"
  have "waits_for a \<subseteq> set slots \<times> set slots"
    using ipc_ok_waits [OF ok] by fastforce
  then show "finite (waits_for a)" by (rule finite_subset) simp
  show "acyclic (waits_for a)" using ok by (simp add: ipc_ok_def)
qed

subsection \<open>Reading the representation\<close>

lemma ipc_repD:
  assumes "ipc_rep s a" "p \<in> set slots"
  shows "rep_proc (proc_table s p) (st a p)"
    "chain (next_of s) (p_sending_queue (proc_table s p)) (queue a p)"
    "pend a p \<longleftrightarrow> p_has_int_msg (proc_table s p) \<noteq> 0"
    "ldt_seg_linear (proc_table s p) INDEX_LDT_DATA = base a p"
  using assms by (auto simp: ipc_rep_def)

lemma rep_sending:
  assumes "rep_proc q x"
  shows "p_flags q AND SENDING \<noteq> 0 \<longleftrightarrow> (\<exists>d m. x = Sending d m)"
  using assms by (cases x) auto

lemma rep_receiving:
  assumes "rep_proc q x"
  shows "p_flags q AND RECEIVING \<noteq> 0 \<longleftrightarrow> (\<exists>f m. x = Receiving f m)"
  using assms by (cases x) auto

lemma va2la_rep:
  assumes "ipc_rep s a" "ipc_ok a" "p \<in> set slots"
  shows "va2la s p m = Inr (la a p m)"
proof (cases "native p")
  case True
  then have "base a p = 0" using assms(2) by (simp add: ipc_ok_def)
  with ipc_repD(4) [OF assms(1,3)] show ?thesis by (simp add: va2la_def Let_def)
next
  case False
  with assms(3) ipc_repD(4) [OF assms(1,3)] show ?thesis by (simp add: va2la_def Let_def native_def set_slots)
qed

subsection \<open>Deadlock detection\<close>

lemma print_cycle_ok:
  assumes rep: "ipc_rep s a" and ok: "ipc_ok a" and path: "(p, src) \<in> (waits_for a)\<^sup>+"
  shows "print_cycle (proc_table s) src p = Some (Inr ())"
  using path
proof (induction rule: converse_trancl_induct)
  case (base p)
  then obtain m where "p \<in> set slots" "st a p = Sending src m" by (auto simp: waits_for_iff)
  with ipc_repD(1) [OF rep] ok show ?case
    by (subst print_cycle.simps) (fastforce simp: ipc_ok_def)
next
  case (step p q)
  then obtain m where "p \<in> set slots" "st a p = Sending q m" by (auto simp: waits_for_iff)
  with ipc_repD(1) [OF rep] ok have "p_msg (proc_table s p) \<noteq> 0" "p_sendto (proc_table s p) = q"
    by (fastforce simp: ipc_ok_def)+
  with step.IH show ?case by (subst print_cycle.simps) simp
qed

lemma deadlock_from_ok:
  assumes rep: "ipc_rep s a" and ok: "ipc_ok a"
  shows "p \<in> set slots \<Longrightarrow> p = dest \<or> (dest, p) \<in> (waits_for a)\<^sup>+ \<Longrightarrow>
    deadlock_from (proc_table s) src dest p = Some (Inr ((p, src) \<in> (waits_for a)\<^sup>+))"
proof (induction p rule: wf_induct_rule [OF ipc_ok_wf [OF ok]])
  case (1 p)
  note sending = rep_sending [OF ipc_repD(1) [OF rep 1(2)]]
  show ?case
  proof (cases "\<exists>q. (p, q) \<in> waits_for a")
    case True
    then obtain q where pq: "(p, q) \<in> waits_for a" ..
    then have to: "p_sendto (proc_table s p) = q" and fl: "p_flags (proc_table s p) AND SENDING \<noteq> 0"
      using ipc_repD(1) [OF rep 1(2)] sending by (auto simp: waits_for_iff)
    from pq 1(3) have path: "(dest, q) \<in> (waits_for a)\<^sup>+"
      by (auto intro: trancl_into_trancl)
    show ?thesis
    proof (cases "q = src")
      case True
      with path print_cycle_ok [OF rep ok] pq to fl show ?thesis
        by (subst deadlock_from.simps) auto
    next
      case False
      have "deadlock_from (proc_table s) src dest q = Some (Inr ((q, src) \<in> (waits_for a)\<^sup>+))"
        using 1(1) [of q] pq path ipc_ok_waits [OF ok pq] by simp
      with False to fl waits_for_step [OF pq, of src] show ?thesis
        by (subst deadlock_from.simps) simp
    qed
  next
    case False
    then have "(p, src) \<notin> (waits_for a)\<^sup>+" by (auto elim: converse_tranclE)
    moreover have "p_flags (proc_table s p) AND SENDING = 0"
      using False sending 1(2) by (auto simp: waits_for_iff)
    ultimately show ?thesis by (subst deadlock_from.simps) simp
  qed
qed

lemma deadlock_rep:
  assumes "ipc_rep s a" "ipc_ok a" "dest \<in> set slots"
  shows "deadlock s src dest = Inr ((dest, src) \<in> (waits_for a)\<^sup>+)"
  using deadlock_from_ok [OF assms(1,2,3)] by (simp add: deadlock_def)

subsection \<open>The abstract operations keep the invariant\<close>

lemma ipc_okD:
  assumes "ipc_ok a"
  shows "d \<in> set slots \<Longrightarrow> distinct (queue a d)"
    "d \<in> set slots \<Longrightarrow> set (queue a d) = {p \<in> set slots. \<exists>m. st a p = Sending d m}"
    "p \<in> set slots \<Longrightarrow> st a p = Sending d m \<Longrightarrow> native d \<and> m \<noteq> 0"
    "p \<in> set slots \<Longrightarrow> st a p = Receiving f m \<Longrightarrow> (native f \<or> f = ANY \<or> f = INTERRUPT) \<and> m \<noteq> 0"
    "native p \<Longrightarrow> st a p \<noteq> Dormant" "native p \<Longrightarrow> base a p = 0"
    "acyclic (waits_for a)"
    "p \<in> set slots \<Longrightarrow> st a p = Sending d m \<Longrightarrow> st a d = Receiving f b \<Longrightarrow> f \<noteq> p \<and> f \<noteq> ANY"
    "p \<in> set slots \<Longrightarrow> st a p = Receiving f m \<Longrightarrow> pend a p \<Longrightarrow> native f"
  using assms unfolding ipc_ok_def by blast+

lemma ipc_okI:
  assumes "\<And>d. d \<in> set slots \<Longrightarrow> distinct (queue a d) \<and>
      set (queue a d) = {p \<in> set slots. \<exists>m. st a p = Sending d m}"
    "\<And>p d m. p \<in> set slots \<Longrightarrow> st a p = Sending d m \<Longrightarrow> native d \<and> m \<noteq> 0"
    "\<And>p f m. p \<in> set slots \<Longrightarrow> st a p = Receiving f m \<Longrightarrow>
      (native f \<or> f = ANY \<or> f = INTERRUPT) \<and> m \<noteq> 0"
    "\<And>p. native p \<Longrightarrow> st a p \<noteq> Dormant \<and> base a p = 0"
    "acyclic (waits_for a)"
    "\<And>p d m f b. p \<in> set slots \<Longrightarrow> st a p = Sending d m \<Longrightarrow> st a d = Receiving f b \<Longrightarrow> f \<noteq> p \<and> f \<noteq> ANY"
    "\<And>p f m. p \<in> set slots \<Longrightarrow> st a p = Receiving f m \<Longrightarrow> pend a p \<Longrightarrow> native f"
  shows "ipc_ok a"
  using assms unfolding ipc_ok_def by blast

lemma block_send_ok:
  assumes ok: "ipc_ok a" and p: "p \<in> set slots" "st a p = Idle" and d: "native d" "p \<noteq> d"
    and m: "m \<noteq> 0" and cyc: "(d, p) \<notin> (waits_for a)\<^sup>+"
    and nr: "\<And>f b. st a d = Receiving f b \<Longrightarrow> f \<noteq> p \<and> f \<noteq> ANY"
  shows "ipc_ok (a\<lparr>st := (st a)(p := Sending d m), queue := (queue a)(d := queue a d @ [p])\<rparr>)"
proof -
  let ?a = "a\<lparr>st := (st a)(p := Sending d m), queue := (queue a)(d := queue a d @ [p])\<rparr>"
  note D = ipc_okD [OF ok]
  have notin: "p \<notin> set (queue a e)" if "e \<in> set slots" for e
    using D(2) [OF that] p by auto
  have q: "distinct (queue ?a e) \<and> set (queue ?a e) = {x \<in> set slots. \<exists>m. st ?a x = Sending e m}"
    if e: "e \<in> set slots" for e
    using D(1,2) [OF e] notin [OF e] p by (cases "e = d") auto
  have acy: "acyclic (waits_for ?a)"
    using D(7) cyc d waits_for_block [OF p, where d = d and m = m] by (simp add: acyclic_insert rtrancl_eq_or_trancl)
  show ?thesis
  proof (rule ipc_okI)
    show "acyclic (waits_for ?a)" by (rule acy)
  next
    fix x e mm f b
    assume "x \<in> set slots" "st ?a x = Sending e mm" "st ?a e = Receiving f b"
    then show "f \<noteq> x \<and> f \<noteq> ANY" using D(8) nr p by (cases "x = p") (auto split: if_splits)
  qed (use q D(3,4,5,6,9) d m p in \<open>auto split: if_splits\<close>)
qed


lemma waits_for_mem [simp]: "waits_for (a\<lparr>mem := M\<rparr>) = waits_for a"
  "waits_for (a\<lparr>pend := P\<rparr>) = waits_for a" "waits_for (a\<lparr>queue := Q\<rparr>) = waits_for a"
  by (simp_all add: waits_for_def)

lemma ipc_ok_mem [simp]: "ipc_ok (a\<lparr>mem := M\<rparr>) = ipc_ok a"
  by (simp add: ipc_ok_def)

lemma acyclic_clear:
  "ipc_ok a \<Longrightarrow> \<nexists>d m. x = Sending d m \<Longrightarrow> acyclic (waits_for (a\<lparr>st := (st a)(p := x)\<rparr>))"
  by (rule acyclic_subset [OF ipc_okD(7) waits_for_clear])

lemma wake_receiver_ok:
  assumes ok: "ipc_ok a" and d: "st a d = Receiving f b" and P: "\<And>p. P p \<Longrightarrow> pend a p"
  shows "ipc_ok (a\<lparr>st := (st a)(d := Idle), pend := P\<rparr>)"
proof -
  note D = ipc_okD [OF ok]
  have acy: "acyclic (waits_for (a\<lparr>st := (st a)(d := Idle), pend := P\<rparr>))"
    using acyclic_clear [OF ok, of Idle d] by (simp add: waits_for_def)
  show ?thesis
  proof (rule ipc_okI)
    fix e assume "e \<in> set slots"
    with D(1,2) d show "distinct (queue (a\<lparr>st := (st a)(d := Idle), pend := P\<rparr>) e) \<and>
      set (queue (a\<lparr>st := (st a)(d := Idle), pend := P\<rparr>) e) =
        {p \<in> set slots. \<exists>m. st (a\<lparr>st := (st a)(d := Idle), pend := P\<rparr>) p = Sending e m}"
      by auto
  next
    fix p e m f' b'
    assume "p \<in> set slots" "st (a\<lparr>st := (st a)(d := Idle), pend := P\<rparr>) p = Sending e m"
      "st (a\<lparr>st := (st a)(d := Idle), pend := P\<rparr>) e = Receiving f' b'"
    then show "f' \<noteq> p \<and> f' \<noteq> ANY" using D(8) by (auto split: if_splits)
  qed (use acy D(3,4,5,6,9) P in \<open>auto split: if_splits\<close>)
qed

lemma take_ok:
  assumes ok: "ipc_ok a" and f: "f \<in> set slots" "st a f = Sending r b" and r: "r \<in> set slots"
  shows "ipc_ok (a_take r f m b a)"
proof -
  note D = ipc_okD [OF ok]
  let ?a = "a\<lparr>st := (st a)(f := Idle), queue := (queue a)(r := remove1 f (queue a r))\<rparr>"
  have "ipc_ok ?a"
  proof (rule ipc_okI)
    fix d assume d: "d \<in> set slots"
    show "distinct (queue ?a d) \<and> set (queue ?a d) = {p \<in> set slots. \<exists>m. st ?a p = Sending d m}"
      using D(1,2) [OF d] f by (cases "d = r") auto
  next
    fix p d m g c
    assume "p \<in> set slots" "st ?a p = Sending d m" "st ?a d = Receiving g c"
    then show "g \<noteq> p \<and> g \<noteq> ANY" using D(8) by (auto split: if_splits)
  next
    show "acyclic (waits_for ?a)" using acyclic_clear [OF ok, of Idle f] by (simp add: waits_for_def)
  qed (use D(3,4,5,6,9) in \<open>auto split: if_splits\<close>)
  then show ?thesis by (simp add: a_take_def)
qed

lemma block_receive_ok:
  assumes ok: "ipc_ok a" and r: "r \<in> set slots" "st a r = Idle"
    and src: "native src \<or> src = ANY \<or> src = INTERRUPT" and m: "m \<noteq> 0"
    and np: "pend a r \<Longrightarrow> native src"
    and none: "src = ANY \<Longrightarrow> queue a r = []" "src \<noteq> ANY \<Longrightarrow> src \<notin> set (queue a r)"
  shows "ipc_ok (a\<lparr>st := (st a)(r := Receiving src m)\<rparr>)"
proof -
  note D = ipc_okD [OF ok]
  let ?a = "a\<lparr>st := (st a)(r := Receiving src m)\<rparr>"
  show ?thesis
  proof (rule ipc_okI)
    fix d assume d: "d \<in> set slots"
    show "distinct (queue ?a d) \<and> set (queue ?a d) = {p \<in> set slots. \<exists>m. st ?a p = Sending d m}"
      using D(1,2) [OF d] r by auto
  next
    fix p d m' g c
    assume *: "p \<in> set slots" "st ?a p = Sending d m'" "st ?a d = Receiving g c"
    then have sp: "st a p = Sending d m'" by (auto split: if_splits)
    show "g \<noteq> p \<and> g \<noteq> ANY"
    proof (cases "d = r")
      case True
      with sp * D(2) [OF r(1)] have "p \<in> set (queue a r)" by auto
      with none * True show ?thesis by (cases "src = ANY") auto
    next
      case False
      with * sp D(8) show ?thesis by auto
    qed
  next
    show "acyclic (waits_for ?a)" using acyclic_clear [OF ok, of "Receiving src m" r] by simp
  qed (use D(3,4,5,6,9) src m np in \<open>auto split: if_splits\<close>)
qed

lemma queue_sending:
  assumes "ipc_ok a" "r \<in> set slots" "f \<in> set (queue a r)"
  shows "f \<in> set slots" "\<exists>b. st a f = Sending r b"
  using ipc_okD(2) [OF assms(1,2)] assms(3) by auto

lemma a_send_ok:
  assumes "ipc_ok a" "p \<in> set slots" "st a p = Idle" "native d" "p \<noteq> d" "m \<noteq> 0"
    and "a_send p d m a = Some a'"
  shows "ipc_ok a'"
proof (cases "\<exists>f b. st a d = Receiving f b \<and> (f = p \<or> f = ANY)")
  case True
  then obtain f b where f: "st a d = Receiving f b" "f = p \<or> f = ANY" by blast
  then have "ipc_ok (a\<lparr>st := (st a)(d := Idle), pend := pend a\<rparr>)"
    by (intro wake_receiver_ok [OF assms(1)]) auto
  then have "ipc_ok (a\<lparr>st := (st a)(d := Idle)\<rparr>)" by simp
  with f assms(7) show ?thesis by (auto simp: a_send_def split: if_splits)
next
  case False
  then have "a' = a\<lparr>st := (st a)(p := Sending d m), queue := (queue a)(d := queue a d @ [p])\<rparr>"
    using assms(7) by (auto simp: a_send_def split: if_splits pstate.splits)
  moreover have "(d, p) \<notin> (waits_for a)\<^sup>+" using assms(7) by (auto simp: a_send_def split: if_splits)
  ultimately show ?thesis using block_send_ok [OF assms(1-6)] False by auto
qed

lemma a_receive_ok:
  assumes ok: "ipc_ok a" and r: "r \<in> set slots" "st a r = Idle"
    and src: "native src \<or> src = ANY \<or> src = INTERRUPT" and m: "m \<noteq> 0"
  shows "ipc_ok (a_receive r src m a)"
proof (cases "pend a r \<and> (src = ANY \<or> src = INTERRUPT)")
  case True
  have "ipc_ok (a\<lparr>pend := (pend a)(r := False)\<rparr>)"
    using ok unfolding ipc_ok_def by (auto simp: waits_for_def)
  with True show ?thesis by (simp add: a_receive_def)
next
  case np: False
  define who where "who = (if src = ANY then (case queue a r of [] \<Rightarrow> None | f # _ \<Rightarrow> Some f)
                 else if src \<in> set (queue a r) then Some src else None)"
  show ?thesis
  proof (cases who)
    case None
    then have "ipc_ok (a\<lparr>st := (st a)(r := Receiving src m)\<rparr>)"
      using np src by (intro block_receive_ok [OF ok r src m]) (auto simp: who_def split: if_splits list.splits)
    with np None show ?thesis by (auto simp: a_receive_def who_def [symmetric])
  next
    case (Some f)
    then have "f \<in> set (queue a r)" by (auto simp: who_def split: if_splits list.splits)
    with queue_sending [OF ok r(1)] obtain b where "f \<in> set slots" "st a f = Sending r b" by blast
    with np Some take_ok [OF ok _ _ r(1), of f b m] show ?thesis
      by (auto simp: a_receive_def who_def [symmetric])
  qed
qed

lemma a_interrupt_ok:
  assumes "ipc_ok a" "native t"
  shows "ipc_ok (a_interrupt t a)"
proof (cases "\<exists>f b. st a t = Receiving f b \<and> (f = INTERRUPT \<or> f = ANY)")
  case True
  then obtain f b where f: "st a t = Receiving f b" "f = INTERRUPT \<or> f = ANY" by blast
  then have "ipc_ok (a\<lparr>st := (st a)(t := Idle), pend := (pend a)(t := False)\<rparr>)"
    by (intro wake_receiver_ok [OF assms(1)]) (auto split: if_splits)
  with f show ?thesis by (auto simp: a_interrupt_def)
next
  case False
  have "ipc_ok (a\<lparr>pend := (pend a)(t := True)\<rparr>)"
  proof (rule ipc_okI)
    fix p f m
    assume "p \<in> set slots" "st (a\<lparr>pend := (pend a)(t := True)\<rparr>) p = Receiving f m"
      "pend (a\<lparr>pend := (pend a)(t := True)\<rparr>) p"
    then show "native f" using False ipc_okD(4,9) [OF assms(1)] by (cases "p = t") auto
  qed (use ipc_okD [OF assms(1)] in \<open>auto\<close>)
  with False show ?thesis by (auto simp: a_interrupt_def split: pstate.splits)
qed


subsection \<open>Updating the representation\<close>

lemma upd_proc_simps [simp]:
  "proc_table (upd_proc p f s) = (proc_table s)(p := f (proc_table s p))"
  "messages (upd_proc p f s) = messages s" "k_reenter (upd_proc p f s) = k_reenter s"
  "p_proc_ready (upd_proc p f s) = p_proc_ready s" "key_pressed (upd_proc p f s) = key_pressed s"
  "ticks (upd_proc p f s) = ticks s"
  by (simp_all add: upd_proc_def)

lemma interrupt_not_slot [simp]: "INTERRUPT \<notin> set slots" "ANY \<notin> set slots" "NO_TASK \<notin> set slots"
  by (simp_all add: set_slots)

lemma not_native [simp]: "\<not> native INTERRUPT" "\<not> native ANY" "\<not> native NO_TASK"
  by (simp_all add: native_def)

lemma rep_proc_cong:
  "p_flags p = p_flags q \<Longrightarrow> p_msg p = p_msg q \<Longrightarrow> p_recvfrom p = p_recvfrom q \<Longrightarrow>
   p_sendto p = p_sendto q \<Longrightarrow> rep_proc p x = rep_proc q x"
  by (cases x) auto

lemma rep_proc_links [simp]:
  "rep_proc (p\<lparr>p_next_sending := v\<rparr>) = rep_proc p"
  "rep_proc (p\<lparr>p_sending_queue := v\<rparr>) = rep_proc p"
  "rep_proc (p\<lparr>p_has_int_msg := n\<rparr>) = rep_proc p"
  "rep_proc (p\<lparr>p_ticks := n\<rparr>) = rep_proc p"
  by (rule ext, rule rep_proc_cong, simp_all)+

lemma ipc_repI:
  assumes "\<And>p. p \<in> set slots \<Longrightarrow> rep_proc (proc_table s p) (st a p)"
    "\<And>p. p \<in> set slots \<Longrightarrow> chain (next_of s) (p_sending_queue (proc_table s p)) (queue a p)"
    "\<And>p. p \<in> set slots \<Longrightarrow> pend a p \<longleftrightarrow> p_has_int_msg (proc_table s p) \<noteq> 0"
    "\<And>p. p \<in> set slots \<Longrightarrow> ldt_seg_linear (proc_table s p) INDEX_LDT_DATA = base a p"
    "mem a = messages s" "p_flags (proc_table s INTERRUPT) AND SENDING = 0"
  shows "ipc_rep s a"
  using assms by (simp add: ipc_rep_def)

lemma ipc_rep_mem: "ipc_rep s a \<Longrightarrow> mem a = messages s"
  "ipc_rep s a \<Longrightarrow> p_flags (proc_table s INTERRUPT) AND SENDING = 0"
  by (simp_all add: ipc_rep_def)

lemma ipc_rep_same:
  assumes "ipc_rep s a" "same_but_ticks s s'"
  shows "ipc_rep s' a"
proof (rule ipc_repI)
  fix p assume p: "p \<in> set slots"
  note D = same_but_ticksD [OF assms(2)]
  show "rep_proc (proc_table s' p) (st a p)"
    using ipc_repD(1) [OF assms(1) p] by (subst rep_proc_cong [where q = "proc_table s p"]) (simp_all add: D)
  show "chain (next_of s') (p_sending_queue (proc_table s' p)) (queue a p)"
    using ipc_repD(2) [OF assms(1) p] by (simp add: D)
  show "pend a p \<longleftrightarrow> p_has_int_msg (proc_table s' p) \<noteq> 0"
    using ipc_repD(3) [OF assms(1) p] by (simp add: D)
  show "ldt_seg_linear (proc_table s' p) INDEX_LDT_DATA = base a p"
    using ipc_repD(4) [OF assms(1) p] by (simp add: D ldt_seg_linear_def)
qed (use assms ipc_rep_mem same_but_ticksD [OF assms(2)] in \<open>simp_all\<close>)

lemma ipc_rep_messages:
  "ipc_rep s a \<Longrightarrow> ipc_rep (s\<lparr>messages := M\<rparr>) (a\<lparr>mem := M\<rparr>)"
  by (simp add: ipc_rep_def)

text \<open>A change of one process's own fields, queue links left alone.\<close>

lemma ipc_rep_upd:
  assumes rep: "ipc_rep s a" and p: "p \<in> set slots"
    and x: "rep_proc (f (proc_table s p)) x"
    and keep: "\<And>q. p_next_sending (f q) = p_next_sending q"
      "\<And>q. p_sending_queue (f q) = p_sending_queue q" "\<And>q. p_ldts (f q) = p_ldts q"
    and b: "b \<longleftrightarrow> p_has_int_msg (f (proc_table s p)) \<noteq> 0"
  shows "ipc_rep (upd_proc p f s) (a\<lparr>st := (st a)(p := x), pend := (pend a)(p := b)\<rparr>)"
proof -
  have nxt: "next_of (upd_proc p f s) = next_of s" by (auto simp: fun_eq_iff keep)
  show ?thesis
  proof (rule ipc_repI)
    fix q assume q: "q \<in> set slots"
    note D = ipc_repD [OF rep q]
    show "rep_proc (proc_table (upd_proc p f s) q)
        (st (a\<lparr>st := (st a)(p := x), pend := (pend a)(p := b)\<rparr>) q)"
      using D x by simp
    show "chain (next_of (upd_proc p f s)) (p_sending_queue (proc_table (upd_proc p f s) q))
        (queue (a\<lparr>st := (st a)(p := x), pend := (pend a)(p := b)\<rparr>) q)"
      unfolding nxt using D by (auto simp: keep)
    show "pend (a\<lparr>st := (st a)(p := x), pend := (pend a)(p := b)\<rparr>) q \<longleftrightarrow>
        p_has_int_msg (proc_table (upd_proc p f s) q) \<noteq> 0"
      using D b by simp
    show "ldt_seg_linear (proc_table (upd_proc p f s) q) INDEX_LDT_DATA =
        base (a\<lparr>st := (st a)(p := x), pend := (pend a)(p := b)\<rparr>) q"
      using D by (auto simp: ldt_seg_linear_def keep)
  qed (use ipc_rep_mem [OF rep] p in auto)
qed

corollary ipc_rep_upd_st:
  assumes "ipc_rep s a" "p \<in> set slots" "rep_proc (f (proc_table s p)) x"
    "\<And>q. p_next_sending (f q) = p_next_sending q"
    "\<And>q. p_sending_queue (f q) = p_sending_queue q" "\<And>q. p_ldts (f q) = p_ldts q"
    "\<And>q. p_has_int_msg (f q) = p_has_int_msg q"
  shows "ipc_rep (upd_proc p f s) (a\<lparr>st := (st a)(p := x)\<rparr>)"
proof -
  have "(pend a)(p := pend a p) = pend a" by simp
  with ipc_rep_upd [of s a p f x "pend a p"] ipc_repD(3) [OF assms(1,2)] assms show ?thesis by simp
qed

text \<open>A change of links only.\<close>

lemma ipc_rep_links:
  assumes rep: "ipc_rep s a"
    and same: "\<And>p. rep_proc (proc_table s' p) = rep_proc (proc_table s p)"
      "\<And>p. p_has_int_msg (proc_table s' p) = p_has_int_msg (proc_table s p)"
      "\<And>p. p_ldts (proc_table s' p) = p_ldts (proc_table s p)"
      "\<And>p. p_flags (proc_table s' p) = p_flags (proc_table s p)" "messages s' = messages s"
    and ch: "\<And>p. p \<in> set slots \<Longrightarrow> chain (next_of s') (p_sending_queue (proc_table s' p)) (Q p)"
  shows "ipc_rep s' (a\<lparr>queue := Q\<rparr>)"
  using ipc_repD [OF rep] ipc_rep_mem [OF rep] ch
  by (intro ipc_repI) (simp_all add: same ldt_seg_linear_def)

subsection \<open>The sending queues\<close>

lemma last_sending_chain:
  "chain (\<lambda>p. p_next_sending (pt p)) (Some x) (xs @ [y]) \<Longrightarrow> last_sending pt x = Some y"
proof (induction xs arbitrary: x)
  case Nil
  then show ?case by (subst last_sending.simps) simp
next
  case (Cons z zs)
  then have z: "x = z" and ch: "chain (\<lambda>p. p_next_sending (pt p)) (p_next_sending (pt z)) (zs @ [y])" by auto
  then obtain w where "p_next_sending (pt z) = Some w" by (cases zs) auto
  with z ch Cons.IH [of w] show ?case by (subst last_sending.simps) simp
qed

lemma find_prev_chain:
  "chain (\<lambda>p. p_next_sending (pt p)) (Some x) (xs @ f # ys) \<Longrightarrow> f \<notin> set xs \<Longrightarrow>
   find_prev pt f prev x = Some (if xs = [] then prev else Some (last xs))"
proof (induction xs arbitrary: x prev)
  case Nil
  then show ?case by (subst find_prev.simps) simp
next
  case (Cons z zs)
  then have z: "x = z" "z \<noteq> f" and ch: "chain (\<lambda>p. p_next_sending (pt p)) (p_next_sending (pt z)) (zs @ f # ys)"
    by auto
  then obtain w where "p_next_sending (pt z) = Some w" by (cases zs) auto
  with z ch Cons.IH [of w "Some z"] Cons.prems(2) show ?case by (subst find_prev.simps) simp
qed

definition links_ok :: "(int \<Rightarrow> int list) \<Rightarrow> bool" where
  "links_ok Q \<longleftrightarrow> (\<forall>d\<in>set slots. distinct (Q d)) \<and>
     (\<forall>d\<in>set slots. \<forall>e\<in>set slots. d \<noteq> e \<longrightarrow> set (Q d) \<inter> set (Q e) = {})"

lemma ipc_ok_links: "ipc_ok a \<Longrightarrow> links_ok (queue a)"
  using ipc_okD(1,2) by (auto simp: links_ok_def)

lemma next_of_upd:
  "next_of (upd_proc p f s) = (next_of s)(p := p_next_sending (f (proc_table s p)))"
  by auto

lemma append_sender_rep:
  assumes rep: "ipc_rep s a" and links: "links_ok (queue a)" and d: "d \<in> set slots"
    and fresh: "\<And>e. e \<in> set slots \<Longrightarrow> p \<notin> set (queue a e)"
  shows "\<exists>s'. append_sender p d s = Inr s' \<and>
    ipc_rep s' (a\<lparr>queue := (queue a)(d := queue a d @ [p])\<rparr>) \<and>
    (\<forall>q. p_ticks (proc_table s' q) = p_ticks (proc_table s q) \<and>
         p_priority (proc_table s' q) = p_priority (proc_table s q) \<and>
         p_flags (proc_table s' q) = p_flags (proc_table s q))"
proof (cases "queue a d" rule: rev_cases)
  case Nil
  with ipc_repD(2) [OF rep d] have none: "p_sending_queue (proc_table s d) = None" by simp
  define s' where "s' = upd_proc p (\<lambda>p. p\<lparr>p_next_sending := None\<rparr>)
     (upd_proc d (\<lambda>q. q\<lparr>p_sending_queue := Some p\<rparr>) s)"
  have run: "append_sender p d s = Inr s'" by (simp add: append_sender_def none s'_def)
  have nxt: "next_of s' = (next_of s)(p := None)" by (auto simp: s'_def)
  have "ipc_rep s' (a\<lparr>queue := (queue a)(d := queue a d @ [p])\<rparr>)"
  proof (rule ipc_rep_links [OF rep])
    fix q assume q: "q \<in> set slots"
    show "chain (next_of s') (p_sending_queue (proc_table s' q)) (((queue a)(d := queue a d @ [p])) q)"
      unfolding nxt using ipc_repD(2) [OF rep q] fresh [OF q] Nil by (auto simp: s'_def)
  qed (auto simp: s'_def)
  with run show ?thesis by (auto simp: s'_def)
next
  case (snoc xs l)
  with ipc_repD(2) [OF rep d] obtain h where h: "p_sending_queue (proc_table s d) = Some h"
    and ch: "chain (next_of s) (Some h) (xs @ [l])" by (cases xs) auto
  define s' where "s' = upd_proc p (\<lambda>p. p\<lparr>p_next_sending := None\<rparr>)
     (upd_proc l (\<lambda>q. q\<lparr>p_next_sending := Some p\<rparr>) s)"
  have run: "append_sender p d s = Inr s'"
    using last_sending_chain [OF ch] by (simp add: append_sender_def h s'_def)
  have nxt: "next_of s' = (next_of s)(l := Some p, p := None)" by (auto simp: s'_def)
  have dist: "distinct (xs @ [l])" using links d snoc by (auto simp: links_ok_def)
  have "ipc_rep s' (a\<lparr>queue := (queue a)(d := queue a d @ [p])\<rparr>)"
  proof (rule ipc_rep_links [OF rep])
    fix q assume q: "q \<in> set slots"
    show "chain (next_of s') (p_sending_queue (proc_table s' q)) (((queue a)(d := queue a d @ [p])) q)"
    proof (cases "q = d")
      case True
      with chain_append [OF ch dist, of p] fresh [OF d] snoc h show ?thesis
        unfolding nxt by (auto simp: s'_def)
    next
      case False
      with links d q snoc have "l \<notin> set (queue a q)" by (auto simp: links_ok_def)
      with False ipc_repD(2) [OF rep q] fresh [OF q] show ?thesis unfolding nxt by (auto simp: s'_def)
    qed
  qed (auto simp: s'_def)
  with run show ?thesis by (auto simp: s'_def)
qed

lemma unlink_sender_rep:
  assumes rep: "ipc_rep s a" and links: "links_ok (queue a)" and r: "r \<in> set slots"
    and q: "queue a r = xs @ f # ys"
  shows "\<exists>s'. unlink_sender r f (if xs = [] then None else Some (last xs)) s = Inr s' \<and>
    ipc_rep s' (a\<lparr>queue := (queue a)(r := remove1 f (queue a r))\<rparr>) \<and>
    p_proc_ready s' = p_proc_ready s"
proof -
  note ch = ipc_repD(2) [OF rep r]
  have dist: "distinct (xs @ f # ys)" using links r by (simp add: links_ok_def q [symmetric])
  then have rem: "remove1 f (queue a r) = xs @ ys" using q by (simp add: remove1_append)
  have other: "x \<notin> set (queue a e)" if "x \<in> set (queue a r)" "e \<in> set slots" "e \<noteq> r" for x e
    using links r that by (auto simp: links_ok_def)
  show ?thesis
  proof (cases xs rule: rev_cases)
    case Nil
    with ch q have h: "p_sending_queue (proc_table s r) = Some f"
      and ch': "chain (next_of s) (next_of s f) ys" by auto
    define s' where "s' = upd_proc f (\<lambda>p. p\<lparr>p_next_sending := None\<rparr>)
       (upd_proc r (\<lambda>p. p\<lparr>p_sending_queue := p_next_sending (proc_table s f)\<rparr>) s)"
    have run: "unlink_sender r f None s = Inr s'" by (simp add: unlink_sender_def h s'_def)
    have nxt: "next_of s' = (next_of s)(f := None)" by (auto simp: s'_def)
    have "ipc_rep s' (a\<lparr>queue := (queue a)(r := remove1 f (queue a r))\<rparr>)"
    proof (rule ipc_rep_links [OF rep])
      fix p assume p: "p \<in> set slots"
      show "chain (next_of s') (p_sending_queue (proc_table s' p)) (((queue a)(r := remove1 f (queue a r))) p)"
      proof (cases "p = r")
        case True
        with ch' dist Nil rem show ?thesis unfolding nxt by (auto simp: s'_def)
      next
        case False
        with other [of f p] p q ipc_repD(2) [OF rep p] show ?thesis unfolding nxt by (auto simp: s'_def)
      qed
    qed (auto simp: s'_def)
    with run Nil show ?thesis by (auto simp: s'_def)
  next
    case (snoc zs l)
    have h: "p_sending_queue (proc_table s r) \<noteq> Some f"
      using ch q dist snoc by (cases zs) auto
    define s' where "s' = upd_proc f (\<lambda>p. p\<lparr>p_next_sending := None\<rparr>)
       (upd_proc l (\<lambda>p. p\<lparr>p_next_sending := p_next_sending (proc_table s f)\<rparr>) s)"
    have run: "unlink_sender r f (Some l) s = Inr s'" using h by (simp add: unlink_sender_def s'_def)
    have nxt: "next_of s' = (next_of s)(l := next_of s f, f := None)" by (auto simp: s'_def)
    have "ipc_rep s' (a\<lparr>queue := (queue a)(r := remove1 f (queue a r))\<rparr>)"
    proof (rule ipc_rep_links [OF rep])
      fix p assume p: "p \<in> set slots"
      show "chain (next_of s') (p_sending_queue (proc_table s' p)) (((queue a)(r := remove1 f (queue a r))) p)"
      proof (cases "p = r")
        case True
        have "chain (next_of s) (p_sending_queue (proc_table s r)) (zs @ l # f # ys)"
          using ch q snoc by simp
        from chain_unlink [OF this] dist snoc True rem show ?thesis
          unfolding nxt by (auto simp: s'_def)
      next
        case False
        with other [of f p] other [of l p] p q snoc ipc_repD(2) [OF rep p] show ?thesis
          unfolding nxt by (auto simp: s'_def)
      qed
    qed (auto simp: s'_def)
    with run snoc show ?thesis by (auto simp: s'_def)
  qed
qed

subsection \<open>msg_send() refines the abstract send\<close>

lemma assert_idle_rep:
  "ipc_rep s a \<Longrightarrow> p \<in> set slots \<Longrightarrow> st a p = Idle \<Longrightarrow> assert_idle p s k = k"
  using ipc_repD(1) [of s a p] by (simp add: assert_idle_def)

lemma send_deliver_rep:
  assumes rep: "ipc_rep s a" and ok: "ipc_ok a" and p: "p \<in> set slots" "st a p = Idle"
    and d: "d \<in> set slots" "st a d = Receiving f b" and m: "m \<noteq> 0"
  shows "\<exists>s'. send_deliver p d m s = Inr s' \<and> p_proc_ready s' = p_proc_ready s \<and>
    ipc_rep s' (a\<lparr>st := (st a)(d := Idle), mem := (mem a)(la a d b := mem a (la a p m))\<rparr>)"
proof -
  have msg: "p_msg (proc_table s d) = b" "b \<noteq> 0" and fl: "p_flags (proc_table s d) = RECEIVING"
    "p_sendto (proc_table s d) = NO_TASK"
    using ipc_repD(1) [OF rep d(1)] ipc_okD(4) [OF ok d] d(2) by auto
  let ?M = "(messages s)(la a d b := messages s (la a p m))"
  let ?a = "a\<lparr>mem := ?M, st := (st a)(d := Idle)\<rparr>"
  define s' where "s' = upd_proc d (\<lambda>p. p\<lparr>p_msg := 0, p_flags := p_flags p AND NOT RECEIVING,
      p_recvfrom := NO_TASK\<rparr>) (s\<lparr>messages := ?M\<rparr>)"
  have rep': "ipc_rep s' ?a"
    using ipc_rep_upd_st [OF ipc_rep_messages [OF rep, of ?M] d(1),
        of "\<lambda>p. p\<lparr>p_msg := 0, p_flags := p_flags p AND NOT RECEIVING, p_recvfrom := NO_TASK\<rparr>" Idle] fl
    by (simp add: s'_def)
  have "p \<noteq> d" using p d by auto
  then have idle: "assert_idle d s' k = k" "assert_idle p s' k = k" for k :: "kernel res"
    using assert_idle_rep [OF rep' d(1)] assert_idle_rep [OF rep' p(1)] p by simp_all
  have "unblock d s' = Inr s'" using fl by (simp add: unblock_def s'_def)
  then have "send_deliver p d m s = Inr s'"
    using msg m idle va2la_rep [OF rep ok d(1)] va2la_rep [OF rep ok p(1)]
    by (simp add: send_deliver_def Let_def s'_def)
  moreover have "?a = a\<lparr>st := (st a)(d := Idle), mem := (mem a)(la a d b := mem a (la a p m))\<rparr>"
    using ipc_rep_mem(1) [OF rep] by simp
  ultimately show ?thesis using rep' by (intro exI [of _ s']) (simp add: s'_def)
qed

text \<open>
  The outcome of an operation that has to wait. There must be another process to run: with
  none, the scheduler's loop never ends. A receiver that blocks while an interrupt is
  pending fails its last assertion.
\<close>

definition block_outcome :: "int \<Rightarrow> bool \<Rightarrow> ipc \<Rightarrow> kernel \<Rightarrow> kernel res \<Rightarrow> bool" where
  "block_outcome p pending a' s res \<longleftrightarrow>
     (if \<nexists>q. runnable s q \<and> q \<noteq> p then res = Inl (Hang ''schedule'')
      else if pending then res = Inl (AssertFailed ''has_int_msg == 0'')
      else \<exists>s'. res = Inr s' \<and> ipc_rep s' a' \<and> chosen s')"

lemma send_block_rep:
  assumes rep: "ipc_rep s a" and ok: "ipc_ok a" and p: "p \<in> set slots" "st a p = Idle"
    and d: "d \<in> set slots" and m: "m \<noteq> 0"
  shows "block_outcome p False (a\<lparr>st := (st a)(p := Sending d m), queue := (queue a)(d := queue a d @ [p])\<rparr>)
    s (send_block p d m s)"
proof -
  have idle: "p_flags (proc_table s p) = 0" "p_recvfrom (proc_table s p) = NO_TASK"
    using ipc_repD(1) [OF rep p(1)] p(2) by auto
  define s1 where "s1 = upd_proc p (\<lambda>p. p\<lparr>p_sendto := d, p_msg := m\<rparr>)
     (upd_proc p (\<lambda>p. p\<lparr>p_flags := p_flags p OR SENDING\<rparr>) s)"
  have s1': "s1 = upd_proc p (\<lambda>p. p\<lparr>p_flags := p_flags p OR SENDING, p_sendto := d, p_msg := m\<rparr>) s"
    by (simp add: s1_def upd_proc_def)
  let ?a1 = "a\<lparr>st := (st a)(p := Sending d m)\<rparr>"
  let ?a2 = "a\<lparr>st := (st a)(p := Sending d m), queue := (queue a)(d := queue a d @ [p])\<rparr>"
  have rep1: "ipc_rep s1 ?a1"
    unfolding s1' using idle by (intro ipc_rep_upd_st [OF rep p(1)]) simp_all
  have "p \<notin> set (queue ?a1 e)" if "e \<in> set slots" for e
    using ipc_okD(2) [OF ok that] p by auto
  with append_sender_rep [OF rep1 _ d, of p] ipc_ok_links [OF ok] obtain s2 where
    s2: "append_sender p d s1 = Inr s2" and rep2: "ipc_rep s2 ?a2" and
    same: "\<And>q. p_ticks (proc_table s2 q) = p_ticks (proc_table s1 q) \<and>
         p_priority (proc_table s2 q) = p_priority (proc_table s1 q) \<and>
         p_flags (proc_table s2 q) = p_flags (proc_table s1 q)" by auto
  have fl: "p_flags (proc_table s2 p) \<noteq> 0" using ipc_repD(1) [OF rep2 p(1)] by simp
  have run: "runnable s2 q \<longleftrightarrow> runnable s q \<and> q \<noteq> p" for q
    using same fl by (auto simp: runnable_def s1')
  have eq: "send_block p d m s = block p s2"
  proof (cases "block p s2")
    case (Inr s3)
    with block_Inr have "same_but_ticks s2 s3" by blast
    from ipc_repD(1) [OF ipc_rep_same [OF rep2 this] p(1)] Inr s2 idle m show ?thesis
      unfolding send_block_def Let_def s1_def by (simp add: fun_upd_def)
  qed (use s2 idle in \<open>simp add: send_block_def Let_def s1_def fun_upd_def\<close>)
  show ?thesis
  proof (cases "\<exists>q. runnable s q \<and> q \<noteq> p")
    case True
    with run obtain s3 where "block p s2 = Inr s3" "same_but_ticks s2 s3" "chosen s3"
      using block_total [OF fl] by metis
    with True eq ipc_rep_same [OF rep2] show ?thesis by (auto simp: block_outcome_def)
  next
    case False
    with run have "block p s2 = Inl (Hang ''schedule'')" by (intro block_hang fl) simp
    with eq False show ?thesis by (simp add: block_outcome_def)
  qed
qed

text \<open>The receiver is waiting for this sender.\<close>

definition accepts :: "ipc \<Rightarrow> int \<Rightarrow> int \<Rightarrow> bool" where
  "accepts a d p \<longleftrightarrow> (case st a d of Receiving f _ \<Rightarrow> f = p \<or> f = ANY | _ \<Rightarrow> False)"

definition send_outcome :: "int \<Rightarrow> int \<Rightarrow> u32 \<Rightarrow> ipc \<Rightarrow> kernel \<Rightarrow> kernel res \<Rightarrow> bool" where
  "send_outcome p d m a s res \<longleftrightarrow>
     (case a_send p d m a of
        None \<Rightarrow> res = Inl (Panic ''>>DEADLOCK<<'')
      | Some a' \<Rightarrow>
          if accepts a d p then \<exists>s'. res = Inr s' \<and> ipc_rep s' a' \<and> p_proc_ready s' = p_proc_ready s
          else block_outcome p False a' s res)"

lemma msg_send_rep:
  assumes rep: "ipc_rep s a" and ok: "ipc_ok a" and p: "p \<in> set slots" "st a p = Idle"
    and d: "native d" "p \<noteq> d" and m: "m \<noteq> 0"
  shows "send_outcome p d m a s (msg_send p d m s)"
proof -
  have ds: "d \<in> set slots" by (rule native_slots [OF d(1)])
  note dl = deadlock_rep [OF rep ok ds, of p]
  note rcv = rep_receiving [OF ipc_repD(1) [OF rep ds]]
  consider (cyc) "(d, p) \<in> (waits_for a)\<^sup>+" | (acc) "(d, p) \<notin> (waits_for a)\<^sup>+" "accepts a d p"
    | (blk) "(d, p) \<notin> (waits_for a)\<^sup>+" "\<not> accepts a d p" by blast
  then show ?thesis
  proof cases
    case cyc
    with dl d show ?thesis by (simp add: a_send_def msg_send_def send_outcome_def)
  next
    case acc
    then obtain f b where fb: "st a d = Receiving f b" "f = p \<or> f = ANY"
      by (auto simp: accepts_def split: pstate.splits)
    with ipc_repD(1) [OF rep ds] have "p_recvfrom (proc_table s d) = f"
      "p_flags (proc_table s d) AND RECEIVING \<noteq> 0" by auto
    with send_deliver_rep [OF rep ok p ds fb(1) m] dl acc d fb show ?thesis
      by (auto simp: a_send_def msg_send_def send_outcome_def)
  next
    case blk
    then have "\<not> (p_flags (proc_table s d) AND RECEIVING \<noteq> 0 \<and>
       (p_recvfrom (proc_table s d) = p \<or> p_recvfrom (proc_table s d) = ANY))"
      using rcv ipc_repD(1) [OF rep ds] by (cases "st a d") (auto simp: accepts_def)
    moreover have "a_send p d m a = Some (a\<lparr>st := (st a)(p := Sending d m),
        queue := (queue a)(d := queue a d @ [p])\<rparr>)"
      using blk by (auto simp: a_send_def accepts_def split: pstate.splits)
    ultimately show ?thesis
      using send_block_rep [OF rep ok p ds m] dl blk d by (auto simp: msg_send_def send_outcome_def)
  qed
qed

subsection \<open>msg_receive() refines the abstract receive\<close>

lemma receive_interrupt_rep:
  assumes rep: "ipc_rep s a" and ok: "ipc_ok a" and r: "r \<in> set slots" "st a r = Idle" and m: "m \<noteq> 0"
  shows "\<exists>s'. receive_interrupt r m s = Inr s' \<and> p_proc_ready s' = p_proc_ready s \<and>
    ipc_rep s' (a\<lparr>pend := (pend a)(r := False),
      mem := (mem a)(la a r m := zero_msg\<lparr>source := INTERRUPT, mtype := HARDWARE_INT\<rparr>)\<rparr>)"
proof -
  let ?M = "(messages s)(la a r m := zero_msg\<lparr>source := INTERRUPT, mtype := HARDWARE_INT\<rparr>)"
  define s' where "s' = upd_proc r (\<lambda>p. p\<lparr>p_has_int_msg := 0\<rparr>) (s\<lparr>messages := ?M\<rparr>)"
  have idle: "rep_proc (proc_table s r) Idle" using ipc_repD(1) [OF rep r(1)] r(2) by simp
  have "ipc_rep s' (a\<lparr>mem := ?M, st := (st a)(r := Idle), pend := (pend a)(r := False)\<rparr>)"
    using ipc_rep_upd [OF ipc_rep_messages [OF rep, of ?M] r(1), of "\<lambda>p. p\<lparr>p_has_int_msg := 0\<rparr>" Idle False] idle
    by (simp add: s'_def)
  moreover have "a\<lparr>mem := ?M, st := (st a)(r := Idle), pend := (pend a)(r := False)\<rparr> =
      a\<lparr>pend := (pend a)(r := False),
      mem := (mem a)(la a r m := zero_msg\<lparr>source := INTERRUPT, mtype := HARDWARE_INT\<rparr>)\<rparr>"
    using ipc_rep_mem(1) [OF rep] fun_upd_triv [of "st a" r] r(2) by simp
  moreover have "receive_interrupt r m s = Inr s'"
    using idle m va2la_rep [OF rep ok r(1)] by (simp add: receive_interrupt_def Let_def s'_def)
  ultimately show ?thesis by (auto simp: s'_def)
qed

lemma receive_copy_rep:
  assumes rep: "ipc_rep s a" and ok: "ipc_ok a" and r: "r \<in> set slots" and m: "m \<noteq> 0"
    and q: "queue a r = xs @ f # ys" and f: "f \<in> set slots" "st a f = Sending r b"
  shows "\<exists>s'. receive_copy r f (if xs = [] then None else Some (last xs)) m s = Inr s' \<and>
    p_proc_ready s' = p_proc_ready s \<and> ipc_rep s' (a_take r f m b a)"
proof -
  let ?a1 = "a\<lparr>queue := (queue a)(r := remove1 f (queue a r))\<rparr>"
  obtain s1 where s1: "unlink_sender r f (if xs = [] then None else Some (last xs)) s = Inr s1"
    and rep1: "ipc_rep s1 ?a1" and rdy: "p_proc_ready s1 = p_proc_ready s"
    using unlink_sender_rep [OF rep ipc_ok_links [OF ok] r q] by blast
  have va: "va2la s1 p v = Inr (la a p v)" if "p \<in> set slots" for p v
    using ipc_repD(4) [OF rep1 that] ipc_okD(6) [OF ok, of p] that
    by (simp add: va2la_def Let_def native_def set_slots)
  have fp: "p_flags (proc_table s1 f) = SENDING" "p_msg (proc_table s1 f) = b" "b \<noteq> 0"
    "p_recvfrom (proc_table s1 f) = NO_TASK"
    using ipc_repD(1) [OF rep1 f(1)] ipc_okD(3) [OF ok f] f(2) by auto
  let ?M = "(messages s1)(la a r m := messages s1 (la a f b))"
  define s2 where "s2 = upd_proc f (\<lambda>p. p\<lparr>p_msg := 0, p_sendto := NO_TASK,
      p_flags := p_flags p AND NOT SENDING\<rparr>) (s1\<lparr>messages := ?M\<rparr>)"
  have "ipc_rep s2 (?a1\<lparr>mem := ?M, st := (st a)(f := Idle)\<rparr>)"
    using ipc_rep_upd_st [OF ipc_rep_messages [OF rep1, of ?M] f(1),
        of "\<lambda>p. p\<lparr>p_msg := 0, p_sendto := NO_TASK, p_flags := p_flags p AND NOT SENDING\<rparr>" Idle] fp
    by (simp add: s2_def)
  moreover have "?a1\<lparr>mem := ?M, st := (st a)(f := Idle)\<rparr> = a_take r f m b a"
    using ipc_rep_mem(1) [OF rep1] by (simp add: a_take_def)
  moreover have "receive_copy r f (if xs = [] then None else Some (last xs)) m s = Inr s2"
    using s1 va [OF r] va [OF f(1)] fp m by (simp add: receive_copy_def unblock_def s2_def)
  ultimately show ?thesis using rdy by (auto simp: s2_def)
qed

lemma receive_block_rep:
  assumes rep: "ipc_rep s a" and r: "r \<in> set slots" "st a r = Idle" and m: "m \<noteq> 0"
    and src: "src \<noteq> NO_TASK"
  shows "block_outcome r (pend a r) (a\<lparr>st := (st a)(r := Receiving src m)\<rparr>) s (receive_block r src m s)"
proof -
  have idle: "rep_proc (proc_table s r) Idle" using ipc_repD(1) [OF rep r(1)] r(2) by simp
  define s1 where "s1 = upd_proc r (\<lambda>p. p\<lparr>p_flags := p_flags p OR RECEIVING, p_msg := m,
     p_recvfrom := src\<rparr>) s"
  let ?a = "a\<lparr>st := (st a)(r := Receiving src m)\<rparr>"
  have rep1: "ipc_rep s1 ?a" unfolding s1_def using idle by (intro ipc_rep_upd_st [OF rep r(1)]) simp_all
  have fl: "p_flags (proc_table s1 r) \<noteq> 0" using ipc_repD(1) [OF rep1 r(1)] by simp
  have run: "runnable s1 q \<longleftrightarrow> runnable s q \<and> q \<noteq> r" for q
    using fl by (auto simp: runnable_def s1_def)
  have eq: "receive_block r src m s = bindE (block r s1) (\<lambda>s2.
      assertE (p_has_int_msg (proc_table s2 r) = 0) ''has_int_msg == 0'' (Inr s2))"
  proof (cases "block r s1")
    case (Inr s2)
    with block_Inr have "same_but_ticks s1 s2" by blast
    from ipc_repD(1) [OF ipc_rep_same [OF rep1 this] r(1)] Inr src m show ?thesis
      by (simp add: receive_block_def s1_def fun_upd_def)
  qed (simp add: receive_block_def s1_def fun_upd_def)
  show ?thesis
  proof (cases "\<exists>q. runnable s q \<and> q \<noteq> r")
    case True
    with run obtain s2 where s2: "block r s1 = Inr s2" "same_but_ticks s1 s2" "chosen s2"
      using block_total [OF fl] by metis
    have rep2: "ipc_rep s2 ?a" by (rule ipc_rep_same [OF rep1 s2(2)])
    with True s2 eq ipc_repD(3) [OF rep2 r(1)] show ?thesis
      by (auto simp: block_outcome_def)
  next
    case False
    with run have "block r s1 = Inl (Hang ''schedule'')" by (intro block_hang fl) simp
    with eq False show ?thesis by (simp add: block_outcome_def)
  qed
qed

lemma assert_sending_rep:
  "ipc_rep s a \<Longrightarrow> ipc_ok a \<Longrightarrow> f \<in> set slots \<Longrightarrow> st a f = Sending r b \<Longrightarrow> assert_sending f r s k = k"
  using ipc_repD(1) [of s a f] ipc_okD(3) [of a f r b] by (simp add: assert_sending_def)

text \<open>A message is there for the receiver.\<close>

definition available :: "ipc \<Rightarrow> int \<Rightarrow> int \<Rightarrow> bool" where
  "available a r src \<longleftrightarrow> pend a r \<and> (src = ANY \<or> src = INTERRUPT) \<or>
     (if src = ANY then queue a r \<noteq> [] else src \<in> set (queue a r))"

definition receive_outcome :: "int \<Rightarrow> int \<Rightarrow> u32 \<Rightarrow> ipc \<Rightarrow> kernel \<Rightarrow> kernel res \<Rightarrow> bool" where
  "receive_outcome r src m a s res \<longleftrightarrow>
     (if available a r src
      then \<exists>s'. res = Inr s' \<and> ipc_rep s' (a_receive r src m a) \<and> p_proc_ready s' = p_proc_ready s
      else block_outcome r (pend a r) (a_receive r src m a) s res)"

lemma sending_in_queue:
  assumes rep: "ipc_rep s a" and ok: "ipc_ok a" and r: "r \<in> set slots" and src: "native src \<or> src = INTERRUPT"
  shows "p_flags (proc_table s src) AND SENDING \<noteq> 0 \<and> p_sendto (proc_table s src) = r \<longleftrightarrow>
    src \<in> set (queue a r)"
proof (cases "native src")
  case True
  then have ss: "src \<in> set slots" by (rule native_slots)
  from ipc_okD(2) [OF ok r] rep_sending [OF ipc_repD(1) [OF rep ss]] ipc_repD(1) [OF rep ss] ss
  show ?thesis by (cases "st a src") auto
next
  case False
  with src have "src = INTERRUPT" by simp
  with ipc_rep_mem(2) [OF rep] ipc_okD(2) [OF ok r] show ?thesis by auto
qed

lemma msg_receive_queued:
  assumes rep: "ipc_rep s a" and ok: "ipc_ok a" and r: "r \<in> set slots" "st a r = Idle"
    and src: "src \<noteq> ANY" "native src \<or> src = INTERRUPT" "r \<noteq> src" and m: "m \<noteq> 0"
    and noint: "\<not> (pend a r \<and> src = INTERRUPT)" and inq: "src \<in> set (queue a r)"
  shows "\<exists>s'. msg_receive r src m s = Inr s' \<and> p_proc_ready s' = p_proc_ready s \<and>
    ipc_rep s' (a_receive r src m a)"
proof -
  note ch = ipc_repD(2) [OF rep r(1)]
  obtain xs ys where q: "queue a r = xs @ src # ys" "src \<notin> set xs" using inq by (meson split_list_first)
  from inq queue_sending [OF ok r(1)] obtain b where f: "src \<in> set slots" "st a src = Sending r b" by blast
  from q ch obtain h where h: "p_sending_queue (proc_table s r) = Some h"
    and chh: "chain (next_of s) (Some h) (xs @ src # ys)" by (cases xs) auto
  from find_prev_chain [OF chh q(2), of None]
  have fp: "find_prev (proc_table s) src None h = Some (if xs = [] then None else Some (last xs))" .
  have "msg_receive r src m s = receive_copy r src (if xs = [] then None else Some (last xs)) m s"
    using sending_in_queue [OF rep ok r(1) src(2)] inq src h fp noint ipc_repD(3) [OF rep r(1)]
    by (auto simp: msg_receive_def assert_idle_rep [OF rep r] assert_sending_rep [OF rep ok f])
  with receive_copy_rep [OF rep ok r(1) m q(1) f] inq src noint f show ?thesis
    by (auto simp: a_receive_def)
qed

lemma msg_receive_rep:
  assumes rep: "ipc_rep s a" and ok: "ipc_ok a" and r: "r \<in> set slots" "st a r = Idle"
    and src: "native src \<or> src = ANY \<or> src = INTERRUPT" "r \<noteq> src" and m: "m \<noteq> 0"
  shows "receive_outcome r src m a s (msg_receive r src m s)"
proof (cases "pend a r \<and> (src = ANY \<or> src = INTERRUPT)")
  case True
  with receive_interrupt_rep [OF rep ok r m] ipc_repD(3) [OF rep r(1)] src(2) show ?thesis
    by (auto simp: msg_receive_def a_receive_def receive_outcome_def available_def)
next
  case noint: False
  note ch = ipc_repD(2) [OF rep r(1)] and hi = ipc_repD(3) [OF rep r(1)]
  have src_nt: "src \<noteq> NO_TASK" using src(1) by (auto simp: native_def)
  note blk = receive_block_rep [OF rep r m src_nt]
  show ?thesis
  proof (cases "src = ANY")
    case any: True
    show ?thesis
    proof (cases "queue a r")
      case Nil
      with ch any noint hi src(2) blk show ?thesis
        by (auto simp: msg_receive_def a_receive_def receive_outcome_def available_def)
    next
      case (Cons f fs)
      then obtain b where f: "f \<in> set slots" "st a f = Sending r b"
        using queue_sending [OF ok r(1), of f] by auto
      from Cons ch have "p_sending_queue (proc_table s r) = Some f" by simp
      with receive_copy_rep [OF rep ok r(1) m, of "[]" f fs b] Cons f any noint hi src(2) show ?thesis
        by (auto simp: msg_receive_def a_receive_def receive_outcome_def available_def
            assert_idle_rep [OF rep r] assert_sending_rep [OF rep ok f])
    qed
  next
    case nany: False
    with src have src': "native src \<or> src = INTERRUPT" by simp
    show ?thesis
    proof (cases "src \<in> set (queue a r)")
      case True
      with msg_receive_queued [OF rep ok r nany src' src(2) m _ True] noint nany show ?thesis
        by (auto simp: receive_outcome_def available_def)
    next
      case False
      then have "msg_receive r src m s = receive_block r src m s"
        using sending_in_queue [OF rep ok r(1) src'] nany noint hi src(2) by (auto simp: msg_receive_def)
      with blk False nany noint show ?thesis
        by (auto simp: a_receive_def receive_outcome_def available_def)
    qed
  qed
qed

subsection \<open>Interrupts and the system call\<close>

lemma inform_init_rep:
  assumes rep: "ipc_rep s a" and ok: "ipc_ok a" and t: "native t"
  shows "\<exists>s'. inform_init t s = Inr s' \<and> p_proc_ready s' = p_proc_ready s \<and> ipc_rep s' (a_interrupt t a)"
proof -
  have ts: "t \<in> set slots" by (rule native_slots [OF t])
  note rt = ipc_repD(1) [OF rep ts]
  show ?thesis
  proof (cases "\<exists>f b. st a t = Receiving f b \<and> (f = INTERRUPT \<or> f = ANY)")
    case True
    then obtain f b where fb: "st a t = Receiving f b" "f = INTERRUPT \<or> f = ANY" by blast
    have tp: "p_flags (proc_table s t) = RECEIVING" "p_msg (proc_table s t) = b"
      "p_recvfrom (proc_table s t) = f" "p_sendto (proc_table s t) = NO_TASK"
      using rt fb(1) by auto
    have b0: "base a t = 0" using ipc_okD(6) [OF ok t] .
    let ?M = "(messages s)(b := (messages s b)\<lparr>source := INTERRUPT, mtype := HARDWARE_INT\<rparr>)"
    let ?f = "\<lambda>p. p\<lparr>p_msg := 0, p_has_int_msg := 0, p_flags := p_flags p AND NOT RECEIVING,
      p_recvfrom := NO_TASK\<rparr>"
    define s' where "s' = upd_proc t ?f (s\<lparr>messages := ?M\<rparr>)"
    have rep': "ipc_rep s' (a\<lparr>mem := ?M, st := (st a)(t := Idle), pend := (pend a)(t := False)\<rparr>)"
      using ipc_rep_upd [OF ipc_rep_messages [OF rep, of ?M] ts, of ?f Idle False] tp
      by (simp add: s'_def)
    moreover have "a\<lparr>mem := ?M, st := (st a)(t := Idle), pend := (pend a)(t := False)\<rparr> = a_interrupt t a"
      using fb b0 ipc_rep_mem(1) [OF rep] by (auto simp: a_interrupt_def)
    moreover have "unblock t s' = Inr s'" using tp by (simp add: unblock_def s'_def)
    moreover have "assert_idle t s' k = k" for k :: "kernel res"
      using assert_idle_rep [OF rep' ts] by simp
    ultimately show ?thesis
      using tp fb by (intro exI [of _ s']) (auto simp: inform_init_def Let_def s'_def)
  next
    case False
    then have "\<not> (p_flags (proc_table s t) AND RECEIVING \<noteq> 0 \<and>
        (p_recvfrom (proc_table s t) = INTERRUPT \<or> p_recvfrom (proc_table s t) = ANY))"
      using rt rep_receiving [OF rt] by (cases "st a t") auto
    then have "inform_init t s = Inr (upd_proc t (\<lambda>p. p\<lparr>p_has_int_msg := 1\<rparr>) s)"
      by (auto simp: inform_init_def Let_def)
    moreover have "ipc_rep (upd_proc t (\<lambda>p. p\<lparr>p_has_int_msg := 1\<rparr>) s)
        (a\<lparr>st := (st a)(t := st a t), pend := (pend a)(t := True)\<rparr>)"
      using rt by (intro ipc_rep_upd [OF rep ts]) simp_all
    moreover have "a\<lparr>st := (st a)(t := st a t), pend := (pend a)(t := True)\<rparr> = a_interrupt t a"
      using False by (auto simp: a_interrupt_def split: pstate.splits)
    ultimately show ?thesis by auto
  qed
qed

end
