(* ===== verification/Ksteps.thy ===== *)
theory Ksteps
  imports Ipc
begin

section \<open>The kernel's entry points as a state machine\<close>

text \<open>
  The events that enter the kernel: a system call of the running process, a hardware
  interrupt that informs a task, a clock tick. \<open>exec\<close> runs the handler the code runs for
  each of them; the step relation keeps the runs in which no assertion fails and no
  panic is raised.
\<close>

subsection \<open>sys_sendrec()\<close>

definition a_stamp :: "int \<Rightarrow> u32 \<Rightarrow> ipc \<Rightarrow> ipc" where
  "a_stamp p m a = a\<lparr>mem := (mem a)(la a p m := (mem a (la a p m))\<lparr>source := p\<rparr>)\<rparr>"

abbreviation stamp :: "int \<Rightarrow> u32 \<Rightarrow> kernel \<Rightarrow> kernel" where
  "stamp p mla s \<equiv> s\<lparr>messages := (messages s)(mla := (messages s mla)\<lparr>source := p\<rparr>)\<rparr>"

lemma a_stamp_simps [simp]:
  "st (a_stamp p m a) = st a" "queue (a_stamp p m a) = queue a" "pend (a_stamp p m a) = pend a"
  "base (a_stamp p m a) = base a" "ipc_ok (a_stamp p m a) = ipc_ok a"
  by (simp_all add: a_stamp_def)

lemma stamp_rep: "ipc_rep s a \<Longrightarrow> ipc_rep (stamp p (la a p m) s) (a_stamp p m a)"
  using ipc_rep_messages [of s a] ipc_rep_mem(1) [of s a] by (simp add: a_stamp_def)

lemma runnable_messages [simp]: "runnable (s\<lparr>messages := M\<rparr>) = runnable s"
  by (simp add: runnable_def fun_eq_iff)

lemma outcome_messages [simp]:
  "block_outcome p b a (s\<lparr>messages := M\<rparr>) res = block_outcome p b a s res"
  "send_outcome p d m a (s\<lparr>messages := M\<rparr>) res = send_outcome p d m a s res"
  "receive_outcome p d m a (s\<lparr>messages := M\<rparr>) res = receive_outcome p d m a s res"
  by (simp_all add: block_outcome_def send_outcome_def receive_outcome_def cong: option.case_cong)

lemma sys_sendrec_send_rep:
  assumes rep: "ipc_rep s a" and ok: "ipc_ok a" and p: "p \<in> set slots" "st a p = Idle"
    and d: "native d" "p \<noteq> d" and m: "m \<noteq> 0" and k: "k_reenter s = 0"
  shows "send_outcome p d m (a_stamp p m a) s (sys_sendrec SEND d m p s)"
proof -
  have "sys_sendrec SEND d m p s = msg_send p d m (stamp p (la a p m) s)"
    using d k va2la_rep [OF rep ok p(1)] by (simp add: sys_sendrec_def Let_def native_def)
  with msg_send_rep [OF stamp_rep [OF rep, of p m], of p d m] assms show ?thesis
    by simp
qed

lemma sys_sendrec_receive_rep:
  assumes rep: "ipc_rep s a" and ok: "ipc_ok a" and r: "r \<in> set slots" "st a r = Idle"
    and src: "native src \<or> src = ANY \<or> src = INTERRUPT" "r \<noteq> src" and m: "m \<noteq> 0" and k: "k_reenter s = 0"
  shows "receive_outcome r src m (a_stamp r m a) s (sys_sendrec RECEIVE src m r s)"
proof -
  have "sys_sendrec RECEIVE src m r s = msg_receive r src m (stamp r (la a r m) s)"
    using src k va2la_rep [OF rep ok r(1)] by (auto simp: sys_sendrec_def Let_def native_def)
  with msg_receive_rep [OF stamp_rep [OF rep, of r m], of r src m] assms show ?thesis
    by simp
qed

subsection \<open>The scheduler's accounts\<close>

text \<open>What every entry point but the clock leaves alone, apart from a refill by \<open>schedule()\<close>.\<close>

definition sched_frame :: "kernel \<Rightarrow> kernel \<Rightarrow> bool" where
  "sched_frame s s' \<longleftrightarrow> ticks s' = ticks s \<and> k_reenter s' = k_reenter s \<and> key_pressed s' = key_pressed s \<and>
     (\<forall>p. p_priority (proc_table s' p) = p_priority (proc_table s p) \<and>
        (p_ticks (proc_table s' p) = p_ticks (proc_table s p) \<or>
         p_ticks (proc_table s' p) = p_priority (proc_table s p)))"

lemma sched_frame_refl [simp]: "sched_frame s s"
  by (simp add: sched_frame_def)

lemma sched_frame_trans: "sched_frame s t \<Longrightarrow> sched_frame t u \<Longrightarrow> sched_frame s u"
  unfolding sched_frame_def by metis

lemma sched_frame_upd:
  "(\<And>q. p_priority (f q) = p_priority q \<and> p_ticks (f q) = p_ticks q) \<Longrightarrow> sched_frame s (upd_proc p f s)"
  by (simp add: sched_frame_def)

lemma sched_frame_messages: "sched_frame s (s\<lparr>messages := M\<rparr>)"
  by (simp add: sched_frame_def)

lemma schedule_frame:
  assumes "schedule s = Some s'"
  shows "sched_frame s s'"
proof (rule schedule.raw_induct [where P = sched_frame, OF _ assms])
  fix f :: "kernel \<Rightarrow> kernel option" and s s' :: kernel
  assume IH: "\<And>s s'. f s = Some s' \<Longrightarrow> sched_frame s s'"
  obtain g r where scan: "scan_ready (proc_table s) slots 0 (p_proc_ready s) = (g, r)" by fastforce
  let ?t = "s\<lparr>p_proc_ready := r, proc_table := refill (proc_table s)\<rparr>"
  assume "(let (g, r) = scan_ready (proc_table s) slots 0 (p_proc_ready s);
          s1 = s\<lparr>p_proc_ready := r\<rparr>
      in if g \<noteq> 0 then Some s1 else f (s1\<lparr>proc_table := refill (proc_table s1)\<rparr>)) = Some s'"
  with scan have "s' = s\<lparr>p_proc_ready := r\<rparr> \<or> f ?t = Some s'" by (auto simp: Let_def split: if_splits)
  moreover have "sched_frame s ?t" by (simp add: sched_frame_def)
  moreover have "sched_frame s (s\<lparr>p_proc_ready := r\<rparr>)" by (simp add: sched_frame_def)
  ultimately show "sched_frame s s'" using IH sched_frame_trans by blast
qed

lemma block_frame: "block p s = Inr s' \<Longrightarrow> sched_frame s s'"
  by (auto simp: block_def res_simps dest: schedule_frame)

lemma append_sender_frame: "append_sender p d s = Inr s' \<Longrightarrow> sched_frame s s'"
  by (auto simp: append_sender_def res_simps sched_frame_def split: option.splits)

lemma unlink_sender_frame: "unlink_sender r f prev s = Inr s' \<Longrightarrow> sched_frame s s'"
  by (auto simp: unlink_sender_def res_simps sched_frame_def split: option.splits if_splits)

lemma send_deliver_frame: "send_deliver p d m s = Inr s' \<Longrightarrow> sched_frame s s'"
  by (auto simp: send_deliver_def Let_def unblock_def assert_idle_def res_simps sched_frame_def)

lemma send_block_frame:
  assumes "send_block p d m s = Inr s'"
  shows "sched_frame s s'"
proof -
  let ?s1 = "upd_proc p (\<lambda>p. p\<lparr>p_sendto := d, p_msg := m\<rparr>)
     (upd_proc p (\<lambda>p. p\<lparr>p_flags := p_flags p OR SENDING\<rparr>) s)"
  from assms obtain s2 where "append_sender p d ?s1 = Inr s2" "block p s2 = Inr s'"
    by (auto simp: send_block_def Let_def res_simps)
  moreover have "sched_frame s ?s1" by (simp add: sched_frame_def)
  ultimately show ?thesis using append_sender_frame block_frame sched_frame_trans by blast
qed

lemma msg_send_frame: "msg_send p d m s = Inr s' \<Longrightarrow> sched_frame s s'"
  by (auto simp: msg_send_def res_simps split: if_splits dest: send_deliver_frame send_block_frame)

lemma receive_interrupt_frame: "receive_interrupt r m s = Inr s' \<Longrightarrow> sched_frame s s'"
  by (auto simp: receive_interrupt_def Let_def res_simps sched_frame_def)

lemma receive_copy_frame:
  assumes "receive_copy r f prev m s = Inr s'"
  shows "sched_frame s s'"
proof -
  from assms obtain s1 where "unlink_sender r f prev s = Inr s1" "sched_frame s1 s'"
    by (auto simp: receive_copy_def unblock_def res_simps sched_frame_def)
  then show ?thesis using unlink_sender_frame sched_frame_trans by blast
qed

lemma receive_block_frame:
  assumes "receive_block r f m s = Inr s'"
  shows "sched_frame s s'"
proof -
  let ?s1 = "upd_proc r (\<lambda>p. p\<lparr>p_flags := p_flags p OR RECEIVING, p_msg := m, p_recvfrom := f\<rparr>) s"
  from assms have "block r ?s1 = Inr s'" by (auto simp: receive_block_def res_simps)
  moreover have "sched_frame s ?s1" by (simp add: sched_frame_def)
  ultimately show ?thesis using block_frame sched_frame_trans by blast
qed

lemma msg_receive_frame: "msg_receive r src m s = Inr s' \<Longrightarrow> sched_frame s s'"
  by (auto simp: msg_receive_def assert_idle_def assert_sending_def res_simps
      split: if_splits option.splits
      dest: receive_interrupt_frame receive_copy_frame receive_block_frame)

lemma inform_init_frame: "inform_init t s = Inr s' \<Longrightarrow> sched_frame s s'"
  by (auto simp: inform_init_def Let_def unblock_def assert_idle_def res_simps sched_frame_def
      split: if_splits)

lemma sys_sendrec_frame:
  assumes "sys_sendrec f d m p s = Inr s'"
  shows "sched_frame s s'"
proof -
  from assms obtain M where "msg_send p d m (s\<lparr>messages := M\<rparr>) = Inr s' \<or>
      msg_receive p d m (s\<lparr>messages := M\<rparr>) = Inr s'"
    by (auto simp: sys_sendrec_def Let_def res_simps split: if_splits)
  then show ?thesis using msg_send_frame msg_receive_frame sched_frame_messages sched_frame_trans by blast
qed

subsection \<open>Events and steps\<close>

datatype event = Send int u32 | Receive int u32 | Irq int | Tick

fun exec :: "event \<Rightarrow> kernel \<Rightarrow> kernel res" where
  "exec (Send d m) s = sys_sendrec SEND d m (p_proc_ready s) s"
| "exec (Receive src m) s = sys_sendrec RECEIVE src m (p_proc_ready s) s"
| "exec (Irq t) s = inform_init t s"
| "exec Tick s = clock_handler s"

text \<open>
  A process passes the address of a message, and sends to a process (\<open>sys_sendrec()\<close> would
  let \<open>ANY\<close> and \<open>INTERRUPT\<close> through and index the table with them); the interrupts inform
  tasks.
\<close>

fun event_ok :: "event \<Rightarrow> bool" where
  "event_ok (Send d m) \<longleftrightarrow> native d \<and> m \<noteq> 0"
| "event_ok (Receive src m) \<longleftrightarrow> m \<noteq> 0"
| "event_ok (Irq t) \<longleftrightarrow> native t"
| "event_ok Tick \<longleftrightarrow> True"

inductive kstep :: "kernel \<Rightarrow> kernel \<Rightarrow> bool" where
  kstep: "event_ok e \<Longrightarrow> exec e s = Inr s' \<Longrightarrow> kstep s s'"

inductive_cases kstepE: "kstep s s'"

definition accounts_ok :: "kernel \<Rightarrow> bool" where
  "accounts_ok s \<longleftrightarrow> 0 \<le> ticks s \<and> ticks s < MAX_TICKS \<and>
     (\<forall>p\<in>set slots. 0 \<le> p_ticks (proc_table s p) \<and> p_ticks (proc_table s p) < 2 ^ 31 \<and>
        0 \<le> p_priority (proc_table s p) \<and> p_priority (proc_table s p) < 2 ^ 31)"

definition current_ok :: "kernel \<Rightarrow> bool" where
  "current_ok s \<longleftrightarrow> p_proc_ready s \<in> set slots \<and> p_flags (proc_table s (p_proc_ready s)) = 0"

definition kinv :: "kernel \<Rightarrow> bool" where
  "kinv s \<longleftrightarrow> (\<exists>a. ipc_rep s a \<and> ipc_ok a) \<and> current_ok s \<and> accounts_ok s"

lemma current_Idle:
  assumes "ipc_rep s a" "current_ok s"
  shows "p_proc_ready s \<in> set slots" "st a (p_proc_ready s) = Idle"
proof -
  show p: "p_proc_ready s \<in> set slots" using assms(2) by (simp add: current_ok_def)
  from ipc_repD(1) [OF assms(1) p] assms(2) show "st a (p_proc_ready s) = Idle"
    by (cases "st a (p_proc_ready s)") (simp_all add: current_ok_def)
qed

lemma chosen_current: "chosen s \<Longrightarrow> current_ok s"
  by (simp add: chosen_def current_ok_def Let_def)

lemma Idle_current: "ipc_rep s a \<Longrightarrow> p_proc_ready s \<in> set slots \<Longrightarrow> st a (p_proc_ready s) = Idle \<Longrightarrow> current_ok s"
  using ipc_repD(1) [of s a "p_proc_ready s"] by (simp add: current_ok_def)

lemma accounts_frame: "accounts_ok s \<Longrightarrow> sched_frame s s' \<Longrightarrow> accounts_ok s'"
  unfolding accounts_ok_def sched_frame_def by (metis (no_types, lifting))

lemma block_outcome_inv:
  "block_outcome p b a' s (Inr s') \<Longrightarrow> ipc_ok a' \<Longrightarrow> (\<exists>a. ipc_rep s' a \<and> ipc_ok a) \<and> current_ok s'"
  by (auto simp: block_outcome_def split: if_splits intro: chosen_current)

lemma a_send_self: "a_send p d m a = Some a' \<Longrightarrow> accepts a d p \<Longrightarrow> st a p = Idle \<Longrightarrow> st a' p = Idle"
  by (auto simp: a_send_def accepts_def split: pstate.splits if_splits)

lemma a_receive_self:
  assumes "available a r src" "st a r = Idle"
  shows "st (a_receive r src m a) r = Idle"
proof (cases "pend a r \<and> (src = ANY \<or> src = INTERRUPT)")
  case False
  from False assms(1) have "\<exists>f. a_receive r src m a = (case st a f of Sending _ b \<Rightarrow> a_take r f m b a | _ \<Rightarrow> a)"
    by (cases "queue a r") (auto simp: a_receive_def available_def)
  then obtain f where "a_receive r src m a = (case st a f of Sending _ b \<Rightarrow> a_take r f m b a | _ \<Rightarrow> a)" ..
  with assms(2) show ?thesis by (cases "st a f") (simp_all add: a_take_def)
qed (use assms in \<open>simp add: a_receive_def\<close>)

lemma a_interrupt_other: "st a p = Idle \<Longrightarrow> st (a_interrupt t a) p = Idle"
  by (auto simp: a_interrupt_def split: pstate.splits)

lemma send_step_inv:
  assumes inv: "kinv s" and e: "native d" "m \<noteq> 0"
    and run: "sys_sendrec SEND d m (p_proc_ready s) s = Inr s'"
  shows "kinv s'"
proof -
  let ?p = "p_proc_ready s"
  from inv obtain a where a: "ipc_rep s a" "ipc_ok a" and cur: "current_ok s" and acc: "accounts_ok s"
    by (auto simp: kinv_def)
  note p = current_Idle [OF a(1) cur]
  from run va2la_rep [OF a p(1)] have pre: "k_reenter s = 0" "?p \<noteq> d"
    by (auto simp: sys_sendrec_def Let_def res_simps)
  from sys_sendrec_send_rep [OF a p e(1) pre(2) e(2) pre(1)] run obtain a' where
    a': "a_send ?p d m (a_stamp ?p m a) = Some a'" and
    out: "if accepts (a_stamp ?p m a) d ?p then ipc_rep s' a' \<and> p_proc_ready s' = ?p
      else block_outcome ?p False a' s (Inr s')"
    by (auto simp: send_outcome_def split: option.splits if_splits)
  have ok': "ipc_ok a'" using a_send_ok [OF _ p(1) _ e(1) pre(2) e(2) a'] a p by simp
  have "(\<exists>a. ipc_rep s' a \<and> ipc_ok a) \<and> current_ok s'"
  proof (cases "accepts (a_stamp ?p m a) d ?p")
    case True
    with out a_send_self [OF a'] p ok' Idle_current [of s' a'] show ?thesis by auto
  next
    case False
    with out ok' show ?thesis by (auto dest: block_outcome_inv)
  qed
  with accounts_frame [OF acc sys_sendrec_frame [OF run]] show ?thesis by (simp add: kinv_def)
qed

lemma receive_step_inv:
  assumes inv: "kinv s" and m: "m \<noteq> 0"
    and run: "sys_sendrec RECEIVE src m (p_proc_ready s) s = Inr s'"
  shows "kinv s'"
proof -
  let ?r = "p_proc_ready s"
  from inv obtain a where a: "ipc_rep s a" "ipc_ok a" and cur: "current_ok s" and acc: "accounts_ok s"
    by (auto simp: kinv_def)
  note r = current_Idle [OF a(1) cur]
  from run va2la_rep [OF a r(1)] have pre: "k_reenter s = 0" "?r \<noteq> src"
    and src: "native src \<or> src = ANY \<or> src = INTERRUPT"
    by (auto simp: sys_sendrec_def Let_def res_simps native_def)
  let ?a = "a_receive ?r src m (a_stamp ?r m a)"
  from sys_sendrec_receive_rep [OF a r src pre(2) m pre(1)] run have
    out: "if available (a_stamp ?r m a) ?r src then ipc_rep s' ?a \<and> p_proc_ready s' = ?r
      else block_outcome ?r (pend a ?r) ?a s (Inr s')"
    by (auto simp: receive_outcome_def split: if_splits)
  have ok': "ipc_ok ?a" using a_receive_ok [OF _ r(1) _ src m] a r by simp
  have "(\<exists>a. ipc_rep s' a \<and> ipc_ok a) \<and> current_ok s'"
  proof (cases "available (a_stamp ?r m a) ?r src")
    case True
    with out a_receive_self [OF True] r ok' Idle_current [of s' ?a] show ?thesis by auto
  next
    case False
    with out ok' show ?thesis by (auto dest: block_outcome_inv)
  qed
  with accounts_frame [OF acc sys_sendrec_frame [OF run]] show ?thesis by (simp add: kinv_def)
qed

lemma irq_step_inv:
  assumes inv: "kinv s" and t: "native t" and run: "inform_init t s = Inr s'"
  shows "kinv s'" "p_proc_ready s' = p_proc_ready s"
proof -
  from inv obtain a where a: "ipc_rep s a" "ipc_ok a" and cur: "current_ok s" and acc: "accounts_ok s"
    by (auto simp: kinv_def)
  note r = current_Idle [OF a(1) cur]
  from inform_init_rep [OF a t] run have a': "ipc_rep s' (a_interrupt t a)" "p_proc_ready s' = p_proc_ready s"
    by auto
  then show "p_proc_ready s' = p_proc_ready s" by simp
  from a' a_interrupt_ok [OF a(2) t] a_interrupt_other [OF r(2)] r
    Idle_current [OF a'(1)] accounts_frame [OF acc inform_init_frame [OF run]]
  show "kinv s'" by (auto simp: kinv_def)
qed

subsection \<open>The clock\<close>

lemma ipc_rep_ticks [simp]: "ipc_rep (s\<lparr>ticks := t\<rparr>) a = ipc_rep s a"
  by (simp add: ipc_rep_def)

lemma same_but_ticks_upd: "same_but_ticks s (upd_proc p (\<lambda>q. q\<lparr>p_ticks := f q\<rparr>) s)"
  by (simp add: same_but_ticks_def)

text \<open>The accounting half of the handler: the tick counters.\<close>

definition account :: "kernel \<Rightarrow> kernel" where
  "account s = (let t = s32 (ticks s + 1);
          s1 = s\<lparr>ticks := (if t \<ge> MAX_TICKS then 0 else t)\<rparr>
      in if p_ticks (proc_table s1 (p_proc_ready s1)) \<noteq> 0
                then upd_proc (p_proc_ready s1) (\<lambda>p. p\<lparr>p_ticks := s32 (p_ticks p - 1)\<rparr>) s1
                else s1)"

lemma clock_handler_account:
  "clock_handler s =
     (let s2 = account s in
      bindE (if key_pressed s2 \<noteq> 0 then inform_init TASK_TTY s2 else Inr s2) (\<lambda>s3.
           if k_reenter s3 \<noteq> 0 then Inr s3
           else if p_ticks (proc_table s3 (p_proc_ready s3)) > 0 then Inr s3
           else loopE (schedule s3) ''schedule'' Inr))"
  by (simp add: clock_handler_def account_def Let_def)

lemma account_simps [simp]:
  "p_proc_ready (account s) = p_proc_ready s" "key_pressed (account s) = key_pressed s"
  "k_reenter (account s) = k_reenter s" "messages (account s) = messages s"
  "p_flags (proc_table (account s) p) = p_flags (proc_table s p)"
  "p_priority (proc_table (account s) p) = p_priority (proc_table s p)"
  by (auto simp: account_def Let_def)

lemma account_rep: "ipc_rep s a \<Longrightarrow> ipc_rep (account s) a"
  unfolding account_def Let_def
  by (auto intro!: ipc_rep_same [OF _ same_but_ticks_upd])

lemma account_ticks:
  assumes "accounts_ok s" "current_ok s"
  shows "ticks (account s) = (if ticks s + 1 = MAX_TICKS then 0 else ticks s + 1)"
    "p_ticks (proc_table (account s) p) =
       (if p = p_proc_ready s \<and> p_ticks (proc_table s p) \<noteq> 0 then p_ticks (proc_table s p) - 1
        else p_ticks (proc_table s p))"
proof -
  from assms have "0 \<le> p_ticks (proc_table s (p_proc_ready s))" "p_ticks (proc_table s (p_proc_ready s)) < 2 ^ 31"
    by (auto simp: accounts_ok_def current_ok_def)
  then show "p_ticks (proc_table (account s) p) =
       (if p = p_proc_ready s \<and> p_ticks (proc_table s p) \<noteq> 0 then p_ticks (proc_table s p) - 1
        else p_ticks (proc_table s p))"
    by (auto simp: account_def Let_def s32_id)
  from assms show "ticks (account s) = (if ticks s + 1 = MAX_TICKS then 0 else ticks s + 1)"
    by (auto simp: account_def Let_def s32_id accounts_ok_def)
qed

lemma account_inv: "kinv s \<Longrightarrow> kinv (account s)"
  using account_rep [of s] account_ticks [of s]
  by (fastforce simp: kinv_def accounts_ok_def current_ok_def)

lemma schedule_inv:
  assumes "kinv s" "schedule s = Some s'"
  shows "kinv s'"
proof -
  from schedule_Some [OF assms(2)] have "same_but_ticks s s'" "chosen s'" by simp_all
  with assms ipc_rep_same accounts_frame [OF _ schedule_frame [OF assms(2)]] chosen_current
  show ?thesis by (auto simp: kinv_def)
qed

lemma clock_step_inv:
  assumes "kinv s" "clock_handler s = Inr s'"
  shows "kinv s'"
proof -
  from assms(2) obtain s3 where
    s3: "s3 = account s \<or> inform_init TASK_TTY (account s) = Inr s3" "s' = s3 \<or> schedule s3 = Some s'"
    by (auto simp: clock_handler_account Let_def res_simps split: if_splits)
  have "kinv s3" using s3(1) account_inv [OF assms(1)] irq_step_inv(1) [of "account s" TASK_TTY s3]
    by (auto simp: native_def)
  with s3(2) schedule_inv show ?thesis by auto
qed

interpretation kernel_machine: state_machine kstep kinv
proof
  fix s s' assume "kinv s" "kstep s s'"
  then obtain e where "event_ok e" "exec e s = Inr s'" by (auto elim: kstepE)
  with \<open>kinv s\<close> show "kinv s'"
    by (cases e) (auto intro: send_step_inv receive_step_inv irq_step_inv(1) clock_step_inv)
qed

subsection \<open>A concrete machine\<close>

text \<open>The process table as the sources describe it, with the priorities of the task tables.\<close>

definition demo_kernel :: kernel where
  "demo_kernel = \<lparr>proc_table = (\<lambda>p. if native p
       then zero_process\<lparr>p_priority := 20, p_recvfrom := NO_TASK, p_sendto := NO_TASK\<rparr>
       else zero_process\<lparr>p_flags := FREE_SLOT\<rparr>), p_proc_ready = 5, messages = (\<lambda>_. zero_msg),
     k_reenter = 0, ticks = 0, key_pressed = 0\<rparr>"

definition demo_ipc :: ipc where
  "demo_ipc = \<lparr>st = (\<lambda>i. if native i then Idle else Dormant), queue = (\<lambda>_. []),
     pend = (\<lambda>_. False), mem = (\<lambda>_. zero_msg), base = (\<lambda>_. 0)\<rparr>"

lemma demo_ipc_ok: "ipc_ok demo_ipc"
proof -
  have "waits_for demo_ipc = {}" by (simp add: demo_ipc_def waits_for_def)
  then have "acyclic (waits_for demo_ipc)" by (simp add: acyclic_def)
  then show ?thesis by (intro ipc_okI) (simp_all add: demo_ipc_def split: if_splits)
qed

lemma demo_rep: "ipc_rep demo_kernel demo_ipc"
  by (rule ipc_repI)
    (simp_all add: demo_kernel_def demo_ipc_def zero_process_def ldt_seg_linear_def zero_desc_def)

lemma demo_kinv: "kinv demo_kernel"
proof -
  have "current_ok demo_kernel" "accounts_ok demo_kernel"
    by (simp_all add: demo_kernel_def current_ok_def accounts_ok_def set_slots native_def zero_process_def)
  with demo_rep demo_ipc_ok show ?thesis by (auto simp: kinv_def)
qed

lemma demo_runnable: "native p \<Longrightarrow> runnable demo_kernel p"
  by (simp add: runnable_def demo_kernel_def zero_process_def native_slots)

subsection \<open>Properties\<close>

text \<open>
  C2: A \<open>SEND\<close> system call performs the abstract rendezvous: the kernel stamps the sender's
  number into the message; a send that would close a circular wait panics; a receiver that
  waits for this sender (or for \<open>ANY\<close>) gets the message and becomes ready; otherwise the
  sender joins the end of the receiver's queue and another process is chosen, and with no
  other process ready the scheduler never returns. No assertion of \<open>msg_send()\<close> fails.
\<close>

theorem sys_sendrec_send:
  assumes "ipc_rep s a" "ipc_ok a" "p \<in> set slots" "st a p = Idle" "native d" "p \<noteq> d"
    "m \<noteq> 0" "k_reenter s = 0"
  shows "send_outcome p d m (a_stamp p m a) s (sys_sendrec SEND d m p s)"
  using assms by (rule sys_sendrec_send_rep)

theorem sys_sendrec_send_witness:
  "send_outcome 5 3 64 (a_stamp 5 64 demo_ipc) demo_kernel (sys_sendrec SEND 3 64 5 demo_kernel)"
  by (rule sys_sendrec_send [OF demo_rep demo_ipc_ok])
    (simp_all add: set_slots native_def demo_ipc_def demo_kernel_def)

text \<open>
  C3: A \<open>RECEIVE\<close> system call performs the abstract receive: a pending interrupt first (for
  \<open>ANY\<close> and \<open>INTERRUPT\<close>), then the oldest sender in the queue for \<open>ANY\<close>, then the named
  sender wherever it is in the queue; with no message there the receiver blocks. The one
  assertion that can fail is \<open>has_int_msg == 0\<close>, when a process with a pending interrupt
  blocks for a particular sender.
\<close>

theorem sys_sendrec_receive:
  assumes "ipc_rep s a" "ipc_ok a" "r \<in> set slots" "st a r = Idle"
    "native src \<or> src = ANY \<or> src = INTERRUPT" "r \<noteq> src" "m \<noteq> 0" "k_reenter s = 0"
  shows "receive_outcome r src m (a_stamp r m a) s (sys_sendrec RECEIVE src m r s)"
  using assms by (rule sys_sendrec_receive_rep)

theorem sys_sendrec_receive_witness:
  "receive_outcome 3 ANY 64 (a_stamp 3 64 demo_ipc) demo_kernel (sys_sendrec RECEIVE ANY 64 3 demo_kernel)"
  by (rule sys_sendrec_receive [OF demo_rep demo_ipc_ok])
    (simp_all add: set_slots native_def demo_ipc_def demo_kernel_def)

definition sends_to :: "kernel \<Rightarrow> (int \<times> int) set" where
  "sends_to s = {(p, d). p \<in> set slots \<and> p_flags (proc_table s p) AND SENDING \<noteq> 0 \<and>
     p_sendto (proc_table s p) = d}"

lemma sends_to_waits: "ipc_rep s a \<Longrightarrow> sends_to s = waits_for a"
proof -
  assume rep: "ipc_rep s a"
  have "p_flags (proc_table s p) AND SENDING \<noteq> 0 \<and> p_sendto (proc_table s p) = d \<longleftrightarrow> (\<exists>m. st a p = Sending d m)"
    if "p \<in> set slots" for p d
    using ipc_repD(1) [OF rep that] rep_sending [OF ipc_repD(1) [OF rep that]] by (cases "st a p") auto
  then show ?thesis by (auto simp: sends_to_def waits_for_def)
qed

lemma sends_now:
  assumes "send_outcome p d m a s res" "accepts a d p" "(d, p) \<notin> (waits_for a)\<^sup>+"
  shows "\<exists>s' a'. res = Inr s' \<and> a_send p d m a = Some a' \<and> ipc_rep s' a'"
  using assms by (auto simp: send_outcome_def a_send_def)

lemma not_waiting: "\<nexists>e m. st a d = Sending e m \<Longrightarrow> (d, p) \<notin> (waits_for a)\<^sup>+"
  by (auto simp: waits_for_iff dest!: tranclD)

lemma block_outcome_run:
  "block_outcome p False a' s res \<Longrightarrow> runnable s q \<Longrightarrow> q \<noteq> p \<Longrightarrow> \<exists>s'. res = Inr s' \<and> ipc_rep s' a' \<and> chosen s'"
  by (auto simp: block_outcome_def split: if_splits)

lemma frame_reenter: "sys_sendrec f d m p s = Inr s' \<Longrightarrow> k_reenter s' = k_reenter s"
  using sys_sendrec_frame by (simp add: sched_frame_def)

lemma send_first:
  assumes rep: "ipc_rep s a" and ok: "ipc_ok a" and p: "native p" "st a p = Idle"
    and d: "native d" "st a d = Idle" "p \<noteq> d" and q: "queue a d = []" "\<not> pend a d"
    and m: "mp \<noteq> 0" "md \<noteq> 0" "mp \<noteq> md" and k: "k_reenter s = 0" and run: "runnable s d"
  shows "\<exists>s1 s2 a2. sys_sendrec SEND d mp p s = Inr s1 \<and> sys_sendrec RECEIVE ANY md d s1 = Inr s2 \<and>
    ipc_rep s2 a2 \<and> st a2 = st a \<and> queue a2 = queue a \<and>
    messages s2 md = (messages s mp)\<lparr>source := p\<rparr>"
proof -
  note ps = native_slots [OF p(1)] and ds = native_slots [OF d(1)]
  let ?a = "a_stamp p mp a"
  let ?a1 = "?a\<lparr>st := (st a)(p := Sending d mp), queue := (queue a)(d := [p])\<rparr>"
  have nw: "(d, p) \<notin> (waits_for ?a)\<^sup>+" using d(2) by (intro not_waiting) simp
  have send: "a_send p d mp ?a = Some ?a1" using nw d q by (simp add: a_send_def)
  have "\<not> accepts ?a d p" using d(2) by (simp add: accepts_def)
  with sys_sendrec_send_rep [OF rep ok ps p(2) d(1,3) m(1) k] send
  have "block_outcome p False ?a1 s (sys_sendrec SEND d mp p s)" by (simp add: send_outcome_def)
  with block_outcome_run run d(3) obtain s1 where
    s1: "sys_sendrec SEND d mp p s = Inr s1" "ipc_rep s1 ?a1" by blast
  have ok1: "ipc_ok ?a1" using a_send_ok [OF _ ps _ d(1,3) m(1) send] ok p(2) by simp
  have k1: "k_reenter s1 = 0" using frame_reenter [OF s1(1)] k by simp
  let ?a1' = "a_stamp d md ?a1"
  have "receive_outcome d ANY md ?a1' s1 (sys_sendrec RECEIVE ANY md d s1)"
    using sys_sendrec_receive_rep [OF s1(2) ok1 ds _ _ _ m(2) k1, of ANY] d by (auto simp: native_def)
  moreover have "available ?a1' d ANY" by (simp add: available_def)
  ultimately obtain s2 where s2: "sys_sendrec RECEIVE ANY md d s1 = Inr s2"
    "ipc_rep s2 (a_receive d ANY md ?a1')" by (auto simp: receive_outcome_def)
  have take: "a_receive d ANY md ?a1' = a_take d p md mp ?a1'" using q d p by (simp add: a_receive_def)
  have b: "base a p = 0" "base a d = 0" using ipc_okD(6) [OF ok] p d by auto
  have st2: "st (a_take d p md mp ?a1') = st a"
    using p(2) fun_upd_triv [of "st a" p] by (simp add: a_take_def)
  have q2: "queue (a_take d p md mp ?a1') = queue a"
    using q(1) fun_upd_triv [of "queue a" d] by (simp add: a_take_def)
  have "mem (a_take d p md mp ?a1') md = (mem a mp)\<lparr>source := p\<rparr>"
    using m(3) by (simp add: a_take_def a_stamp_def b)
  with ipc_rep_mem(1) [OF s2(2)] ipc_rep_mem(1) [OF rep] take
  have "messages s2 md = (messages s mp)\<lparr>source := p\<rparr>" by simp
  with s1(1) s2 st2 q2 take show ?thesis by metis
qed

lemma receive_first:
  assumes rep: "ipc_rep s a" and ok: "ipc_ok a" and p: "native p" "st a p = Idle"
    and d: "native d" "st a d = Idle" "p \<noteq> d" and q: "queue a d = []" "\<not> pend a d"
    and m: "mp \<noteq> 0" "md \<noteq> 0" "mp \<noteq> md" and k: "k_reenter s = 0" and run: "runnable s p"
  shows "\<exists>s1 s2 a2. sys_sendrec RECEIVE ANY md d s = Inr s1 \<and> sys_sendrec SEND d mp p s1 = Inr s2 \<and>
    ipc_rep s2 a2 \<and> st a2 = st a \<and> queue a2 = queue a \<and>
    messages s2 md = (messages s mp)\<lparr>source := p\<rparr>"
proof -
  note ps = native_slots [OF p(1)] and ds = native_slots [OF d(1)]
  let ?a = "a_stamp d md a"
  let ?a1 = "?a\<lparr>st := (st a)(d := Receiving ANY md)\<rparr>"
  have recv: "a_receive d ANY md ?a = ?a1" using q by (simp add: a_receive_def)
  have "\<not> available ?a d ANY" using q by (simp add: available_def)
  with sys_sendrec_receive_rep [OF rep ok ds d(2) _ _ m(2) k, of ANY] recv q(2) d(1)
  have "block_outcome d False ?a1 s (sys_sendrec RECEIVE ANY md d s)"
    by (auto simp: receive_outcome_def native_def)
  with block_outcome_run run d(3) obtain s1 where
    s1: "sys_sendrec RECEIVE ANY md d s = Inr s1" "ipc_rep s1 ?a1" by blast
  have ok1: "ipc_ok ?a1" using a_receive_ok [of ?a d ANY md] recv ok ds d m(2) by simp
  have k1: "k_reenter s1 = 0" using frame_reenter [OF s1(1)] k by simp
  let ?a1' = "a_stamp p mp ?a1"
  have "send_outcome p d mp ?a1' s1 (sys_sendrec SEND d mp p s1)"
    using sys_sendrec_send_rep [OF s1(2) ok1 ps _ d(1,3) m(1) k1] p(2) d(3) by simp
  moreover have "accepts ?a1' d p" by (simp add: accepts_def)
  moreover have nw: "(d, p) \<notin> (waits_for ?a1')\<^sup>+" by (rule not_waiting) simp
  ultimately obtain s2 a2 where s2: "sys_sendrec SEND d mp p s1 = Inr s2"
    "a_send p d mp ?a1' = Some a2" "ipc_rep s2 a2" using sends_now by blast
  have b: "base a p = 0" "base a d = 0" using ipc_okD(6) [OF ok] p d by auto
  have a2: "st a2 = st a" "queue a2 = queue a" "mem a2 md = (mem a mp)\<lparr>source := p\<rparr>"
    using s2(2) nw d(2) fun_upd_triv [of "st a" d] m(3) b by (auto simp: a_send_def a_stamp_def)
  with ipc_rep_mem(1) [OF s2(3)] ipc_rep_mem(1) [OF rep]
  have "messages s2 md = (messages s mp)\<lparr>source := p\<rparr>" by simp
  with s1(1) s2 a2 show ?thesis by metis
qed

text \<open>
  C4: A rendezvous delivers the sender's message whichever side comes first: \<open>SEND\<close> then
  \<open>RECEIVE\<close>, or \<open>RECEIVE\<close> then \<open>SEND\<close>, both calls return, both processes are idle again
  with their queues as before, and the receiver's buffer holds the sent message with the
  sender's own number as its source, whatever the sender had written there.
\<close>

theorem rendezvous_delivers:
  assumes "ipc_rep s a" "ipc_ok a" "native p" "st a p = Idle" "native d" "st a d = Idle" "p \<noteq> d"
    "queue a d = []" "\<not> pend a d" "mp \<noteq> 0" "md \<noteq> 0" "mp \<noteq> md" "k_reenter s = 0"
    "runnable s p" "runnable s d"
  shows
    "(\<exists>s1 s2 a2. sys_sendrec SEND d mp p s = Inr s1 \<and> sys_sendrec RECEIVE ANY md d s1 = Inr s2 \<and>
       ipc_rep s2 a2 \<and> st a2 = st a \<and> queue a2 = queue a \<and>
       messages s2 md = (messages s mp)\<lparr>source := p\<rparr>) \<and>
     (\<exists>s1 s2 a2. sys_sendrec RECEIVE ANY md d s = Inr s1 \<and> sys_sendrec SEND d mp p s1 = Inr s2 \<and>
       ipc_rep s2 a2 \<and> st a2 = st a \<and> queue a2 = queue a \<and>
       messages s2 md = (messages s mp)\<lparr>source := p\<rparr>)"
  using send_first [OF assms(1-13) assms(15)] receive_first [OF assms(1-14)] by blast

theorem rendezvous_delivers_witness:
  "(\<exists>s1 s2 a2. sys_sendrec SEND 3 64 5 demo_kernel = Inr s1 \<and> sys_sendrec RECEIVE ANY 128 3 s1 = Inr s2 \<and>
       ipc_rep s2 a2 \<and> st a2 = st demo_ipc \<and> queue a2 = queue demo_ipc \<and>
       messages s2 128 = (messages demo_kernel 64)\<lparr>source := 5\<rparr>) \<and>
     (\<exists>s1 s2 a2. sys_sendrec RECEIVE ANY 128 3 demo_kernel = Inr s1 \<and> sys_sendrec SEND 3 64 5 s1 = Inr s2 \<and>
       ipc_rep s2 a2 \<and> st a2 = st demo_ipc \<and> queue a2 = queue demo_ipc \<and>
       messages s2 128 = (messages demo_kernel 64)\<lparr>source := 5\<rparr>)"
  by (rule rendezvous_delivers [OF demo_rep demo_ipc_ok])
    (simp_all add: native_def demo_runnable, simp_all add: demo_ipc_def demo_kernel_def native_def)

lemma interrupt_kept:
  assumes rep: "ipc_rep s a" and ok: "ipc_ok a" and t: "native t" "st a t = Idle" and m: "m \<noteq> 0"
    and k: "k_reenter s = 0" and src: "src = ANY \<or> src = INTERRUPT"
  shows "\<exists>s1 s2. inform_init t s = Inr s1 \<and> sys_sendrec RECEIVE src m t s1 = Inr s2 \<and>
    messages s2 m = zero_msg\<lparr>source := INTERRUPT, mtype := HARDWARE_INT\<rparr>"
proof -
  obtain s1 where s1: "inform_init t s = Inr s1" "ipc_rep s1 (a_interrupt t a)"
    using inform_init_rep [OF rep ok t(1)] by blast
  have ai: "a_interrupt t a = a\<lparr>pend := (pend a)(t := True)\<rparr>" using t(2) by (simp add: a_interrupt_def)
  have k1: "k_reenter s1 = 0" using inform_init_frame [OF s1(1)] k by (simp add: sched_frame_def)
  have "t \<noteq> src" using src t by auto
  with sys_sendrec_receive_rep [OF s1(2) a_interrupt_ok [OF ok t(1)] native_slots [OF t(1)] _ _ _ m k1, of src]
    ai t(2) src
  have "receive_outcome t src m (a_stamp t m (a_interrupt t a)) s1 (sys_sendrec RECEIVE src m t s1)" by simp
  moreover have "available (a_stamp t m (a_interrupt t a)) t src" using ai src by (auto simp: available_def)
  ultimately obtain s2 where s2: "sys_sendrec RECEIVE src m t s1 = Inr s2"
    "ipc_rep s2 (a_receive t src m (a_stamp t m (a_interrupt t a)))" by (auto simp: receive_outcome_def)
  from ipc_rep_mem(1) [OF s2(2)] ipc_okD(6) [OF ok t(1)] ai src
  have "messages s2 m = zero_msg\<lparr>source := INTERRUPT, mtype := HARDWARE_INT\<rparr>"
    by (auto simp: a_receive_def a_stamp_def dest!: fun_cong [of _ _ m])
  with s1 s2 show ?thesis by blast
qed

lemma interrupt_wakes:
  assumes rep: "ipc_rep s a" and ok: "ipc_ok a" and t: "native t"
    and r: "st a t = Receiving f m" "f = ANY \<or> f = INTERRUPT"
  shows "\<exists>s1. inform_init t s = Inr s1 \<and> p_flags (proc_table s1 t) = 0 \<and>
    source (messages s1 m) = INTERRUPT \<and> mtype (messages s1 m) = HARDWARE_INT"
proof -
  obtain s1 where s1: "inform_init t s = Inr s1" "ipc_rep s1 (a_interrupt t a)"
    using inform_init_rep [OF rep ok t] by blast
  from ipc_repD(1) [OF s1(2) native_slots [OF t]] r ipc_okD(6) [OF ok t] s1(1)
  show ?thesis by (auto simp: a_interrupt_def ipc_rep_mem(1) [OF s1(2), symmetric])
qed

text \<open>
  C6: An interrupt is never lost. \<open>inform_init()\<close> wakes a task that waits for it (or for
  \<open>ANY\<close>) with the interrupt message in its buffer; a task that is running keeps it pending
  and its next \<open>RECEIVE\<close> from \<open>ANY\<close> or \<open>INTERRUPT\<close> returns at once with that message.
\<close>

theorem interrupt_not_lost:
  assumes "ipc_rep s a" "ipc_ok a" "native t" "src = ANY \<or> src = INTERRUPT" "m \<noteq> 0" "k_reenter s = 0"
    "st a t = Idle \<or> st a t = Receiving src m"
  shows "\<exists>s1. inform_init t s = Inr s1 \<and>
    (if st a t = Idle
     then \<exists>s2. sys_sendrec RECEIVE src m t s1 = Inr s2 \<and>
        messages s2 m = zero_msg\<lparr>source := INTERRUPT, mtype := HARDWARE_INT\<rparr>
     else p_flags (proc_table s1 t) = 0 \<and> source (messages s1 m) = INTERRUPT \<and>
        mtype (messages s1 m) = HARDWARE_INT)"
  using interrupt_kept [OF assms(1-3) _ assms(5,6,4)] interrupt_wakes [OF assms(1-3) _ assms(4)] assms(7)
  by auto

theorem interrupt_not_lost_witness:
  "\<exists>s1. inform_init TASK_HD demo_kernel = Inr s1 \<and>
    (if st demo_ipc TASK_HD = Idle
     then \<exists>s2. sys_sendrec RECEIVE INTERRUPT 64 TASK_HD s1 = Inr s2 \<and>
        messages s2 64 = zero_msg\<lparr>source := INTERRUPT, mtype := HARDWARE_INT\<rparr>
     else p_flags (proc_table s1 TASK_HD) = 0 \<and> source (messages s1 64) = INTERRUPT \<and>
        mtype (messages s1 64) = HARDWARE_INT)"
  by (rule interrupt_not_lost [OF demo_rep demo_ipc_ok])
    (simp_all add: native_def demo_ipc_def demo_kernel_def)

text \<open>
  C8: A clock tick counts: the global counter advances by one and wraps to zero at
  \<open>MAX_TICKS\<close>, exactly the running process is charged one tick (if it has any), and it is
  preempted only outside a nested interrupt and only when its ticks are used up; then the
  next process is the ready one with the most ticks.
\<close>

theorem clock_tick:
  assumes "kinv s" "clock_handler s = Inr s'" "key_pressed s = 0"
  shows "ticks s' = (if ticks s + 1 = MAX_TICKS then 0 else ticks s + 1) \<and>
    (if k_reenter s = 0 \<and> p_ticks (proc_table s (p_proc_ready s)) \<le> 1
     then chosen s' \<and> (\<forall>p. p_ticks (proc_table s' p) \<in>
            {p_ticks (proc_table (account s) p), p_priority (proc_table s p)})
     else p_proc_ready s' = p_proc_ready s \<and>
       (\<forall>p. p_ticks (proc_table s' p) = p_ticks (proc_table s p) -
          (if p = p_proc_ready s \<and> p_ticks (proc_table s p) \<noteq> 0 then 1 else 0)))"
proof -
  from assms(1) have ok: "accounts_ok s" "current_ok s" by (simp_all add: kinv_def)
  note t = account_ticks [OF ok]
  have nn: "0 \<le> p_ticks (proc_table s (p_proc_ready s))" using ok by (simp add: accounts_ok_def current_ok_def)
  show ?thesis
  proof (cases "k_reenter s = 0 \<and> p_ticks (proc_table s (p_proc_ready s)) \<le> 1")
    case True
    with assms(2,3) nn t have "schedule (account s) = Some s'"
      by (auto simp: clock_handler_account Let_def res_simps split: if_splits)
    with schedule_Some [of "account s" s'] schedule_frame [of "account s" s'] True t(1) show ?thesis
      by (auto simp: sched_frame_def)
  next
    case False
    with assms(2,3) nn t have "s' = account s"
      by (auto simp: clock_handler_account Let_def res_simps split: if_splits)
    with False t show ?thesis by auto
  qed
qed

text \<open>A tick that preempts (the running process has no tick left) and one inside an interrupt.\<close>

theorem clock_tick_witness:
  "(\<exists>s'. clock_handler demo_kernel = Inr s' \<and> ticks s' = 1 \<and> chosen s') \<and>
   (let s = demo_kernel\<lparr>k_reenter := 1\<rparr> in \<exists>s'. clock_handler s = Inr s' \<and> ticks s' = 1 \<and> p_proc_ready s' = 5)"
proof -
  let ?s = "demo_kernel\<lparr>k_reenter := 1\<rparr>"
  have inv: "kinv ?s"
    using demo_kinv by (simp add: kinv_def current_ok_def accounts_ok_def ipc_rep_def)
  have "\<exists>s'. clock_handler ?s = Inr s'" by (simp add: clock_handler_account Let_def demo_kernel_def)
  moreover have "ticks ?s = 0" "key_pressed ?s = 0" "p_proc_ready ?s = 5" by (simp_all add: demo_kernel_def)
  ultimately have nested: "\<exists>s'. clock_handler ?s = Inr s' \<and> ticks s' = 1 \<and> p_proc_ready s' = 5"
    using clock_tick [OF inv] by auto
  have acc: "account demo_kernel = demo_kernel\<lparr>ticks := 1\<rparr>"
    by (simp add: account_def Let_def demo_kernel_def zero_process_def native_def s32_id)
  have "runnable (account demo_kernel) 5"
    using demo_runnable [of 5] by (simp add: acc runnable_def native_def)
  then obtain s' where "schedule (account demo_kernel) = Some s'" using schedule_total by blast
  then have s': "clock_handler demo_kernel = Inr s'"
    by (simp add: clock_handler_account Let_def acc, simp add: demo_kernel_def zero_process_def native_def)
  have "ticks demo_kernel = 0" "key_pressed demo_kernel = 0" "k_reenter demo_kernel = 0"
    "p_ticks (proc_table demo_kernel (p_proc_ready demo_kernel)) = 0"
    by (simp_all add: demo_kernel_def zero_process_def native_def)
  with clock_tick [OF demo_kinv s'] s' nested show ?thesis by (simp add: Let_def)
qed

end
