(* ===== verification/Lib.thy ===== *)
theory Lib
  imports Ktypes
begin

section \<open>Strings and formatted output (lib/misc.c, lib/vsprintf.c, lib/klib.c)\<close>

text \<open>
  The string routines run on linear memory, a function from addresses to bytes; a loop that
  runs until it meets a zero byte need not end and is an option. \<open>vsprintf()\<close> and \<open>itoa()\<close>
  return the characters they write before the terminating zero; the size of the buffer is the
  caller's business, as in the code. A \<open>char\<close> is signed.
\<close>

subsection \<open>Comparing and concatenating\<close>

fun memcmp_loop :: "(u32 \<Rightarrow> u8) \<Rightarrow> nat \<Rightarrow> u32 \<Rightarrow> u32 \<Rightarrow> int" where
  "memcmp_loop m 0 p1 p2 = 0"
| "memcmp_loop m (Suc n) p1 p2 =
     (if m p1 \<noteq> m p2 then sint (m p1) - sint (m p2) else memcmp_loop m n (p1 + 1) (p2 + 1))"

definition memcmp :: "(u32 \<Rightarrow> u8) \<Rightarrow> u32 \<Rightarrow> u32 \<Rightarrow> int \<Rightarrow> int" where
  "memcmp m s1 s2 n = (if s1 = 0 \<or> s2 = 0 then sint (s1 - s2) else memcmp_loop m (nat n) s1 s2)"

partial_function (option) strcmp_loop :: "(u32 \<Rightarrow> u8) \<Rightarrow> u32 \<Rightarrow> u32 \<Rightarrow> int option" where
  "strcmp_loop m p1 p2 =
     (if m p1 \<noteq> 0 \<and> m p2 \<noteq> 0 \<and> m p1 = m p2 then strcmp_loop m (p1 + 1) (p2 + 1)
      else Some (sint (m p1) - sint (m p2)))"

definition strcmp :: "(u32 \<Rightarrow> u8) \<Rightarrow> u32 \<Rightarrow> u32 \<Rightarrow> int option" where
  "strcmp m s1 s2 = (if s1 = 0 \<or> s2 = 0 then Some (sint (s1 - s2)) else strcmp_loop m s1 s2)"

partial_function (option) str_end :: "(u32 \<Rightarrow> u8) \<Rightarrow> u32 \<Rightarrow> u32 option" where
  "str_end m p = (if m p = 0 then Some p else str_end m (p + 1))"

partial_function (option) str_append :: "(u32 \<Rightarrow> u8) \<Rightarrow> u32 \<Rightarrow> u32 \<Rightarrow> (u32 \<Rightarrow> u8) option" where
  "str_append m p1 p2 =
     (if m p2 = 0 then Some (m(p1 := 0)) else str_append (m(p1 := m p2)) (p1 + 1) (p2 + 1))"

definition strcat :: "(u32 \<Rightarrow> u8) \<Rightarrow> u32 \<Rightarrow> u32 \<Rightarrow> (u32 \<times> (u32 \<Rightarrow> u8)) option" where
  "strcat m s1 s2 =
     (if s1 = 0 \<or> s2 = 0 then Some (s1 - s2, m)
      else (case str_end m s1 of
              None \<Rightarrow> None
            | Some p \<Rightarrow> (case str_append m p s2 of None \<Rightarrow> None | Some m' \<Rightarrow> Some (s1, m'))))"

subsection \<open>Formatted output\<close>

text \<open>
  \<open>i2a()\<close>: the digits written, the last one after those of the quotient. It is called with
  base 10 and 16 only; a base below 2 would recurse for ever.
\<close>

definition digit :: "int \<Rightarrow> char" where
  "digit m = char_of (if m < 10 then m + 48 else m - 10 + 65)"

function i2a :: "int \<Rightarrow> int \<Rightarrow> string" where
  "i2a v base =
     (if base < 2 then []
      else (if c_div v base \<noteq> 0 then i2a (c_div v base) base else []) @ [digit (c_mod v base)])"
  by pat_completeness auto

lemma c_div_less: "2 \<le> b \<Longrightarrow> c_div v b \<noteq> 0 \<Longrightarrow> \<bar>c_div v b\<bar> < \<bar>v\<bar>"
proof -
  assume b: "2 \<le> b" "c_div v b \<noteq> 0"
  then have v: "0 < \<bar>v\<bar>" by (auto simp: c_div_def)
  have "\<bar>v\<bar> div b < \<bar>v\<bar>" using int_div_less_self [OF v, of b] b(1) by simp
  then show ?thesis using b(1) v pos_imp_zdiv_nonneg_iff [of b "\<bar>v\<bar>"] by (simp add: c_div_def abs_mult abs_sgn_eq)
qed

termination i2a
proof (relation "measure (\<lambda>(v, _). nat \<bar>v\<bar>)", goal_cases)
  case (2 v base)
  then show ?case using c_div_less [of base v] by simp
qed simp

declare i2a.simps [simp del]

text \<open>
  An argument on the stack is a number or the address of a string; a conversion that reads the
  other kind, or one that is not there, reads memory the caller never wrote.
\<close>

datatype arg = Num int | Str string

text \<open>The digits of a field width.\<close>

fun width :: "int \<Rightarrow> string \<Rightarrow> int \<times> string" where
  "width n [] = (n, [])"
| "width n (c # f) =
     (if 48 \<le> (of_char c :: nat) \<and> (of_char c :: nat) \<le> 57 then width (s32 (s32 (n * 10) + of_char c - 48)) f
      else (n, c # f))"

text \<open>One conversion: what it leaves in \<open>tmp\<close>, a string of fewer than 1024 characters.\<close>

definition convert :: "char \<Rightarrow> arg list \<Rightarrow> (string \<times> arg list) res" where
  "convert c args =
     (if c = CHR ''c'' then
        (case args of Num m # as \<Rightarrow> Inr (takeWhile (\<lambda>x. x \<noteq> CHR 0x00) [char_of (m mod 256)], as) | _ \<Rightarrow> Inl (Fault ''vsprintf''))
      else if c = CHR ''x'' then (case args of Num m # as \<Rightarrow> Inr (i2a m 16, as) | _ \<Rightarrow> Inl (Fault ''vsprintf''))
      else if c = CHR ''d'' then
        (case args of Num m # as \<Rightarrow> Inr (if m < 0 then CHR ''-'' # i2a (s32 (- m)) 10 else i2a m 10, as) | _ \<Rightarrow> Inl (Fault ''vsprintf''))
      else if c = CHR ''s'' then
        (case args of Str s # as \<Rightarrow> if length s < 1024 then Inr (s, as) else Inl (Fault ''tmp'') | _ \<Rightarrow> Inl (Fault ''vsprintf''))
      else Inr ([], args))"

lemma width_length: "length (snd (width n f)) \<le> length f"
  by (induction n f rule: width.induct) auto

text \<open>
  The loop over \<open>format\<close>; \<open>out\<close> is what \<open>buf\<close> holds so far. A format that ends inside a
  conversion is read beyond its terminating zero.
\<close>

function vsprintf_loop :: "string \<Rightarrow> arg list \<Rightarrow> string \<Rightarrow> string res" where
  "vsprintf_loop [] args out = Inr out"
| "vsprintf_loop (c # f) args out =
     (if c \<noteq> CHR ''%'' then vsprintf_loop f args (out @ [c])
      else (case f of
          [] \<Rightarrow> Inl (Fault ''format'')
        | d # f1 \<Rightarrow>
            if d = CHR ''%'' then vsprintf_loop f1 args (out @ [d])
            else
              let cs = (if d = CHR ''0'' then CHR ''0'' else CHR '' '');
                  w = width 0 (if d = CHR ''0'' then f1 else f)
              in (case snd w of
                    [] \<Rightarrow> Inl (Fault ''format'')
                  | e # f2 \<Rightarrow>
                      (case convert e args of
                         Inl err \<Rightarrow> Inl err
                       | Inr (tmp, args') \<Rightarrow>
                           vsprintf_loop f2 args' (out @ replicate (nat (fst w - int (length tmp))) cs @ tmp)))))"
  by pat_completeness auto

termination vsprintf_loop
proof (relation "measure (\<lambda>(f, _, _). length f)", goal_cases)
  case (4 c f args out d f1 cs w e f2)
  then have "length (e # f2) \<le> length f" using width_length [of 0 "if d = CHR ''0'' then f1 else f"] by (auto split: if_splits)
  then show ?case by simp
qed auto

definition vsprintf :: "string \<Rightarrow> arg list \<Rightarrow> string res" where
  "vsprintf format args = vsprintf_loop format args []"

text \<open>\<open>itoa()\<close> of \<^verbatim>\<open>klib.c\<close>: hexadecimal digits of an \<open>int\<close>, leading zeros left out.\<close>

definition hexdigit :: "u32 \<Rightarrow> char" where
  "hexdigit d = (let ch = unat d + 48 in char_of (if ch > 57 then ch + 7 else ch))"

fun itoa_loop :: "nat list \<Rightarrow> bool \<Rightarrow> u32 \<Rightarrow> string" where
  "itoa_loop [] flag number = []"
| "itoa_loop (i # is) flag number =
     (let ch = drop_bit i number AND 0xf
      in if flag \<or> ch \<noteq> 0 then hexdigit ch # itoa_loop is True number else itoa_loop is flag number)"

definition itoa :: "u32 \<Rightarrow> string" where
  "itoa number =
     ''0x'' @ (if number = 0 then ''0'' else itoa_loop [28, 24, 20, 16, 12, 8, 4, 0] False number)"


subsection \<open>The string routines\<close>

text \<open>The C string \<open>xs\<close> lies at \<open>p\<close>: its bytes, none of them zero, and a zero behind them.\<close>

fun cstr :: "(u32 \<Rightarrow> u8) \<Rightarrow> u32 \<Rightarrow> u8 list \<Rightarrow> bool" where
  "cstr m p [] \<longleftrightarrow> m p = 0"
| "cstr m p (x # xs) \<longleftrightarrow> m p = x \<and> x \<noteq> 0 \<and> cstr m (p + 1) xs"

text \<open>The value a comparison returns, over the strings themselves.\<close>

fun str_diff :: "u8 list \<Rightarrow> u8 list \<Rightarrow> int" where
  "str_diff [] [] = 0"
| "str_diff [] (y # ys) = - sint y"
| "str_diff (x # xs) [] = sint x"
| "str_diff (x # xs) (y # ys) = (if x = y then str_diff xs ys else sint x - sint y)"

lemma strcmp_loop_run: "cstr m p xs \<Longrightarrow> cstr m q ys \<Longrightarrow> strcmp_loop m p q = Some (str_diff xs ys)"
  by (induction xs ys arbitrary: p q rule: str_diff.induct) (auto simp: strcmp_loop.simps)

lemma str_diff_zero: "0 \<notin> set xs \<Longrightarrow> 0 \<notin> set ys \<Longrightarrow> str_diff xs ys = 0 \<longleftrightarrow> xs = ys"
proof (induction xs ys rule: str_diff.induct)
  case (2 y ys)
  then show ?case using signed_word_eqI [of y 0] by auto
next
  case (3 x xs)
  then show ?case using signed_word_eqI [of x 0] by auto
next
  case (4 x xs y ys)
  then show ?case using signed_word_eqI [of x y] by auto
qed simp

lemma cstr_nonzero: "cstr m p xs \<Longrightarrow> 0 \<notin> set xs"
  by (induction xs arbitrary: p) auto

lemma ascii_sint: "(x :: u8) < 128 \<Longrightarrow> sint x = uint x"
proof -
  assume "x < 128"
  then have "uint x < 128" by (simp add: word_less_def)
  then show ?thesis using order_trans [OF _ uint_ge_0, of "- 128" x] by (simp add: sint_uint signed_take_bit_int_eq_self)
qed

lemma str_diff_less:
  "\<forall>x \<in> set xs \<union> set ys. x < 128 \<and> x \<noteq> 0 \<Longrightarrow> str_diff xs ys < 0 \<longleftrightarrow> (xs, ys) \<in> lexord {(x, y). x < y}"
proof (induction xs ys rule: str_diff.induct)
  case (2 y ys)
  then have "0 < y" by (simp add: word_gt_0)
  then have "0 < uint y" by (simp add: word_less_def)
  then show ?case using 2 by (simp add: ascii_sint)
next
  case (3 x xs)
  then show ?case by (simp add: ascii_sint)
next
  case (4 x xs y ys)
  then show ?case by (auto simp: ascii_sint word_less_def)
qed simp_all

text \<open>
  C27: \<open>strcmp()\<close> on two strings ends and compares them: it returns zero exactly for equal
  strings, and on strings of 7-bit characters a negative number exactly when the first comes
  before the second in lexicographic order.
\<close>

theorem strcmp_lexicographic:
  assumes "cstr m p xs" "cstr m q ys" "p \<noteq> 0" "q \<noteq> 0"
  shows "\<exists>r. strcmp m p q = Some r \<and> (r = 0 \<longleftrightarrow> xs = ys) \<and>
    ((\<forall>x \<in> set xs \<union> set ys. x < 128) \<longrightarrow> (r < 0 \<longleftrightarrow> (xs, ys) \<in> lexord {(x, y). x < y}))"
proof -
  have nz: "0 \<notin> set xs" "0 \<notin> set ys" using cstr_nonzero assms(1,2) by blast+
  have "strcmp m p q = Some (str_diff xs ys)" using strcmp_loop_run [OF assms(1,2)] assms(3,4) by (simp add: strcmp_def)
  moreover have "str_diff xs ys < 0 \<longleftrightarrow> (xs, ys) \<in> lexord {(x, y). x < y}" if "\<forall>x \<in> set xs \<union> set ys. x < 128"
    using that nz by (intro str_diff_less) auto
  ultimately show ?thesis using str_diff_zero [OF nz] by blast
qed

theorem strcmp_lexicographic_witness:
  "\<exists>r. strcmp (\<lambda>a. if a = 100 then 0x61 else if a = 200 then 0x61 else if a = 201 then 0x62 else 0) 100 200 = Some r \<and> r < 0"
  using strcmp_lexicographic [of "\<lambda>a. if a = 100 then 0x61 else if a = 200 then 0x61 else if a = 201 then 0x62 else 0" 100 "[0x61]" 200 "[0x61, 0x62]"]
  by auto

text \<open>Appending: the loop copies the string and its zero, when the two do not overlap.\<close>

lemma cstr_upd: "cstr m p xs \<Longrightarrow> (\<And>j. j \<le> length xs \<Longrightarrow> a \<noteq> p + of_nat j) \<Longrightarrow> cstr (m(a := v)) p xs"
proof (induction xs arbitrary: p)
  case Nil
  then show ?case using Nil(2) [of 0] by auto
next
  case (Cons x xs)
  have "a \<noteq> p + 1 + of_nat j" if "j \<le> length xs" for j
    using Cons.prems(2) [of "Suc j"] that by (simp add: add.assoc)
  then show ?case using Cons.IH [of "p + 1"] Cons.prems(1) Cons.prems(2) [of 0] by auto
qed

lemma str_end_run: "cstr m p xs \<Longrightarrow> str_end m p = Some (p + of_nat (length xs))"
  by (induction xs arbitrary: p) (simp_all add: str_end.simps algebra_simps)

lemma str_append_run:
  assumes "cstr m q ys" "\<And>i j. i \<le> length ys \<Longrightarrow> j \<le> length ys \<Longrightarrow> p + of_nat i \<noteq> q + of_nat j" "length ys < 2 ^ 32"
  shows "\<exists>m'. str_append m p q = Some m' \<and> cstr m' p ys \<and> (\<forall>a. (\<forall>i\<le>length ys. a \<noteq> p + of_nat i) \<longrightarrow> m' a = m a)"
  using assms
proof (induction ys arbitrary: m p q)
  case Nil
  then show ?case by (auto simp: str_append.simps)
next
  case (Cons y ys)
  have d: "p + 1 + of_nat i \<noteq> q + 1 + of_nat j" if "i \<le> length ys" "j \<le> length ys" for i j
    using Cons.prems(2) [of "Suc i" "Suc j"] that by (simp add: algebra_simps)
  have "p \<noteq> q + 1 + of_nat j" if "j \<le> length ys" for j
    using Cons.prems(2) [of 0 "Suc j"] that by (simp add: algebra_simps)
  then have c: "cstr (m(p := y)) (q + 1) ys" using Cons.prems(1) by (intro cstr_upd) auto
  from Cons.IH [OF c d] Cons.prems(3) obtain m' where m': "str_append (m(p := y)) (p + 1) (q + 1) = Some m'" "cstr m' (p + 1) ys"
    "\<And>a. (\<forall>i\<le>length ys. a \<noteq> p + 1 + of_nat i) \<Longrightarrow> m' a = (m(p := y)) a" by (auto simp del: fun_upd_apply)
  have "p \<noteq> p + 1 + of_nat i" if "i \<le> length ys" for i
  proof
    assume "p = p + 1 + of_nat i"
    then have "(of_nat (Suc i) :: u32) = 0" by (simp add: add.assoc)
    moreover have "unat (of_nat (Suc i) :: u32) = Suc i" using that Cons.prems(3) unfolding unat_of_nat by simp
    ultimately show False by simp
  qed
  then have "m' p = y" using m'(3) [of p] by auto
  moreover have "m' a = m a" if "\<forall>i\<le>length (y # ys). a \<noteq> p + of_nat i" for a
  proof -
    have "\<forall>i\<le>length ys. a \<noteq> p + 1 + of_nat i" using that by (metis Suc_le_mono add.assoc length_Cons of_nat_Suc)
    then show ?thesis using m'(3) [of a] that [rule_format, of 0] by simp
  qed
  ultimately show ?case using m'(1,2) Cons.prems(1) by (auto simp: str_append.simps [of m p q])
qed

lemma cstr_append: "cstr m (p + of_nat (length xs)) ys \<Longrightarrow> 0 \<notin> set xs \<Longrightarrow> (\<And>i. i < length xs \<Longrightarrow> m (p + of_nat i) = xs ! i) \<Longrightarrow> cstr m p (xs @ ys)"
proof (induction xs arbitrary: p)
  case (Cons x xs)
  have "m (p + 1 + of_nat i) = xs ! i" if "i < length xs" for i using Cons.prems(3) [of "Suc i"] that by (simp add: algebra_simps)
  then show ?case using Cons.IH [of "p + 1"] Cons.prems(1,2) Cons.prems(3) [of 0] by (auto simp: algebra_simps)
qed simp

lemma cstr_nth: "cstr m p xs \<Longrightarrow> i < length xs \<Longrightarrow> m (p + of_nat i) = xs ! i"
proof (induction xs arbitrary: p i)
  case (Cons x xs)
  then show ?case using Cons.IH [of "p + 1" "i - 1"] by (cases i) (auto simp: algebra_simps)
qed simp

lemma strcat_run:
  assumes "cstr m p xs" "cstr m q ys" "p \<noteq> 0" "q \<noteq> 0" "length xs + length ys < 2 ^ 32"
    "\<And>i j. i \<le> length ys \<Longrightarrow> j \<le> length ys \<Longrightarrow> p + of_nat (length xs + i) \<noteq> q + of_nat j"
  shows "\<exists>m'. strcat m p q = Some (p, m') \<and> cstr m' p (xs @ ys)"
proof -
  let ?e = "p + of_nat (length xs)"
  have "?e + of_nat i \<noteq> q + of_nat j" if "i \<le> length ys" "j \<le> length ys" for i j using assms(6) [OF that] by (simp add: add.assoc)
  from str_append_run [OF assms(2) this] assms(5) obtain m' where m': "str_append m ?e q = Some m'" "cstr m' ?e ys"
    "\<And>a. (\<forall>i\<le>length ys. a \<noteq> ?e + of_nat i) \<Longrightarrow> m' a = m a" by auto
  have "m' (p + of_nat k) = xs ! k" if "k < length xs" for k
  proof -
    have "(of_nat k :: u32) \<noteq> of_nat (length xs + i)" if "i \<le> length ys" for i
    proof -
      have "unat (of_nat k :: u32) = k" "unat (of_nat (length xs + i) :: u32) = length xs + i"
        using \<open>k < length xs\<close> that assms(5) unfolding unat_of_nat by simp_all
      then show ?thesis using \<open>k < length xs\<close> by (metis not_add_less1)
    qed
    then have "\<forall>i\<le>length ys. p + of_nat k \<noteq> ?e + of_nat i" by (simp add: add.assoc)
    then show ?thesis using m'(3) cstr_nth [OF assms(1) that] by simp
  qed
  then have "cstr m' p (xs @ ys)" using m'(2) cstr_nonzero [OF assms(1)] by (intro cstr_append) auto
  then show ?thesis using m'(1) str_end_run [OF assms(1)] assms(3,4) by (simp add: strcat_def)
qed

subsection \<open>Numbers\<close>

definition dec_val :: "string \<Rightarrow> int" where
  "dec_val ds = foldl (\<lambda>a c. 10 * a + (of_char c - 48)) 0 ds"

definition decimal :: "string \<Rightarrow> bool" where
  "decimal ds \<longleftrightarrow> ds \<noteq> [] \<and> (\<forall>c \<in> set ds. 48 \<le> (of_char c :: int) \<and> (of_char c :: int) \<le> 57) \<and> (hd ds = CHR ''0'' \<longrightarrow> ds = ''0'')"

lemma of_char_digit: "0 \<le> d \<Longrightarrow> d < 10 \<Longrightarrow> (of_char (digit d) :: int) = d + 48"
  by (simp add: digit_def)

lemma i2a_decimal: "0 \<le> v \<Longrightarrow> decimal (i2a v 10) \<and> dec_val (i2a v 10) = v"
proof (induction v "10 :: int" rule: i2a.induct)
  case (1 v)
  have e: "i2a v 10 = (if v div 10 \<noteq> 0 then i2a (v div 10) 10 else []) @ [digit (v mod 10)]"
    using 1(2) by (subst i2a.simps) (simp add: c_div_nonneg c_mod_nonneg)
  have d: "(of_char (digit (v mod 10)) :: int) = v mod 10 + 48" by (rule of_char_digit) simp_all
  show ?case
  proof (cases "v div 10 = 0")
    case True
    then show ?thesis using e d 1(2) by (auto simp: decimal_def dec_val_def div_eq_0_iff)
  next
    case False
    then have ih: "decimal (i2a (v div 10) 10)" "dec_val (i2a (v div 10) 10) = v div 10" using 1 by (simp_all add: c_div_nonneg)
    have "i2a (v div 10) 10 \<noteq> ''0''" using ih(2) False by (auto simp: dec_val_def)
    then have "decimal (i2a v 10)" using ih(1) e False d by (auto simp: decimal_def)
    moreover have "dec_val (i2a v 10) = v" using e False ih(2) d by (simp add: dec_val_def)
    ultimately show ?thesis by blast
  qed
qed

lemma int_div_less_mult: "x < y * k \<Longrightarrow> 0 < (k :: int) \<Longrightarrow> x div k < y"
  by (metis mult.commute mult_less_cancel_left_pos mult_div_mod_eq order_le_less_trans le_add_same_cancel1 pos_mod_sign)

lemma i2a_length:
  assumes "0 \<le> v" "v < 10 ^ k" "0 < k"
  shows "length (i2a v 10) \<le> k"
  using assms
proof (induction k arbitrary: v)
  case (Suc k)
  have e: "i2a v 10 = (if v div 10 \<noteq> 0 then i2a (v div 10) 10 else []) @ [digit (v mod 10)]"
    using Suc.prems(1) by (subst i2a.simps) (simp add: c_div_nonneg c_mod_nonneg)
  show ?case
  proof (cases "v div 10 = 0")
    case False
    then have "0 < k" using Suc.prems by (cases k) auto
    moreover have "v div 10 < 10 ^ k" using Suc.prems(2) by (simp add: int_div_less_mult)
    ultimately show ?thesis using Suc.IH [of "v div 10"] Suc.prems(1) e False by (simp add: pos_imp_zdiv_nonneg_iff)
  qed (simp add: e)
qed simp

lemma vsprintf_plain: "CHR ''%'' \<notin> set pre \<Longrightarrow> vsprintf_loop (pre @ f) args out = vsprintf_loop f args (out @ pre)"
  by (induction pre arbitrary: out) auto

lemma vsprintf_int_min: "vsprintf ''%d'' [Num (- (2 ^ 31))] = Inr ''-./,),(-*,(''"
  by (simp add: vsprintf_def convert_def s32_def i2a.simps c_div_def c_mod_def digit_def) code_simp

text \<open>
  C28: Formatting a number in decimal can be undone: for every \<open>int\<close> but the smallest one,
  \<open>%d\<close> writes a minus sign for a negative number and then the decimal digits of its magnitude,
  without leading zeros, from which the number can be read back; what surrounds the conversion
  in the format is copied. The smallest \<open>int\<close> has no magnitude, and its digits come out below
  \<open>'0'\<close>.
\<close>

theorem vsprintf_decimal:
  assumes "- (2 ^ 31) < n" "n < 2 ^ 31" "CHR ''%'' \<notin> set pre" "CHR ''%'' \<notin> set post"
  shows "\<exists>ds. vsprintf (pre @ ''%d'' @ post) [Num n] = Inr (pre @ (if n < 0 then ''-'' else []) @ ds @ post) \<and>
    decimal ds \<and> dec_val ds = \<bar>n\<bar> \<and> vsprintf ''%d'' [Num (- (2 ^ 31))] = Inr ''-./,),(-*,(''"
proof -
  have "s32 (- n) = - n" using assms(1,2) by (intro s32_id) simp_all
  then have c: "convert CHR ''d'' [Num n] = Inr ((if n < 0 then ''-'' else []) @ i2a \<bar>n\<bar> 10, [])" by (simp add: convert_def)
  have p: "vsprintf_loop post [] out = Inr (out @ post)" for out using vsprintf_plain [OF assms(4), of "[]" "[]" out] by simp
  have "vsprintf (pre @ ''%d'' @ post) [Num n] = Inr (pre @ (if n < 0 then ''-'' else []) @ i2a \<bar>n\<bar> 10 @ post)"
    unfolding vsprintf_def vsprintf_plain [OF assms(3)] using c p by simp
  then show ?thesis using i2a_decimal [of "\<bar>n\<bar>"] vsprintf_int_min by (intro exI [of _ "i2a \<bar>n\<bar> 10"]) simp
qed

theorem vsprintf_decimal_witness:
  "\<exists>ds. vsprintf ''pid -> %d.'' [Num (- 17)] = Inr (''pid -> -'' @ ds @ ''.'') \<and> dec_val ds = 17"
  using vsprintf_decimal [of "- 17" "''pid -> ''" "''.''"] by simp blast

definition hex_digit_val :: "char \<Rightarrow> nat" where
  "hex_digit_val c = (if (of_char c :: nat) \<le> 57 then of_char c - 48 else of_char c - 55)"

fun hex_val :: "nat \<Rightarrow> string \<Rightarrow> nat" where
  "hex_val a [] = a"
| "hex_val a (c # cs) = hex_val (16 * a + hex_digit_val c) cs"

abbreviation shifts :: "nat \<Rightarrow> nat list" where
  "shifts n \<equiv> rev (map ((*) 4) [0..<n])"

lemma nibble: "unat (drop_bit i (x :: u32) AND 0xf) = unat x div 2 ^ i mod 16"
  unfolding and_masks unsigned_take_bit_eq unsigned_drop_bit_eq
  using unsigned_less [of x, where 'a = nat] by (simp add: drop_bit_eq_div take_bit_eq_mod)

lemma hexdigit_val:
  assumes "unat d < 16"
  shows "hex_digit_val (hexdigit d) = unat d"
  using assms by (auto simp: hex_digit_val_def hexdigit_def Let_def)

lemma mod_nibbles: "k mod 2 ^ (4 * Suc n) = k div 2 ^ (4 * n) mod 16 * 2 ^ (4 * n) + k mod 2 ^ (4 * n)" for k :: nat
proof -
  have "(2 :: nat) ^ (4 * Suc n) = 2 ^ (4 * n) * 16" by (simp add: power_add)
  then show ?thesis by (simp add: mod_mult2_eq)
qed

lemma itoa_loop_True:
  "hex_val a (itoa_loop (shifts n) True x) = a * 2 ^ (4 * n) + unat x mod 2 ^ (4 * n) \<and> length (itoa_loop (shifts n) True x) = n"
proof (induction n arbitrary: a)
  case (Suc n)
  have lt: "unat (drop_bit (4 * n) x AND 0xf) < 16" by (simp add: nibble)
  show ?case using Suc.IH [of "16 * a + unat (drop_bit (4 * n) x AND 0xf)"] hexdigit_val [OF lt]
      mod_nibbles [of "unat x" n] by (simp add: Let_def nibble algebra_simps power_add)
qed simp

lemma itoa_loop_False:
  "hex_val 0 (itoa_loop (shifts n) False x) = unat x mod 2 ^ (4 * n) \<and> length (itoa_loop (shifts n) False x) \<le> n"
proof (induction n)
  case (Suc n)
  let ?d = "drop_bit (4 * n) x AND 0xf"
  have lt: "unat ?d < 16" by (simp add: nibble)
  show ?case
  proof (cases "?d = 0")
    case True
    then have "unat x div 2 ^ (4 * n) mod 16 = 0" using nibble [of "4 * n" x] by simp
    with True Suc show ?thesis using mod_nibbles [of "unat x" n] by (simp add: Let_def)
  next
    case False
    then show ?thesis using itoa_loop_True [of "unat ?d" n x] hexdigit_val [OF lt] mod_nibbles [of "unat x" n]
      by (simp add: Let_def nibble)
  qed
qed simp

text \<open>
  \<open>itoa()\<close> stays within its buffer and loses nothing: whatever the number, it writes
  \<open>0x\<close>, between one and eight characters and the terminating zero, and so at most 11 of the 16
  bytes \<open>disp_int()\<close> gives it, and the digits read as a hexadecimal number give back all 32 bits.
\<close>

theorem itoa_fits:
  "\<exists>ds. itoa x = ''0x'' @ ds \<and> ds \<noteq> [] \<and> length ds \<le> 8 \<and> of_nat (hex_val 0 ds) = x"
proof (cases "x = 0")
  case True
  then show ?thesis by (simp add: itoa_def hex_digit_val_def)
next
  case False
  have s: "[28, 24, 20, 16, 12, 8, 4, 0] = shifts 8" by (simp add: upt_rec)
  have "unat x < 2 ^ 32" using unsigned_less [of x] by simp
  then have l: "hex_val 0 (itoa_loop (shifts 8) False x) = unat x" "length (itoa_loop (shifts 8) False x) \<le> 8"
    using itoa_loop_False [of 8 x] by simp_all
  have "unat x \<noteq> 0" using False by (simp add: unat_eq_0)
  then have "itoa_loop (shifts 8) False x \<noteq> []" using l(1) by auto
  moreover have "itoa x = ''0x'' @ itoa_loop (shifts 8) False x" using False unfolding itoa_def s by simp
  ultimately show ?thesis using l by (intro exI [of _ "itoa_loop (shifts 8) False x"]) simp
qed

end
