(* ===== verification/Syscall.thy ===== *)
theory Syscall
  imports Ksteps Lib
begin

section \<open>System calls: the library's side and the system task (lib, kernel/proc.c, kernel/systask.c)\<close>

text \<open>
  \<open>send_recv()\<close> and the routines of lib/ that pass a request to a task and return what its answer
  says, and the task that answers the simplest of them. The trap \<open>sendrec\<close> into the kernel is
  the parameter \<open>sr\<close>; \<open>exchange\<close> below is the instance for a caller and a task that waits for
  requests, in which each call is the system call of the kernel's model. \<open>junk\<close> is what a message
  that is not initialised holds.
\<close>

type_synonym 's trap = "int \<Rightarrow> int \<Rightarrow> MESSAGE \<Rightarrow> 's \<Rightarrow> (int \<times> MESSAGE \<times> 's) res"

definition send_recv :: "'s trap \<Rightarrow> int \<Rightarrow> int \<Rightarrow> MESSAGE \<Rightarrow> 's \<Rightarrow> (int \<times> MESSAGE \<times> 's) res" where
  "send_recv sr function src_dest msg s =
     (let msg1 = (if function = RECEIVE then zero_msg else msg)
      in if function = BOTH then
           bindE (sr SEND src_dest msg1 s) (\<lambda>(ret, m, s1).
             if ret = 0 then sr RECEIVE src_dest m s1 else Inr (ret, m, s1))
         else if function = SEND \<or> function = RECEIVE then sr function src_dest msg1 s
         else Inl (AssertFailed ''function == BOTH || function == SEND || function == RECEIVE''))"

subsection \<open>Library routines\<close>

text \<open>A call of a task: the answer and the state, the return value of \<open>send_recv()\<close> is not looked at.\<close>

definition call :: "'s trap \<Rightarrow> int \<Rightarrow> MESSAGE \<Rightarrow> 's \<Rightarrow> (MESSAGE \<times> 's) res" where
  "call sr dest m s = bindE (send_recv sr BOTH dest m s) (\<lambda>(ret, a, s1). Inr (a, s1))"

text \<open>\<open>strlen()\<close> of lib/string.asm.\<close>

definition strlen :: "(u32 \<Rightarrow> u8) \<Rightarrow> u32 \<Rightarrow> int option" where
  "strlen b p = map_option (\<lambda>e. uint (e - p)) (str_end b p)"

definition lib_open :: "'s trap \<Rightarrow> MESSAGE \<Rightarrow> (u32 \<Rightarrow> u8) \<Rightarrow> u32 \<Rightarrow> int \<Rightarrow> 's \<Rightarrow> (int \<times> 's) res" where
  "lib_open sr junk b pathname flags s =
     loopE (strlen b pathname) ''strlen'' (\<lambda>n.
     bindE (call sr TASK_FS (junk\<lparr>mtype := OPEN, m3p1 := pathname, m3i1 := flags, m3i2 := n\<rparr>) s) (\<lambda>(a, s1).
       assertE (mtype a = SYSCALL_RET) ''msg.type == SYSCALL_RET'' (Inr (m3i1 a, s1))))"

definition lib_close :: "'s trap \<Rightarrow> MESSAGE \<Rightarrow> int \<Rightarrow> 's \<Rightarrow> (int \<times> 's) res" where
  "lib_close sr junk fd s = bindE (call sr TASK_FS (junk\<lparr>mtype := CLOSE, m3i1 := fd\<rparr>) s) (\<lambda>(a, s1). Inr (m3i1 a, s1))"

definition lib_read :: "'s trap \<Rightarrow> MESSAGE \<Rightarrow> int \<Rightarrow> u32 \<Rightarrow> int \<Rightarrow> 's \<Rightarrow> (int \<times> 's) res" where
  "lib_read sr junk fd buf n s =
     bindE (call sr TASK_FS (junk\<lparr>mtype := READ, m3i1 := fd, m3p2 := buf, m3i2 := n\<rparr>) s) (\<lambda>(a, s1). Inr (m3i2 a, s1))"

definition lib_write :: "'s trap \<Rightarrow> MESSAGE \<Rightarrow> int \<Rightarrow> u32 \<Rightarrow> int \<Rightarrow> 's \<Rightarrow> (int \<times> 's) res" where
  "lib_write sr junk fd buf n s =
     bindE (call sr TASK_FS (junk\<lparr>mtype := WRITE, m3i1 := fd, m3p2 := buf, m3i2 := n\<rparr>) s) (\<lambda>(a, s1). Inr (m3i2 a, s1))"

definition lib_unlink :: "'s trap \<Rightarrow> MESSAGE \<Rightarrow> (u32 \<Rightarrow> u8) \<Rightarrow> u32 \<Rightarrow> 's \<Rightarrow> (int \<times> 's) res" where
  "lib_unlink sr junk b pathname s =
     loopE (strlen b pathname) ''strlen'' (\<lambda>n.
     bindE (call sr TASK_FS (junk\<lparr>mtype := UNLINK, m3p1 := pathname, m3i2 := n\<rparr>) s) (\<lambda>(a, s1). Inr (m3i1 a, s1)))"

definition lib_getpid :: "'s trap \<Rightarrow> MESSAGE \<Rightarrow> 's \<Rightarrow> (int \<times> 's) res" where
  "lib_getpid sr junk s =
     bindE (call sr TASK_SYS (junk\<lparr>mtype := GET_PID\<rparr>) s) (\<lambda>(a, s1).
       assertE (mtype a = SYSCALL_RET) ''msg.type == SYSCALL_RET'' (Inr (m3i2 a, s1)))"

definition lib_fork :: "'s trap \<Rightarrow> MESSAGE \<Rightarrow> 's \<Rightarrow> (int \<times> 's) res" where
  "lib_fork sr junk s =
     bindE (call sr TASK_MM (junk\<lparr>mtype := FORK\<rparr>) s) (\<lambda>(a, s1).
       assertE (mtype a = SYSCALL_RET) ''msg.type == SYSCALL_RET'' (assertE (m3i1 a = 0) ''msg.RETVAL == 0'' (Inr (m3i2 a, s1))))"

definition lib_exit :: "'s trap \<Rightarrow> MESSAGE \<Rightarrow> int \<Rightarrow> 's \<Rightarrow> 's res" where
  "lib_exit sr junk status s =
     bindE (call sr TASK_MM (junk\<lparr>mtype := EXIT, m3i1 := status\<rparr>) s) (\<lambda>(a, s1).
       assertE (mtype a = SYSCALL_RET) ''msg.type == SYSCALL_RET'' (Inr s1))"

text \<open>\<open>wait()\<close>: the return value and \<open>*status\<close>.\<close>

definition lib_wait :: "'s trap \<Rightarrow> MESSAGE \<Rightarrow> 's \<Rightarrow> (int \<times> int \<times> 's) res" where
  "lib_wait sr junk s =
     bindE (call sr TASK_MM (junk\<lparr>mtype := WAIT\<rparr>) s) (\<lambda>(a, s1). Inr (if m3i2 a = NO_TASK then -1 else m3i2 a, m3i1 a, s1))"

definition get_ticks :: "'s trap \<Rightarrow> 's \<Rightarrow> (int \<times> 's) res" where
  "get_ticks sr s = bindE (call sr TASK_SYS (zero_msg\<lparr>mtype := GET_TICKS\<rparr>) s) (\<lambda>(a, s1). Inr (m3i1 a, s1))"

subsection \<open>The system task\<close>

record rtc_time =
  year :: u32
  month :: u32
  day :: u32
  hour :: u32
  minute :: u32
  second :: u32

text \<open>
  \<open>cmos\<close> gives the registers of the clock chip.
\<close>

definition BCD_TO_DEC :: "u32 \<Rightarrow> u32" where
  "BCD_TO_DEC x = drop_bit 4 x * 10 + (x AND 0xf)"

definition read_register :: "(u8 \<Rightarrow> u8) \<Rightarrow> u8 \<Rightarrow> u32" where
  "read_register cmos reg_addr = ucast (cmos reg_addr)"

definition get_rtc_time :: "(u8 \<Rightarrow> u8) \<Rightarrow> rtc_time" where
  "get_rtc_time cmos =
     (let r = read_register cmos; c = (if r 0x0b AND 0x04 = 0 then BCD_TO_DEC else (\<lambda>x. x))
      in \<lparr>year = c (r 9) + 2000, month = c (r 8), day = c (r 7), hour = c (r 4), minute = c (r 2), second = c (r 0)\<rparr>)"

definition time_bytes :: "rtc_time \<Rightarrow> u8 list" where
  "time_bytes t = concat (map bytes32 [year t, month t, day t, hour t, minute t, second t])"

text \<open>
  One message of the main loop, for the task with the kernel's tables \<open>k\<close> and memory \<open>b\<close>; \<open>t_at\<close>
  is the address of its variable \<open>t\<close>. The result is the answer, which goes to the source of the
  message, and the memory.
\<close>

definition task_sys_msg :: "(u8 \<Rightarrow> u8) \<Rightarrow> kernel \<Rightarrow> u32 \<Rightarrow> MESSAGE \<Rightarrow> (u32 \<Rightarrow> u8) \<Rightarrow> (MESSAGE \<times> (u32 \<Rightarrow> u8)) res" where
  "task_sys_msg cmos k t_at m b =
     (if mtype m = GET_TICKS then Inr (m\<lparr>m3i1 := ticks k\<rparr>, b)
      else if mtype m = GET_PID then Inr (m\<lparr>mtype := SYSCALL_RET, m3i2 := source m\<rparr>, b)
      else if mtype m = GET_RTC_TIME then
        bindE (va2la k (source m) (m3p2 m)) (\<lambda>dst.
        bindE (va2la k TASK_SYS t_at) (\<lambda>_.
          Inr (m\<lparr>mtype := SYSCALL_RET\<rparr>, phys_write b dst (time_bytes (get_rtc_time cmos)))))
      else Inl (Panic ''unknown msg type''))"

text \<open>
  The time of day. A clock chip in BCD mode (bit 2 of its status register clear) shows each number
  below 100 as two decimal digits; the answer to \<open>GET_RTC_TIME\<close> leaves the numbers themselves in
  the caller's memory, the year counted from 2000.
\<close>

definition to_bcd :: "nat \<Rightarrow> u8" where
  "to_bcd n = of_nat (16 * (n div 10) + n mod 10)"

lemma BCD_TO_DEC_bcd:
  assumes "n < 100"
  shows "BCD_TO_DEC (ucast (to_bcd n)) = of_nat n"
proof -
  define x where "x = (of_nat (16 * (n div 10) + n mod 10) :: u32)"
  have "16 * (n div 10) + n mod 10 < 256" using assms by linarith
  then have w: "ucast (to_bcd n) = x" unfolding to_bcd_def x_def unsigned_of_nat by (simp add: take_bit_nat_eq_self)
  have ux: "unat x = 16 * (n div 10) + n mod 10" using \<open>_ < 256\<close> unfolding x_def unsigned_of_nat by (simp add: take_bit_nat_eq_self)
  have "unat (drop_bit 4 x) = n div 10" using \<open>_ < 256\<close> unfolding unsigned_drop_bit_eq ux by (simp add: drop_bit_eq_div take_bit_nat_eq_self)
  then have d: "drop_bit 4 x = of_nat (n div 10)" by (metis of_nat_unat ucast_id)
  have "unat (x AND 0xf) = n mod 10"
  proof -
    have "n mod 10 < 16" using mod_less_divisor [of 10 n] by linarith
    then have "take_bit 4 (unat x) = n mod 10" unfolding ux by (simp add: take_bit_eq_mod)
    moreover have "x AND 0xf = take_bit 4 x" by (simp add: take_bit_eq_mask mask_eq_exp_minus_1)
    ultimately show ?thesis by (metis unsigned_take_bit_eq)
  qed
  then have m: "x AND 0xf = of_nat (n mod 10)" by (metis of_nat_unat ucast_id)
  have "of_nat (n div 10) * 10 + of_nat (n mod 10) = (of_nat n :: u32)"
    by (metis div_mult_mod_eq of_nat_add of_nat_mult of_nat_numeral)
  then show ?thesis unfolding w BCD_TO_DEC_def d m .
qed

lemma rtc_answer:
  assumes "mtype m = GET_RTC_TIME" "va2la k (source m) (m3p2 m) = Inr dst" "va2la k TASK_SYS t_at = Inr x"
    and "\<not> bit (cmos 0x0b) 2" "cmos 9 = to_bcd y" "cmos 8 = to_bcd mo" "cmos 7 = to_bcd d" "cmos 4 = to_bcd h" "cmos 2 = to_bcd mi" "cmos 0 = to_bcd se"
    and "y < 100" "mo < 100" "d < 100" "h < 100" "mi < 100" "se < 100"
  shows "\<exists>b'. task_sys_msg cmos k t_at m b = Inr (m\<lparr>mtype := SYSCALL_RET\<rparr>, b') \<and>
    phys_read b' dst 24 = concat (map bytes32 [of_nat y + 2000, of_nat mo, of_nat d, of_nat h, of_nat mi, of_nat se])"
proof -
  have "ucast (cmos 0x0b) AND (0x04 :: u32) = 0" using assms(4) bit_iff_and_push_bit_not_eq_0 [of "ucast (cmos 0x0b) :: u32" 2]
    by (simp add: push_bit_eq_mult bit_ucast_iff)
  then have "time_bytes (get_rtc_time cmos) = concat (map bytes32 [of_nat y + 2000, of_nat mo, of_nat d, of_nat h, of_nat mi, of_nat se])"
    using assms(5-) by (simp add: get_rtc_time_def read_register_def Let_def time_bytes_def BCD_TO_DEC_bcd)
  moreover have "length (time_bytes (get_rtc_time cmos)) = 24" by (simp add: time_bytes_def bytes32_def)
  ultimately have "phys_read (phys_write b dst (time_bytes (get_rtc_time cmos))) dst 24 =
      concat (map bytes32 [of_nat y + 2000, of_nat mo, of_nat d, of_nat h, of_nat mi, of_nat se])"
    using phys_read_write [of "time_bytes (get_rtc_time cmos)" b dst] by (simp del: list.map concat.simps)
  then show ?thesis using assms(1-3) by (simp add: task_sys_msg_def del: list.map concat.simps)
qed

subsection \<open>An exchange through the kernel\<close>

text \<open>
  The trap for caller \<open>p\<close>, whose message lies at \<open>mp\<close>, when task \<open>t\<close> waits for requests in \<open>mt\<close>:
  \<open>p\<close> sends, \<open>t\<close> works out its answer with \<open>serve\<close>, \<open>p\<close> waits for it, \<open>t\<close> sends it and waits for the
  next request. Every step is a system call of the kernel.
\<close>

definition exchange :: "int \<Rightarrow> u32 \<Rightarrow> int \<Rightarrow> u32 \<Rightarrow> (kernel \<Rightarrow> MESSAGE \<Rightarrow> MESSAGE res) \<Rightarrow> kernel trap" where
  "exchange p mp t mt serve fn dest m s =
     (let s0 = s\<lparr>messages := (messages s)(mp := m)\<rparr>
      in if fn = SEND then
           bindE (sys_sendrec SEND dest mp p s0) (\<lambda>s1.
           bindE (serve s1 (messages s1 mt)) (\<lambda>r.
             Inr (0, messages s1 mp, s1\<lparr>messages := (messages s1)(mt := r)\<rparr>)))
         else
           bindE (sys_sendrec RECEIVE dest mp p s0) (\<lambda>s2.
           bindE (sys_sendrec SEND p mt t s2) (\<lambda>s3.
           bindE (sys_sendrec RECEIVE ANY mt t (s3\<lparr>messages := (messages s3)(mt := zero_msg)\<rparr>)) (\<lambda>s4.
             Inr (0, messages s4 mp, s4)))))"

text \<open>The task is in state \<open>x\<close>, the caller is running, and nothing else is on its way to either.\<close>

definition exchange_at :: "pstate \<Rightarrow> int \<Rightarrow> u32 \<Rightarrow> int \<Rightarrow> u32 \<Rightarrow> kernel \<Rightarrow> bool" where
  "exchange_at x p mp t mt s \<longleftrightarrow> native p \<and> native t \<and> p \<noteq> t \<and> mp \<noteq> 0 \<and> mt \<noteq> 0 \<and> mp \<noteq> mt \<and> k_reenter s = 0 \<and>
     0 < p_priority (proc_table s p) \<and> 0 < p_priority (proc_table s t) \<and>
     (\<exists>a. ipc_rep s a \<and> ipc_ok a \<and> st a p = Idle \<and> st a t = x \<and> \<not> pend a p \<and> \<not> pend a t \<and> queue a t = [])"

abbreviation exchange_ready :: "int \<Rightarrow> u32 \<Rightarrow> int \<Rightarrow> u32 \<Rightarrow> kernel \<Rightarrow> bool" where
  "exchange_ready p mp t mt \<equiv> exchange_at (Receiving ANY mt) p mp t mt"

lemma base_native: "ipc_ok a \<Longrightarrow> native p \<Longrightarrow> base a p = 0"
  by (simp add: ipc_ok_def)

lemma idle_runnable: "ipc_rep s a \<Longrightarrow> native p \<Longrightarrow> st a p = Idle \<Longrightarrow> 0 < p_priority (proc_table s p) \<Longrightarrow> runnable s p"
  using ipc_repD(1) [OF _ native_slots, of s a p] native_slots [of p] by (simp add: runnable_def)

text \<open>A message to a process that waits for it, and a wait for a message that is not there yet.\<close>

lemma deliver:
  assumes "ipc_rep s a" "ipc_ok a" "native p" "st a p = Idle" "native d" "p \<noteq> d" "st a d = Receiving f md" "f = p \<or> f = ANY"
    "mp \<noteq> 0" "k_reenter s = 0"
  defines "x \<equiv> (messages s mp)\<lparr>source := p\<rparr>"
  defines "a1 \<equiv> a\<lparr>st := (st a)(d := Idle), mem := (messages s)(mp := x, md := x)\<rparr>"
  shows "\<exists>s1. sys_sendrec SEND d mp p s = Inr s1 \<and> ipc_rep s1 a1 \<and> ipc_ok a1"
proof -
  note ps = native_slots [OF assms(3)]
  let ?a = "a_stamp p mp a"
  have nw: "(d, p) \<notin> (waits_for ?a)\<^sup>+" using assms(7) by (intro not_waiting) simp
  have "send_outcome p d mp ?a s (sys_sendrec SEND d mp p s)"
    by (rule sys_sendrec_send_rep [OF assms(1,2) ps assms(4-6,9,10)])
  moreover have "accepts ?a d p" using assms(7,8) by (simp add: accepts_def)
  ultimately obtain s1 a' where s1: "sys_sendrec SEND d mp p s = Inr s1" "a_send p d mp ?a = Some a'" "ipc_rep s1 a'"
    using sends_now nw by blast
  have "a' = a1"
    using s1(2) nw assms(7,8) base_native [OF assms(2)] assms(3,5) ipc_rep_mem(1) [OF assms(1)]
    by (auto simp: a_send_def a_stamp_def a1_def x_def)
  moreover have "ipc_ok a'" by (rule a_send_ok [OF _ ps _ assms(5,6,9) s1(2)]) (use assms(2,4) in simp_all)
  ultimately show ?thesis using s1 by blast
qed

lemma wait_for_message:
  assumes "ipc_rep s a" "ipc_ok a" "native r" "st a r = Idle" "native src \<or> src = ANY" "r \<noteq> src" "\<not> pend a r"
    "if src = ANY then queue a r = [] else src \<notin> set (queue a r)" "m \<noteq> 0" "k_reenter s = 0" "runnable s q" "q \<noteq> r"
  defines "a1 \<equiv> a\<lparr>st := (st a)(r := Receiving src m), mem := (messages s)(m := (messages s m)\<lparr>source := r\<rparr>)\<rparr>"
  shows "\<exists>s1. sys_sendrec RECEIVE src m r s = Inr s1 \<and> ipc_rep s1 a1 \<and> ipc_ok a1"
proof -
  note rs = native_slots [OF assms(3)]
  let ?a = "a_stamp r m a"
  have src: "native src \<or> src = ANY \<or> src = INTERRUPT" using assms(5) by blast
  have recv: "a_receive r src m ?a = a1"
    using assms(7,8) base_native [OF assms(2,3)] ipc_rep_mem(1) [OF assms(1)] by (auto simp: a_receive_def a1_def a_stamp_def split: if_splits)
  have "\<not> available ?a r src" using assms(7,8) by (auto simp: available_def split: if_splits)
  with sys_sendrec_receive_rep [OF assms(1,2) rs assms(4) src assms(6,9,10)] recv assms(7)
  have "block_outcome r False a1 s (sys_sendrec RECEIVE src m r s)" by (simp add: receive_outcome_def)
  with block_outcome_run [OF _ assms(11,12)] obtain s1 where "sys_sendrec RECEIVE src m r s = Inr s1" "ipc_rep s1 a1" by blast
  moreover have "ipc_ok a1" using a_receive_ok [of ?a r src m] assms(2,4,9) src rs recv by simp
  ultimately show ?thesis by blast
qed

lemma frame_priority: "sys_sendrec f d m p s = Inr s' \<Longrightarrow> p_priority (proc_table s' q) = p_priority (proc_table s q)"
  using sys_sendrec_frame by (simp add: sched_frame_def)

lemma not_queued: "ipc_ok a \<Longrightarrow> native r \<Longrightarrow> st a q = Idle \<Longrightarrow> q \<notin> set (queue a r)"
  using ipc_okD(2) [OF _ native_slots] by fastforce

lemma frame_messages [simp]: "sched_frame s (k\<lparr>messages := M\<rparr>) = sched_frame s k" "sched_frame (s\<lparr>messages := M\<rparr>) k = sched_frame s k"
  by (simp_all add: sched_frame_def)

lemma exchange_atD:
  assumes "exchange_at x p mp t mt s"
  obtains a where "ipc_rep s a" "ipc_ok a" "st a p = Idle" "st a t = x" "\<not> pend a p" "\<not> pend a t" "queue a t = []"
    "native p" "native t" "p \<noteq> t" "mp \<noteq> 0" "mt \<noteq> 0" "mp \<noteq> mt" "k_reenter s = 0"
    "0 < p_priority (proc_table s p)" "0 < p_priority (proc_table s t)"
  using assms unfolding exchange_at_def by blast

text \<open>A later state with the same processes.\<close>

lemma exchange_atI:
  assumes "exchange_at x p mp t mt s" "sched_frame s s1" "ipc_rep s1 a1" "ipc_ok a1" "st a1 p = Idle" "\<not> pend a1 p" "\<not> pend a1 t" "queue a1 t = []"
  shows "exchange_at (st a1 t) p mp t mt s1"
  using assms unfolding exchange_at_def by (auto simp: sched_frame_def)

lemma exchange_send:
  assumes ready: "exchange_ready p mp t mt s"
    and serve: "\<And>k. sched_frame s k \<Longrightarrow> serve k (m\<lparr>source := p\<rparr>) = Inr r"
  shows "\<exists>s1. exchange p mp t mt serve SEND t m s = Inr (0, m\<lparr>source := p\<rparr>, s1) \<and> exchange_at Idle p mp t mt s1 \<and> sched_frame s s1 \<and> messages s1 mt = r"
proof -
  from ready obtain a where a: "ipc_rep s a" "ipc_ok a" "st a p = Idle" "st a t = Receiving ANY mt" "\<not> pend a p" "\<not> pend a t" "queue a t = []"
    and n: "native p" "native t" "p \<noteq> t" "mp \<noteq> 0" "mt \<noteq> 0" "mp \<noteq> mt" "k_reenter s = 0" by (elim exchange_atD)
  define s0 where "s0 = s\<lparr>messages := (messages s)(mp := m)\<rparr>"
  have s0: "ipc_rep s0 (a\<lparr>mem := (messages s)(mp := m)\<rparr>)" "k_reenter s0 = 0" "sched_frame s s0" "messages s0 mp = m"
    using ipc_rep_messages [OF a(1)] n(7) by (simp_all add: s0_def)
  define a1 where "a1 = a\<lparr>st := (st a)(t := Idle), mem := (messages s0)(mp := m\<lparr>source := p\<rparr>, mt := m\<lparr>source := p\<rparr>)\<rparr>"
  obtain s1 where s1: "sys_sendrec SEND t mp p s0 = Inr s1" "ipc_rep s1 a1" "ipc_ok a1"
    using deliver [OF s0(1) _ n(1) _ n(2,3) _ _ n(4) s0(2), of ANY mt] a s0(4) by (auto simp: a1_def)
  have f1: "sched_frame s s1" using sys_sendrec_frame [OF s1(1)] s0(3) sched_frame_trans by blast
  have m1: "messages s1 mt = m\<lparr>source := p\<rparr>" "messages s1 mp = m\<lparr>source := p\<rparr>"
    using n(6) by (simp_all add: ipc_rep_mem(1) [OF s1(2), symmetric] a1_def)
  define s1' where "s1' = s1\<lparr>messages := (messages s1)(mt := r)\<rparr>"
  have s1': "ipc_rep s1' (a1\<lparr>mem := messages s1'\<rparr>)" "sched_frame s s1'" using ipc_rep_messages [OF s1(2)] f1 by (simp_all add: s1'_def)
  have "exchange_at (st (a1\<lparr>mem := messages s1'\<rparr>) t) p mp t mt s1'"
    by (rule exchange_atI [OF ready s1'(2,1)]) (use s1(3) a n(3) in \<open>simp_all add: a1_def\<close>)
  moreover have "exchange p mp t mt serve SEND t m s = Inr (0, m\<lparr>source := p\<rparr>, s1')"
    using s1(1) m1 serve [OF f1] by (simp add: exchange_def Let_def s1'_def s0_def)
  ultimately show ?thesis using s1'(2) by (auto simp: a1_def s1'_def)
qed

lemma exchange_receive:
  assumes at: "exchange_at Idle p mp t mt s" and r: "messages s mt = r"
  shows "\<exists>s'. exchange p mp t mt serve RECEIVE t m s = Inr (0, r\<lparr>source := t\<rparr>, s') \<and> exchange_ready p mp t mt s' \<and> sched_frame s s'"
proof -
  from at obtain a where a: "ipc_rep s a" "ipc_ok a" "st a p = Idle" "st a t = Idle" "\<not> pend a p" "\<not> pend a t" "queue a t = []"
    and n: "native p" "native t" "p \<noteq> t" "mp \<noteq> 0" "mt \<noteq> 0" "mp \<noteq> mt" "k_reenter s = 0"
    and prio: "0 < p_priority (proc_table s p)" "0 < p_priority (proc_table s t)" by (elim exchange_atD)
  have any: "t \<noteq> ANY" "native t \<or> t = ANY" using n(2) by (auto simp: native_def)
  define s1 where "s1 = s\<lparr>messages := (messages s)(mp := m)\<rparr>"
  define a1 where "a1 = a\<lparr>mem := messages s1\<rparr>"
  have s1: "ipc_rep s1 a1" "ipc_ok a1" "k_reenter s1 = 0" "sched_frame s s1" "0 < p_priority (proc_table s1 t)"
    using ipc_rep_messages [OF a(1)] a(2) n(7) prio by (simp_all add: s1_def a1_def)
  have st1: "st a1 p = Idle" "st a1 t = Idle" "\<not> pend a1 p" using a by (simp_all add: a1_def)
  define a2 where "a2 = a1\<lparr>st := (st a1)(p := Receiving t mp), mem := (messages s1)(mp := (messages s1 mp)\<lparr>source := p\<rparr>)\<rparr>"
  obtain s2 where s2: "sys_sendrec RECEIVE t mp p s1 = Inr s2" "ipc_rep s2 a2" "ipc_ok a2"
    using wait_for_message [OF s1(1,2) n(1) st1(1) any(2) n(3) st1(3) _ n(4) s1(3) idle_runnable [OF s1(1) n(2) st1(2) s1(5)]]
      not_queued [OF s1(2) n(1) st1(2)] any n(3) by (auto simp: a2_def)
  have f2: "sched_frame s s2" using sys_sendrec_frame [OF s2(1)] s1(4) sched_frame_trans by blast
  have m2: "messages s2 mt = r" "k_reenter s2 = 0"
    using n(6,7) r f2 by (simp_all add: ipc_rep_mem(1) [OF s2(2), symmetric] a2_def s1_def sched_frame_def)
  define a3 where "a3 = a2\<lparr>st := (st a2)(p := Idle), mem := (messages s2)(mt := r\<lparr>source := t\<rparr>, mp := r\<lparr>source := t\<rparr>)\<rparr>"
  obtain s3 where s3: "sys_sendrec SEND p mt t s2 = Inr s3" "ipc_rep s3 a3" "ipc_ok a3"
    using deliver [OF s2(2,3) n(2) _ n(1) _ _ _ n(5) m2(2), of t mp] st1 n(3) m2 by (auto simp: a3_def a2_def)
  define s3' where "s3' = s3\<lparr>messages := (messages s3)(mt := zero_msg)\<rparr>"
  define a3' where "a3' = a3\<lparr>mem := messages s3'\<rparr>"
  have f3: "sched_frame s s3'" using sched_frame_trans [OF f2 sys_sendrec_frame [OF s3(1)]] by (simp add: s3'_def)
  have s3': "ipc_rep s3' a3'" "ipc_ok a3'" "k_reenter s3' = 0" "0 < p_priority (proc_table s3' p)"
    using ipc_rep_messages [OF s3(2)] s3(3) f3 n(7) prio by (simp_all add: s3'_def a3'_def sched_frame_def)
  have st3: "st a3' p = Idle" "st a3' t = Idle" "\<not> pend a3' t" "\<not> pend a3' p" "queue a3' t = []"
    using st1 a n(3) by (simp_all add: a3'_def a3_def a2_def a1_def)
  define a4 where "a4 = a3'\<lparr>st := (st a3')(t := Receiving ANY mt), mem := (messages s3')(mt := (messages s3' mt)\<lparr>source := t\<rparr>)\<rparr>"
  obtain s4 where s4: "sys_sendrec RECEIVE ANY mt t s3' = Inr s4" "ipc_rep s4 a4" "ipc_ok a4"
    using wait_for_message [OF s3'(1,2) n(2) st3(2) _ any(1) st3(3) _ n(5) s3'(3) idle_runnable [OF s3'(1) n(1) st3(1) s3'(4)] n(3)] st3(5)
    by (auto simp: a4_def)
  have f4: "sched_frame s s4" using sys_sendrec_frame [OF s4(1)] f3 sched_frame_trans by blast
  have "messages s4 mp = r\<lparr>source := t\<rparr>"
    using n(6) by (simp add: ipc_rep_mem(1) [OF s4(2), symmetric] a4_def s3'_def ipc_rep_mem(1) [OF s3(2), symmetric] a3_def)
  then have "exchange p mp t mt serve RECEIVE t m s = Inr (0, r\<lparr>source := t\<rparr>, s4)"
    using s2(1) s3(1) s4(1) by (simp add: exchange_def Let_def s1_def s3'_def)
  moreover have "exchange_at (st a4 t) p mp t mt s4"
    by (rule exchange_atI [OF at f4 s4(2,3)]) (use st3 n(3) in \<open>simp_all add: a4_def\<close>)
  ultimately show ?thesis using f4 by (auto simp: a4_def)
qed

lemma exchange_call:
  assumes "exchange_ready p mp t mt s" "\<And>k. sched_frame s k \<Longrightarrow> serve k (m\<lparr>source := p\<rparr>) = Inr r"
  shows "\<exists>s'. call (exchange p mp t mt serve) t m s = Inr (r\<lparr>source := t\<rparr>, s') \<and> exchange_ready p mp t mt s' \<and> sched_frame s s'"
proof -
  from exchange_send [OF assms(1), of serve m r] assms(2) obtain s1 where
    s1: "exchange p mp t mt serve SEND t m s = Inr (0, m\<lparr>source := p\<rparr>, s1)" "exchange_at Idle p mp t mt s1" "sched_frame s s1" "messages s1 mt = r"
    by blast
  from exchange_receive [OF s1(2,4), of serve "m\<lparr>source := p\<rparr>"] sched_frame_trans [OF s1(3)] s1(1) show ?thesis
    by (auto simp: call_def send_recv_def)
qed

text \<open>
  What a caller of a task relies on: a call from a good state returns the task's answer to the
  message with the caller's number in it, and leaves a good state in which nothing the answer
  depends on has changed.
\<close>

locale task_call =
  fixes sr :: "'s trap" and me task :: int and good :: "'s \<Rightarrow> bool" and same :: "'s \<Rightarrow> 's \<Rightarrow> bool"
    and answer :: "'s \<Rightarrow> MESSAGE \<Rightarrow> MESSAGE res"
  assumes called: "good s \<Longrightarrow> answer s (m\<lparr>source := me\<rparr>) = Inr r \<Longrightarrow> \<exists>s'. call sr task m s = Inr (r\<lparr>source := task\<rparr>, s') \<and> good s' \<and> same s s'"
    and same_answer: "same s s' \<Longrightarrow> answer s' m = answer s m"
    and same_trans: "same s t \<Longrightarrow> same t u \<Longrightarrow> same s u"
begin

text \<open>Two calls one after the other: the answer to the second is the one the first state gives.\<close>

lemma called_twice:
  assumes "good s" "answer s (m1\<lparr>source := me\<rparr>) = Inr r1" "answer s (m2\<lparr>source := me\<rparr>) = Inr r2"
  shows "\<exists>s1 s2. call sr task m1 s = Inr (r1\<lparr>source := task\<rparr>, s1) \<and> call sr task m2 s1 = Inr (r2\<lparr>source := task\<rparr>, s2) \<and> good s2 \<and> same s s2"
proof -
  from called [OF assms(1,2)] obtain s1 where s1: "call sr task m1 s = Inr (r1\<lparr>source := task\<rparr>, s1)" "good s1" "same s s1" by blast
  have "answer s1 (m2\<lparr>source := me\<rparr>) = Inr r2" using same_answer [OF s1(3)] assms(3) by simp
  from called [OF s1(2) this] s1 same_trans [OF s1(3)] show ?thesis by blast
qed

end

text \<open>What the system task answers to the two requests that do not touch memory.\<close>

definition sys_answer :: "kernel \<Rightarrow> MESSAGE \<Rightarrow> MESSAGE res" where
  "sys_answer k m = (if mtype m \<in> {GET_TICKS, GET_PID} then bindE (task_sys_msg (\<lambda>_. 0) k 0 m (\<lambda>_. 0)) (\<lambda>(a, b). Inr a)
     else Inl (Blocked ''other requests''))"

lemma sys_answer_frame: "sched_frame s k \<Longrightarrow> sys_answer k m = sys_answer s m"
  by (simp add: sys_answer_def task_sys_msg_def sched_frame_def)

interpretation sys_call: task_call "exchange p mp TASK_SYS mt sys_answer" p TASK_SYS "exchange_ready p mp TASK_SYS mt" sched_frame sys_answer
  for p mp mt
proof unfold_locales
  show "\<exists>s'. call (exchange p mp TASK_SYS mt sys_answer) TASK_SYS m s = Inr (r\<lparr>source := TASK_SYS\<rparr>, s') \<and>
      exchange_ready p mp TASK_SYS mt s' \<and> sched_frame s s'"
    if "exchange_ready p mp TASK_SYS mt s" "sys_answer s (m\<lparr>source := p\<rparr>) = Inr r" for s m r
    by (rule exchange_call [OF that(1)]) (use sys_answer_frame that(2) in simp)
qed (use sys_answer_frame sched_frame_trans in blast)+

text \<open>
  C38: The library's \<open>getpid()\<close> and \<open>get_ticks()\<close>, carried through the kernel to the system task and
  back, return the caller's own process number, whatever source its message named, and the
  kernel's tick counter; caller and task are left as they were, ready for the next call.
\<close>

theorem getpid_get_ticks:
  assumes "exchange_ready p mp TASK_SYS mt s"
  shows "\<exists>s1 s2. lib_getpid (exchange p mp TASK_SYS mt sys_answer) junk s = Inr (p, s1) \<and>
    get_ticks (exchange p mp TASK_SYS mt sys_answer) s1 = Inr (ticks s, s2) \<and> exchange_ready p mp TASK_SYS mt s2"
proof -
  let ?pid = "junk\<lparr>mtype := GET_PID\<rparr>" and ?tick = "zero_msg\<lparr>mtype := GET_TICKS\<rparr>"
  have "sys_answer s (?pid\<lparr>source := p\<rparr>) = Inr (?pid\<lparr>source := p, mtype := SYSCALL_RET, m3i2 := p\<rparr>)"
    "sys_answer s (?tick\<lparr>source := p\<rparr>) = Inr (?tick\<lparr>source := p, m3i1 := ticks s\<rparr>)"
    by (simp_all add: sys_answer_def task_sys_msg_def)
  from sys_call.called_twice [OF assms this] show ?thesis by (auto simp: lib_getpid_def get_ticks_def assertE_def)
qed

theorem getpid_get_ticks_witness:
  "\<exists>s s1 s2. sys_sendrec RECEIVE ANY 128 TASK_SYS demo_kernel = Inr s \<and>
     lib_getpid (exchange 5 64 TASK_SYS 128 sys_answer) zero_msg s = Inr (5, s1) \<and>
     get_ticks (exchange 5 64 TASK_SYS 128 sys_answer) s1 = Inr (0, s2)"
proof -
  have "runnable demo_kernel 5" by (rule demo_runnable) (simp add: native_def)
  then obtain s where s: "sys_sendrec RECEIVE ANY 128 TASK_SYS demo_kernel = Inr s"
    "ipc_rep s (demo_ipc\<lparr>st := (st demo_ipc)(TASK_SYS := Receiving ANY 128), mem := (messages demo_kernel)(128 := (messages demo_kernel 128)\<lparr>source := TASK_SYS\<rparr>)\<rparr>)"
    "ipc_ok (demo_ipc\<lparr>st := (st demo_ipc)(TASK_SYS := Receiving ANY 128), mem := (messages demo_kernel)(128 := (messages demo_kernel 128)\<lparr>source := TASK_SYS\<rparr>)\<rparr>)"
    using wait_for_message [OF demo_rep demo_ipc_ok, of TASK_SYS ANY 128 5] by (auto simp: native_def demo_ipc_def demo_kernel_def)
  have f: "sched_frame demo_kernel s" by (rule sys_sendrec_frame [OF s(1)])
  have "exchange_ready 5 64 TASK_SYS 128 s" unfolding exchange_at_def
    using s(2,3) f by (auto simp: sched_frame_def native_def demo_ipc_def demo_kernel_def)
  from getpid_get_ticks [OF this, of zero_msg] s(1) f show ?thesis by (auto simp: sched_frame_def demo_kernel_def)
qed

end
