(* ===== verification/Fs.thy ===== *)
theory Fs
  imports Proc
begin

section \<open>The file system: data, devices, inodes (fs/main.c, include/sys/fs.h)\<close>

text \<open>
  The state of the file system task: the kernel (for address translation and the file
  pointers of the processes), linear memory, the bytes of the devices, the sector buffer
  \<open>fsbuf\<close> and the three tables. A pointer into a table is an index and the null pointer is
  \<^const>\<open>None\<close>; a pointer into \<open>fsbuf\<close> is an offset.

  \<open>rw_sector()\<close> asks the driver task of the device to move bytes between the device and
  \<open>fsbuf\<close> and waits for its answer. The model has what the driver does with such a request:
  \<open>disk\<close> holds the bytes of each minor device by position. Messages to the terminal task and
  answers to callers are entries of \<open>fs_outbox\<close>. Memory is the memory of the
  callers: the buffer and the tables of the task are apart from it. A number the code keeps
  in an \<open>int\<close> is an \<^typ>\<open>int\<close>, cut to 32 bits where the code mixes it with an unsigned one.
\<close>

subsection \<open>Data\<close>

record super_block =
  magic :: u32
  nr_inodes :: u32
  nr_sects :: u32
  nr_imap_sects :: u32
  nr_smap_sects :: u32
  n_1st_sect :: u32
  nr_inode_sects :: u32
  root_inode_nr :: u32
  inode_size :: u32
  inode_isize_off :: u32
  inode_start_off :: u32
  dir_ent_size :: u32
  dir_ent_inode_off :: u32
  dir_ent_fname_off :: u32
  sb_dev :: int

record inode =
  i_mode :: u32
  i_size :: u32
  i_start_sect :: u32
  i_nr_sects :: u32
  i_dev :: int
  i_cnt :: int
  i_num :: int

record file_desc =
  fd_mode :: int
  fd_pos :: int
  fd_cnt :: int
  fd_inode :: "nat option"

record fs =
  fs_kern :: kernel
  fs_mem :: "u32 \<Rightarrow> u8"
  disk :: "int \<Rightarrow> int \<Rightarrow> u8"
  fsbuf :: "int \<Rightarrow> u8"
  f_desc_table :: "nat \<Rightarrow> file_desc"
  inode_table :: "nat \<Rightarrow> inode"
  sb_table :: "nat \<Rightarrow> super_block"
  root_inode :: "nat option"
  fs_msg :: MESSAGE
  pcaller :: int
  fs_outbox :: "(int \<times> MESSAGE) list"

abbreviation (input) SECTOR_SIZE :: int where "SECTOR_SIZE \<equiv> 512"
abbreviation (input) FSBUF_SIZE :: int where "FSBUF_SIZE \<equiv> 0x100000"
abbreviation (input) FSBUF :: u32 where "FSBUF \<equiv> 0x600000"
abbreviation (input) NR_FILE_DESC :: nat where "NR_FILE_DESC \<equiv> 64"
abbreviation (input) NR_INODE :: nat where "NR_INODE \<equiv> 64"
abbreviation (input) NR_SUPER_BLOCK :: nat where "NR_SUPER_BLOCK \<equiv> 8"
abbreviation (input) NR_DEFAULT_FILE_SECTS :: int where "NR_DEFAULT_FILE_SECTS \<equiv> 2048"
abbreviation (input) MAGIC_V1 :: u32 where "MAGIC_V1 \<equiv> 0x111"
abbreviation (input) INODE_SIZE :: int where "INODE_SIZE \<equiv> 32"
abbreviation (input) DIR_ENTRY_SIZE :: int where "DIR_ENTRY_SIZE \<equiv> 16"
abbreviation (input) SUPER_BLOCK_SIZE :: int where "SUPER_BLOCK_SIZE \<equiv> 56"
abbreviation (input) MAX_FILENAME_LEN :: nat where "MAX_FILENAME_LEN \<equiv> 12"
abbreviation (input) MAX_PATH :: int where "MAX_PATH \<equiv> 128"
abbreviation (input) INVALID_INODE :: int where "INVALID_INODE \<equiv> 0"
abbreviation (input) ROOT_INODE :: int where "ROOT_INODE \<equiv> 1"
abbreviation (input) NO_DEV :: int where "NO_DEV \<equiv> 0"
abbreviation (input) DEV_CHAR_TTY :: int where "DEV_CHAR_TTY \<equiv> 4"
abbreviation (input) I_TYPE_MASK :: u32 where "I_TYPE_MASK \<equiv> 0xf000"
abbreviation (input) I_REGULAR :: u32 where "I_REGULAR \<equiv> 0x8000"
abbreviation (input) I_DIRECTORY :: u32 where "I_DIRECTORY \<equiv> 0x4000"
abbreviation (input) I_CHAR_SPECIAL :: u32 where "I_CHAR_SPECIAL \<equiv> 0x2000"
abbreviation (input) O_CREAT :: int where "O_CREAT \<equiv> 1"
abbreviation (input) O_RDWR :: int where "O_RDWR \<equiv> 2"

text \<open>\<open>MAKE_DEV (DEV_HD, MINOR_hd2a)\<close>.\<close>

abbreviation (input) ROOT_DEV :: int where "ROOT_DEV \<equiv> 0x320"

definition MAJOR :: "int \<Rightarrow> int" where
  "MAJOR x = drop_bit 8 x AND 0xff"

definition MINOR :: "int \<Rightarrow> int" where
  "MINOR x = x AND 0xff"

definition MAKE_DEV :: "int \<Rightarrow> int \<Rightarrow> int" where
  "MAKE_DEV a b = push_bit 8 a OR b"

lemma root_dev: "ROOT_DEV = MAKE_DEV 3 0x20" "MINOR ROOT_DEV = 0x20" "MAJOR ROOT_DEV = 3"
  by (simp_all add: MAKE_DEV_def MINOR_def MAJOR_def)

text \<open>The driver of a major device; the table has six entries.\<close>

definition dd_map :: "int list" where
  "dd_map = [INVALID_DRIVER, INVALID_DRIVER, INVALID_DRIVER, TASK_HD, TASK_TTY, INVALID_DRIVER]"

definition driver :: "int \<Rightarrow> int res" where
  "driver dev =
     (if MAJOR dev < 6
      then assertE (dd_map ! nat (MAJOR dev) \<noteq> INVALID_DRIVER) ''driver_nr != INVALID_DRIVER''
             (Inr (dd_map ! nat (MAJOR dev)))
      else Inl (Fault ''dd_map''))"

definition upd_inode :: "nat \<Rightarrow> (inode \<Rightarrow> inode) \<Rightarrow> fs \<Rightarrow> fs" where
  "upd_inode p f s = s\<lparr>inode_table := (inode_table s)(p := f (inode_table s p))\<rparr>"

definition upd_fdesc :: "nat \<Rightarrow> (file_desc \<Rightarrow> file_desc) \<Rightarrow> fs \<Rightarrow> fs" where
  "upd_fdesc d f s = s\<lparr>f_desc_table := (f_desc_table s)(d := f (f_desc_table s d))\<rparr>"

definition upd_filp :: "int \<Rightarrow> nat \<Rightarrow> nat option \<Rightarrow> fs \<Rightarrow> fs" where
  "upd_filp p i v s = s\<lparr>fs_kern := upd_proc p (\<lambda>x. x\<lparr>p_filp := (p_filp x)(i := v)\<rparr>) (fs_kern s)\<rparr>"

abbreviation filp :: "fs \<Rightarrow> int \<Rightarrow> nat \<Rightarrow> nat option" where
  "filp s p \<equiv> p_filp (proc_table (fs_kern s) p)"

subsection \<open>Sectors\<close>

text \<open>
  \<open>write\<close> is \<open>io_type == DEV_WRITE\<close>; the other type the code passes is \<open>DEV_READ\<close>. The driver's
  sector count has eight bits (zero stands for 256), so the disk moves at most 256 sectors for
  one request: a longer read waits for an interrupt that does not come, a longer write finds
  the disk no longer asking for data and panics.
\<close>

definition rw_sector :: "bool \<Rightarrow> int \<Rightarrow> int \<Rightarrow> int \<Rightarrow> fs \<Rightarrow> fs res" where
  "rw_sector write dev pos bytes s =
     bindE (driver dev) (\<lambda>_.
       if bytes > 256 * SECTOR_SIZE
       then Inl (if write then Panic ''hd writing error.'' else Hang ''interrupt_wait'')
       else Inr (if write
            then s\<lparr>disk := (disk s)(MINOR dev := buf_copy (disk s (MINOR dev)) pos bytes (fsbuf s) 0)\<rparr>
            else s\<lparr>fsbuf := buf_copy (fsbuf s) 0 bytes (disk s (MINOR dev)) pos\<rparr>))"

definition RD_SECT :: "int \<Rightarrow> int \<Rightarrow> fs \<Rightarrow> fs res" where
  "RD_SECT dev sect_nr s = rw_sector False dev (s32 (sect_nr * SECTOR_SIZE)) SECTOR_SIZE s"

definition WR_SECT :: "int \<Rightarrow> int \<Rightarrow> fs \<Rightarrow> fs res" where
  "WR_SECT dev sect_nr s = rw_sector True dev (s32 (sect_nr * SECTOR_SIZE)) SECTOR_SIZE s"

text \<open>In \<open>mkfs()\<close> the sector number is unsigned, and so is the product with the sector size.\<close>

definition WR_SECT_u :: "int \<Rightarrow> u32 \<Rightarrow> fs \<Rightarrow> fs res" where
  "WR_SECT_u dev sect_nr s = rw_sector True dev (uint (sect_nr * 512)) SECTOR_SIZE s"

subsection \<open>Super blocks\<close>

definition sb_fields :: "super_block \<Rightarrow> u32 list" where
  "sb_fields sb = [magic sb, nr_inodes sb, nr_sects sb, nr_imap_sects sb, nr_smap_sects sb,
     n_1st_sect sb, nr_inode_sects sb, root_inode_nr sb, inode_size sb, inode_isize_off sb,
     inode_start_off sb, dir_ent_size sb, dir_ent_inode_off sb, dir_ent_fname_off sb]"

text \<open>The struct as \<open>memcpy()\<close> sees it, and the assignment \<open>super_block[i] = *psb\<close>.\<close>

definition sb_bytes :: "super_block \<Rightarrow> u8 list" where
  "sb_bytes sb = concat (map bytes32 (sb_fields sb))"

definition sb_load :: "(int \<Rightarrow> u8) \<Rightarrow> int \<Rightarrow> super_block" where
  "sb_load b dev = \<lparr>magic = get32 b 0, nr_inodes = get32 b 4, nr_sects = get32 b 8,
     nr_imap_sects = get32 b 12, nr_smap_sects = get32 b 16, n_1st_sect = get32 b 20,
     nr_inode_sects = get32 b 24, root_inode_nr = get32 b 28, inode_size = get32 b 32,
     inode_isize_off = get32 b 36, inode_start_off = get32 b 40, dir_ent_size = get32 b 44,
     dir_ent_inode_off = get32 b 48, dir_ent_fname_off = get32 b 52, sb_dev = dev\<rparr>"

definition read_super_block :: "int \<Rightarrow> fs \<Rightarrow> fs res" where
  "read_super_block dev s =
     bindE (rw_sector False dev (SECTOR_SIZE * 1) SECTOR_SIZE s) (\<lambda>s.
       case find (\<lambda>i. sb_dev (sb_table s i) = NO_DEV) [0..<NR_SUPER_BLOCK] of
         None \<Rightarrow> Inl (Panic ''super_block slots used up'')
       | Some i \<Rightarrow> assertE (i = 0) ''i == 0''
           (Inr (s\<lparr>sb_table := (sb_table s)(i := sb_load (fsbuf s) dev)\<rparr>)))"

definition get_super_block :: "int \<Rightarrow> fs \<Rightarrow> super_block res" where
  "get_super_block dev s =
     (case find (\<lambda>i. sb_dev (sb_table s i) = dev) [0..<NR_SUPER_BLOCK] of
        None \<Rightarrow> Inl (Panic ''super block of device not found'')
      | Some i \<Rightarrow> Inr (sb_table s i))"

subsection \<open>Inodes\<close>

text \<open>The sector of an inode and its place there.\<close>

definition inode_blk :: "super_block \<Rightarrow> int \<Rightarrow> int" where
  "inode_blk sb num =
     s32 (1 + 1 + uint (nr_imap_sects sb) + uint (nr_smap_sects sb) + c_div (num - 1) (SECTOR_SIZE div INODE_SIZE))"

definition inode_off :: "int \<Rightarrow> int" where
  "inode_off num = c_mod (num - 1) (SECTOR_SIZE div INODE_SIZE) * INODE_SIZE"

definition load_inode :: "(int \<Rightarrow> u8) \<Rightarrow> int \<Rightarrow> inode \<Rightarrow> inode" where
  "load_inode b off q = q\<lparr>i_mode := get32 b off, i_size := get32 b (off + 4),
     i_start_sect := get32 b (off + 8), i_nr_sects := get32 b (off + 12)\<rparr>"

definition store_inode :: "inode \<Rightarrow> int \<Rightarrow> (int \<Rightarrow> u8) \<Rightarrow> (int \<Rightarrow> u8)" where
  "store_inode p off b = put32 (off + 12) (i_nr_sects p) (put32 (off + 8) (i_start_sect p)
     (put32 (off + 4) (i_size p) (put32 off (i_mode p) b)))"

text \<open>The loop over \<open>inode_table[]\<close>: the slot that holds the inode, and the first free one.\<close>

fun scan_inodes :: "(nat \<Rightarrow> inode) \<Rightarrow> int \<Rightarrow> int \<Rightarrow> nat list \<Rightarrow> nat option \<Rightarrow> nat option \<times> nat option" where
  "scan_inodes t dev num [] q = (None, q)"
| "scan_inodes t dev num (p # ps) q =
     (if i_cnt (t p) \<noteq> 0 then
        if i_dev (t p) = dev \<and> i_num (t p) = num then (Some p, q) else scan_inodes t dev num ps q
      else scan_inodes t dev num ps (if q = None then Some p else q))"

definition get_inode :: "int \<Rightarrow> int \<Rightarrow> fs \<Rightarrow> (nat option \<times> fs) res" where
  "get_inode dev num s =
     (if num = 0 then Inr (None, s)
      else case scan_inodes (inode_table s) dev num [0..<NR_INODE] None of
          (Some p, _) \<Rightarrow> Inr (Some p, upd_inode p (\<lambda>x. x\<lparr>i_cnt := i_cnt x + 1\<rparr>) s)
        | (None, None) \<Rightarrow> Inl (Panic ''the inode table is full'')
        | (None, Some q) \<Rightarrow>
            let s1 = upd_inode q (\<lambda>x. x\<lparr>i_dev := dev, i_num := num, i_cnt := 1\<rparr>) s
            in bindE (get_super_block dev s1) (\<lambda>sb.
               bindE (RD_SECT dev (inode_blk sb num) s1) (\<lambda>s2.
                 Inr (Some q, upd_inode q (load_inode (fsbuf s2) (inode_off num)) s2))))"

definition put_inode :: "nat \<Rightarrow> fs \<Rightarrow> fs res" where
  "put_inode p s =
     assertE (i_cnt (inode_table s p) > 0) ''i_cnt > 0''
       (Inr (upd_inode p (\<lambda>x. x\<lparr>i_cnt := i_cnt x - 1\<rparr>) s))"

definition sync_inode :: "nat \<Rightarrow> fs \<Rightarrow> fs res" where
  "sync_inode p s =
     (let ino = inode_table s p
      in bindE (get_super_block (i_dev ino) s) (\<lambda>sb.
         bindE (RD_SECT (i_dev ino) (inode_blk sb (i_num ino)) s) (\<lambda>s1.
           WR_SECT (i_dev ino) (inode_blk sb (i_num ino))
             (s1\<lparr>fsbuf := store_inode ino (inode_off (i_num ino)) (fsbuf s1)\<rparr>))))"

subsection \<open>Making a file system\<close>

definition zero_super_block :: super_block where
  "zero_super_block = \<lparr>magic = 0, nr_inodes = 0, nr_sects = 0, nr_imap_sects = 0, nr_smap_sects = 0,
     n_1st_sect = 0, nr_inode_sects = 0, root_inode_nr = 0, inode_size = 0, inode_isize_off = 0,
     inode_start_off = 0, dir_ent_size = 0, dir_ent_inode_off = 0, dir_ent_fname_off = 0, sb_dev = 0\<rparr>"

definition zero_inode :: inode where
  "zero_inode = \<lparr>i_mode = 0, i_size = 0, i_start_sect = 0, i_nr_sects = 0, i_dev = 0, i_cnt = 0, i_num = 0\<rparr>"

definition zero_file_desc :: file_desc where
  "zero_file_desc = \<lparr>fd_mode = 0, fd_pos = 0, fd_cnt = 0, fd_inode = None\<rparr>"

text \<open>\<open>memset (fsbuf, v, SECTOR_SIZE)\<close>.\<close>

definition fill_sector :: "u8 \<Rightarrow> fs \<Rightarrow> fs" where
  "fill_sector v s = s\<lparr>fsbuf := buf_copy (fsbuf s) 0 SECTOR_SIZE (\<lambda>_. v) 0\<rparr>"

text \<open>The super block for a partition of \<open>sz\<close> sectors.\<close>

definition mk_super_block :: "u32 \<Rightarrow> super_block" where
  "mk_super_block sz =
     (let inodes = 4096;
          inode_sects = inodes * 32 div 512;
          imap_sects = 1;
          smap_sects = sz div 4096 + 1
      in \<lparr>magic = MAGIC_V1, nr_inodes = inodes, nr_sects = sz, nr_imap_sects = imap_sects,
          nr_smap_sects = smap_sects, n_1st_sect = 1 + 1 + imap_sects + smap_sects + inode_sects,
          nr_inode_sects = inode_sects, root_inode_nr = 1, inode_size = 32, inode_isize_off = 4,
          inode_start_off = 8, dir_ent_size = 16, dir_ent_inode_off = 0, dir_ent_fname_off = 4, sb_dev = 0\<rparr>)"

definition mk_imap :: "fs \<Rightarrow> fs res" where
  "mk_imap s =
     (let s1 = fill_sector 0 s;
          b = fold (\<lambda>i b. b OR push_bit i 1) [0..<3 + 2] (fsbuf s1 0)
      in assertE (b = 0x1f) ''fsbuf[0] == 0x1f''
           (WR_SECT ROOT_DEV 2 (s1\<lparr>fsbuf := (fsbuf s1)(0 := b)\<rparr>)))"

text \<open>\<open>NR_DEFAULT_FILE_SECTS + 1\<close> bits of the sector map, then its empty sectors.\<close>

definition smap_first :: "(int \<Rightarrow> u8) \<Rightarrow> (int \<Rightarrow> u8)" where
  "smap_first b =
     (let n = NR_DEFAULT_FILE_SECTS + 1;
          b1 = buf_copy b 0 (n div 8) (\<lambda>_. 0xff) 0
      in b1(n div 8 := fold (\<lambda>j v. v OR push_bit j 1) [0..<nat (n mod 8)] (b1 (n div 8))))"

fun zero_sectors :: "u32 \<Rightarrow> nat \<Rightarrow> fs \<Rightarrow> fs res" where
  "zero_sectors sect 0 s = Inr s"
| "zero_sectors sect (Suc n) s = bindE (WR_SECT_u ROOT_DEV sect s) (zero_sectors (sect + 1) n)"

definition mk_smap :: "super_block \<Rightarrow> fs \<Rightarrow> fs res" where
  "mk_smap sb s =
     (let s1 = fill_sector 0 s; first = 2 + nr_imap_sects sb
      in bindE (WR_SECT_u ROOT_DEV first (s1\<lparr>fsbuf := smap_first (fsbuf s1)\<rparr>)) (\<lambda>s2.
         zero_sectors (first + 1) (nat (uint (nr_smap_sects sb) - 1)) (fill_sector 0 s2)))"

text \<open>The inodes of \<open>/\<close> and of the three terminals.\<close>

definition first_inodes :: "super_block \<Rightarrow> inode list" where
  "first_inodes sb =
     zero_inode\<lparr>i_mode := I_DIRECTORY, i_size := 16 * 4, i_start_sect := n_1st_sect sb,
                i_nr_sects := of_int NR_DEFAULT_FILE_SECTS\<rparr> #
     map (\<lambda>i. zero_inode\<lparr>i_mode := I_CHAR_SPECIAL, i_start_sect := of_int (MAKE_DEV DEV_CHAR_TTY i)\<rparr>) [0..2]"

fun store_inodes :: "int \<Rightarrow> inode list \<Rightarrow> (int \<Rightarrow> u8) \<Rightarrow> (int \<Rightarrow> u8)" where
  "store_inodes k [] b = b"
| "store_inodes k (p # ps) b = store_inodes (k + INODE_SIZE) ps (store_inode p k b)"

definition mk_inodes :: "super_block \<Rightarrow> fs \<Rightarrow> fs res" where
  "mk_inodes sb s =
     (let s1 = fill_sector 0 s
      in WR_SECT_u ROOT_DEV (2 + nr_imap_sects sb + nr_smap_sects sb)
           (s1\<lparr>fsbuf := store_inodes 0 (first_inodes sb) (fsbuf s1)\<rparr>))"

text \<open>\<open>strcpy (pde->name, ..)\<close> writes the characters and the terminating zero.\<close>

definition cstr :: "string \<Rightarrow> u8 list" where
  "cstr = map (\<lambda>c. of_nat (of_char c))"

definition store_dirent :: "int \<Rightarrow> int \<Rightarrow> u8 list \<Rightarrow> (int \<Rightarrow> u8) \<Rightarrow> (int \<Rightarrow> u8)" where
  "store_dirent off nr name b = buf_write (put32 off (of_int nr) b) (off + 4) (name @ [0])"

definition first_dirents :: "(int \<times> u8 list) list" where
  "first_dirents = [(1, cstr ''.''), (2, cstr ''dev_tty0''), (3, cstr ''dev_tty1''), (4, cstr ''dev_tty2'')]"

fun store_dirents :: "int \<Rightarrow> (int \<times> u8 list) list \<Rightarrow> (int \<Rightarrow> u8) \<Rightarrow> (int \<Rightarrow> u8)" where
  "store_dirents k [] b = b"
| "store_dirents k ((nr, name) # ds) b = store_dirents (k + DIR_ENTRY_SIZE) ds (store_dirent k nr name b)"

definition mk_root :: "super_block \<Rightarrow> fs \<Rightarrow> fs res" where
  "mk_root sb s =
     (let s1 = fill_sector 0 s
      in WR_SECT_u ROOT_DEV (n_1st_sect sb) (s1\<lparr>fsbuf := store_dirents 0 first_dirents (fsbuf s1)\<rparr>))"

text \<open>\<open>sz\<close> is \<open>geo.size\<close>, the answer of the driver to \<open>DIOCTL_GET_GEO\<close>.\<close>

definition mkfs :: "u32 \<Rightarrow> fs \<Rightarrow> fs res" where
  "mkfs sz s =
     (let sb = mk_super_block sz; s1 = fill_sector 0x90 s
      in bindE (WR_SECT ROOT_DEV 1 (s1\<lparr>fsbuf := buf_write (fsbuf s1) 0 (sb_bytes sb)\<rparr>)) (\<lambda>s.
         bindE (mk_imap s) (\<lambda>s.
         bindE (mk_smap sb s) (\<lambda>s.
         bindE (mk_inodes sb s) (mk_root sb)))))"

definition init_fs :: "u32 \<Rightarrow> fs \<Rightarrow> fs res" where
  "init_fs sz s =
     (let s1 = s\<lparr>f_desc_table := (\<lambda>i. if i < NR_FILE_DESC then zero_file_desc else f_desc_table s i),
                 inode_table := (\<lambda>i. if i < NR_INODE then zero_inode else inode_table s i),
                 sb_table := (\<lambda>i. if i < NR_SUPER_BLOCK then (sb_table s i)\<lparr>sb_dev := NO_DEV\<rparr> else sb_table s i)\<rparr>
      in bindE (driver ROOT_DEV) (\<lambda>_.
         bindE (mkfs sz s1) (\<lambda>s2.
         bindE (read_super_block ROOT_DEV s2) (\<lambda>s3.
         bindE (get_super_block ROOT_DEV s3) (\<lambda>sb.
           assertE (magic sb = MAGIC_V1) ''magic == MAGIC_V1''
             (bindE (get_inode ROOT_DEV ROOT_INODE s3) (\<lambda>(p, s4). Inr (s4\<lparr>root_inode := p\<rparr>))))))))"

subsection \<open>Devices\<close>

text \<open>The tables are searched from the first slot; the lists of slots stay folded.\<close>

declare upt_rec_numeral [simp del]

lemma find_upt_Some: "find P [0..<n] = Some p \<longleftrightarrow> p < n \<and> P p \<and> (\<forall>q<p. \<not> P q)"
  by (auto simp: find_Some_iff intro: exI [of _ p])

lemma find_upt_None: "find P [0..<n] = None \<longleftrightarrow> (\<forall>p<n. \<not> P p)"
  by (auto simp: find_None_iff)

lemma driver_root [simp]: "driver 800 = Inr TASK_HD"
  by (simp add: driver_def MAJOR_def dd_map_def)

lemma minor_root [simp]: "MINOR 800 = 32"
  by (simp add: MINOR_def)

text \<open>The bytes of the root device.\<close>

abbreviation rootdisk :: "fs \<Rightarrow> int \<Rightarrow> u8" where
  "rootdisk s \<equiv> disk s 32"

definition set_rootdisk :: "(int \<Rightarrow> u8) \<Rightarrow> fs \<Rightarrow> fs" where
  "set_rootdisk f s = s\<lparr>disk := (disk s)(32 := f)\<rparr>"

lemma rw_root [simp]:
  "n \<le> 131072 \<Longrightarrow> rw_sector False 800 pos n s = Inr (s\<lparr>fsbuf := buf_copy (fsbuf s) 0 n (rootdisk s) pos\<rparr>)"
  "n > 131072 \<Longrightarrow> rw_sector False 800 pos n s = Inl (Hang ''interrupt_wait'')"
  "n \<le> 131072 \<Longrightarrow> rw_sector True 800 pos n s = Inr (set_rootdisk (buf_copy (rootdisk s) pos n (fsbuf s) 0) s)"
  by (simp_all add: rw_sector_def set_rootdisk_def)

lemma buf_copy_through:
  "0 \<le> off \<Longrightarrow> off + int (length bs) \<le> n \<Longrightarrow>
   buf_copy dsk pos n (buf_write (buf_copy b 0 n dsk pos) off bs) 0 = buf_write dsk (pos + off) bs"
  by (auto simp: fun_eq_iff buf_copy_def buf_write_def) (simp add: diff_diff_add)

lemma buf_write_Nil [simp]: "buf_write b off [] = b"
  by (auto simp: buf_write_def fun_eq_iff)

lemma buf_read_copy:
  "0 \<le> off \<Longrightarrow> off + int k \<le> n \<Longrightarrow> buf_read (buf_copy b 0 n dsk pos) off k = buf_read dsk (pos + off) k"
  by (auto simp: buf_read_def buf_copy_def add.assoc)

subsection \<open>Fields that an operation leaves alone\<close>

lemma set_rootdisk_simps [simp]:
  "fs_kern (set_rootdisk f s) = fs_kern s" "fs_mem (set_rootdisk f s) = fs_mem s"
  "fsbuf (set_rootdisk f s) = fsbuf s" "f_desc_table (set_rootdisk f s) = f_desc_table s"
  "inode_table (set_rootdisk f s) = inode_table s" "sb_table (set_rootdisk f s) = sb_table s"
  "root_inode (set_rootdisk f s) = root_inode s" "fs_msg (set_rootdisk f s) = fs_msg s"
  "pcaller (set_rootdisk f s) = pcaller s" "fs_outbox (set_rootdisk f s) = fs_outbox s"
  "disk (set_rootdisk f s) = (disk s)(32 := f)"
  by (simp_all add: set_rootdisk_def)

lemma upd_fdesc_simps [simp]:
  "fs_kern (upd_fdesc d f s) = fs_kern s" "fs_mem (upd_fdesc d f s) = fs_mem s"
  "fsbuf (upd_fdesc d f s) = fsbuf s" "disk (upd_fdesc d f s) = disk s"
  "inode_table (upd_fdesc d f s) = inode_table s" "sb_table (upd_fdesc d f s) = sb_table s"
  "root_inode (upd_fdesc d f s) = root_inode s" "fs_msg (upd_fdesc d f s) = fs_msg s"
  "pcaller (upd_fdesc d f s) = pcaller s" "fs_outbox (upd_fdesc d f s) = fs_outbox s"
  "f_desc_table (upd_fdesc d f s) = (f_desc_table s)(d := f (f_desc_table s d))"
  by (simp_all add: upd_fdesc_def)

lemma upd_inode_simps [simp]:
  "fs_kern (upd_inode p f s) = fs_kern s" "fs_mem (upd_inode p f s) = fs_mem s"
  "fsbuf (upd_inode p f s) = fsbuf s" "disk (upd_inode p f s) = disk s"
  "f_desc_table (upd_inode p f s) = f_desc_table s" "sb_table (upd_inode p f s) = sb_table s"
  "root_inode (upd_inode p f s) = root_inode s" "fs_msg (upd_inode p f s) = fs_msg s"
  "pcaller (upd_inode p f s) = pcaller s" "fs_outbox (upd_inode p f s) = fs_outbox s"
  "inode_table (upd_inode p f s) = (inode_table s)(p := f (inode_table s p))"
  by (simp_all add: upd_inode_def)

lemma upd_filp_simps [simp]:
  "fs_mem (upd_filp p i v s) = fs_mem s" "fsbuf (upd_filp p i v s) = fsbuf s"
  "disk (upd_filp p i v s) = disk s" "f_desc_table (upd_filp p i v s) = f_desc_table s"
  "inode_table (upd_filp p i v s) = inode_table s" "sb_table (upd_filp p i v s) = sb_table s"
  "root_inode (upd_filp p i v s) = root_inode s" "fs_msg (upd_filp p i v s) = fs_msg s"
  "pcaller (upd_filp p i v s) = pcaller s" "fs_outbox (upd_filp p i v s) = fs_outbox s"
  "filp (upd_filp p i v s) = (filp s)(p := (filp s p)(i := v))"
  by (auto simp: upd_filp_def upd_proc_def)

subsection \<open>Inodes on the disk\<close>

text \<open>
  A file system whose super block for the root device is \<open>sb\<close>, with sector numbers small
  enough for an \<open>int\<close> position in bytes.
\<close>

definition mounted :: "super_block \<Rightarrow> fs \<Rightarrow> bool" where
  "mounted sb s \<longleftrightarrow> get_super_block ROOT_DEV s = Inr sb \<and>
     uint (nr_imap_sects sb) + uint (nr_smap_sects sb) + 2 + 256 \<le> uint (n_1st_sect sb) \<and>
     uint (n_1st_sect sb) < 2 ^ 21 \<and> nr_imap_sects sb \<noteq> 0 \<and> uint (nr_smap_sects sb) \<le> 512"

lemma get_super_block_cong: "sb_table s = sb_table s' \<Longrightarrow> get_super_block dev s = get_super_block dev s'"
  by (simp add: get_super_block_def cong: option.case_cong)

lemma mounted_cong: "sb_table s = sb_table s' \<Longrightarrow> mounted sb s = mounted sb s'"
  using get_super_block_cong [of s s'] by (simp add: mounted_def)

text \<open>Where inode \<open>num\<close> lies on the root device, for the numbers the inode area has room for.\<close>

definition inode_pos :: "super_block \<Rightarrow> int \<Rightarrow> int" where
  "inode_pos sb num = (2 + uint (nr_imap_sects sb) + uint (nr_smap_sects sb)) * 512 + (num - 1) * 32"

lemma inode_place:
  assumes "mounted sb s" "1 \<le> num" "num \<le> 4096"
  shows "s32 (inode_blk sb num * 512) = inode_blk sb num * 512" "inode_blk sb num * 512 + inode_off num = inode_pos sb num"
    "0 \<le> inode_off num" "inode_off num \<le> 480" "inode_blk sb num * 512 + 512 \<le> uint (n_1st_sect sb) * 512"
    "(2 + uint (nr_imap_sects sb) + uint (nr_smap_sects sb)) * 512 \<le> inode_blk sb num * 512"
proof -
  let ?q = "(num - 1) div 16"
  have q: "0 \<le> ?q" "?q < 256" using assms by auto
  have r: "0 \<le> (num - 1) mod 16" "(num - 1) mod 16 \<le> 15" by auto
  have e: "(num - 1) = 16 * ?q + (num - 1) mod 16" by simp
  have b: "uint (nr_imap_sects sb) + uint (nr_smap_sects sb) + 258 \<le> uint (n_1st_sect sb)" "uint (n_1st_sect sb) < 2097152"
    using assms(1) by (simp_all add: mounted_def)
  have blk: "inode_blk sb num = 2 + uint (nr_imap_sects sb) + uint (nr_smap_sects sb) + ?q"
    unfolding inode_blk_def using assms(2) b q by (simp add: c_div_nonneg s32_small)
  have off: "inode_off num = (num - 1) mod 16 * 32" using assms(2) by (simp add: inode_off_def c_mod_nonneg)
  show "s32 (inode_blk sb num * 512) = inode_blk sb num * 512" using b q by (simp add: blk s32_small)
  show "inode_blk sb num * 512 + inode_off num = inode_pos sb num"
    unfolding blk off inode_pos_def using e by presburger
  show "0 \<le> inode_off num" "inode_off num \<le> 480" using r by (simp_all add: off)
  show "inode_blk sb num * 512 + 512 \<le> uint (n_1st_sect sb) * 512" using b q by (simp add: blk)
  show "(2 + uint (nr_imap_sects sb) + uint (nr_smap_sects sb)) * 512 \<le> inode_blk sb num * 512" using q by (simp add: blk)
qed


definition inode_bytes :: "inode \<Rightarrow> u8 list" where
  "inode_bytes p = bytes32 (i_mode p) @ bytes32 (i_size p) @ bytes32 (i_start_sect p) @ bytes32 (i_nr_sects p)"

lemma length_inode_bytes [simp]: "length (inode_bytes p) = 16"
  by (simp add: inode_bytes_def)

lemma buf_write_append:
  "k = off + int (length xs) \<Longrightarrow> buf_write (buf_write b off xs) k ys = buf_write b off (xs @ ys)"
  by (auto simp: buf_write_def fun_eq_iff nth_append nat_diff_distrib' intro!: arg_cong [where f = "(!) ys"])

lemma store_inode_write: "store_inode p off b = buf_write b off (inode_bytes p)"
  by (simp add: store_inode_def put32_def inode_bytes_def buf_write_append)

lemma store_inode_other: "k < off \<or> off + 16 \<le> k \<Longrightarrow> store_inode p off b k = b k"
  by (simp add: store_inode_write buf_write_other)

lemma load_store_inode: "load_inode (store_inode p off b) off q =
    q\<lparr>i_mode := i_mode p, i_size := i_size p, i_start_sect := i_start_sect p, i_nr_sects := i_nr_sects p\<rparr>"
  by (simp add: load_inode_def store_inode_def get32_put32_other)

lemma load_inode_cong:
  "(\<And>k. 0 \<le> k \<Longrightarrow> k < 16 \<Longrightarrow> b (off + k) = b' (off' + k)) \<Longrightarrow> load_inode b off q = load_inode b' off' q"
proof -
  assume a: "\<And>k. 0 \<le> k \<Longrightarrow> k < 16 \<Longrightarrow> b (off + k) = b' (off' + k)"
  from a [of 0] show ?thesis by (simp add: load_inode_def get32_def add.assoc a)
qed

lemma sync_inode_root:
  assumes "mounted sb s" "i_dev (inode_table s p) = ROOT_DEV" "1 \<le> i_num (inode_table s p)" "i_num (inode_table s p) \<le> 4096"
  shows "\<exists>b. sync_inode p s =
    Inr (set_rootdisk (store_inode (inode_table s p) (inode_pos sb (i_num (inode_table s p))) (rootdisk s)) (s\<lparr>fsbuf := b\<rparr>))"
proof -
  note P = inode_place [OF assms(1,3,4)]
  have "get_super_block 800 s = Inr sb" using assms(1) by (simp add: mounted_def)
  then show ?thesis using assms(2) P
    by (simp add: sync_inode_def RD_SECT_def WR_SECT_def Let_def store_inode_write buf_copy_through)
      (simp add: set_rootdisk_def, blast)
qed


lemma scan_inodes_hit:
  "find (\<lambda>p. i_cnt (t p) \<noteq> 0 \<and> i_dev (t p) = dev \<and> i_num (t p) = num) ps = Some p \<Longrightarrow>
   \<exists>q'. scan_inodes t dev num ps q = (Some p, q')"
  by (induction ps arbitrary: q) (auto split: if_splits)

lemma scan_inodes_miss:
  "find (\<lambda>p. i_cnt (t p) \<noteq> 0 \<and> i_dev (t p) = dev \<and> i_num (t p) = num) ps = None \<Longrightarrow>
   scan_inodes t dev num ps q = (None, if q = None then find (\<lambda>p. i_cnt (t p) = 0) ps else q)"
  by (induction ps arbitrary: q) (auto split: if_splits)

text \<open>Inode \<open>num\<close> of the root device is in slot \<open>p\<close>, or in no slot.\<close>

definition cached :: "fs \<Rightarrow> int \<Rightarrow> nat \<Rightarrow> bool" where
  "cached s num p \<longleftrightarrow> p < NR_INODE \<and> i_cnt (inode_table s p) \<noteq> 0 \<and> i_dev (inode_table s p) = ROOT_DEV \<and>
     i_num (inode_table s p) = num"

lemma get_inode_hit:
  assumes "cached s num p" "\<And>q. cached s num q \<Longrightarrow> q = p" "num \<noteq> 0"
  shows "get_inode ROOT_DEV num s = Inr (Some p, upd_inode p (\<lambda>x. x\<lparr>i_cnt := i_cnt x + 1\<rparr>) s)"
proof -
  have "\<forall>q<p. \<not> cached s num q" using assms(2) by (metis less_irrefl)
  with assms(1) have "find (\<lambda>p. i_cnt (inode_table s p) \<noteq> 0 \<and> i_dev (inode_table s p) = ROOT_DEV \<and>
      i_num (inode_table s p) = num) [0..<NR_INODE] = Some p"
    unfolding find_upt_Some by (auto simp: cached_def)
  from scan_inodes_hit [OF this, of None] show ?thesis using assms(3) by (auto simp: get_inode_def)
qed

lemma get_inode_miss:
  assumes "mounted sb s" "\<And>q. \<not> cached s num q" "1 \<le> num" "num \<le> 4096"
    "find (\<lambda>p. i_cnt (inode_table s p) = 0) [0..<NR_INODE] = Some q"
  shows "\<exists>b. get_inode ROOT_DEV num s = Inr (Some q,
     upd_inode q (\<lambda>x. load_inode (rootdisk s) (inode_pos sb num) (x\<lparr>i_dev := ROOT_DEV, i_num := num, i_cnt := 1\<rparr>))
       (s\<lparr>fsbuf := b\<rparr>))"
proof -
  let ?s1 = "upd_inode q (\<lambda>x. x\<lparr>i_dev := ROOT_DEV, i_num := num, i_cnt := 1\<rparr>) s"
  have "find (\<lambda>p. i_cnt (inode_table s p) \<noteq> 0 \<and> i_dev (inode_table s p) = ROOT_DEV \<and> i_num (inode_table s p) = num)
      [0..<NR_INODE] = None"
    using assms(2) by (auto simp: cached_def find_upt_None)
  then have "scan_inodes (inode_table s) ROOT_DEV num [0..<NR_INODE] None = (None, Some q)"
    using assms(5) by (simp add: scan_inodes_miss)
  moreover have "get_super_block 800 ?s1 = Inr sb"
    using assms(1) get_super_block_cong [of ?s1 s] by (simp add: mounted_def)
  moreover note P = inode_place [OF assms(1,3,4)]
  moreover have "load_inode (buf_copy (fsbuf s) 0 512 (rootdisk s) (inode_blk sb num * 512)) (inode_off num) x =
      load_inode (rootdisk s) (inode_pos sb num) x" for x
    using P(2-4) by (intro load_inode_cong) (auto simp: buf_copy_def algebra_simps)
  ultimately show ?thesis using assms(3,5)
    by (simp add: get_inode_def RD_SECT_def) (simp add: upd_inode_def, blast)
qed

end
