(* ===== verification/Fsops.thy ===== *)
theory Fsops
  imports Fs
begin

section \<open>The file system: paths, directories, files (fs/misc.c, open.c, link.c, read_write.c)\<close>

text \<open>
  The operations on files, each with its reads and writes of sectors in the order of the
  source. A file name is the list of its bytes; in a buffer it is padded with zeros to the
  12 bytes of a directory entry. \<open>loc\<close> is the address of the local array \<open>pathname\<close>.
\<close>

subsection \<open>Paths and directories\<close>

text \<open>
  \<open>strip_path()\<close>: \<^const>\<open>None\<close> is the result \<open>-1\<close>, otherwise the characters written to
  \<open>filename\<close> before the terminating zero. \<open>n\<close> is \<open>t - filename\<close>.
\<close>

fun strip_loop :: "nat \<Rightarrow> u8 list \<Rightarrow> (u8 list) option" where
  "strip_loop n [] = Some []"
| "strip_loop n (c # cs) =
     (if c = 0 then Some []
      else if c = 0x2f then None
      else if Suc n \<ge> MAX_FILENAME_LEN then Some [c]
      else map_option (\<lambda>t. c # t) (strip_loop (Suc n) cs))"

definition strip_path :: "u8 list \<Rightarrow> (u8 list) option" where
  "strip_path path =
     (case path of c # cs \<Rightarrow> strip_loop 0 (if c = 0x2f then cs else path) | [] \<Rightarrow> Some [])"

text \<open>The directory \<open>strip_path()\<close> returns: always \<open>root_inode\<close>.\<close>

definition dir_inode :: "fs \<Rightarrow> nat res" where
  "dir_inode s = (case root_inode s of None \<Rightarrow> Inl (Fault ''dir_inode'') | Some r \<Rightarrow> Inr r)"

definition de_inode :: "(int \<Rightarrow> u8) \<Rightarrow> nat \<Rightarrow> int" where
  "de_inode b j = sint (get32 b (DIR_ENTRY_SIZE * int j))"

definition de_name :: "(int \<Rightarrow> u8) \<Rightarrow> nat \<Rightarrow> u8 list" where
  "de_name b j = buf_read b (DIR_ENTRY_SIZE * int j + 4) MAX_FILENAME_LEN"

text \<open>The 12 bytes of \<open>filename\<close> in \<open>search_file()\<close>.\<close>

definition pad_name :: "u8 list \<Rightarrow> u8 list" where
  "pad_name name = name @ replicate (MAX_FILENAME_LEN - length name) 0"

text \<open>\<open>j\<close> counts the entries of the sector, \<open>n\<close> those left in it, \<open>m\<close> those seen so far.\<close>

fun search_entries :: "u8 list \<Rightarrow> (int \<Rightarrow> u8) \<Rightarrow> int \<Rightarrow> nat \<Rightarrow> nat \<Rightarrow> int \<Rightarrow> int option \<times> int" where
  "search_entries name b nr 0 j m = (None, m)"
| "search_entries name b nr (Suc n) j m =
     (if de_name b j = name then (Some (de_inode b j), m)
      else if m + 1 > nr then (None, m + 1)
      else search_entries name b nr n (Suc j) (m + 1))"

fun search_blocks :: "u8 list \<Rightarrow> int \<Rightarrow> int \<Rightarrow> int \<Rightarrow> nat \<Rightarrow> int \<Rightarrow> int \<Rightarrow> fs \<Rightarrow> (int \<times> fs) res" where
  "search_blocks name dev blk0 nr 0 i m s = Inr (0, s)"
| "search_blocks name dev blk0 nr (Suc n) i m s =
     bindE (RD_SECT dev (blk0 + i) s) (\<lambda>s1.
       case search_entries name (fsbuf s1) nr 32 0 m of
         (Some ino, _) \<Rightarrow> Inr (ino, s1)
       | (None, m1) \<Rightarrow> if m1 > nr then Inr (0, s1) else search_blocks name dev blk0 nr n (i + 1) m1 s1)"

definition nr_dir_entries :: "inode \<Rightarrow> int" where
  "nr_dir_entries d = uint (i_size d div 16)"

text \<open>
  \<open>filename\<close> is an array of \<open>MAX_FILENAME_LEN\<close> bytes here (\<open>MAX_PATH\<close> in the other callers of
  \<open>strip_path()\<close>), so the terminating zero of a name of that length is written past its end.
\<close>

definition search_file :: "u8 list \<Rightarrow> fs \<Rightarrow> (int \<times> fs) res" where
  "search_file path s =
     (case strip_path path of
        None \<Rightarrow> Inr (0, s)
      | Some name \<Rightarrow>
          if length name \<ge> MAX_FILENAME_LEN then Inl (Fault ''filename'')
          else bindE (dir_inode s) (\<lambda>d.
            let dir = inode_table s d
            in if name = [] then Inr (i_num dir, s)
               else search_blocks (pad_name name) (i_dev dir) (sint (i_start_sect dir)) (nr_dir_entries dir)
                      (unat ((i_size dir + 511) div 512)) 0 0 s))"

subsection \<open>Allocation\<close>

text \<open>\<open>for (k = 0; ((b >> k) & 1) != 0; k++)\<close>: the byte is an \<open>int\<close> here, its bit 8 is 0.\<close>

definition first_zero :: "u8 \<Rightarrow> nat" where
  "first_zero b = (case find (\<lambda>k. \<not> bit b k) [0..<8] of Some k \<Rightarrow> k | None \<Rightarrow> 8)"

definition alloc_imap_bit :: "int \<Rightarrow> fs \<Rightarrow> (int \<times> fs) res" where
  "alloc_imap_bit dev s =
     bindE (get_super_block dev s) (\<lambda>sb.
       if nr_imap_sects sb = 0 then Inl (Panic ''inode-map is probably full'')
       else bindE (RD_SECT dev 2 s) (\<lambda>s1.
         case find (\<lambda>j. fsbuf s1 (int j) \<noteq> 0xff) [0..<512] of
           None \<Rightarrow> Inr (0, s1)
         | Some j \<Rightarrow>
             let b = fsbuf s1 (int j); k = first_zero b
             in bindE (WR_SECT dev 2 (s1\<lparr>fsbuf := (fsbuf s1)(int j := b OR push_bit k 1)\<rparr>)) (\<lambda>s2.
                  Inr (int j * 8 + int k, s2))))"

text \<open>\<open>left\<close> is \<open>nr_sects_to_alloc\<close>, \<open>free\<close> is \<open>free_sect_nr\<close>.\<close>

fun mark_bits :: "nat list \<Rightarrow> u8 \<Rightarrow> int \<Rightarrow> (u8 \<times> int) res" where
  "mark_bits [] b left = Inr (b, left)"
| "mark_bits (k # ks) b left =
     assertE (\<not> bit b k) ''((fsbuf[j] >> k) & 1) == 0''
       (if left - 1 = 0 then Inr (b OR push_bit k 1, left - 1)
        else mark_bits ks (b OR push_bit k 1) (left - 1))"

fun smap_sector :: "u32 \<Rightarrow> int \<Rightarrow> nat \<Rightarrow> nat \<Rightarrow> (int \<Rightarrow> u8) \<Rightarrow> int \<Rightarrow> int \<Rightarrow> ((int \<Rightarrow> u8) \<times> int \<times> int) res" where
  "smap_sector first i 0 j b left free = Inr (b, left, free)"
| "smap_sector first i (Suc n) j b left free =
     (if left \<le> 0 then Inr (b, left, free)
      else if free = 0 \<and> b (int j) = 0xff then smap_sector first i n (Suc j) b left free
      else
        let k = (if free = 0 then first_zero (b (int j)) else 0);
            free1 = (if free = 0 then s32 ((i * SECTOR_SIZE + int j) * 8 + int k - 1 + uint first) else free)
        in bindE (mark_bits [k..<8] (b (int j)) left) (\<lambda>(v, left1).
             smap_sector first i n (Suc j) (b(int j := v)) left1 free1))"

fun smap_sectors :: "int \<Rightarrow> u32 \<Rightarrow> int \<Rightarrow> nat \<Rightarrow> int \<Rightarrow> int \<Rightarrow> int \<Rightarrow> fs \<Rightarrow> (int \<times> int \<times> fs) res" where
  "smap_sectors dev first blk0 0 i left free s = Inr (left, free, s)"
| "smap_sectors dev first blk0 (Suc n) i left free s =
     bindE (RD_SECT dev (blk0 + i) s) (\<lambda>s1.
     bindE (smap_sector first i 512 0 (fsbuf s1) left free) (\<lambda>(b, left1, free1).
       let s2 = s1\<lparr>fsbuf := b\<rparr>
       in bindE (if free1 \<noteq> 0 then WR_SECT dev (blk0 + i) s2 else Inr s2) (\<lambda>s3.
            if left1 = 0 then Inr (left1, free1, s3)
            else smap_sectors dev first blk0 n (i + 1) left1 free1 s3)))"

definition alloc_smap_bit :: "int \<Rightarrow> int \<Rightarrow> fs \<Rightarrow> (int \<times> fs) res" where
  "alloc_smap_bit dev nr_sects_to_alloc s =
     bindE (get_super_block dev s) (\<lambda>sb.
     bindE (smap_sectors dev (n_1st_sect sb) (s32 (1 + 1 + uint (nr_imap_sects sb)))
              (unat (nr_smap_sects sb)) 0 nr_sects_to_alloc 0 s) (\<lambda>(left, free, s1).
       assertE (left = 0) ''nr_sects_to_alloc == 0'' (Inr (free, s1))))"

definition new_inode :: "int \<Rightarrow> int \<Rightarrow> int \<Rightarrow> fs \<Rightarrow> (nat \<times> fs) res" where
  "new_inode dev inode_nr start_sect s =
     bindE (get_inode dev inode_nr s) (\<lambda>(p, s1).
       case p of
         None \<Rightarrow> Inl (Fault ''new_inode'')
       | Some p \<Rightarrow>
           bindE (sync_inode p (upd_inode p (\<lambda>_. \<lparr>i_mode = I_REGULAR, i_size = 0,
             i_start_sect = of_int start_sect, i_nr_sects = of_int NR_DEFAULT_FILE_SECTS,
             i_dev = dev, i_cnt = 1, i_num = inode_nr\<rparr>) s1)) (\<lambda>s2. Inr (p, s2)))"

text \<open>
  The loops of \<open>new_dir_entry()\<close>: the result has whether a free entry was found, the number
  of entries seen, and the entry \<open>pde\<close> points to at the end.
\<close>

fun find_slot :: "(int \<Rightarrow> u8) \<Rightarrow> int \<Rightarrow> nat \<Rightarrow> nat \<Rightarrow> int \<Rightarrow> bool \<times> int \<times> nat" where
  "find_slot b nr 0 j m = (False, m, j)"
| "find_slot b nr (Suc n) j m =
     (if m + 1 > nr then (False, m + 1, j)
      else if de_inode b j = 0 then (True, m + 1, j)
      else find_slot b nr n (Suc j) (m + 1))"

fun slot_blocks :: "int \<Rightarrow> int \<Rightarrow> int \<Rightarrow> nat \<Rightarrow> int \<Rightarrow> int \<Rightarrow> nat option \<Rightarrow> fs \<Rightarrow> (bool \<times> int \<times> nat option \<times> fs) res" where
  "slot_blocks dev blk0 nr 0 i m pde s = Inr (False, i, pde, s)"
| "slot_blocks dev blk0 nr (Suc n) i m pde s =
     bindE (RD_SECT dev (blk0 + i) s) (\<lambda>s1.
       let (found, m1, j) = find_slot (fsbuf s1) nr 32 0 m
       in if m1 > nr \<or> found then Inr (found, i, Some j, s1)
          else slot_blocks dev blk0 nr n (i + 1) m1 (Some j) s1)"

definition new_dir_entry :: "nat \<Rightarrow> int \<Rightarrow> u8 list \<Rightarrow> fs \<Rightarrow> fs res" where
  "new_dir_entry d inode_nr filename s =
     (let dir = inode_table s d; blk0 = sint (i_start_sect dir)
      in bindE (slot_blocks (i_dev dir) blk0 (nr_dir_entries dir) (unat ((i_size dir + 512) div 512)) 0 0 None s)
         (\<lambda>(found, i, pde, s1).
            case pde of
              None \<Rightarrow> Inl (Fault ''new_dir_entry'')
            | Some j \<Rightarrow>
                let s2 = (if found then s1 else upd_inode d (\<lambda>x. x\<lparr>i_size := i_size x + 16\<rparr>) s1);
                    s3 = s2\<lparr>fsbuf := store_dirent (DIR_ENTRY_SIZE * int j) inode_nr filename (fsbuf s2)\<rparr>
                in bindE (WR_SECT (i_dev dir) (blk0 + i) s3) (sync_inode d)))"

definition create_file :: "u8 list \<Rightarrow> fs \<Rightarrow> (nat option \<times> fs) res" where
  "create_file path s =
     (case strip_path path of
        None \<Rightarrow> Inr (None, s)
      | Some filename \<Rightarrow>
          bindE (dir_inode s) (\<lambda>d.
          bindE (alloc_imap_bit (i_dev (inode_table s d)) s) (\<lambda>(inode_nr, s1).
          bindE (alloc_smap_bit (i_dev (inode_table s1 d)) NR_DEFAULT_FILE_SECTS s1) (\<lambda>(free_sect_nr, s2).
          bindE (new_inode (i_dev (inode_table s2 d)) inode_nr free_sect_nr s2) (\<lambda>(newino, s3).
          bindE (new_dir_entry d (i_num (inode_table s3 newino)) filename s3) (\<lambda>s4.
            Inr (Some newino, s4)))))))"

subsection \<open>Opening and closing\<close>

text \<open>The path the caller sent, up to \<open>pathname[name_len] = 0\<close>.\<close>

definition fetch_path :: "u32 \<Rightarrow> fs \<Rightarrow> (u8 list) res" where
  "fetch_path loc s =
     (let name_len = m3i2 (fs_msg s)
      in assertE (name_len < MAX_PATH) ''name_len < MAX_PATH''
        (bindE (va2la (fs_kern s) TASK_FS loc) (\<lambda>_.
         bindE (va2la (fs_kern s) (source (fs_msg s)) (m3p1 (fs_msg s))) (\<lambda>p.
           if name_len < 0 then Inl (Hang ''phys_copy'') else Inr (phys_read (fs_mem s) p (nat name_len))))))"

text \<open>What \<open>do_open()\<close> does with the inode it found: the descriptor, then the kind of file.\<close>

definition open_inode :: "MESSAGE \<Rightarrow> nat \<Rightarrow> nat \<Rightarrow> int \<Rightarrow> nat \<Rightarrow> fs \<Rightarrow> (int \<times> fs) res" where
  "open_inode junk fd d flags pin s =
     (let s1 = upd_fdesc d (\<lambda>_. \<lparr>fd_mode = flags, fd_pos = 0, fd_cnt = 1, fd_inode = Some pin\<rparr>)
                 (upd_filp (pcaller s) fd (Some d) s);
          ino = inode_table s1 pin;
          imode = i_mode ino AND I_TYPE_MASK;
          dev = sint (i_start_sect ino)
      in if imode = I_CHAR_SPECIAL then
           assertE (MAJOR dev = 4) ''MAJOR(dev) == 4''
             (bindE (driver dev) (\<lambda>t.
                Inr (int fd, s1\<lparr>fs_outbox := fs_outbox s1 @ [(t, junk\<lparr>mtype := DEV_OPEN, m3i4 := MINOR dev\<rparr>)]\<rparr>)))
         else if imode = I_DIRECTORY then assertE (i_num ino = ROOT_INODE) ''i_num == ROOT_INODE'' (Inr (int fd, s1))
         else assertE (i_mode ino = I_REGULAR) ''i_mode == I_REGULAR'' (Inr (int fd, s1)))"

definition do_open :: "MESSAGE \<Rightarrow> u32 \<Rightarrow> fs \<Rightarrow> (int \<times> fs) res" where
  "do_open junk loc s =
     (let flags = m3i1 (fs_msg s)
      in bindE (fetch_path loc s) (\<lambda>pathname.
         case find (\<lambda>i. filp s (pcaller s) i = None) [0..<NR_FILES] of
           None \<Rightarrow> Inl (Panic ''filp[] is full'')
         | Some fd \<Rightarrow>
           (case find (\<lambda>i. fd_inode (f_desc_table s i) = None) [0..<NR_FILE_DESC] of
              None \<Rightarrow> Inl (Panic ''f_desc_table[] is full'')
            | Some d \<Rightarrow>
                bindE (search_file pathname s) (\<lambda>(inode_nr, s1).
                bindE (if flags AND O_CREAT \<noteq> 0 then
                         if inode_nr \<noteq> 0 then Inr (None, s1) else create_file pathname s1
                       else assertE (flags AND O_RDWR \<noteq> 0) ''flags & O_RDWR''
                         (if strip_path pathname = None then Inr (None, s1)
                          else bindE (dir_inode s1) (\<lambda>dir. get_inode (i_dev (inode_table s1 dir)) inode_nr s1)))
                  (\<lambda>(pin, s2). case pin of None \<Rightarrow> Inr (-1, s2) | Some p \<Rightarrow> open_inode junk fd d flags p s2)))))"

text \<open>
  \<open>pcaller->filp[fd]\<close> and its \<open>fd_inode\<close>: the code uses both without a test, so that a number
  the caller has not opened is an access through a null pointer.
\<close>

definition fdesc_of :: "int \<Rightarrow> fs \<Rightarrow> nat res" where
  "fdesc_of fd s =
     (if 0 \<le> fd \<and> fd < int NR_FILES
      then case filp s (pcaller s) (nat fd) of None \<Rightarrow> Inl (Fault ''filp'') | Some d \<Rightarrow> Inr d
      else Inl (Fault ''filp''))"

definition inode_of :: "nat \<Rightarrow> fs \<Rightarrow> nat res" where
  "inode_of d s = (case fd_inode (f_desc_table s d) of None \<Rightarrow> Inl (Fault ''fd_inode'') | Some p \<Rightarrow> Inr p)"

text \<open>\<open>if (--fd_cnt == 0) fd_inode = 0\<close>.\<close>

definition drop_fdesc :: "file_desc \<Rightarrow> file_desc" where
  "drop_fdesc f = (let n = fd_cnt f - 1 in f\<lparr>fd_cnt := n, fd_inode := (if n = 0 then None else fd_inode f)\<rparr>)"

definition do_close :: "fs \<Rightarrow> (int \<times> fs) res" where
  "do_close s =
     (let fd = m3i1 (fs_msg s)
      in bindE (fdesc_of fd s) (\<lambda>d.
         bindE (inode_of d s) (\<lambda>p.
         bindE (put_inode p s) (\<lambda>s1.
           Inr (0, upd_filp (pcaller s1) (nat fd) None (upd_fdesc d drop_fdesc s1))))))"

definition do_lseek :: "fs \<Rightarrow> (int \<times> fs) res" where
  "do_lseek s =
     (let fd = m3i1 (fs_msg s); off = m3i2 (fs_msg s); whence = m3i3 (fs_msg s)
      in bindE (fdesc_of fd s) (\<lambda>d.
         bindE (inode_of d s) (\<lambda>p.
           let pos = fd_pos (f_desc_table s d);
               f_size = sint (i_size (inode_table s p));
               target = (if whence = 1 then Some off
                         else if whence = 2 then Some (s32 (pos + off))
                         else if whence = 3 then Some (s32 (f_size + off)) else None)
           in case target of
                None \<Rightarrow> Inr (-1, s)
              | Some pos1 \<Rightarrow>
                  if pos1 > f_size \<or> pos1 < 0 then Inr (-1, s)
                  else Inr (pos1, upd_fdesc d (\<lambda>f. f\<lparr>fd_pos := pos1\<rparr>) s))))"

subsection \<open>Reading and writing\<close>

text \<open>
  The loop of \<open>do_rdwt()\<close> over the sectors, \<open>chunk\<close> at a time. The copy between the caller's
  memory and \<open>fsbuf\<close> is one \<open>phys_copy()\<close>; a negative count does not return.
\<close>

function rdwt_loop :: "bool \<Rightarrow> int \<Rightarrow> u32 \<Rightarrow> nat \<Rightarrow> int \<Rightarrow> int \<Rightarrow> int \<Rightarrow> int \<Rightarrow> int \<Rightarrow> int \<Rightarrow> int \<Rightarrow> fs \<Rightarrow> (int \<times> fs) res" where
  "rdwt_loop is_read src buf d dev chunk smax i off bytes_rw bytes_left s =
     (if i > smax then Inr (bytes_rw, s)
      else if chunk \<le> 0 then Inl (Hang ''do_rdwt'')
      else
        let bytes = min bytes_left (chunk * SECTOR_SIZE - off)
        in bindE (rw_sector False dev (s32 (i * SECTOR_SIZE)) (chunk * SECTOR_SIZE) s) (\<lambda>s1.
           bindE (va2la (fs_kern s1) src (buf + of_int bytes_rw)) (\<lambda>p.
           bindE (va2la (fs_kern s1) TASK_FS (FSBUF + of_int off)) (\<lambda>_.
           if bytes < 0 then Inl (Hang ''phys_copy'')
           else bindE (if is_read
                  then Inr (s1\<lparr>fs_mem := phys_write (fs_mem s1) p (buf_read (fsbuf s1) off (nat bytes))\<rparr>)
                  else rw_sector True dev (s32 (i * SECTOR_SIZE)) (chunk * SECTOR_SIZE)
                         (s1\<lparr>fsbuf := buf_write (fsbuf s1) off (phys_read (fs_mem s1) p (nat bytes))\<rparr>)) (\<lambda>s2.
             rdwt_loop is_read src buf d dev chunk smax (i + chunk) 0 (bytes_rw + bytes) (bytes_left - bytes)
               (upd_fdesc d (\<lambda>f. f\<lparr>fd_pos := s32 (fd_pos f + bytes)\<rparr>) s2))))))"
  by pat_completeness auto
termination
  by (relation "measure (\<lambda>(is_read, src, buf, d, dev, chunk, smax, i, off, bytes_rw, bytes_left, s). nat (smax + 1 - i))")
    auto

declare rdwt_loop.simps [simp del]

text \<open>\<open>reply\<close> is the terminal task's answer to a message.\<close>

definition rdwt_special :: "(MESSAGE \<Rightarrow> MESSAGE) \<Rightarrow> int \<Rightarrow> fs \<Rightarrow> (int \<times> fs) res" where
  "rdwt_special reply dev s =
     (let m = fs_msg s; len = m3i2 m
      in assertE (MAJOR dev = 4) ''MAJOR(dev) == 4''
        (bindE (driver dev) (\<lambda>t.
           let m1 = m\<lparr>mtype := (if mtype m = READ then DEV_READ else DEV_WRITE), m3i4 := MINOR dev,
                      m3i2 := len, m3i3 := source m\<rparr>;
               s1 = s\<lparr>fs_outbox := fs_outbox s @ [(t, m1)], fs_msg := reply m1\<rparr>
           in assertE (m3i2 (fs_msg s1) = len) ''fs_msg.CNT == len'' (Inr (m3i2 (fs_msg s1), s1)))))"

text \<open>\<open>min (pos + len, limit)\<close> compares unsigned numbers.\<close>

definition rdwt_end :: "int \<Rightarrow> u32 \<Rightarrow> int" where
  "rdwt_end target limit = sint (if of_int target < limit then of_int target else limit)"

definition rdwt_regular :: "nat \<Rightarrow> nat \<Rightarrow> fs \<Rightarrow> (int \<times> fs) res" where
  "rdwt_regular d p s =
     (let m = fs_msg s; ino = inode_table s p; pos = fd_pos (f_desc_table s d); len = m3i2 m
      in assertE (i_mode ino = I_REGULAR \<or> i_mode ino = I_DIRECTORY) ''i_mode''
        (assertE (mtype m = READ \<or> mtype m = WRITE) ''type == READ || type == WRITE''
          (let pos_end = rdwt_end (pos + len) (if mtype m = READ then i_size ino else i_nr_sects ino * 512);
               sect_min = s32 (uint (i_start_sect ino) + drop_bit 9 pos);
               sect_max = s32 (uint (i_start_sect ino) + drop_bit 9 pos_end);
               chunk = min (sect_max - sect_min + 1) (FSBUF_SIZE div SECTOR_SIZE)
           in bindE (rdwt_loop (mtype m = READ) (source m) (m3p2 m) d (i_dev ino) chunk sect_max sect_min
                       (c_mod pos SECTOR_SIZE) 0 len s) (\<lambda>(bytes_rw, s1).
              let newpos = of_int (fd_pos (f_desc_table s1 d))
              in if newpos > i_size (inode_table s1 p)
                 then bindE (sync_inode p (upd_inode p (\<lambda>x. x\<lparr>i_size := newpos\<rparr>) s1)) (\<lambda>s2. Inr (bytes_rw, s2))
                 else Inr (bytes_rw, s1)))))"

definition do_rdwt :: "(MESSAGE \<Rightarrow> MESSAGE) \<Rightarrow> fs \<Rightarrow> (int \<times> fs) res" where
  "do_rdwt reply s =
     (let fd = m3i1 (fs_msg s)
      in if fd < 0 \<or> int NR_FILES \<le> fd then Inl (Fault ''filp'')
         else case filp s (pcaller s) (nat fd) of
             None \<Rightarrow> Inl (AssertFailed ''filp[fd] in f_desc_table'')
           | Some d \<Rightarrow>
               assertE (d < NR_FILE_DESC) ''filp[fd] in f_desc_table''
                (if fd_mode (f_desc_table s d) AND O_RDWR = 0 then Inr (0, s)
                 else case fd_inode (f_desc_table s d) of
                     None \<Rightarrow> Inl (AssertFailed ''pin in inode_table'')
                   | Some p \<Rightarrow>
                       assertE (p < NR_INODE) ''pin in inode_table''
                        (if i_mode (inode_table s p) AND I_TYPE_MASK = I_CHAR_SPECIAL
                         then rdwt_special reply (sint (i_start_sect (inode_table s p))) s
                         else rdwt_regular d p s)))"

subsection \<open>Removing a file\<close>

definition free_imap_bit :: "int \<Rightarrow> int \<Rightarrow> fs \<Rightarrow> fs res" where
  "free_imap_bit dev inode_nr s =
     (let byte_idx = c_div inode_nr 8; bit_idx = nat (c_mod inode_nr 8)
      in assertE (byte_idx < SECTOR_SIZE) ''byte_idx < SECTOR_SIZE''
        (bindE (RD_SECT dev 2 s) (\<lambda>s1.
           let k = c_mod byte_idx SECTOR_SIZE; b = fsbuf s1 k
           in assertE (bit b bit_idx) ''fsbuf[byte_idx % SECTOR_SIZE] & (1 << bit_idx)''
                (WR_SECT dev 2 (s1\<lparr>fsbuf := (fsbuf s1)(k := b AND NOT (push_bit bit_idx 1))\<rparr>)))))"

fun clear_bits :: "nat list \<Rightarrow> u8 \<Rightarrow> int \<Rightarrow> (u8 \<times> int) res" where
  "clear_bits [] b left = Inr (b, left)"
| "clear_bits (k # ks) b left =
     (if left = 0 then Inr (b, left)
      else assertE (bit b k) ''(fsbuf[..] >> i & 1) == 1'' (clear_bits ks (b AND NOT (push_bit k 1)) (left - 1)))"

text \<open>\<open>if (i == SECTOR_SIZE)\<close>: go on in the next sector of the map.\<close>

definition next_sect :: "int \<Rightarrow> int \<Rightarrow> int \<Rightarrow> fs \<Rightarrow> (int \<times> int \<times> fs) res" where
  "next_sect dev i sect s =
     (if i = SECTOR_SIZE
      then bindE (WR_SECT dev sect s) (\<lambda>s1. bindE (RD_SECT dev (sect + 1) s1) (\<lambda>s2. Inr (0, sect + 1, s2)))
      else Inr (i, sect, s))"

fun clear_bytes :: "int \<Rightarrow> nat \<Rightarrow> int \<Rightarrow> int \<Rightarrow> int \<Rightarrow> fs \<Rightarrow> (int \<times> int \<times> int \<times> fs) res" where
  "clear_bytes dev 0 i sect left s = Inr (i, sect, left, s)"
| "clear_bytes dev (Suc n) i sect left s =
     bindE (next_sect dev i sect s) (\<lambda>(i1, sect1, s1).
       assertE (fsbuf s1 i1 = 0xff) ''fsbuf[i] == 0xff''
         (clear_bytes dev n (i1 + 1) sect1 (left - 8) (s1\<lparr>fsbuf := (fsbuf s1)(i1 := 0)\<rparr>)))"

definition free_smap_bits :: "int \<Rightarrow> super_block \<Rightarrow> u32 \<Rightarrow> u32 \<Rightarrow> fs \<Rightarrow> fs res" where
  "free_smap_bits dev sb start sects s =
     (let bit_idx = sint (start - n_1st_sect sb + 1);
          byte_idx = c_div bit_idx 8;
          bits_left = sint sects;
          byte_cnt = c_div (bits_left - (8 - c_mod bit_idx 8)) 8;
          sect = s32 (2 + uint (nr_imap_sects sb) + c_div byte_idx SECTOR_SIZE);
          k = c_mod byte_idx SECTOR_SIZE
      in bindE (RD_SECT dev sect s) (\<lambda>s1.
         bindE (clear_bits [nat (c_mod bit_idx 8)..<8] (fsbuf s1 k) bits_left) (\<lambda>(v, left1).
         bindE (clear_bytes dev (nat byte_cnt) (k + 1) sect left1 (s1\<lparr>fsbuf := (fsbuf s1)(k := v)\<rparr>)) (\<lambda>(i, sect2, left2, s2).
         bindE (next_sect dev i sect2 s2) (\<lambda>(i3, sect3, s3).
           let b = fsbuf s3 i3; mask = NOT (push_bit (nat left2) 0xff)
           in assertE (b AND mask = mask) ''(fsbuf[i] & mask) == mask''
                (WR_SECT dev sect3 (s3\<lparr>fsbuf := (fsbuf s3)(i3 := b AND push_bit (nat left2) (NOT 0))\<rparr>)))))))"

text \<open>
  The search for the directory entry: whether it was found, where, the entries seen, and
  \<open>dir_size\<close>.
\<close>

fun unlink_entries :: "int \<Rightarrow> (int \<Rightarrow> u8) \<Rightarrow> int \<Rightarrow> nat \<Rightarrow> nat \<Rightarrow> int \<Rightarrow> int \<Rightarrow> bool \<times> nat \<times> int \<times> int" where
  "unlink_entries inode_nr b nr 0 j m dsz = (False, j, m, dsz)"
| "unlink_entries inode_nr b nr (Suc n) j m dsz =
     (if m + 1 > nr then (False, j, m + 1, dsz)
      else if de_inode b j = inode_nr then (True, j, m + 1, dsz)
      else unlink_entries inode_nr b nr n (Suc j) (m + 1)
             (if de_inode b j \<noteq> INVALID_INODE then dsz + DIR_ENTRY_SIZE else dsz))"

fun unlink_blocks :: "int \<Rightarrow> int \<Rightarrow> int \<Rightarrow> int \<Rightarrow> nat \<Rightarrow> int \<Rightarrow> int \<Rightarrow> int \<Rightarrow> fs \<Rightarrow> (bool \<times> int \<times> int \<times> fs) res" where
  "unlink_blocks inode_nr dev blk0 nr 0 i m dsz s = Inr (False, m, dsz, s)"
| "unlink_blocks inode_nr dev blk0 nr (Suc n) i m dsz s =
     bindE (RD_SECT dev (blk0 + i) s) (\<lambda>s1.
       let (found, j, m1, dsz1) = unlink_entries inode_nr (fsbuf s1) nr 32 0 m dsz
       in if found
          then bindE (WR_SECT dev (blk0 + i) (s1\<lparr>fsbuf := buf_copy (fsbuf s1) (DIR_ENTRY_SIZE * int j) DIR_ENTRY_SIZE (\<lambda>_. 0) 0\<rparr>))
                 (\<lambda>s2. Inr (True, m1, dsz1, s2))
          else if m1 > nr then Inr (False, m1, dsz1, s1)
          else unlink_blocks inode_nr dev blk0 nr n (i + 1) m1 dsz1 s1)"

definition remove_dir_entry :: "nat \<Rightarrow> int \<Rightarrow> fs \<Rightarrow> fs res" where
  "remove_dir_entry d inode_nr s =
     (let dir = inode_table s d
      in bindE (unlink_blocks inode_nr (i_dev dir) (sint (i_start_sect dir)) (nr_dir_entries dir)
                  (unat ((i_size dir + 512) div 512)) 0 0 0 s) (\<lambda>(flg, m, dir_size, s1).
           assertE flg ''flg''
             (if m = nr_dir_entries dir
              then sync_inode d (upd_inode d (\<lambda>x. x\<lparr>i_size := of_int dir_size\<rparr>) s1)
              else Inr s1)))"

definition do_unlink :: "u32 \<Rightarrow> fs \<Rightarrow> (int \<times> fs) res" where
  "do_unlink loc s =
     bindE (fetch_path loc s) (\<lambda>pathname.
       if takeWhile (\<lambda>b. b \<noteq> 0) pathname = [0x2f] then Inr (-1, s)
       else bindE (search_file pathname s) (\<lambda>(inode_nr, s1).
         if inode_nr = INVALID_INODE then Inr (-1, s1)
         else if strip_path pathname = None then Inr (-1, s1)
         else
           bindE (dir_inode s1) (\<lambda>d.
           bindE (get_inode (i_dev (inode_table s1 d)) inode_nr s1) (\<lambda>(p, s2).
             case p of
               None \<Rightarrow> Inl (Fault ''do_unlink'')
             | Some p \<Rightarrow>
                 let pin = inode_table s2 p
                 in if i_mode pin \<noteq> I_REGULAR then Inr (-1, s2)
                    else if i_cnt pin > 1 then Inr (-1, s2)
                    else
                      bindE (get_super_block (i_dev pin) s2) (\<lambda>sb.
                      bindE (free_imap_bit (i_dev pin) inode_nr s2) (\<lambda>s3.
                      bindE (free_smap_bits (i_dev pin) sb (i_start_sect pin) (i_nr_sects pin) s3) (\<lambda>s4.
                      bindE (sync_inode p (upd_inode p (\<lambda>x. x\<lparr>i_mode := 0, i_size := 0, i_start_sect := 0,
                                                              i_nr_sects := 0\<rparr>) s4)) (\<lambda>s5.
                      bindE (put_inode p s5) (\<lambda>s6.
                      bindE (remove_dir_entry d inode_nr s6) (\<lambda>s7. Inr (0, s7)))))))))))"

subsection \<open>Processes that fork and exit\<close>

text \<open>One round of each loop over \<open>filp[]\<close>.\<close>

definition fork_fd :: "int \<Rightarrow> nat \<Rightarrow> fs \<Rightarrow> fs res" where
  "fork_fd child i s =
     (case filp s child i of
        None \<Rightarrow> Inr s
      | Some d \<Rightarrow>
          let s1 = upd_fdesc d (\<lambda>f. f\<lparr>fd_cnt := fd_cnt f + 1\<rparr>) s
          in bindE (inode_of d s1) (\<lambda>p. Inr (upd_inode p (\<lambda>x. x\<lparr>i_cnt := i_cnt x + 1\<rparr>) s1)))"

definition exit_fd :: "int \<Rightarrow> nat \<Rightarrow> fs \<Rightarrow> fs res" where
  "exit_fd pid i s =
     (case filp s pid i of
        None \<Rightarrow> Inr s
      | Some d \<Rightarrow>
          bindE (inode_of d s) (\<lambda>p.
            Inr (upd_filp pid i None (upd_fdesc d drop_fdesc (upd_inode p (\<lambda>x. x\<lparr>i_cnt := i_cnt x - 1\<rparr>) s)))))"

fun each_fd :: "(nat \<Rightarrow> fs \<Rightarrow> fs res) \<Rightarrow> nat list \<Rightarrow> fs \<Rightarrow> fs res" where
  "each_fd f [] s = Inr s"
| "each_fd f (i # is) s = bindE (f i s) (each_fd f is)"

definition fs_fork :: "fs \<Rightarrow> (int \<times> fs) res" where
  "fs_fork s = bindE (each_fd (fork_fd (m3i2 (fs_msg s))) [0..<NR_FILES] s) (\<lambda>s1. Inr (0, s1))"

definition fs_exit :: "fs \<Rightarrow> (int \<times> fs) res" where
  "fs_exit s = bindE (each_fd (exit_fd (m3i2 (fs_msg s))) [0..<NR_FILES] s) (\<lambda>s1. Inr (0, s1))"

subsection \<open>The task\<close>

text \<open>One message of the main loop, from its receipt to the answer.\<close>

definition task_fs_msg :: "MESSAGE \<Rightarrow> u32 \<Rightarrow> (MESSAGE \<Rightarrow> MESSAGE) \<Rightarrow> MESSAGE \<Rightarrow> fs \<Rightarrow> fs res" where
  "task_fs_msg junk loc reply m s0 =
     (let s = s0\<lparr>fs_msg := m, pcaller := source m\<rparr>;
          retval = (\<lambda>(r, s1). Inr (source m, s1\<lparr>fs_msg := (fs_msg s1)\<lparr>m3i1 := r\<rparr>\<rparr>));
          cnt = (\<lambda>(r, s1). Inr (source m, s1\<lparr>fs_msg := (fs_msg s1)\<lparr>m3i2 := r\<rparr>\<rparr>))
      in bindE
          (if mtype m = OPEN then bindE (do_open junk loc s) retval
           else if mtype m = CLOSE then bindE (do_close s) retval
           else if mtype m = READ \<or> mtype m = WRITE then bindE (do_rdwt reply s) cnt
           else if mtype m = UNLINK then bindE (do_unlink loc s) retval
           else if mtype m = RESUME_PROC then Inr (m3i3 m, s)
           else if mtype m = FORK then bindE (fs_fork s) retval
           else if mtype m = EXIT then bindE (fs_exit s) retval
           else Inl (AssertFailed ''FS::unknown message''))
          (\<lambda>(src, s1).
             if mtype (fs_msg s1) \<noteq> SUSPEND_PROC
             then let s2 = s1\<lparr>fs_msg := (fs_msg s1)\<lparr>mtype := SYSCALL_RET\<rparr>\<rparr>
                  in Inr (s2\<lparr>fs_outbox := fs_outbox s2 @ [(src, fs_msg s2)]\<rparr>)
             else Inr s1))"

end
