(* ===== verification/Fsdata.thy ===== *)
theory Fsdata
  imports Fsops
begin

section \<open>Reading and writing files\<close>

text \<open>
  What \<open>do_rdwt()\<close> does to a regular file, seen as a list of bytes: the sectors it moves
  through \<open>fsbuf\<close> add up to reading or overwriting the requested bytes.
\<close>

text \<open>Address translation for the caller \<open>src\<close> and for the task itself succeeds.\<close>

definition fs_flat :: "fs \<Rightarrow> int \<Rightarrow> u32 \<Rightarrow> bool" where
  "fs_flat s src base \<longleftrightarrow> (\<forall>x. va2la (fs_kern s) src x = Inr (base + x)) \<and> (\<forall>x. va2la (fs_kern s) TASK_FS x = Inr x)"

text \<open>What one round of the loop does to the state, for \<open>bytes\<close> bytes at byte \<open>pos\<close> of the device.\<close>

definition rdwt_round :: "bool \<Rightarrow> u32 \<Rightarrow> int \<Rightarrow> int \<Rightarrow> fs \<Rightarrow> fs" where
  "rdwt_round is_read la pos bytes s =
     (if is_read then s\<lparr>fs_mem := phys_write (fs_mem s) la (buf_read (rootdisk s) pos (nat bytes))\<rparr>
      else set_rootdisk (buf_write (rootdisk s) pos (phys_read (fs_mem s) la (nat bytes))) s)"

lemma rdwt_step:
  assumes "fs_flat s src base" "i \<le> smax" "0 < chunk" "chunk \<le> 256" "0 \<le> i" "i + chunk \<le> 2 ^ 22" "0 \<le> off"
    "bytes = min left (chunk * 512 - off)" "0 \<le> bytes"
  shows "\<exists>b. rdwt_loop is_read src buf d ROOT_DEV chunk smax i off rw left s =
    rdwt_loop is_read src buf d ROOT_DEV chunk smax (i + chunk) 0 (rw + bytes) (left - bytes)
      (upd_fdesc d (\<lambda>f. f\<lparr>fd_pos := s32 (fd_pos f + bytes)\<rparr>)
        (rdwt_round is_read (base + (buf + of_int rw)) (i * 512 + off) bytes (s\<lparr>fsbuf := b\<rparr>)))"
proof -
  have p: "s32 (i * 512) = i * 512" using assms by (simp add: s32_small)
  have n: "off + int (nat bytes) \<le> chunk * 512" using assms by simp
  have "\<not> smax < i" "\<not> chunk \<le> 0" "\<not> bytes < 0" using assms by auto
  with assms(1,4,7) p n show ?thesis
    by (subst rdwt_loop.simps)
      (auto simp: Let_def fs_flat_def assms(8) [symmetric] rdwt_round_def buf_copy_through buf_read_copy
        set_rootdisk_def upd_fdesc_def)
qed


lemma rdwt_round_nothing: "rdwt_round is_read la pos 0 s = s"
  by (simp add: rdwt_round_def set_rootdisk_def phys_read_def buf_read_def phys_write_def)

lemma rdwt_round_simps [simp]:
  "fs_kern (rdwt_round r la pos n s) = fs_kern s" "fsbuf (rdwt_round r la pos n s) = fsbuf s"
  "f_desc_table (rdwt_round r la pos n s) = f_desc_table s"
  "inode_table (rdwt_round r la pos n s) = inode_table s" "sb_table (rdwt_round r la pos n s) = sb_table s"
  "root_inode (rdwt_round r la pos n s) = root_inode s" "fs_msg (rdwt_round r la pos n s) = fs_msg s"
  "pcaller (rdwt_round r la pos n s) = pcaller s" "fs_outbox (rdwt_round r la pos n s) = fs_outbox s"
  by (simp_all add: rdwt_round_def)

text \<open>
  The whole loop, when the bytes asked for fit into the sectors \<open>lo\<close> to \<open>hi\<close>: one request
  when these are at most 256, and no return when they are more.
\<close>

lemma rdwt_loop_all:
  assumes "fs_flat s src base" "chunk = min (hi - lo + 1) 2048" "lo \<le> hi" "hi - lo < 256" "0 \<le> lo"
    "hi < 2 ^ 22" "0 \<le> off" "0 \<le> len" "off + len \<le> chunk * 512"
    "0 \<le> fd_pos (f_desc_table s d)" "fd_pos (f_desc_table s d) + len < 2 ^ 31"
  shows "\<exists>b. rdwt_loop is_read src buf d ROOT_DEV chunk hi lo off 0 len s =
    Inr (len, upd_fdesc d (\<lambda>f. f\<lparr>fd_pos := fd_pos f + len\<rparr>)
                (rdwt_round is_read (base + buf) (lo * 512 + off) len (s\<lparr>fsbuf := b\<rparr>)))"
proof -
  have ch: "0 < chunk" "chunk \<le> 256" "lo + chunk = hi + 1" using assms by auto
  obtain b where b: "rdwt_loop is_read src buf d ROOT_DEV chunk hi lo off 0 len s =
      rdwt_loop is_read src buf d ROOT_DEV chunk hi (lo + chunk) 0 len 0
        (upd_fdesc d (\<lambda>f. f\<lparr>fd_pos := s32 (fd_pos f + len)\<rparr>)
          (rdwt_round is_read (base + buf) (lo * 512 + off) len (s\<lparr>fsbuf := b\<rparr>)))"
    using rdwt_step [OF assms(1,3) ch(1,2) assms(5) _ assms(7), of len len is_read buf d 0] ch(3) assms(6,8,9) by auto
  have e: "upd_fdesc d (\<lambda>f. f\<lparr>fd_pos := s32 (fd_pos f + len)\<rparr>) t = upd_fdesc d (\<lambda>f. f\<lparr>fd_pos := fd_pos f + len\<rparr>) t"
    if "f_desc_table t = f_desc_table s" for t
    using assms(8,10,11) that by (simp add: upd_fdesc_def s32_small)
  show ?thesis using b ch(3) by (subst (asm) (2) rdwt_loop.simps) (auto simp: e)
qed

lemma rdwt_loop_hangs:
  assumes "chunk = min (hi - lo + 1) 2048" "256 \<le> hi - lo"
  shows "rdwt_loop is_read src buf d ROOT_DEV chunk hi lo off 0 len s = Inl (Hang ''interrupt_wait'')"
  using assms by (subst rdwt_loop.simps) (simp add: Let_def)

subsection \<open>A file as a list of bytes\<close>

text \<open>
  \<open>open_file sb s fd d p\<close>: the caller's \<open>fd\<close> is open for a regular file in slot \<open>p\<close> of the
  inode table, whose sectors lie in the data area, with the position inside the file.
\<close>

definition regular_file :: "super_block \<Rightarrow> inode \<Rightarrow> bool" where
  "regular_file sb ino \<longleftrightarrow> i_mode ino = I_REGULAR \<and> i_dev ino = ROOT_DEV \<and> 1 \<le> i_num ino \<and> i_num ino \<le> 4096 \<and>
     i_nr_sects ino = of_int NR_DEFAULT_FILE_SECTS \<and> n_1st_sect sb \<le> i_start_sect ino \<and>
     uint (i_start_sect ino) + 4098 \<le> 2 ^ 22 \<and> i_size ino \<le> 0x100000"

definition open_file :: "super_block \<Rightarrow> fs \<Rightarrow> int \<Rightarrow> nat \<Rightarrow> nat \<Rightarrow> bool" where
  "open_file sb s fd d p \<longleftrightarrow> 0 \<le> fd \<and> fd < int NR_FILES \<and> filp s (pcaller s) (nat fd) = Some d \<and> d < NR_FILE_DESC \<and>
     fd_mode (f_desc_table s d) AND O_RDWR \<noteq> 0 \<and> fd_inode (f_desc_table s d) = Some p \<and> p < NR_INODE \<and>
     regular_file sb (inode_table s p) \<and> 0 \<le> fd_pos (f_desc_table s d) \<and>
     fd_pos (f_desc_table s d) \<le> uint (i_size (inode_table s p))"

definition content :: "fs \<Rightarrow> nat \<Rightarrow> u8 list" where
  "content s p = buf_read (rootdisk s) (uint (i_start_sect (inode_table s p)) * 512) (unat (i_size (inode_table s p)))"

lemma rdwt_end_min:
  assumes "0 \<le> t" "t < 2 ^ 31" "uint limit < 2 ^ 31"
  shows "rdwt_end t limit = min t (uint limit)"
proof -
  have u: "uint (of_int t :: u32) = t" using assms by (simp add: unsigned_of_int take_bit_int_eq_self)
  have s: "sint (of_int t :: u32) = t" using assms by (simp add: signed_of_int signed_take_bit_int_eq_self)
  have l: "sint limit = uint limit" using assms(3) order_trans [OF _ uint_ge_0, of "- 2147483648" limit]
    by (simp add: sint_uint signed_take_bit_int_eq_self)
  show ?thesis by (auto simp: rdwt_end_def word_less_def u s l)
qed

text \<open>The sectors from the one with byte \<open>pos\<close> to the one with byte \<open>pos + len\<close> hold the bytes between.\<close>

lemma sectors_cover:
  assumes "0 \<le> pos" "0 \<le> len" "pos + len \<le> 2 ^ 20"
  shows "pos mod 512 + len \<le> min ((pos + len) div 512 - pos div 512 + 1) 2048 * (512 :: int)"
    "pos div 512 \<le> (pos + len) div 512" "(pos + len) div 512 \<le> 2048"
proof -
  have e: "pos = pos div 512 * 512 + pos mod 512" "(pos + len) = (pos + len) div 512 * 512 + (pos + len) mod 512"
    "pos mod 512 < 512" "(pos + len) mod 512 < 512" "0 \<le> pos mod 512" by simp_all
  show "pos div 512 \<le> (pos + len) div 512" using assms by (simp add: zdiv_mono1)
  have "(pos + len) div 512 \<le> 2 ^ 20 div 512" using assms(3) by (rule zdiv_mono1) simp
  then show "(pos + len) div 512 \<le> 2048" by simp
  have "0 \<le> pos div 512" using assms by simp
  then have "pos mod 512 \<le> pos" using e(1) by linarith
  with assms(3) have "pos mod 512 + len \<le> 2048 * 512" by simp
  moreover have "r + l \<le> (b - a + 1) * 512" if "p = a * 512 + r" "p + l = b * 512 + q" "q < 512" for p l a b r q :: int
    using that by (simp add: algebra_simps)
  note this [OF e(1,2,4)]
  ultimately show "pos mod 512 + len \<le> min ((pos + len) div 512 - pos div 512 + 1) 2048 * 512"
    unfolding min_def by simp
qed

text \<open>\<open>limit\<close> is the size of the file for a read, its room on the disk for a write.\<close>

definition rdwt_limit :: "fs \<Rightarrow> nat \<Rightarrow> u32" where
  "rdwt_limit s p = (if mtype (fs_msg s) = READ then i_size (inode_table s p) else i_nr_sects (inode_table s p) * 512)"

lemma rdwt_limit_le: "regular_file sb (inode_table s p) \<Longrightarrow> uint (rdwt_limit s p) \<le> 1048576"
  by (simp add: rdwt_limit_def regular_file_def word_le_def)

lemma rdwt_regular_sectors:
  assumes "open_file sb s fd d p" "mtype (fs_msg s) = READ \<or> mtype (fs_msg s) = WRITE"
    "pos = fd_pos (f_desc_table s d)" "len = m3i2 (fs_msg s)" "0 \<le> len" "pos + len < 2 ^ 31"
    "pos_end = min (pos + len) (uint (rdwt_limit s p))" "pos \<le> pos_end"
  defines "lo \<equiv> uint (i_start_sect (inode_table s p)) + pos div 512"
    and "hi \<equiv> uint (i_start_sect (inode_table s p)) + pos_end div 512"
  shows "rdwt_regular d p s =
      bindE (rdwt_loop (mtype (fs_msg s) = READ) (source (fs_msg s)) (m3p2 (fs_msg s)) d ROOT_DEV (min (hi - lo + 1) 2048)
               hi lo (pos mod 512) 0 len s)
      (\<lambda>(bytes_rw, s1).
         let newpos = of_int (fd_pos (f_desc_table s1 d))
         in if newpos > i_size (inode_table s1 p)
            then bindE (sync_inode p (upd_inode p (\<lambda>x. x\<lparr>i_size := newpos\<rparr>) s1)) (\<lambda>s2. Inr (bytes_rw, s2))
            else Inr (bytes_rw, s1))"
    "0 \<le> pos" "0 \<le> lo" "lo \<le> hi" "hi < 2 ^ 22"
proof -
  let ?ino = "inode_table s p" and ?m = "fs_msg s"
  let ?st = "uint (i_start_sect ?ino)"
  show r0: "0 \<le> pos" using assms(1,3) by (simp add: open_file_def)
  have r: "regular_file sb ?ino" using assms(1) by (simp add: open_file_def)
  then have ino: "i_mode ?ino = I_REGULAR" "i_dev ?ino = ROOT_DEV" "?st + 4098 \<le> 4194304" by (simp_all add: regular_file_def)
  have lim: "uint (rdwt_limit s p) \<le> 1048576" using rdwt_limit_le [OF r] .
  then have e: "rdwt_end (pos + len) (rdwt_limit s p) = pos_end" using r0 assms(5,6,7) by (subst rdwt_end_min) auto
  have pe: "pos_end \<le> 1048576" using lim assms(7) by simp
  have div: "pos div 512 \<le> pos_end div 512" "pos_end div 512 \<le> 2048" "0 \<le> ?st" "0 \<le> pos div 512"
    using assms(8) pe r0 zdiv_mono1 [OF pe, of 512] by (simp_all add: zdiv_mono1)
  then show "0 \<le> lo" "lo \<le> hi" "hi < 2 ^ 22" using ino(3) by (simp_all add: lo_def hi_def)
  have s: "s32 (?st + pos div 512) = lo" "s32 (?st + pos_end div 512) = hi"
    unfolding lo_def hi_def by (rule s32_small; use div ino(3) in linarith)+
  have off: "c_mod pos 512 = pos mod 512" using r0 by (simp add: c_mod_nonneg)
  have s9: "drop_bit 9 x = x div 512" for x :: int by (simp add: drop_bit_eq_div)
  note D = assms(3) [symmetric] assms(4) [symmetric] rdwt_limit_def [symmetric]
  show "rdwt_regular d p s =
      bindE (rdwt_loop (mtype ?m = READ) (source ?m) (m3p2 ?m) d ROOT_DEV (min (hi - lo + 1) 2048) hi lo (pos mod 512) 0 len s)
      (\<lambda>(bytes_rw, s1).
         let newpos = of_int (fd_pos (f_desc_table s1 d))
         in if newpos > i_size (inode_table s1 p)
            then bindE (sync_inode p (upd_inode p (\<lambda>x. x\<lparr>i_size := newpos\<rparr>) s1)) (\<lambda>s2. Inr (bytes_rw, s2))
            else Inr (bytes_rw, s1))"
    unfolding rdwt_regular_def Let_def D e s9 s off
    using assms(2) ino(1,2) by simp
qed

lemma rdwt_regular_gen:
  assumes "open_file sb s fd d p" "fs_flat s (source (fs_msg s)) base" "mtype (fs_msg s) = READ \<or> mtype (fs_msg s) = WRITE"
    "pos = fd_pos (f_desc_table s d)" "len = m3i2 (fs_msg s)" "0 \<le> len" "pos + len < 2 ^ 31"
    "pos_end = min (pos + len) (uint (rdwt_limit s p))" "pos \<le> pos_end"
    "pos mod 512 + len \<le> min (pos_end div 512 - pos div 512 + 1) 2048 * 512" "pos_end div 512 - pos div 512 < 256"
  shows "\<exists>b. rdwt_regular d p s =
    (let s1 = upd_fdesc d (\<lambda>f. f\<lparr>fd_pos := pos + len\<rparr>)
                (rdwt_round (mtype (fs_msg s) = READ) (base + m3p2 (fs_msg s))
                   (uint (i_start_sect (inode_table s p)) * 512 + pos) len (s\<lparr>fsbuf := b\<rparr>))
     in if of_int (pos + len) > i_size (inode_table s p)
        then bindE (sync_inode p (upd_inode p (\<lambda>x. x\<lparr>i_size := of_int (pos + len)\<rparr>) s1)) (\<lambda>s2. Inr (len, s2))
        else Inr (len, s1))"
proof -
  let ?m = "fs_msg s" and ?st = "uint (i_start_sect (inode_table s p))"
  let ?lo = "?st + pos div 512" and ?hi = "?st + pos_end div 512"
  note S = rdwt_regular_sectors [OF assms(1,3-9)]
  have at: "?lo * 512 + pos mod 512 = ?st * 512 + pos" by (simp add: algebra_simps)
  have h: "?hi - ?lo < 256" "0 \<le> pos mod 512" "pos mod 512 + len \<le> min (?hi - ?lo + 1) 2048 * 512"
    using assms(10,11) by simp_all
  have f: "0 \<le> fd_pos (f_desc_table s d)" "fd_pos (f_desc_table s d) + len < 2 ^ 31"
    using S(2) assms(7) by (simp_all add: assms(4) [symmetric])
  from rdwt_loop_all [OF assms(2) refl S(4) h(1) S(3,5) h(2) assms(6) h(3) f, of "mtype ?m = READ" "m3p2 ?m"]
  obtain b where b: "rdwt_loop (mtype ?m = READ) (source ?m) (m3p2 ?m) d ROOT_DEV (min (?hi - ?lo + 1) 2048) ?hi ?lo (pos mod 512) 0 len s =
      Inr (len, upd_fdesc d (\<lambda>f. f\<lparr>fd_pos := fd_pos f + len\<rparr>)
        (rdwt_round (mtype ?m = READ) (base + m3p2 ?m) (?st * 512 + pos) len (s\<lparr>fsbuf := b\<rparr>)))"
    unfolding at by blast
  show ?thesis unfolding S(1) b
    by (intro exI [of _ b]) (simp add: Let_def upd_fdesc_def assms(4) [symmetric])
qed

text \<open>A request that starts \<open>pos mod 512\<close> bytes into its first sector, in whole sectors.\<close>

lemma sector_span: "(pos + len) div 512 - pos div 512 = (pos mod 512 + len) div (512 :: int)"
proof -
  have "pos + len = pos div 512 * 512 + (pos mod 512 + len)" by (simp add: algebra_simps)
  then have "(pos + len) div 512 = (pos div 512 * 512 + (pos mod 512 + len)) div 512" by (rule arg_cong)
  also have "\<dots> = pos div 512 + (pos mod 512 + len) div 512" by (rule div_mult_self3) simp
  finally show ?thesis by simp
qed

lemma rdwt_fits:
  assumes "open_file sb s fd d p" "pos = fd_pos (f_desc_table s d)"
    "pos + len \<le> (if mtype (fs_msg s) = READ then uint (i_size (inode_table s p)) else 2 ^ 20)"
  shows "pos + len = min (pos + len) (uint (rdwt_limit s p))" "pos + len \<le> 2 ^ 20" "0 \<le> pos"
proof -
  have r: "regular_file sb (inode_table s p)" using assms(1) by (simp add: open_file_def)
  have "pos + len \<le> uint (rdwt_limit s p)"
    using assms(3) r by (simp add: rdwt_limit_def regular_file_def split: if_splits)
  moreover note rdwt_limit_le [OF r]
  ultimately show "pos + len = min (pos + len) (uint (rdwt_limit s p))" "pos + len \<le> 2 ^ 20" by simp_all
  show "0 \<le> pos" using assms(1,2) by (simp add: open_file_def)
qed

lemma rdwt_regular_run:
  assumes "open_file sb s fd d p" "fs_flat s (source (fs_msg s)) base" "mtype (fs_msg s) = READ \<or> mtype (fs_msg s) = WRITE"
    "pos = fd_pos (f_desc_table s d)" "len = m3i2 (fs_msg s)" "0 \<le> len"
    "pos + len \<le> (if mtype (fs_msg s) = READ then uint (i_size (inode_table s p)) else 2 ^ 20)"
    "pos mod 512 + len < 256 * 512"
  shows "\<exists>b. rdwt_regular d p s =
    (let s1 = upd_fdesc d (\<lambda>f. f\<lparr>fd_pos := pos + len\<rparr>)
                (rdwt_round (mtype (fs_msg s) = READ) (base + m3p2 (fs_msg s))
                   (uint (i_start_sect (inode_table s p)) * 512 + pos) len (s\<lparr>fsbuf := b\<rparr>))
     in if of_int (pos + len) > i_size (inode_table s p)
        then bindE (sync_inode p (upd_inode p (\<lambda>x. x\<lparr>i_size := of_int (pos + len)\<rparr>) s1)) (\<lambda>s2. Inr (len, s2))
        else Inr (len, s1))"
proof -
  note l = rdwt_fits [OF assms(1,4,7)]
  have "(pos + len) div 512 - pos div 512 < 256" unfolding sector_span using assms(8) by simp
  then show ?thesis
    by (intro rdwt_regular_gen [OF assms(1-6) _ l(1) _ sectors_cover(1) [OF l(3) assms(6) l(2)]])
      (use l(2) assms(6) in simp_all)
qed

lemma rdwt_regular_hangs:
  assumes "open_file sb s fd d p" "mtype (fs_msg s) = READ \<or> mtype (fs_msg s) = WRITE"
    "pos = fd_pos (f_desc_table s d)" "len = m3i2 (fs_msg s)" "0 \<le> len"
    "pos + len \<le> (if mtype (fs_msg s) = READ then uint (i_size (inode_table s p)) else 2 ^ 20)"
    "256 * 512 \<le> pos mod 512 + len"
  shows "rdwt_regular d p s = Inl (Hang ''interrupt_wait'')"
proof -
  let ?st = "uint (i_start_sect (inode_table s p))"
  note l = rdwt_fits [OF assms(1,3,6)]
  have "256 * 512 div 512 \<le> (pos mod 512 + len) div 512" using assms(7) by (rule zdiv_mono1) simp
  then have "256 \<le> (?st + (pos + len) div 512) - (?st + pos div 512)" by (simp add: sector_span)
  note h = rdwt_loop_hangs [OF refl this]
  show ?thesis
    by (subst rdwt_regular_sectors(1) [OF assms(1-5) _ l(1)]) (use l(2) assms(5) in \<open>simp_all only: h\<close>, simp_all)
qed

lemma do_rdwt_open:
  assumes "open_file sb s (m3i1 (fs_msg s)) d p"
  shows "do_rdwt reply s = rdwt_regular d p s"
  using assms by (simp add: do_rdwt_def open_file_def regular_file_def Let_def)

lemma word_of_small:
  assumes "0 \<le> t" "t < 2 ^ 32"
  shows "uint (of_int t :: u32) = t" "unat (of_int t :: u32) = nat t"
  using assms by (simp_all add: unsigned_of_int take_bit_int_eq_self)

lemma buf_read_nth_eqI:
  "(\<And>k. k < n \<Longrightarrow> b (off + int k) = xs ! k) \<Longrightarrow> length xs = n \<Longrightarrow> buf_read b off n = xs"
  by (rule nth_equalityI) simp_all

text \<open>Overwriting bytes of a file from \<open>pos\<close> on, possibly past its end.\<close>

definition overwrite :: "'a list \<Rightarrow> nat \<Rightarrow> 'a list \<Rightarrow> 'a list" where
  "overwrite xs pos ys = take pos xs @ ys @ drop (pos + length ys) xs"

lemma length_overwrite: "pos \<le> length xs \<Longrightarrow> length (overwrite xs pos ys) = max (length xs) (pos + length ys)"
  by (simp add: overwrite_def)

lemma nth_overwrite:
  "pos \<le> length xs \<Longrightarrow> k < max (length xs) (pos + length ys) \<Longrightarrow>
   overwrite xs pos ys ! k = (if pos \<le> k \<and> k < pos + length ys then ys ! (k - pos) else xs ! k)"
  by (auto simp: overwrite_def nth_append min_def)

lemma buf_read_overwrite:
  assumes "0 \<le> pos" "pos \<le> int n" "m = max n (nat pos + length ys)"
    "\<And>k. off \<le> k \<Longrightarrow> b' k = buf_write b (off + pos) ys k"
  shows "buf_read b' off m = overwrite (buf_read b off n) (nat pos) ys"
proof (rule buf_read_nth_eqI)
  fix k
  assume k: "k < m"
  have len: "nat pos \<le> length (buf_read b off n)" using assms(1,2) by simp
  have "b' (off + int k) = buf_write b (off + pos) ys (off + int k)" using assms(4) by simp
  also have "\<dots> = (if nat pos \<le> k \<and> k < nat pos + length ys then ys ! (k - nat pos) else b (off + int k))"
    using assms(1) by (auto simp: buf_write_def nat_diff_distrib')
  also have "\<dots> = overwrite (buf_read b off n) (nat pos) ys ! k"
    using k assms(1,2,3) by (auto simp: nth_overwrite [OF len])
  finally show "b' (off + int k) = overwrite (buf_read b off n) (nat pos) ys ! k" .
qed (use assms in \<open>simp add: length_overwrite\<close>)

lemma write_run:
  assumes "mounted sb s" "open_file sb s fd d p" "fs_flat s (source (fs_msg s)) base"
    "mtype (fs_msg s) = WRITE" "pos = fd_pos (f_desc_table s d)" "len = m3i2 (fs_msg s)" "0 \<le> len" "pos + len \<le> 2 ^ 20"
    "load_inode (rootdisk s) (inode_pos sb (i_num (inode_table s p))) (inode_table s p) = inode_table s p" "pos mod 512 + len < 256 * 512"
  defines "at \<equiv> uint (i_start_sect (inode_table s p)) * 512" and "ipos \<equiv> inode_pos sb (i_num (inode_table s p))"
  shows "ipos + 16 \<le> at"
    "\<exists>s'. rdwt_regular d p s = Inr (len, s') \<and> f_desc_table s' = (f_desc_table s)(d := (f_desc_table s d)\<lparr>fd_pos := pos + len\<rparr>) \<and>
      inode_table s' = (inode_table s)(p := (inode_table s p)\<lparr>i_size := max (i_size (inode_table s p)) (of_int (pos + len))\<rparr>) \<and>
      fs_mem s' = fs_mem s \<and> fs_kern s' = fs_kern s \<and> pcaller s' = pcaller s \<and>
      (\<forall>k. k < ipos \<or> ipos + 16 \<le> k \<longrightarrow>
         rootdisk s' k = buf_write (rootdisk s) (at + pos) (phys_read (fs_mem s) (base + m3p2 (fs_msg s)) (nat len)) k) \<and>
      load_inode (rootdisk s') ipos (inode_table s' p) = inode_table s' p"
proof -
  let ?ino = "inode_table s p" and ?m = "fs_msg s"
  let ?num = "i_num ?ino"
  let ?data = "phys_read (fs_mem s) (base + m3p2 ?m) (nat len)"
  have o: "regular_file sb ?ino" "0 \<le> pos" using assms(2,5) by (simp_all add: open_file_def)
  then have ino: "i_dev ?ino = ROOT_DEV" "1 \<le> ?num" "?num \<le> 4096" "uint (n_1st_sect sb) \<le> uint (i_start_sect ?ino)"
    by (simp_all add: regular_file_def word_le_def)
  note P = inode_place [OF assms(1) ino(2,3)]
  show below: "ipos + 16 \<le> at" using P(2,4,5) ino(4) unfolding at_def ipos_def by linarith
  obtain b where b: "rdwt_regular d p s =
    (let s1 = upd_fdesc d (\<lambda>f. f\<lparr>fd_pos := pos + len\<rparr>)
                (rdwt_round False (base + m3p2 ?m) (at + pos) len (s\<lparr>fsbuf := b\<rparr>))
     in if of_int (pos + len) > i_size ?ino
        then bindE (sync_inode p (upd_inode p (\<lambda>x. x\<lparr>i_size := of_int (pos + len)\<rparr>) s1)) (\<lambda>s2. Inr (len, s2))
        else Inr (len, s1))"
    using rdwt_regular_run [OF assms(2,3) _ assms(5,6,7) _ assms(10)] assms(4,8) unfolding at_def by auto
  define s1 where "s1 = upd_fdesc d (\<lambda>f. f\<lparr>fd_pos := pos + len\<rparr>)
                (rdwt_round False (base + m3p2 ?m) (at + pos) len (s\<lparr>fsbuf := b\<rparr>))"
  note b = b [unfolded Let_def, folded s1_def]
  have s1: "rootdisk s1 = buf_write (rootdisk s) (at + pos) ?data" "inode_table s1 = inode_table s" "sb_table s1 = sb_table s"
    "f_desc_table s1 = (f_desc_table s)(d := (f_desc_table s d)\<lparr>fd_pos := pos + len\<rparr>)" "fs_mem s1 = fs_mem s"
    "fs_kern s1 = fs_kern s" "pcaller s1 = pcaller s"
    by (simp_all add: s1_def rdwt_round_def)
  show "\<exists>s'. rdwt_regular d p s = Inr (len, s') \<and> f_desc_table s' = (f_desc_table s)(d := (f_desc_table s d)\<lparr>fd_pos := pos + len\<rparr>) \<and>
      inode_table s' = (inode_table s)(p := (inode_table s p)\<lparr>i_size := max (i_size (inode_table s p)) (of_int (pos + len))\<rparr>) \<and>
      fs_mem s' = fs_mem s \<and> fs_kern s' = fs_kern s \<and> pcaller s' = pcaller s \<and>
      (\<forall>k. k < ipos \<or> ipos + 16 \<le> k \<longrightarrow>
         rootdisk s' k = buf_write (rootdisk s) (at + pos) (phys_read (fs_mem s) (base + m3p2 (fs_msg s)) (nat len)) k) \<and>
      load_inode (rootdisk s') ipos (inode_table s' p) = inode_table s' p"
  proof (cases "of_int (pos + len) > i_size ?ino")
    case False
    have "load_inode (rootdisk s1) ipos ?ino = load_inode (rootdisk s) ipos ?ino"
      using below o(2) unfolding s1(1) by (intro load_inode_cong buf_write_other) linarith
    then show ?thesis using False b s1 assms(9) unfolding ipos_def
      by (intro exI [of _ s1]) (simp add: max_def)
  next
    case True
    let ?s2 = "upd_inode p (\<lambda>x. x\<lparr>i_size := of_int (pos + len)\<rparr>) s1"
    have "mounted sb ?s2" using assms(1) mounted_cong [of ?s2 s] s1(3) by simp
    from sync_inode_root [OF this, of p] obtain b' where
      "sync_inode p ?s2 = Inr (set_rootdisk (store_inode (inode_table ?s2 p) ipos (rootdisk s1)) (?s2\<lparr>fsbuf := b'\<rparr>))"
      using ino s1(2) unfolding ipos_def by auto
    moreover have "max (i_size ?ino) (of_int (pos + len)) = of_int (pos + len)" using True by (rule max.absorb4)
    ultimately show ?thesis using True b s1
      by (intro exI [of _ "set_rootdisk (store_inode (inode_table ?s2 p) ipos (rootdisk s1)) (?s2\<lparr>fsbuf := b'\<rparr>)"])
        (simp add: store_inode_other load_store_inode)
  qed
qed

lemma write_file_returns:
  assumes "mounted sb s" "open_file sb s (m3i1 (fs_msg s)) d p" "fs_flat s (source (fs_msg s)) base"
    "mtype (fs_msg s) = WRITE" "pos = fd_pos (f_desc_table s d)" "len = m3i2 (fs_msg s)" "0 \<le> len" "pos + len \<le> 2 ^ 20"
    "load_inode (rootdisk s) (inode_pos sb (i_num (inode_table s p))) (inode_table s p) = inode_table s p"
    "pos mod 512 + len < 256 * 512"
  shows "\<exists>s'. do_rdwt reply s = Inr (len, s') \<and>
    content s' p = overwrite (content s p) (nat pos) (phys_read (fs_mem s) (base + m3p2 (fs_msg s)) (nat len)) \<and>
    f_desc_table s' d = (f_desc_table s d)\<lparr>fd_pos := pos + len\<rparr> \<and>
    inode_table s' p = (inode_table s p)\<lparr>i_size := max (i_size (inode_table s p)) (of_int (pos + len))\<rparr> \<and>
    load_inode (rootdisk s') (inode_pos sb (i_num (inode_table s p))) (inode_table s' p) = inode_table s' p \<and>
    open_file sb s' (m3i1 (fs_msg s)) d p \<and> fs_mem s' = fs_mem s \<and>
    (\<forall>k. (k < uint (i_start_sect (inode_table s p)) * 512 + pos \<or> uint (i_start_sect (inode_table s p)) * 512 + pos + len \<le> k) \<and>
       (k < inode_pos sb (i_num (inode_table s p)) \<or> inode_pos sb (i_num (inode_table s p)) + 16 \<le> k) \<longrightarrow>
       rootdisk s' k = rootdisk s k)"
proof -
  let ?ino = "inode_table s p"
  let ?data = "phys_read (fs_mem s) (base + m3p2 (fs_msg s)) (nat len)" and ?at = "uint (i_start_sect ?ino) * 512"
  note W = write_run [OF assms]
  from W(2) obtain s' where s': "rdwt_regular d p s = Inr (len, s')"
    "f_desc_table s' = (f_desc_table s)(d := (f_desc_table s d)\<lparr>fd_pos := pos + len\<rparr>)"
    "inode_table s' = (inode_table s)(p := ?ino\<lparr>i_size := max (i_size ?ino) (of_int (pos + len))\<rparr>)"
    "fs_mem s' = fs_mem s" "fs_kern s' = fs_kern s" "pcaller s' = pcaller s"
    "\<And>k. k < inode_pos sb (i_num ?ino) \<or> inode_pos sb (i_num ?ino) + 16 \<le> k \<Longrightarrow>
      rootdisk s' k = buf_write (rootdisk s) (?at + pos) ?data k"
    "load_inode (rootdisk s') (inode_pos sb (i_num ?ino)) (inode_table s' p) = inode_table s' p"
    by blast
  have o: "0 \<le> pos" "pos \<le> uint (i_size ?ino)" "i_size ?ino \<le> 0x100000"
    using assms(2,5) by (simp_all add: open_file_def regular_file_def)
  have w: "uint (of_int (pos + len) :: u32) = pos + len" "unat (of_int (pos + len) :: u32) = nat (pos + len)"
    using word_of_small [of "pos + len"] o assms(7,8) by auto
  have m: "unat (max (i_size ?ino) (of_int (pos + len))) = max (unat (i_size ?ino)) (nat pos + length ?data)"
    using w(2) o(1) assms(7) by (simp add: max_def word_le_nat_alt nat_add_distrib)
  have "rootdisk s' k = buf_write (rootdisk s) (?at + pos) ?data k" if "?at \<le> k" for k
    using s'(7) [of k] W(1) that by linarith
  then have "buf_read (rootdisk s') ?at (max (unat (i_size ?ino)) (nat pos + length ?data)) =
      overwrite (buf_read (rootdisk s) ?at (unat (i_size ?ino))) (nat pos) ?data"
    using o(2) by (intro buf_read_overwrite o(1) refl) simp_all
  then have c: "content s' p = overwrite (content s p) (nat pos) ?data"
    unfolding content_def s'(3) using m by simp
  have r: "pos + len \<le> uint (max (i_size ?ino) (of_int (pos + len)))" "max (i_size ?ino) (of_int (pos + len)) \<le> (0x100000 :: u32)"
    using w(1) o(3) assms(8) by (auto simp: max_def word_le_def)
  have "open_file sb s' (m3i1 (fs_msg s)) d p" using assms(2) s' o r assms(7)
    by (simp add: open_file_def regular_file_def)
  then show ?thesis
    using s' c do_rdwt_open [OF assms(2)] assms(7) by (intro exI [of _ s']) (auto simp: buf_write_other)
qed

lemma take_drop_buf_read: "n + m \<le> k \<Longrightarrow> take m (drop n (buf_read b off k)) = buf_read b (off + int n) m"
  by (intro nth_equalityI) (simp_all add: add.assoc)

lemma read_file_returns:
  assumes "open_file sb s (m3i1 (fs_msg s)) d p" "fs_flat s (source (fs_msg s)) base"
    "mtype (fs_msg s) = READ" "pos = fd_pos (f_desc_table s d)" "len = m3i2 (fs_msg s)" "0 \<le> len"
    "pos + len \<le> uint (i_size (inode_table s p))" "pos mod 512 + len < 256 * 512"
  shows "\<exists>s'. do_rdwt reply s = Inr (len, s') \<and>
    phys_read (fs_mem s') (base + m3p2 (fs_msg s)) (nat len) = take (nat len) (drop (nat pos) (content s p)) \<and>
    (\<forall>a. len \<le> uint (a - (base + m3p2 (fs_msg s))) \<longrightarrow> fs_mem s' a = fs_mem s a) \<and>
    f_desc_table s' = (f_desc_table s)(d := (f_desc_table s d)\<lparr>fd_pos := pos + len\<rparr>) \<and>
    inode_table s' = inode_table s \<and> disk s' = disk s"
proof -
  let ?ino = "inode_table s p" and ?la = "base + m3p2 (fs_msg s)"
  let ?bytes = "buf_read (rootdisk s) (uint (i_start_sect ?ino) * 512 + pos) (nat len)"
  have o: "0 \<le> pos" "uint (i_size ?ino) \<le> 1048576"
    using assms(1,4) by (simp_all add: open_file_def regular_file_def word_le_def)
  have w: "\<not> of_int (pos + len) > i_size ?ino"
    using word_of_small [of "pos + len"] o assms(6,7) by (simp add: word_less_def)
  obtain b where b: "rdwt_regular d p s = Inr (len, upd_fdesc d (\<lambda>f. f\<lparr>fd_pos := pos + len\<rparr>)
                (rdwt_round True ?la (uint (i_start_sect ?ino) * 512 + pos) len (s\<lparr>fsbuf := b\<rparr>)))"
    using rdwt_regular_run [OF assms(1,2) _ assms(4-6) _ assms(8)] assms(3,7) w by (auto simp: Let_def)
  have "int (nat pos + nat len) \<le> int (unat (i_size ?ino))" using o(1) assms(6,7) by simp
  then have "take (nat len) (drop (nat pos) (content s p)) = ?bytes"
    using o(1) unfolding content_def of_nat_le_iff by (simp add: take_drop_buf_read)
  moreover have "phys_read (phys_write (fs_mem s) ?la ?bytes) ?la (nat len) = ?bytes"
    using phys_read_write [of ?bytes] o assms(7) by simp
  moreover have "phys_write (fs_mem s) ?la ?bytes a = fs_mem s a" if "len \<le> uint (a - ?la)" for a
    using that assms(6) by (auto simp: phys_write_def unat_eq_nat_uint simp del: nat_uint_eq)
  ultimately show ?thesis
    unfolding do_rdwt_open [OF assms(1)] b by (auto simp: rdwt_round_def)
qed

text \<open>
  C19: Writing to an open file, within its 2048 sectors. A request that touches at most 256
  sectors returns the number of bytes asked for, the file's content is the old one with the
  caller's bytes in place from the position on, the position moves past them, the size grows
  if need be and the inode on the disk agrees with it, and no byte of the disk outside the
  file and its inode changes. A request that touches more sectors never returns: the first
  transfer waits for an interrupt the disk does not send.
\<close>

theorem write_file:
  assumes "mounted sb s" "open_file sb s (m3i1 (fs_msg s)) d p" "fs_flat s (source (fs_msg s)) base"
    "mtype (fs_msg s) = WRITE" "pos = fd_pos (f_desc_table s d)" "len = m3i2 (fs_msg s)" "0 \<le> len" "pos + len \<le> 2 ^ 20"
    "load_inode (rootdisk s) (inode_pos sb (i_num (inode_table s p))) (inode_table s p) = inode_table s p"
  shows "if pos mod 512 + len < 256 * 512
   then \<exists>s'. do_rdwt reply s = Inr (len, s') \<and>
       content s' p = overwrite (content s p) (nat pos) (phys_read (fs_mem s) (base + m3p2 (fs_msg s)) (nat len)) \<and>
       f_desc_table s' d = (f_desc_table s d)\<lparr>fd_pos := pos + len\<rparr> \<and>
       inode_table s' p = (inode_table s p)\<lparr>i_size := max (i_size (inode_table s p)) (of_int (pos + len))\<rparr> \<and>
       load_inode (rootdisk s') (inode_pos sb (i_num (inode_table s p))) (inode_table s' p) = inode_table s' p \<and>
       open_file sb s' (m3i1 (fs_msg s)) d p \<and> fs_mem s' = fs_mem s \<and>
       (\<forall>k. (k < uint (i_start_sect (inode_table s p)) * 512 + pos \<or> uint (i_start_sect (inode_table s p)) * 512 + pos + len \<le> k) \<and>
          (k < inode_pos sb (i_num (inode_table s p)) \<or> inode_pos sb (i_num (inode_table s p)) + 16 \<le> k) \<longrightarrow>
          rootdisk s' k = rootdisk s k)
   else do_rdwt reply s = Inl (Hang ''interrupt_wait'')"
proof (cases "pos mod 512 + len < 256 * 512")
  case True
  from write_file_returns [OF assms True] show ?thesis unfolding if_P [OF True] .
next
  case False
  then have "rdwt_regular d p s = Inl (Hang ''interrupt_wait'')"
    using rdwt_regular_hangs [OF assms(2) _ assms(5,6,7)] assms(4,8) by simp
  then show ?thesis unfolding if_not_P [OF False] do_rdwt_open [OF assms(2)] .
qed

text \<open>
  C20: Reading from an open file, up to its end. A request that touches at most 256 sectors
  returns the number of bytes asked for, the caller's buffer holds the file's bytes from the
  position on, no other memory and nothing on the disk changes, and the position moves past
  them. A request that touches more sectors never returns.
\<close>

theorem read_file:
  assumes "open_file sb s (m3i1 (fs_msg s)) d p" "fs_flat s (source (fs_msg s)) base"
    "mtype (fs_msg s) = READ" "pos = fd_pos (f_desc_table s d)" "len = m3i2 (fs_msg s)" "0 \<le> len"
    "pos + len \<le> uint (i_size (inode_table s p))"
  shows "if pos mod 512 + len < 256 * 512
   then \<exists>s'. do_rdwt reply s = Inr (len, s') \<and>
       phys_read (fs_mem s') (base + m3p2 (fs_msg s)) (nat len) = take (nat len) (drop (nat pos) (content s p)) \<and>
       (\<forall>a. len \<le> uint (a - (base + m3p2 (fs_msg s))) \<longrightarrow> fs_mem s' a = fs_mem s a) \<and>
       f_desc_table s' = (f_desc_table s)(d := (f_desc_table s d)\<lparr>fd_pos := pos + len\<rparr>) \<and>
       inode_table s' = inode_table s \<and> disk s' = disk s
   else do_rdwt reply s = Inl (Hang ''interrupt_wait'')"
proof (cases "pos mod 512 + len < 256 * 512")
  case True
  from read_file_returns [OF assms True] show ?thesis unfolding if_P [OF True] .
next
  case False
  then have "rdwt_regular d p s = Inl (Hang ''interrupt_wait'')"
    using rdwt_regular_hangs [OF assms(1) _ assms(4,5,6)] assms(3,7) by simp
  then show ?thesis unfolding if_not_P [OF False] do_rdwt_open [OF assms(1)] .
qed

text \<open>
  C21: The end of a file does not stop a read: asked for bytes of the sector that holds the
  end, \<open>do_rdwt()\<close> hands out all of them, what lies on the disk behind the end included, and
  then makes the file that much longer.
\<close>

theorem read_grows_file:
  assumes "mounted sb s" "open_file sb s (m3i1 (fs_msg s)) d p" "fs_flat s (source (fs_msg s)) base"
    "mtype (fs_msg s) = READ" "pos = fd_pos (f_desc_table s d)" "len = m3i2 (fs_msg s)"
    "uint (i_size (inode_table s p)) < pos + len" "pos mod 512 + len \<le> 512"
  shows "\<exists>s'. do_rdwt reply s = Inr (len, s') \<and> i_size (inode_table s' p) = of_int (pos + len) \<and>
    phys_read (fs_mem s') (base + m3p2 (fs_msg s)) (nat len) =
      buf_read (rootdisk s) (uint (i_start_sect (inode_table s p)) * 512 + pos) (nat len)"
proof -
  let ?ino = "inode_table s p" and ?la = "base + m3p2 (fs_msg s)"
  let ?bytes = "buf_read (rootdisk s) (uint (i_start_sect ?ino) * 512 + pos) (nat len)"
  have o: "0 \<le> pos" "pos \<le> uint (i_size ?ino)" "uint (i_size ?ino) \<le> 1048576" "i_dev ?ino = ROOT_DEV" "1 \<le> i_num ?ino" "i_num ?ino \<le> 4096"
    using assms(2,5) by (simp_all add: open_file_def regular_file_def word_le_def)
  have lim: "uint (i_size ?ino) = min (pos + len) (uint (rdwt_limit s p))" using assms(4,7) by (simp add: rdwt_limit_def)
  have len: "0 \<le> len" "len \<le> 512" using o(2) assms(7,8) pos_mod_sign [of 512 pos] by linarith+
  have "pos div 512 \<le> uint (i_size ?ino) div 512" using o(2) by (rule zdiv_mono1) simp
  then have cover: "pos mod 512 + len \<le> min (uint (i_size ?ino) div 512 - pos div 512 + 1) 2048 * 512"
    using assms(8) unfolding min_def by simp
  have span: "uint (i_size ?ino) div 512 - pos div 512 < 256"
  proof -
    have "uint (i_size ?ino) div 512 \<le> (pos + len) div 512" using assms(7) by (intro zdiv_mono1) simp_all
    moreover have "(pos mod 512 + len) div 512 \<le> 512 div 512" using assms(8) by (rule zdiv_mono1) simp
    ultimately show ?thesis using sector_span [of pos len] by simp
  qed
  have w: "of_int (pos + len) > i_size ?ino"
    using word_of_small [of "pos + len"] o len assms(7) by (simp add: word_less_def)
  obtain b where b: "rdwt_regular d p s = bindE (sync_inode p (upd_inode p (\<lambda>x. x\<lparr>i_size := of_int (pos + len)\<rparr>)
        (upd_fdesc d (\<lambda>f. f\<lparr>fd_pos := pos + len\<rparr>)
          (rdwt_round True ?la (uint (i_start_sect ?ino) * 512 + pos) len (s\<lparr>fsbuf := b\<rparr>))))) (\<lambda>s2. Inr (len, s2))"
    (is "_ = bindE (sync_inode p ?s2) _")
    using rdwt_regular_gen [OF assms(2,3) _ assms(5,6) len(1) _ lim o(2) cover span] assms(4) o len w by (auto simp: Let_def)
  have "mounted sb ?s2" using assms(1) mounted_cong [of ?s2 s] by simp
  from sync_inode_root [OF this, of p] o(4-6) obtain s' where s': "sync_inode p ?s2 = Inr s'"
    "inode_table s' = inode_table ?s2" "fs_mem s' = fs_mem ?s2" by fastforce
  moreover have "phys_read (phys_write (fs_mem s) ?la ?bytes) ?la (nat len) = ?bytes"
    using phys_read_write [of ?bytes] len by simp
  ultimately show ?thesis
    unfolding do_rdwt_open [OF assms(2)] b by (auto simp: rdwt_round_def)
qed

subsection \<open>A small file system\<close>

text \<open>
  A state to try the properties on: a partition of 100000 sectors with a file of ten bytes
  that process 5 has open as descriptor 3, at position 4.
\<close>

definition demo_sb :: super_block where
  "demo_sb = (mk_super_block 100000)\<lparr>sb_dev := ROOT_DEV\<rparr>"

definition demo_inode :: inode where
  "demo_inode = \<lparr>i_mode = I_REGULAR, i_size = 10, i_start_sect = 2332, i_nr_sects = 2048, i_dev = ROOT_DEV,
     i_cnt = 1, i_num = 5\<rparr>"

definition demo_fs :: "int \<Rightarrow> int \<Rightarrow> fs" where
  "demo_fs mt cnt =
     \<lparr>fs_kern = \<lparr>proc_table = (\<lambda>p. zero_process\<lparr>p_filp := (if p = 5 then [3 \<mapsto> 2] else Map.empty)\<rparr>), p_proc_ready = 5,
                 messages = (\<lambda>_. zero_msg), k_reenter = 0, ticks = 0, key_pressed = 0\<rparr>,
      fs_mem = (\<lambda>a. ucast a), disk = (\<lambda>_. store_inode demo_inode (inode_pos demo_sb 5) (\<lambda>k. of_int k)),
      fsbuf = (\<lambda>_. 0),
      f_desc_table = (\<lambda>d. if d = 2 then \<lparr>fd_mode = O_RDWR, fd_pos = 4, fd_cnt = 1, fd_inode = Some 1\<rparr> else zero_file_desc),
      inode_table = (\<lambda>p. if p = 1 then demo_inode else zero_inode),
      sb_table = (\<lambda>i. if i = 0 then demo_sb else zero_super_block), root_inode = Some 0,
      fs_msg = zero_msg\<lparr>source := 5, mtype := mt, m3i1 := 3, m3i2 := cnt, m3p2 := 0x5000\<rparr>, pcaller = 5, fs_outbox = []\<rparr>"

lemma demo_fs_facts:
  "mounted demo_sb (demo_fs mt n)" "open_file demo_sb (demo_fs mt n) (m3i1 (fs_msg (demo_fs mt n))) 2 1"
  "fs_flat (demo_fs mt n) (source (fs_msg (demo_fs mt n))) 0"
  "load_inode (rootdisk (demo_fs mt n)) (inode_pos demo_sb (i_num (inode_table (demo_fs mt n) 1))) (inode_table (demo_fs mt n) 1) =
     inode_table (demo_fs mt n) 1"
  "fs_msg (demo_fs mt n) = zero_msg\<lparr>source := 5, mtype := mt, m3i1 := 3, m3i2 := n, m3p2 := 0x5000\<rparr>"
  "fd_pos (f_desc_table (demo_fs mt n) 2) = 4" "i_size (inode_table (demo_fs mt n) 1) = 10"
  "i_start_sect (inode_table (demo_fs mt n) 1) = 2332"
proof -
  have "find (\<lambda>i. sb_dev (if i = 0 then demo_sb else zero_super_block) = 800) [0..<8] = Some 0"
    by (simp add: find_upt_Some demo_sb_def)
  then have "get_super_block ROOT_DEV (demo_fs mt n) = Inr demo_sb"
    by (simp add: get_super_block_def demo_fs_def)
  then show "mounted demo_sb (demo_fs mt n)" by (simp add: mounted_def demo_sb_def mk_super_block_def Let_def)
  show "open_file demo_sb (demo_fs mt n) (m3i1 (fs_msg (demo_fs mt n))) 2 1"
    by (simp add: demo_fs_def demo_sb_def demo_inode_def open_file_def regular_file_def mk_super_block_def Let_def)
  show "fs_flat (demo_fs mt n) (source (fs_msg (demo_fs mt n))) 0"
    by (simp add: fs_flat_def va2la_def demo_fs_def Let_def ldt_seg_linear_def zero_process_def zero_desc_def)
  show "load_inode (rootdisk (demo_fs mt n)) (inode_pos demo_sb (i_num (inode_table (demo_fs mt n) 1))) (inode_table (demo_fs mt n) 1) =
     inode_table (demo_fs mt n) 1" by (simp add: demo_fs_def load_store_inode) (simp add: demo_inode_def load_store_inode)
qed (simp_all add: demo_fs_def demo_inode_def)

theorem write_file_witness:
  "(\<exists>s'. do_rdwt (\<lambda>m. m) (demo_fs WRITE 20) = Inr (20, s') \<and>
     content s' 1 = take 4 (content (demo_fs WRITE 20) 1) @ phys_read (fs_mem (demo_fs WRITE 20)) 0x5000 20) \<and>
   do_rdwt (\<lambda>m. m) (demo_fs WRITE 200000) = Inl (Hang ''interrupt_wait'')"
  using write_file [OF demo_fs_facts(1-3) [of WRITE 20], where len = 20 and pos = 4 and reply = "\<lambda>m. m"] demo_fs_facts(4-7) [of WRITE 20]
    write_file [OF demo_fs_facts(1-3) [of WRITE 200000], where len = 200000 and pos = 4 and reply = "\<lambda>m. m"] demo_fs_facts(4-7) [of WRITE 200000]
  by (auto simp: overwrite_def content_def)

theorem read_file_witness:
  "\<exists>s'. do_rdwt (\<lambda>m. m) (demo_fs READ 6) = Inr (6, s') \<and> inode_table s' = inode_table (demo_fs READ 6) \<and>
     phys_read (fs_mem s') 0x5000 6 = take 6 (drop 4 (content (demo_fs READ 6) 1))"
  using read_file [OF demo_fs_facts(2,3) [of READ 6], where len = 6 and pos = 4 and reply = "\<lambda>m. m"] demo_fs_facts(5-7) [of READ 6]
  by fastforce

theorem read_grows_file_witness:
  "\<exists>s'. do_rdwt (\<lambda>m. m) (demo_fs READ 100) = Inr (100, s') \<and> i_size (inode_table s' 1) = 104"
  using read_grows_file [OF demo_fs_facts(1-3) [of READ 100], where len = 100 and pos = 4 and reply = "\<lambda>m. m"] demo_fs_facts(5-7) [of READ 100]
  by fastforce

end
