(* ===== verification/Fsmap.thy ===== *)
theory Fsmap
  imports Fsdata
begin

section \<open>The inode map and the sector map\<close>

text \<open>
  The two bit maps on the disk, seen as predicates on bit numbers: which bits the
  allocation of \<open>alloc_imap_bit()\<close> and \<open>alloc_smap_bit()\<close> sets and the release in \<open>do_unlink()\<close>
  clears.
\<close>

subsection \<open>Bits of a map\<close>

text \<open>Bit \<open>n\<close> of the map that starts at byte \<open>at\<close>.\<close>

definition mapbit :: "(int \<Rightarrow> u8) \<Rightarrow> int \<Rightarrow> nat \<Rightarrow> bool" where
  "mapbit b at n \<longleftrightarrow> bit (b (at + int (n div 8))) (n mod 8)"

lemma bit_u8_high: "\<not> bit (b :: u8) k" if "8 \<le> k"
  using that bit_imp_le_length [of b k] by auto

lemma ff_iff: "(b :: u8) = 0xff \<longleftrightarrow> (\<forall>k<8. bit b k)"
proof -
  have "b = 0xff \<longleftrightarrow> b = mask 8" by (simp add: mask_numeral)
  also have "\<dots> \<longleftrightarrow> (\<forall>k<8. bit b k)" by (auto simp: bit_eq_iff bit_mask_iff bit_u8_high)
  finally show ?thesis .
qed

lemma u8_eqI: "(\<And>k. k < 8 \<Longrightarrow> bit a k = bit b k) \<Longrightarrow> (a :: u8) = b"
  by (rule bit_word_eqI) simp

lemma bit_or_push: "bit ((b :: u8) OR 2 ^ k) i \<longleftrightarrow> bit b i \<or> (i = k \<and> k < 8)"
  by (auto simp: bit_or_iff bit_exp_iff possible_bit_def)

lemma bit_andnot_push: "bit ((b :: u8) AND NOT (2 ^ k)) i \<longleftrightarrow> bit b i \<and> i \<noteq> k"
  using bit_imp_le_length [of b i] by (auto simp: bit_and_iff bit_not_iff bit_exp_iff possible_bit_def)

lemma div_mod_8: "8 * j + k = n \<Longrightarrow> k < 8 \<Longrightarrow> n div 8 = j \<and> n mod 8 = (k :: nat)"
  by auto

lemma mapbit_upd:
  "mapbit (b(at + int j := v)) at n \<longleftrightarrow> (if n div 8 = j then bit v (n mod 8) else mapbit b at n)"
  by (simp add: mapbit_def)

lemma first_zero_spec:
  assumes "b \<noteq> 0xff"
  shows "first_zero b < 8" "\<not> bit b (first_zero b)" "k < first_zero b \<Longrightarrow> bit b k"
proof -
  obtain k where "find (\<lambda>k. \<not> bit b k) [0..<8] = Some k"
    using assms by (cases "find (\<lambda>k. \<not> bit b k) [0..<8]") (auto simp: find_upt_None ff_iff)
  moreover from this have "k < 8 \<and> \<not> bit b k \<and> (\<forall>q<k. bit b q)" by (simp add: find_upt_Some)
  ultimately show "first_zero b < 8" "\<not> bit b (first_zero b)" "k < first_zero b \<Longrightarrow> bit b k" for k
    by (simp_all add: first_zero_def)
qed

text \<open>The first free bit is in the first byte that is not full.\<close>

lemma first_free_byte:
  assumes "b (at + int j) \<noteq> 0xff" "\<And>i. i < j \<Longrightarrow> b (at + int i) = 0xff"
  shows "\<not> mapbit b at (8 * j + first_zero (b (at + int j)))" "n < 8 * j + first_zero (b (at + int j)) \<Longrightarrow> mapbit b at n"
proof -
  note z = first_zero_spec [OF assms(1)]
  show "\<not> mapbit b at (8 * j + first_zero (b (at + int j)))" using z by (simp add: mapbit_def)
  assume n: "n < 8 * j + first_zero (b (at + int j))"
  show "mapbit b at n"
  proof (cases "n div 8 < j")
    case True
    then show ?thesis using assms(2) ff_iff by (simp add: mapbit_def)
  next
    case False
    then have e: "n div 8 = j" using n z(1) by auto
    then have "n mod 8 < first_zero (b (at + int j))" using n div_mult_mod_eq [of n 8] by linarith
    note e this
    then show ?thesis using z(3) by (simp add: mapbit_def)
  qed
qed

lemma find_byte:
  assumes "\<not> mapbit b at n" "n < 8 * m"
  shows "\<exists>j. find (\<lambda>j. b (at + int j) \<noteq> 0xff) [0..<m] = Some j \<and> j \<le> n div 8"
proof -
  have "b (at + int (n div 8)) \<noteq> 0xff" using assms(1) ff_iff by (metis mapbit_def mod_less_divisor zero_less_numeral)
  moreover have "n div 8 < m" using assms(2) by auto
  ultimately obtain j where "find (\<lambda>j. b (at + int j) \<noteq> 0xff) [0..<m] = Some j"
    by (cases "find (\<lambda>j. b (at + int j) \<noteq> 0xff) [0..<m]") (auto simp: find_upt_None)
  then show ?thesis using \<open>b (at + int (n div 8)) \<noteq> 0xff\<close> by (auto simp: find_upt_Some intro!: exI [of _ j] leI)
qed


subsection \<open>Sectors of the root device\<close>

lemma rd_root:
  "0 \<le> n \<Longrightarrow> n < 2 ^ 22 \<Longrightarrow> RD_SECT ROOT_DEV n s = Inr (s\<lparr>fsbuf := buf_copy (fsbuf s) 0 512 (rootdisk s) (n * 512)\<rparr>)"
  by (simp add: RD_SECT_def s32_small)

lemma wr_root:
  "0 \<le> n \<Longrightarrow> n < 2 ^ 22 \<Longrightarrow> WR_SECT ROOT_DEV n s = Inr (set_rootdisk (buf_copy (rootdisk s) (n * 512) 512 (fsbuf s) 0) s)"
  by (simp add: WR_SECT_def s32_small)

text \<open>A byte of a sector that is read, changed and written back.\<close>

lemma write_back_byte:
  assumes "0 \<le> k" "k < 512"
  shows "buf_copy d pos 512 ((buf_copy b 0 512 d pos)(k := v)) 0 = d(pos + k := v)"
  using assms by (auto simp: buf_copy_def fun_eq_iff)

lemma buf_copy_inside: "0 \<le> k \<Longrightarrow> k < n \<Longrightarrow> buf_copy b 0 n d pos k = d (pos + k)"
  by (simp add: buf_copy_def)

text \<open>States that differ at most in \<open>fsbuf\<close> and in the bytes of the root device.\<close>

definition same_tables :: "fs \<Rightarrow> fs \<Rightarrow> bool" where
  "same_tables s t \<longleftrightarrow> fs_kern t = fs_kern s \<and> fs_mem t = fs_mem s \<and> f_desc_table t = f_desc_table s \<and>
     inode_table t = inode_table s \<and> sb_table t = sb_table s \<and> root_inode t = root_inode s \<and> fs_msg t = fs_msg s \<and>
     pcaller t = pcaller s \<and> fs_outbox t = fs_outbox s \<and> (\<forall>d. d \<noteq> 32 \<longrightarrow> disk t d = disk s d)"

lemma same_tables_simps [simp]:
  "same_tables s s" "same_tables s (t\<lparr>fsbuf := b\<rparr>) \<longleftrightarrow> same_tables s t"
  "same_tables s (set_rootdisk d t) \<longleftrightarrow> same_tables s t"
  by (auto simp: same_tables_def)

lemma same_tables_trans: "same_tables s t \<Longrightarrow> same_tables t u \<Longrightarrow> same_tables s u"
  by (auto simp: same_tables_def)

lemma same_tablesD:
  assumes "same_tables s t"
  shows "fs_kern t = fs_kern s" "fs_mem t = fs_mem s" "f_desc_table t = f_desc_table s" "inode_table t = inode_table s"
    "sb_table t = sb_table s" "root_inode t = root_inode s" "fs_msg t = fs_msg s" "pcaller t = pcaller s" "fs_outbox t = fs_outbox s"
  using assms by (auto simp: same_tables_def)

lemma mounted_same: "same_tables s t \<Longrightarrow> mounted sb t = mounted sb s"
  by (rule mounted_cong) (simp add: same_tablesD)

subsection \<open>The inode map\<close>

text \<open>It is sector 2, 4096 bits.\<close>

abbreviation imap :: "fs \<Rightarrow> nat \<Rightarrow> bool" where
  "imap s \<equiv> mapbit (rootdisk s) 1024"

lemma mapbit_set:
  assumes "n = 8 * j + k" "k < 8"
  shows "mapbit (b(at + int j := b (at + int j) OR push_bit k 1)) at m \<longleftrightarrow> m = n \<or> mapbit b at m"
proof -
  have "m = n \<longleftrightarrow> m div 8 = j \<and> m mod 8 = k" using assms by auto
  then show ?thesis using assms(2) by (auto simp: mapbit_upd bit_or_push mapbit_def)
qed

lemma mapbit_clear:
  assumes "n = 8 * j + k" "k < 8"
  shows "mapbit (b(at + int j := b (at + int j) AND NOT (push_bit k 1))) at m \<longleftrightarrow> m \<noteq> n \<and> mapbit b at m"
proof -
  have "m = n \<longleftrightarrow> m div 8 = j \<and> m mod 8 = k" using assms by auto
  then show ?thesis using assms(2) by (auto simp: mapbit_upd bit_andnot_push mapbit_def)
qed

lemma alloc_imap_bit_run:
  assumes "mounted sb s" "\<not> imap s n" "n < 4096" "\<And>m. m < n \<Longrightarrow> imap s m"
  shows "\<exists>b. alloc_imap_bit ROOT_DEV s =
    Inr (int n, set_rootdisk ((rootdisk s)(1024 + int (n div 8) := rootdisk s (1024 + int (n div 8)) OR push_bit (n mod 8) 1)) (s\<lparr>fsbuf := b\<rparr>))"
proof -
  have sb: "get_super_block 800 s = Inr sb" "nr_imap_sects sb \<noteq> 0" using assms(1) by (simp_all add: mounted_def)
  let ?b = "buf_copy (fsbuf s) 0 512 (rootdisk s) 1024"
  have b: "?b (int j) = rootdisk s (1024 + int j)" if "j < 512" for j using that by (simp add: buf_copy_def)
  from find_byte [OF assms(2), of 512] assms(3)
  obtain j where j: "find (\<lambda>j. rootdisk s (1024 + int j) \<noteq> 0xff) [0..<512] = Some j" by auto
  then have jj: "j < 512" "rootdisk s (1024 + int j) \<noteq> 0xff" "\<And>i. i < j \<Longrightarrow> rootdisk s (1024 + int i) = 0xff"
    by (simp_all add: find_upt_Some)
  let ?k = "first_zero (rootdisk s (1024 + int j))"
  have n: "n = 8 * j + ?k"
    using first_free_byte [where b = "rootdisk s" and at = 1024, OF jj(2,3)] assms(2,4) by (metis linorder_neqE_nat)
  with first_zero_spec(1) [OF jj(2)] have nk: "n div 8 = j" "n mod 8 = ?k" by auto
  have "find (\<lambda>j. ?b (int j) \<noteq> 0xff) [0..<512] = Some j"
    using jj b unfolding find_upt_Some by simp
  then show ?thesis
    using sb rd_root [of 2 s] nk n jj(1) b [OF jj(1)]
    by (auto simp: alloc_imap_bit_def wr_root Let_def write_back_byte intro!: exI)
qed


lemma free_imap_bit_run:
  assumes "imap s n" "n < 4096"
  shows "\<exists>b. free_imap_bit ROOT_DEV (int n) s =
    Inr (set_rootdisk ((rootdisk s)(1024 + int (n div 8) := rootdisk s (1024 + int (n div 8)) AND NOT (push_bit (n mod 8) 1))) (s\<lparr>fsbuf := b\<rparr>))"
proof -
  have c: "c_div (int n) 8 = int (n div 8)" "c_mod (int n) 8 = int (n mod 8)" "n div 8 < 512"
    using assms(2) by (auto simp: c_div_nonneg c_mod_nonneg zdiv_int zmod_int)
  then have d: "c_mod (int (n div 8)) 512 = int (n div 8)" by (simp add: c_mod_nonneg flip: zmod_int)
  show ?thesis
    using assms c(3) rd_root [of 2 s]
    by (auto simp: free_imap_bit_def c d Let_def wr_root write_back_byte buf_copy_inside mapbit_def intro!: exI)
qed

text \<open>
  C25: Allocating an inode number takes the first free bit of the inode map, sets that bit and
  changes nothing else on the disk; freeing the number, as \<open>do_unlink()\<close> does, gives back the
  map it started from. A full map is not an error: the number returned is then 0.
\<close>

theorem imap_alloc_free:
  assumes "mounted sb s"
  shows "(\<forall>n<4096. \<not> imap s n \<longrightarrow> (\<forall>m<n. imap s m) \<longrightarrow>
      (\<exists>s1. alloc_imap_bit ROOT_DEV s = Inr (int n, s1) \<and> same_tables s s1 \<and> (\<forall>m. imap s1 m \<longleftrightarrow> m = n \<or> imap s m) \<and>
         (\<forall>k. k \<noteq> 1024 + int (n div 8) \<longrightarrow> rootdisk s1 k = rootdisk s k) \<and>
         (\<exists>s2. free_imap_bit ROOT_DEV (int n) s1 = Inr s2 \<and> same_tables s s2 \<and> rootdisk s2 = rootdisk s))) \<and>
    ((\<forall>n<4096. imap s n) \<longrightarrow> (\<exists>s1. alloc_imap_bit ROOT_DEV s = Inr (0, s1) \<and> same_tables s s1 \<and> rootdisk s1 = rootdisk s))"
proof (intro conjI allI impI)
  fix n
  assume n: "n < 4096" "\<not> imap s n" "\<forall>m<n. imap s m"
  let ?b = "rootdisk s (1024 + int (n div 8))"
  let ?d = "(rootdisk s)(1024 + int (n div 8) := ?b OR push_bit (n mod 8) 1)"
  from alloc_imap_bit_run [OF assms n(2,1)] n(3) obtain b where
    s1: "alloc_imap_bit ROOT_DEV s = Inr (int n, set_rootdisk ?d (s\<lparr>fsbuf := b\<rparr>))" (is "_ = Inr (_, ?s1)") by blast
  have i: "imap ?s1 m \<longleftrightarrow> m = n \<or> imap s m" for m using mapbit_set [of n "n div 8" "n mod 8" "rootdisk s" 1024 m] by simp
  from free_imap_bit_run [of ?s1 n] i n(1) obtain b' where
    s2: "free_imap_bit ROOT_DEV (int n) ?s1 =
      Inr (set_rootdisk ((rootdisk ?s1)(1024 + int (n div 8) := rootdisk ?s1 (1024 + int (n div 8)) AND NOT (push_bit (n mod 8) 1)))
        (?s1\<lparr>fsbuf := b'\<rparr>))" by blast
  have "(?b OR 2 ^ (n mod 8)) AND NOT (2 ^ (n mod 8)) = ?b"
    using n(2) by (intro u8_eqI) (auto simp: bit_or_push bit_andnot_push mapbit_def)
  then show "\<exists>s1. alloc_imap_bit ROOT_DEV s = Inr (int n, s1) \<and> same_tables s s1 \<and> (\<forall>m. imap s1 m \<longleftrightarrow> m = n \<or> imap s m) \<and>
         (\<forall>k. k \<noteq> 1024 + int (n div 8) \<longrightarrow> rootdisk s1 k = rootdisk s k) \<and>
         (\<exists>s2. free_imap_bit ROOT_DEV (int n) s1 = Inr s2 \<and> same_tables s s2 \<and> rootdisk s2 = rootdisk s)"
    using s1 s2 i by (intro exI [of _ ?s1]) (simp add: fun_upd_idem)
next
  assume full: "\<forall>n<4096. imap s n"
  have "rootdisk s (1024 + int j) = 0xff" if "j < 512" for j
    unfolding ff_iff
  proof (intro allI impI)
    fix k :: nat
    assume "k < 8"
    with full that show "bit (rootdisk s (1024 + int j)) k"
      by (auto simp: mapbit_def dest: spec [of _ "8 * j + k"])
  qed
  then have "find (\<lambda>j. buf_copy (fsbuf s) 0 512 (rootdisk s) 1024 (int j) \<noteq> 0xff) [0..<512] = None"
    by (simp add: find_upt_None buf_copy_inside)
  moreover have "get_super_block 800 s = Inr sb" "nr_imap_sects sb \<noteq> 0" using assms by (simp_all add: mounted_def)
  ultimately show "\<exists>s1. alloc_imap_bit ROOT_DEV s = Inr (0, s1) \<and> same_tables s s1 \<and> rootdisk s1 = rootdisk s"
    using rd_root [of 2 s] by (simp add: alloc_imap_bit_def)
qed

subsection \<open>The sector map\<close>

lemma int_div_mod_8: "int m = 8 * int (m div 8) + int (m mod 8)"
  by (simp add: zdiv_int zmod_int)

text \<open>Marking the bits of one byte, from \<open>k\<close> on, as long as there are sectors to allocate.\<close>

lemma mark_bits_run:
  assumes "k \<le> 8" "0 < left" "\<And>i. k \<le> i \<Longrightarrow> i < 8 \<Longrightarrow> int i < int k + left \<Longrightarrow> \<not> bit b i"
  shows "\<exists>v. mark_bits [k..<8] b left = Inr (v, left - min left (8 - int k)) \<and>
    (\<forall>i<8. bit v i \<longleftrightarrow> bit b i \<or> (k \<le> i \<and> int i < int k + left))"
  using assms
proof (induction "8 - k" arbitrary: k b left)
  case 0
  then show ?case by auto
next
  case (Suc n)
  then have k: "k < 8" "[k..<8] = k # [Suc k..<8]" by (auto simp: upt_conv_Cons)
  have nk: "\<not> bit b k" using Suc.prems k(1) by simp
  show ?case
  proof (cases "left = 1")
    case True
    then show ?thesis using k nk by (auto simp: bit_or_push)
  next
    case False
    have "\<not> bit (b OR push_bit k 1) i" if "Suc k \<le> i" "i < 8" "int i < int (Suc k) + (left - 1)" for i
      using Suc.prems(3) [of i] that by (auto simp: bit_or_push)
    with Suc.hyps(1) [of "Suc k" "left - 1" "b OR push_bit k 1"] Suc.hyps(2) Suc.prems False k(1)
    obtain v where v: "mark_bits [Suc k..<8] (b OR push_bit k 1) (left - 1) = Inr (v, left - 1 - min (left - 1) (8 - int (Suc k)))"
      "\<forall>i<8. bit v i \<longleftrightarrow> bit (b OR push_bit k 1) i \<or> (Suc k \<le> i \<and> int i < int (Suc k) + (left - 1))" by fastforce
    have "left - 1 - min (left - 1) (8 - int (Suc k)) = left - min left (8 - int k)" using k(1) by auto
    with v k nk False Suc.prems(2) show ?thesis by (auto simp: bit_or_push)
  qed
qed

text \<open>
  Once the first sector is found, every bit is marked: here for the bytes of one sector of the
  map from byte \<open>j\<close> on.
\<close>

lemma smap_sector_mark:
  assumes "0 < left" "free \<noteq> 0" "\<And>m. 8 * j \<le> m \<Longrightarrow> m < 8 * (j + n) \<Longrightarrow> int m < 8 * int j + left \<Longrightarrow> \<not> mapbit b 0 m"
  shows "\<exists>b'. smap_sector first i n j b left free = Inr (b', left - min left (8 * int n), free) \<and>
    (\<forall>m. mapbit b' 0 m \<longleftrightarrow> mapbit b 0 m \<or> (8 * j \<le> m \<and> m < 8 * (j + n) \<and> int m < 8 * int j + left)) \<and>
    (\<forall>k. k < int j \<or> int (j + n) \<le> k \<longrightarrow> b' k = b k)"
  using assms
proof (induction n arbitrary: j b left)
  case 0
  then show ?case by auto
next
  case (Suc n)
  have "\<not> bit (b (int j)) i" if "i < 8" "int i < left" for i
    using Suc.prems(3) [of "8 * j + i"] that by (simp add: mapbit_def)
  with mark_bits_run [of 0 left "b (int j)"] Suc.prems(1) obtain v where
    v: "mark_bits [0..<8] (b (int j)) left = Inr (v, left - min left 8)"
       "\<And>i. i < 8 \<Longrightarrow> bit v i \<longleftrightarrow> bit (b (int j)) i \<or> int i < left" by auto
  define b1 where "b1 = b(int j := v)"
  define l where "l = left - min left 8"
  have mb: "mapbit b1 0 m \<longleftrightarrow> mapbit b 0 m \<or> (m div 8 = j \<and> int m < 8 * int j + left)" for m
    using v(2) [of "m mod 8"] mapbit_upd [of b 0 j v m] int_div_mod_8 [of m] by (auto simp: mapbit_def b1_def)
  have step: "smap_sector first i (Suc n) j b left free = smap_sector first i n (Suc j) b1 l free"
    using Suc.prems(1,2) v(1) by (simp add: b1_def l_def)
  show ?case
  proof (cases "left \<le> 8")
    case True
    then have "smap_sector first i n (Suc j) b1 l free = Inr (b1, 0, free)" using Suc.prems(1) by (cases n) (auto simp: l_def)
    moreover have "(m div 8 = j \<and> int m < 8 * int j + left) \<longleftrightarrow> (8 * j \<le> m \<and> m < 8 * (j + Suc n) \<and> int m < 8 * int j + left)" for m
      using True by auto
    ultimately show ?thesis using step mb True Suc.prems(1) by (auto simp: b1_def intro!: exI [of _ b1])
  next
    case False
    then have l: "0 < l" "l = left - 8" by (auto simp: l_def)
    have "\<not> mapbit b1 0 m" if "8 * Suc j \<le> m" "m < 8 * (Suc j + n)" "int m < 8 * int (Suc j) + l" for m
      using Suc.prems(3) [of m] that l mb [of m] by auto
    from Suc.IH [where j = "Suc j" and b = b1 and left = l, OF l(1) Suc.prems(2) this] obtain b' where
      b': "smap_sector first i n (Suc j) b1 l free = Inr (b', l - min l (8 * int n), free)"
      "\<And>m. mapbit b' 0 m \<longleftrightarrow> mapbit b1 0 m \<or> (8 * Suc j \<le> m \<and> m < 8 * (Suc j + n) \<and> int m < 8 * int (Suc j) + l)"
      "\<And>k. k < int (Suc j) \<or> int (Suc j + n) \<le> k \<Longrightarrow> b' k = b1 k" by blast
    have "l - min l (8 * int n) = left - min left (8 * int (Suc n))" using False l by auto
    moreover have "mapbit b' 0 m \<longleftrightarrow> mapbit b 0 m \<or> (8 * j \<le> m \<and> m < 8 * (j + Suc n) \<and> int m < 8 * int j + left)" for m
      unfolding b'(2) mb using False l by auto
    ultimately show ?thesis using step b'(1,3) by (intro exI [of _ b']) (auto simp: b1_def)
  qed
qed


text \<open>
  In the sector with the first free bit \<open>f\<close>, the full bytes before it are skipped; a sector
  without a free bit is left as it is.
\<close>

lemma smap_sector_full:
  assumes "0 < left" "\<And>m. 8 * j \<le> m \<Longrightarrow> m < 8 * (j + n) \<Longrightarrow> mapbit b 0 m"
  shows "smap_sector first i n j b left 0 = Inr (b, left, 0)"
  using assms(2)
proof (induction n arbitrary: j)
  case (Suc n)
  have "bit (b (int j)) k" if "k < 8" for k using Suc.prems [of "8 * j + k"] that by (simp add: mapbit_def)
  then have "b (int j) = 0xff" by (simp add: ff_iff)
  moreover have "smap_sector first i n (Suc j) b left 0 = Inr (b, left, 0)"
    by (rule Suc.IH) (rule Suc.prems, auto)
  ultimately show ?case using assms(1) by simp
qed simp

lemma smap_sector_first:
  assumes "0 < left" "8 * j \<le> f" "f < 8 * (j + n)" "\<And>m. 8 * j \<le> m \<Longrightarrow> m < f \<Longrightarrow> mapbit b 0 m"
    "\<And>m. f \<le> m \<Longrightarrow> m < 8 * (j + n) \<Longrightarrow> int m < int f + left \<Longrightarrow> \<not> mapbit b 0 m"
    "free = s32 (i * 4096 + int f - 1 + uint first)" "free \<noteq> 0"
  shows "\<exists>b'. smap_sector first i n j b left 0 = Inr (b', left - min left (8 * int (j + n) - int f), free) \<and>
    (\<forall>m. mapbit b' 0 m \<longleftrightarrow> mapbit b 0 m \<or> (f \<le> m \<and> m < 8 * (j + n) \<and> int m < int f + left)) \<and>
    (\<forall>k. k < int j \<or> int (j + n) \<le> k \<longrightarrow> b' k = b k)"
  using assms(2-5)
proof (induction n arbitrary: j)
  case 0
  then show ?case by simp
next
  case (Suc n)
  show ?case
  proof (cases "8 * Suc j \<le> f")
    case True
    have "bit (b (int j)) k" if "k < 8" for k using Suc.prems(3) [of "8 * j + k"] that True by (simp add: mapbit_def)
    then have "b (int j) = 0xff" by (simp add: ff_iff)
    then have "smap_sector first i (Suc n) j b left 0 = smap_sector first i n (Suc j) b left 0" using assms(1) by simp
    with Suc.IH [of "Suc j"] True Suc.prems show ?thesis by fastforce
  next
    case False
    obtain k where f1: "f = 8 * j + k" using le_Suc_ex [OF Suc.prems(1)] by blast
    with False have f: "f = 8 * j + k" "k < 8" by simp_all
    have nf: "\<not> bit (b (int j)) k" using Suc.prems(4) [of f] f assms(1) by (simp add: mapbit_def)
    then have ff: "b (int j) \<noteq> 0xff" using f(2) by (auto simp: ff_iff)
    have "first_zero (b (int j)) = k"
    proof -
      have "bit (b (int j)) l" if "l < k" for l using Suc.prems(3) [of "8 * j + l"] that f by (simp add: mapbit_def)
      then have "\<not> first_zero (b (int j)) < k" using first_zero_spec(2) [OF ff] by blast
      moreover have "\<not> k < first_zero (b (int j))" using first_zero_spec(3) [OF ff] nf by blast
      ultimately show ?thesis by simp
    qed
    moreover have "\<not> bit (b (int j)) l" if "k \<le> l" "l < 8" "int l < int k + left" for l
      using Suc.prems(4) [of "8 * j + l"] that f by (simp add: mapbit_def)
    with mark_bits_run [of k left "b (int j)"] assms(1) f(2) obtain v where
      v: "mark_bits [k..<8] (b (int j)) left = Inr (v, left - min left (8 - int k))"
         "\<And>l. l < 8 \<Longrightarrow> bit v l \<longleftrightarrow> bit (b (int j)) l \<or> (k \<le> l \<and> int l < int k + left)" by auto
    moreover have "s32 ((i * 512 + int j) * 8 + int k - 1 + uint first) = free" using assms(6) f by (simp add: algebra_simps)
    ultimately have step: "smap_sector first i (Suc n) j b left 0 =
        smap_sector first i n (Suc j) (b(int j := v)) (left - min left (8 - int k)) free"
      using assms(1) ff by (simp add: Let_def)
    define b1 where "b1 = b(int j := v)"
    define l where "l = left - min left (8 - int k)"
    have mb: "mapbit b1 0 m \<longleftrightarrow> mapbit b 0 m \<or> (m div 8 = j \<and> f \<le> m \<and> int m < int f + left)" for m
      using v(2) [of "m mod 8"] mapbit_upd [of b 0 j v m] int_div_mod_8 [of m] f by (auto simp: mapbit_def b1_def)
    show ?thesis
    proof (cases "left \<le> 8 - int k")
      case True
      then have "smap_sector first i n (Suc j) b1 l free = Inr (b1, 0, free)" by (cases n) (auto simp: l_def)
      moreover have "(m div 8 = j \<and> f \<le> m \<and> int m < int f + left) \<longleftrightarrow> (f \<le> m \<and> m < 8 * (j + Suc n) \<and> int m < int f + left)" for m
        using True f by auto
      ultimately show ?thesis using step [folded b1_def l_def] mb True f by (auto simp: b1_def intro!: exI [of _ b1])
    next
      case False
      then have l: "0 < l" "l = left - (8 - int k)" by (auto simp: l_def)
      have "\<not> mapbit b1 0 m" if "8 * Suc j \<le> m" "m < 8 * (Suc j + n)" "int m < 8 * int (Suc j) + l" for m
        using Suc.prems(4) [of m] that l mb [of m] f by auto
      from smap_sector_mark [where j = "Suc j" and b = b1 and left = l, OF l(1) assms(7) this] obtain b' where
        b': "smap_sector first i n (Suc j) b1 l free = Inr (b', l - min l (8 * int n), free)"
        "\<And>m. mapbit b' 0 m \<longleftrightarrow> mapbit b1 0 m \<or> (8 * Suc j \<le> m \<and> m < 8 * (Suc j + n) \<and> int m < 8 * int (Suc j) + l)"
        "\<And>k. k < int (Suc j) \<or> int (Suc j + n) \<le> k \<Longrightarrow> b' k = b1 k" by blast
      have "l - min l (8 * int n) = left - min left (8 * int (j + Suc n) - int f)" using False f l by auto
      moreover have "mapbit b' 0 m \<longleftrightarrow> mapbit b 0 m \<or> (f \<le> m \<and> m < 8 * (j + Suc n) \<and> int m < int f + left)" for m
        unfolding b'(2) mb using False f l by auto
      ultimately show ?thesis using step [folded b1_def l_def] b'(1,3) by (intro exI [of _ b']) (auto simp: b1_def)
    qed
  qed
qed


text \<open>The map over several sectors: sector \<open>i\<close> of it holds the bits from \<open>4096 * i\<close> on.\<close>

lemma sector_bit_div: "(4096 * i + m) div 8 = 512 * i + m div (8 :: nat)" "(4096 * i + m) mod 8 = m mod (8 :: nat)"
proof -
  have e: "4096 * i + m = m + 8 * (512 * i)" by simp
  show "(4096 * i + m) div 8 = 512 * i + m div (8 :: nat)" "(4096 * i + m) mod 8 = m mod (8 :: nat)"
    unfolding e by (simp, rule mod_mult_self2)
qed

lemma sector_bit_read:
  assumes "m < 4096"
  shows "mapbit (buf_copy b 0 512 d (at + 512 * int i)) 0 m \<longleftrightarrow> mapbit d at (4096 * i + m)"
proof -
  have "m div 8 < 512" using assms by auto
  then show ?thesis by (simp add: mapbit_def buf_copy_def add.assoc sector_bit_div)
qed

lemma sector_bit_write:
  "mapbit (buf_copy d (at + 512 * int i) 512 b 0) at m \<longleftrightarrow>
     (if 4096 * i \<le> m \<and> m < 4096 * i + 4096 then mapbit b 0 (m - 4096 * i) else mapbit d at m)"
proof (cases "4096 * i \<le> m \<and> m < 4096 * i + 4096")
  case True
  define l where "l = m - 4096 * i"
  then have l: "m = 4096 * i + l" "l < 4096" using True by auto
  then have "l div 8 < 512" by auto
  then show ?thesis using l unfolding l(1) by (simp add: mapbit_def buf_copy_def sector_bit_div)
next
  case False
  have "m div 8 < 512 * i \<or> 512 * i + 512 \<le> m div 8"
    using False div_le_mono [of "4096 * i + 4096" m 8] less_mult_imp_div_less [of m "512 * i" 8] by auto
  then have "int (m div 8) < 512 * int i \<or> 512 * int i + 512 \<le> int (m div 8)" by linarith
  then show ?thesis using False by (auto simp: mapbit_def buf_copy_def)
qed


lemma sector_bit_marked:
  assumes "\<And>m. mapbit b 0 m \<longleftrightarrow> mapbit (buf_copy fb 0 512 d (at + 512 * int i)) 0 m \<or> P m"
  shows "mapbit (buf_copy d (at + 512 * int i) 512 b 0) at m \<longleftrightarrow>
    mapbit d at m \<or> (4096 * i \<le> m \<and> m < 4096 * i + 4096 \<and> P (m - 4096 * i))"
proof (cases "4096 * i \<le> m \<and> m < 4096 * i + 4096")
  case True
  then have "m - 4096 * i < 4096" by linarith
  with True sector_bit_read [OF this, of fb d at i] show ?thesis unfolding sector_bit_write assms by auto
qed (auto simp: sector_bit_write)

text \<open>One round of the loop over the sectors of the map.\<close>

lemma smap_sectors_round:
  assumes "0 \<le> blk0" "blk0 + int i < 2 ^ 22" "at = blk0 * 512"
    "smap_sector first (int i) 512 0 (buf_copy (fsbuf s) 0 512 (rootdisk s) (at + 512 * int i)) left free = Inr (b, left1, free1)"
    "free1 \<noteq> 0 \<or> b = buf_copy (fsbuf s) 0 512 (rootdisk s) (at + 512 * int i)"
  shows "\<exists>s1. same_tables s s1 \<and> rootdisk s1 = buf_copy (rootdisk s) (at + 512 * int i) 512 b 0 \<and>
    smap_sectors ROOT_DEV first blk0 (Suc n) (int i) left free s =
      (if left1 = 0 then Inr (left1, free1, s1) else smap_sectors ROOT_DEV first blk0 n (int (Suc i)) left1 free1 s1)"
proof -
  have p: "(blk0 + int i) * 512 = at + 512 * int i" using assms(3) by simp
  have n: "0 \<le> blk0 + int i" using assms(1) by simp
  note R = rd_root [OF n assms(2), of s, unfolded p] wr_root [OF n assms(2), unfolded p]
  show ?thesis
  proof (cases "free1 = 0")
    case True
    with assms(5) have "buf_copy (rootdisk s) (at + 512 * int i) 512 b 0 = rootdisk s"
      by (auto simp: buf_copy_def fun_eq_iff)
    then show ?thesis using R assms(4) True
      by (intro exI [of _ "s\<lparr>fsbuf := b\<rparr>"]) (auto simp: Let_def add.commute)
  next
    case False
    then show ?thesis using R assms(4)
      by (intro exI [of _ "set_rootdisk (buf_copy (rootdisk s) (at + 512 * int i) 512 b 0) (s\<lparr>fsbuf := b\<rparr>)"])
        (simp add: Let_def add.commute)
  qed
qed

lemma smap_sectors_mark:
  assumes "0 \<le> blk0" "blk0 + int (i + n) \<le> 2 ^ 22" "at = blk0 * 512" "0 < left" "left \<le> 4096 * int n" "free \<noteq> 0"
    "\<And>m. 4096 * i \<le> m \<Longrightarrow> int m < 4096 * int i + left \<Longrightarrow> \<not> mapbit (rootdisk s) at m"
  shows "\<exists>s'. smap_sectors ROOT_DEV first blk0 n (int i) left free s = Inr (0, free, s') \<and> same_tables s s' \<and>
    (\<forall>m. mapbit (rootdisk s') at m \<longleftrightarrow> mapbit (rootdisk s) at m \<or> (4096 * i \<le> m \<and> int m < 4096 * int i + left)) \<and>
    (\<forall>k. k < at + 512 * int i \<or> at + 512 * int (i + n) \<le> k \<longrightarrow> rootdisk s' k = rootdisk s k)"
  using assms(2,4,5,7)
proof (induction n arbitrary: i left s)
  case 0
  then show ?case by simp
next
  case (Suc n)
  let ?b = "buf_copy (fsbuf s) 0 512 (rootdisk s) (at + 512 * int i)"
  have "\<not> mapbit ?b 0 m" if "m < 8 * 512" "int m < left" for m
    using Suc.prems(4) [of "4096 * i + m"] that sector_bit_read [of m "fsbuf s" "rootdisk s" at i] by simp
  with smap_sector_mark [where j = 0 and n = 512 and b = ?b and first = first and i = "int i", OF Suc.prems(2) assms(6)]
  obtain b where b: "smap_sector first (int i) 512 0 ?b left free = Inr (b, left - min left 4096, free)"
    "\<And>m. mapbit b 0 m \<longleftrightarrow> mapbit ?b 0 m \<or> (m < 4096 \<and> int m < left)" by auto
  have blk: "blk0 + int i < 2 ^ 22" using Suc.prems(1) by simp
  from smap_sectors_round [OF assms(1) blk assms(3) b(1), of n] assms(6)
  obtain s1 where s1: "same_tables s s1" "rootdisk s1 = buf_copy (rootdisk s) (at + 512 * int i) 512 b 0"
    "smap_sectors ROOT_DEV first blk0 (Suc n) (int i) left free s =
      (if left - min left 4096 = 0 then Inr (left - min left 4096, free, s1)
       else smap_sectors ROOT_DEV first blk0 n (int (Suc i)) (left - min left 4096) free s1)" by auto
  have d1: "mapbit (rootdisk s1) at m \<longleftrightarrow> mapbit (rootdisk s) at m \<or> (4096 * i \<le> m \<and> m < 4096 * i + 4096 \<and> int m < 4096 * int i + left)" for m
    unfolding s1(2) sector_bit_marked [where P = "\<lambda>m. m < 4096 \<and> int m < left", OF b(2)] by auto
  have k1: "rootdisk s1 k = rootdisk s k" if "k < at + 512 * int i \<or> at + 512 * int (Suc i) \<le> k" for k
    using that unfolding s1(2) by (auto simp: buf_copy_def)
  show ?case
  proof (cases "left \<le> 4096")
    case True
    then show ?thesis using s1(1,3) d1 k1 by (intro exI [of _ s1]) auto
  next
    case False
    define l where "l = left - 4096"
    have l: "0 < l" "l \<le> 4096 * int n" "left - min left 4096 = l" using False Suc.prems(3) by (auto simp: l_def)
    have clear: "\<not> mapbit (rootdisk s1) at m" if "4096 * Suc i \<le> m" "int m < 4096 * int (Suc i) + l" for m
      using Suc.prems(4) [of m] that d1 [of m] by (auto simp: l_def)
    have "blk0 + int (Suc i + n) \<le> 2 ^ 22" using Suc.prems(1) by simp
    from Suc.IH [OF this l(1,2) clear] obtain s' where s': "smap_sectors ROOT_DEV first blk0 n (int (Suc i)) l free s1 = Inr (0, free, s')"
      "same_tables s1 s'" "\<And>m. mapbit (rootdisk s') at m \<longleftrightarrow> mapbit (rootdisk s1) at m \<or> (4096 * Suc i \<le> m \<and> int m < 4096 * int (Suc i) + l)"
      "\<And>k. k < at + 512 * int (Suc i) \<or> at + 512 * int (Suc i + n) \<le> k \<Longrightarrow> rootdisk s' k = rootdisk s1 k" by blast
    have "mapbit (rootdisk s') at m \<longleftrightarrow> mapbit (rootdisk s) at m \<or> (4096 * i \<le> m \<and> int m < 4096 * int i + left)" for m
      unfolding s'(3) d1 using False by (auto simp: l_def)
    moreover have "rootdisk s' k = rootdisk s k" if "k < at + 512 * int i \<or> at + 512 * int (i + Suc n) \<le> k" for k
      using that s'(4) [of k] k1 [of k] by auto
    ultimately show ?thesis using s1(1,3) s'(1,2) l False same_tables_trans by (intro exI [of _ s']) auto
  qed
qed


lemma smap_sectors_first:
  assumes "0 \<le> blk0" "blk0 + int (i + n) \<le> 2 ^ 22" "at = blk0 * 512" "0 < left" "4096 * i \<le> f" "int f + left \<le> 4096 * int (i + n)"
    "\<And>m. 4096 * i \<le> m \<Longrightarrow> m < f \<Longrightarrow> mapbit (rootdisk s) at m"
    "\<And>m. f \<le> m \<Longrightarrow> int m < int f + left \<Longrightarrow> \<not> mapbit (rootdisk s) at m"
    "free = s32 (int f - 1 + uint first)" "free \<noteq> 0"
  shows "\<exists>s'. smap_sectors ROOT_DEV first blk0 n (int i) left 0 s = Inr (0, free, s') \<and> same_tables s s' \<and>
    (\<forall>m. mapbit (rootdisk s') at m \<longleftrightarrow> mapbit (rootdisk s) at m \<or> (f \<le> m \<and> int m < int f + left)) \<and>
    (\<forall>k. k < at + 512 * int i \<or> at + 512 * int (i + n) \<le> k \<longrightarrow> rootdisk s' k = rootdisk s k)"
  using assms(2,5-8)
proof (induction n arbitrary: i s)
  case 0
  then show ?case using assms(4) by simp
next
  case (Suc n)
  let ?b = "buf_copy (fsbuf s) 0 512 (rootdisk s) (at + 512 * int i)"
  have blk: "blk0 + int i < 2 ^ 22" "blk0 + int (Suc i + n) \<le> 2 ^ 22" using Suc.prems(1) by simp_all
  have rd: "mapbit ?b 0 m \<longleftrightarrow> mapbit (rootdisk s) at (4096 * i + m)" if "m < 4096" for m using sector_bit_read [OF that] .
  show ?case
  proof (cases "4096 * Suc i \<le> f")
    case True
    have "smap_sector first (int i) 512 0 ?b left 0 = Inr (?b, left, 0)"
      using Suc.prems(4) True by (intro smap_sector_full assms(4)) (simp add: rd)
    from smap_sectors_round [OF assms(1) blk(1) assms(3) this, of n] assms(4)
    obtain s1 where s1: "same_tables s s1" "rootdisk s1 = buf_copy (rootdisk s) (at + 512 * int i) 512 ?b 0"
      "smap_sectors ROOT_DEV first blk0 (Suc n) (int i) left 0 s = smap_sectors ROOT_DEV first blk0 n (int (Suc i)) left 0 s1" by auto
    from s1(2) have d: "rootdisk s1 = rootdisk s" by (auto simp: buf_copy_def fun_eq_iff)
    have "int f + left \<le> 4096 * int (Suc i + n)" using Suc.prems(3) by simp
    moreover have "mapbit (rootdisk s1) at m" if "4096 * Suc i \<le> m" "m < f" for m
      using Suc.prems(4) [of m] that unfolding d by simp
    moreover have "\<not> mapbit (rootdisk s1) at m" if "f \<le> m" "int m < int f + left" for m
      using Suc.prems(5) [of m] that unfolding d by simp
    ultimately obtain s' where
      "smap_sectors ROOT_DEV first blk0 n (int (Suc i)) left 0 s1 = Inr (0, free, s')" "same_tables s1 s'"
      "\<forall>m. mapbit (rootdisk s') at m \<longleftrightarrow> mapbit (rootdisk s) at m \<or> (f \<le> m \<and> int m < int f + left)"
      "\<forall>k. k < at + 512 * int (Suc i) \<or> at + 512 * int (Suc i + n) \<le> k \<longrightarrow> rootdisk s' k = rootdisk s k"
      using Suc.IH [OF blk(2) True, of s1] unfolding d by blast
    with s1(1,3) same_tables_trans show ?thesis by (intro exI [of _ s']) auto
  next
    case False
    define g where "g = f - 4096 * i"
    have g: "f = 4096 * i + g" "g < 8 * (0 + 512)" using False Suc.prems(2) by (auto simp: g_def)
    have set: "mapbit ?b 0 m" if "8 * 0 \<le> m" "m < g" for m using Suc.prems(4) [of "4096 * i + m"] that g by (simp add: rd)
    have clear: "\<not> mapbit ?b 0 m" if "g \<le> m" "m < 8 * (0 + 512)" "int m < int g + left" for m
      using Suc.prems(5) [of "4096 * i + m"] that g by (simp add: rd)
    have "free = s32 (int i * 4096 + int g - 1 + uint first)" using assms(9) g by (simp add: algebra_simps)
    from smap_sector_first [OF assms(4) _ g(2) set clear this assms(10)] obtain b where
      b: "smap_sector first (int i) 512 0 ?b left 0 = Inr (b, left - min left (4096 - int g), free)"
      "\<And>m. mapbit b 0 m \<longleftrightarrow> mapbit ?b 0 m \<or> (g \<le> m \<and> m < 4096 \<and> int m < int g + left)" by auto
    from smap_sectors_round [OF assms(1) blk(1) assms(3) b(1), of n] assms(10)
    obtain s1 where s1: "same_tables s s1" "rootdisk s1 = buf_copy (rootdisk s) (at + 512 * int i) 512 b 0"
      "smap_sectors ROOT_DEV first blk0 (Suc n) (int i) left 0 s =
        (if left - min left (4096 - int g) = 0 then Inr (left - min left (4096 - int g), free, s1)
         else smap_sectors ROOT_DEV first blk0 n (int (Suc i)) (left - min left (4096 - int g)) free s1)" by auto
    have d1: "mapbit (rootdisk s1) at m \<longleftrightarrow> mapbit (rootdisk s) at m \<or> (f \<le> m \<and> m < 4096 * Suc i \<and> int m < int f + left)" for m
      unfolding s1(2) sector_bit_marked [where P = "\<lambda>m. g \<le> m \<and> m < 4096 \<and> int m < int g + left", OF b(2)] using g by auto
    have k1: "rootdisk s1 k = rootdisk s k" if "k < at + 512 * int i \<or> at + 512 * int (Suc i) \<le> k" for k
      using that unfolding s1(2) by (auto simp: buf_copy_def)
    show ?thesis
    proof (cases "left \<le> 4096 - int g")
      case True
      then show ?thesis using s1(1,3) d1 k1 g by (intro exI [of _ s1]) auto
    next
      case False
      define l where "l = left - (4096 - int g)"
      have l: "0 < l" "l \<le> 4096 * int n" "left - min left (4096 - int g) = l" using False Suc.prems(3) g by (auto simp: l_def)
      have clear: "\<not> mapbit (rootdisk s1) at m" if "4096 * Suc i \<le> m" "int m < 4096 * int (Suc i) + l" for m
        using Suc.prems(5) [of m] that d1 [of m] g by (auto simp: l_def)
      from smap_sectors_mark [OF assms(1) blk(2) assms(3) l(1,2) assms(10) clear] obtain s' where
        s': "smap_sectors ROOT_DEV first blk0 n (int (Suc i)) l free s1 = Inr (0, free, s')"
        "same_tables s1 s'" "\<And>m. mapbit (rootdisk s') at m \<longleftrightarrow> mapbit (rootdisk s1) at m \<or> (4096 * Suc i \<le> m \<and> int m < 4096 * int (Suc i) + l)"
        "\<And>k. k < at + 512 * int (Suc i) \<or> at + 512 * int (Suc i + n) \<le> k \<Longrightarrow> rootdisk s' k = rootdisk s1 k" by blast
      have "mapbit (rootdisk s') at m \<longleftrightarrow> mapbit (rootdisk s) at m \<or> (f \<le> m \<and> int m < int f + left)" for m
        unfolding s'(3) d1 using False g by (auto simp: l_def)
      moreover have "rootdisk s' k = rootdisk s k" if "k < at + 512 * int i \<or> at + 512 * int (i + Suc n) \<le> k" for k
        using that s'(4) [of k] k1 [of k] by auto
      ultimately show ?thesis using s1(1,3) s'(1,2) l False same_tables_trans by (intro exI [of _ s']) auto
    qed
  qed
qed


text \<open>Where the sector map starts, and the map.\<close>

definition smap_at :: "super_block \<Rightarrow> int" where
  "smap_at sb = (2 + uint (nr_imap_sects sb)) * 512"

abbreviation smap :: "super_block \<Rightarrow> fs \<Rightarrow> nat \<Rightarrow> bool" where
  "smap sb s \<equiv> mapbit (rootdisk s) (smap_at sb)"

abbreviation (input) smap_bits :: "super_block \<Rightarrow> int" where
  "smap_bits sb \<equiv> 4096 * uint (nr_smap_sects sb)"

lemma mounted_bounds:
  assumes "mounted sb s"
  shows "get_super_block 800 s = Inr sb" "uint (nr_smap_sects sb) \<le> 512" "uint (nr_imap_sects sb) < 2097152"
    "uint (n_1st_sect sb) < 2097152" "258 \<le> uint (n_1st_sect sb)" "smap_at sb + 512 * uint (nr_smap_sects sb) + 131072 \<le> uint (n_1st_sect sb) * 512"
proof -
  have a: "uint (nr_imap_sects sb) + uint (nr_smap_sects sb) + 2 + 256 \<le> uint (n_1st_sect sb)" "uint (n_1st_sect sb) < 2097152"
    "0 \<le> uint (nr_smap_sects sb)" "0 \<le> uint (nr_imap_sects sb)" using assms by (simp_all add: mounted_def)
  show "uint (nr_imap_sects sb) < 2097152" "258 \<le> uint (n_1st_sect sb)" using a by linarith+
  show "smap_at sb + 512 * uint (nr_smap_sects sb) + 131072 \<le> uint (n_1st_sect sb) * 512" unfolding smap_at_def using a(1) by (simp add: algebra_simps)
qed (use assms in \<open>simp_all add: mounted_def\<close>)

lemma alloc_smap_bit_run:
  assumes "mounted sb s" "0 < n" "int f + n \<le> smap_bits sb" "\<And>m. m < f \<Longrightarrow> smap sb s m"
    "\<And>m. f \<le> m \<Longrightarrow> int m < int f + n \<Longrightarrow> \<not> smap sb s m"
  shows "\<exists>s'. alloc_smap_bit ROOT_DEV n s = Inr (int f - 1 + uint (n_1st_sect sb), s') \<and> same_tables s s' \<and>
    (\<forall>m. smap sb s' m \<longleftrightarrow> smap sb s m \<or> (f \<le> m \<and> int m < int f + n)) \<and>
    (\<forall>k. k < smap_at sb \<or> smap_at sb + 512 * uint (nr_smap_sects sb) \<le> k \<longrightarrow> rootdisk s' k = rootdisk s k)"
proof -
  note sb = mounted_bounds [OF assms(1)]
  have blk: "s32 (1 + 1 + uint (nr_imap_sects sb)) = 2 + uint (nr_imap_sects sb)" using sb(3) by (subst s32_small) auto
  define free where "free = int f - 1 + uint (n_1st_sect sb)"
  have "0 < free" "free < 2147483648" unfolding free_def using assms(2,3) sb(2,4,5) of_nat_0_le_iff [of f] by linarith+
  then have fr: "free = s32 (int f - 1 + uint (n_1st_sect sb))" "free \<noteq> 0"
    unfolding free_def [symmetric] by (simp_all add: s32_small)
  have S: "int (unat (nr_smap_sects sb)) = uint (nr_smap_sects sb)" by simp
  from smap_sectors_first [of "2 + uint (nr_imap_sects sb)" 0 "unat (nr_smap_sects sb)" "smap_at sb" n f s free "n_1st_sect sb",
      OF _ _ smap_at_def assms(2) _ _ _ assms(5) fr]
  obtain s' where s': "smap_sectors ROOT_DEV (n_1st_sect sb) (2 + uint (nr_imap_sects sb)) (unat (nr_smap_sects sb)) 0 n 0 s = Inr (0, free, s')"
    "same_tables s s'" "\<forall>m. smap sb s' m \<longleftrightarrow> smap sb s m \<or> (f \<le> m \<and> int m < int f + n)"
    "\<forall>k. k < smap_at sb \<or> smap_at sb + 512 * uint (nr_smap_sects sb) \<le> k \<longrightarrow> rootdisk s' k = rootdisk s k"
    using assms(3,4) sb(2,3) by (auto simp: S)
  then show ?thesis using sb(1) blk by (simp add: alloc_smap_bit_def free_def)
qed

subsection \<open>Releasing sectors\<close>

lemma clear_bits_run:
  assumes "k \<le> 8" "0 \<le> left" "\<And>i. k \<le> i \<Longrightarrow> i < 8 \<Longrightarrow> int i < int k + left \<Longrightarrow> bit b i"
  shows "\<exists>v. clear_bits [k..<8] b left = Inr (v, left - min left (8 - int k)) \<and>
    (\<forall>i<8. bit v i \<longleftrightarrow> bit b i \<and> \<not> (k \<le> i \<and> int i < int k + left))"
  using assms
proof (induction "8 - k" arbitrary: k b left)
  case 0
  then show ?case by auto
next
  case (Suc n)
  then have k: "k < 8" "[k..<8] = k # [Suc k..<8]" by (auto simp: upt_conv_Cons)
  show ?case
  proof (cases "left = 0")
    case True
    then show ?thesis using k by auto
  next
    case False
    then have kk: "bit b k" using Suc.prems k(1) by simp
    have "bit (b AND NOT (push_bit k 1)) i" if "Suc k \<le> i" "i < 8" "int i < int (Suc k) + (left - 1)" for i
      using Suc.prems(3) [of i] that by (auto simp: bit_andnot_push)
    with Suc.hyps(1) [of "Suc k" "left - 1" "b AND NOT (push_bit k 1)"] Suc.hyps(2) Suc.prems False k(1)
    obtain v where v: "clear_bits [Suc k..<8] (b AND NOT (push_bit k 1)) (left - 1) = Inr (v, left - 1 - min (left - 1) (8 - int (Suc k)))"
      "\<forall>i<8. bit v i \<longleftrightarrow> bit (b AND NOT (push_bit k 1)) i \<and> \<not> (Suc k \<le> i \<and> int i < int (Suc k) + (left - 1))" by fastforce
    have "left - 1 - min (left - 1) (8 - int (Suc k)) = left - min left (8 - int k)" using k(1) by auto
    with v k kk False Suc.prems(2) show ?thesis by (auto simp: bit_andnot_push)
  qed
qed

text \<open>The device as it is once the sector in \<open>fsbuf\<close> is written back to sector \<open>n\<close>.\<close>

definition vdisk :: "int \<Rightarrow> fs \<Rightarrow> int \<Rightarrow> u8" where
  "vdisk n s = buf_copy (rootdisk s) (n * 512) 512 (fsbuf s) 0"

lemma vdisk_byte: "0 \<le> i \<Longrightarrow> i < 512 \<Longrightarrow> fsbuf s i = vdisk n s (n * 512 + i)"
  by (simp add: vdisk_def buf_copy_def)

lemma vdisk_upd:
  "0 \<le> i \<Longrightarrow> i < 512 \<Longrightarrow> vdisk n (s\<lparr>fsbuf := (fsbuf s)(i := v)\<rparr>) = (vdisk n s)(n * 512 + i := v)"
  by (auto simp: vdisk_def buf_copy_def fun_eq_iff)

lemma next_sect_run:
  assumes "0 \<le> sect" "sect + 1 < 2 ^ 22" "0 \<le> i" "i \<le> 512"
  shows "\<exists>i' sect' s'. next_sect ROOT_DEV i sect s = Inr (i', sect', s') \<and> sect' * 512 + i' = sect * 512 + i \<and> 0 \<le> i' \<and> i' < 512 \<and>
    sect \<le> sect' \<and> vdisk sect' s' = vdisk sect s \<and> same_tables s s'"
proof (cases "i = 512")
  case True
  let ?s1 = "set_rootdisk (vdisk sect s) s"
  have "next_sect ROOT_DEV i sect s =
      Inr (0, sect + 1, ?s1\<lparr>fsbuf := buf_copy (fsbuf s) 0 512 (vdisk sect s) ((sect + 1) * 512)\<rparr>)" (is "_ = Inr (_, _, ?s2)")
    using assms(1,2) True by (simp add: next_sect_def wr_root rd_root vdisk_def)
  moreover have "vdisk (sect + 1) ?s2 = vdisk sect s"
    by (auto simp: vdisk_def [of "sect + 1"] buf_copy_def [of _ _ _ "buf_copy _ _ _ _ _"] buf_copy_inside fun_eq_iff)
  ultimately show ?thesis using True by simp
next
  case False
  then show ?thesis using assms(3,4) by (simp add: next_sect_def)
qed

lemma clear_bytes_run:
  assumes "0 \<le> sect" "0 \<le> i" "i \<le> 512" "sect * 512 + i + int n < 2 ^ 30"
    "\<And>k. 0 \<le> k \<Longrightarrow> k < int n \<Longrightarrow> vdisk sect s (sect * 512 + i + k) = 0xff"
  shows "\<exists>i' sect' s'. clear_bytes ROOT_DEV n i sect left s = Inr (i', sect', left - 8 * int n, s') \<and>
    sect' * 512 + i' = sect * 512 + i + int n \<and> 0 \<le> i' \<and> i' \<le> 512 \<and> sect \<le> sect' \<and>
    vdisk sect' s' = buf_copy (vdisk sect s) (sect * 512 + i) (int n) (\<lambda>_. 0) 0 \<and> same_tables s s'"
  using assms
proof (induction n arbitrary: i sect left s)
  case 0
  then show ?case by (auto simp: buf_copy_def fun_eq_iff)
next
  case (Suc n)
  have "sect + 1 < 2 ^ 22" using Suc.prems(2,4) by simp
  from next_sect_run [OF Suc.prems(1) this Suc.prems(2,3), of s] obtain i1 sect1 s1 where
    s1: "next_sect ROOT_DEV i sect s = Inr (i1, sect1, s1)" "sect1 * 512 + i1 = sect * 512 + i" "0 \<le> i1" "i1 < 512"
      "sect \<le> sect1" "vdisk sect1 s1 = vdisk sect s" "same_tables s s1" by blast
  let ?s2 = "s1\<lparr>fsbuf := (fsbuf s1)(i1 := 0)\<rparr>" and ?a = "sect * 512 + i"
  have v: "vdisk sect1 ?s2 = (vdisk sect s)(?a := 0)" using vdisk_upd [OF s1(3,4), of sect1 s1 0] s1(2,6) by simp
  have ff: "fsbuf s1 i1 = 0xff" using Suc.prems(5) [of 0] vdisk_byte [OF s1(3,4), of s1 sect1] s1(2,6) by simp
  have a: "sect1 * 512 + (i1 + 1) = ?a + 1" using s1(2) by simp
  have "vdisk sect1 ?s2 (sect1 * 512 + (i1 + 1) + k) = 0xff" if "0 \<le> k" "k < int n" for k
    using Suc.prems(5) [of "k + 1"] that unfolding v a by (simp add: ac_simps)
  from Suc.IH [OF _ _ _ _ this, where left = "left - 8"] s1 Suc.prems(1,4) a obtain i' sect' s' where
    s': "clear_bytes ROOT_DEV n (i1 + 1) sect1 (left - 8) ?s2 = Inr (i', sect', left - 8 - 8 * int n, s')"
      "sect' * 512 + i' = sect1 * 512 + (i1 + 1) + int n" "0 \<le> i'" "i' \<le> 512" "sect1 \<le> sect'"
      "vdisk sect' s' = buf_copy (vdisk sect1 ?s2) (sect1 * 512 + (i1 + 1)) (int n) (\<lambda>_. 0) 0" "same_tables ?s2 s'"
    by auto
  have "vdisk sect' s' = buf_copy (vdisk sect s) ?a (int (Suc n)) (\<lambda>_. 0) 0"
    unfolding s'(6) v a by (auto simp: buf_copy_def fun_eq_iff)
  moreover have "same_tables s s'" using s1(7) s'(7) same_tables_trans [of s ?s2 s'] by simp
  ultimately show ?case using s1 s' ff a by (intro exI [of _ i'] exI [of _ sect'] exI [of _ s']) simp
qed


text \<open>What the three parts of the release leave of the map: the first byte, whole bytes, the last byte.\<close>

lemma cleared_map:
  assumes "f = 8 * q + o'" "o' < 8" "n = min n (8 - o') + 8 * cnt + rest" "rest < 8" "n < 8 - o' \<Longrightarrow> cnt = 0 \<and> rest = 0"
    "\<And>i. i < 8 \<Longrightarrow> bit v i \<longleftrightarrow> bit (d (at + int q)) i \<and> \<not> (o' \<le> i \<and> i < o' + n)"
    "\<And>i. i < 8 \<Longrightarrow> bit w i \<longleftrightarrow> bit (d (at + int (q + 1 + cnt))) i \<and> rest \<le> i"
  shows "mapbit ((buf_copy (d(at + int q := v)) (at + int q + 1) (int cnt) (\<lambda>_. 0) 0)(at + int (q + 1 + cnt) := w)) at m \<longleftrightarrow>
    mapbit d at m \<and> \<not> (f \<le> m \<and> m < f + n)"
proof -
  define a k where "a = m div 8" and "k = m mod 8"
  have m: "m = 8 * a + k" "k < 8" by (simp_all add: a_def k_def)
  have md: "m div 8 = a" "m mod 8 = k" by (simp_all add: a_def k_def)
  consider "a < q" | "a = q" | "q < a" "a < q + 1 + cnt" | "a = q + 1 + cnt" | "q + 1 + cnt < a" by linarith
  moreover have e: "f + n = 8 * q + 8 + 8 * cnt + rest" if "\<not> n < 8 - o'" using that assms(1,2,3) by simp
  moreover have e': "f + n < 8 * q + 8" if "n < 8 - o'" using that assms(1) by simp
  ultimately show ?thesis
  proof cases
    case 1
    then have "m < f" using m assms(1) by simp
    then show ?thesis using 1 unfolding mapbit_def md by (simp add: buf_copy_def)
  next
    case 2
    then show ?thesis using assms(1,2,6) m by (simp add: mapbit_def md buf_copy_def)
  next
    case 3
    have nn: "\<not> n < 8 - o'" using 3 assms(5) by auto
    have "f \<le> m" "m < f + n" using 3 m assms(1,2) e [OF nn] by linarith+
    then show ?thesis using 3 unfolding mapbit_def md by (simp add: buf_copy_def)
  next
    case 5
    then have "f + n \<le> m" using m e e' assms(4) by (cases "n < 8 - o'") auto
    then show ?thesis using 5 unfolding mapbit_def md by (simp add: buf_copy_def)
  next
    case 4
    have "n = 8 - o' + 8 * cnt + rest" if "rest \<noteq> 0" using assms(2,3,5) that by (cases "n < 8 - o'") auto
    then have "m < f + n \<longleftrightarrow> k < rest" using 4 assms(1,2,3,5) m by (cases "n < 8 - o'") auto
    moreover have "f \<le> m" using 4 assms(1,2) m by simp
    ultimately show ?thesis using assms(7) [OF m(2)] unfolding mapbit_def md 4 by auto
  qed
qed


lemma bit_low_mask: "bit (NOT (push_bit r 0xff) :: u8) i \<longleftrightarrow> i < r \<and> i < 8"
proof -
  have "(0xff :: u8) = mask 8" by (simp add: mask_numeral)
  then have "bit (NOT (push_bit r 0xff) :: u8) i \<longleftrightarrow> bit (NOT (push_bit r (mask 8)) :: u8) i" by simp
  also have "\<dots> \<longleftrightarrow> i < r \<and> i < 8" by (auto simp: bit_not_iff bit_push_bit_iff bit_mask_iff)
  finally show ?thesis .
qed

lemma bit_high_mask: "bit (push_bit r (NOT 0) :: u8) i \<longleftrightarrow> r \<le> i \<and> i < 8"
  by (auto simp: bit_push_bit_iff bit_not_iff bit_mask_iff)

text \<open>The numbers \<open>do_unlink()\<close> computes: the byte and bit of the first sector, whole bytes, bits left over.\<close>

lemma release_counts:
  assumes "0 < n" "q = f div 8" "o' = f mod 8" "cnt = (n - (8 - o')) div 8" "rest = (n - (8 - o')) mod 8"
  shows "f = 8 * q + o'" "o' < 8" "n = min n (8 - o') + 8 * cnt + rest" "rest < 8" "n < 8 - o' \<Longrightarrow> cnt = 0 \<and> rest = 0"
    "\<not> n < 8 - o' \<Longrightarrow> 8 * q + 8 + 8 * cnt + rest = f + n" "nat (c_div (int n - (8 - int o')) 8) = cnt"
    "int n - min (int n) (8 - int o') - 8 * int cnt = int rest"
proof -
  show f: "f = 8 * q + o'" "o' < 8" using assms(2,3) by simp_all
  show n: "n = min n (8 - o') + 8 * cnt + rest" "rest < 8" "n < 8 - o' \<Longrightarrow> cnt = 0 \<and> rest = 0"
    using assms(4,5) by (auto simp: min_def)
  show "\<not> n < 8 - o' \<Longrightarrow> 8 * q + 8 + 8 * cnt + rest = f + n" using n(1) f by simp
  show "int n - min (int n) (8 - int o') - 8 * int cnt = int rest" using n(1) f(2) by (auto simp: min_def split: if_splits)
  show "nat (c_div (int n - (8 - int o')) 8) = cnt"
  proof (cases "n < 8 - o'")
    case True
    then have "\<bar>int n - (8 - int o')\<bar> div 8 = 0" using f(2) assms(1) by (intro div_pos_pos_trivial) auto
    with True show ?thesis by (simp add: c_div_def assms(4))
  next
    case False
    then have "int n - (8 - int o') = int (n - (8 - o'))" using f(2) by linarith
    then show ?thesis by (simp add: c_div_nonneg assms(4) flip: zdiv_int)
  qed
qed

lemma release_bounds:
  assumes "0 < n" "q = f div 8" "o' = f mod 8" "cnt = (n - (8 - o')) div 8" "rest = (n - (8 - o')) mod 8" "int (f + n) \<le> 4096 * S"
  shows "int (q + cnt) \<le> 512 * S" "int q < 512 * S" "cnt \<noteq> 0 \<Longrightarrow> int (q + 1 + cnt) \<le> 512 * S" "rest \<noteq> 0 \<Longrightarrow> int (q + 1 + cnt) < 512 * S"
proof -
  note C = release_counts [OF assms(1-5)]
  have le: "int a \<le> 512 * S" if "8 * a \<le> f + n" for a
  proof -
    from that have "int (8 * a) \<le> int (f + n)" by (simp only: of_nat_le_iff)
    with assms(6) show ?thesis by simp
  qed
  have less: "int a < 512 * S" if "8 * a < f + n" for a
  proof -
    from that have "int (8 * a) < int (f + n)" by (simp only: of_nat_less_iff)
    with assms(6) show ?thesis by simp
  qed
  have "8 * (q + cnt) \<le> f + n" using C(1,5,6) by (cases "n < 8 - o'") auto
  then show "int (q + cnt) \<le> 512 * S" by (rule le)
  show "int q < 512 * S" using C(1) assms(1) by (intro less) simp
  have "8 * (q + 1 + cnt) \<le> f + n" if "cnt \<noteq> 0" using that C(5,6) by (cases "n < 8 - o'") auto
  then show "cnt \<noteq> 0 \<Longrightarrow> int (q + 1 + cnt) \<le> 512 * S" by (rule le)
  have "8 * (q + 1 + cnt) < f + n" if "rest \<noteq> 0" using that C(5,6) by (cases "n < 8 - o'") auto
  then show "rest \<noteq> 0 \<Longrightarrow> int (q + 1 + cnt) < 512 * S" by (rule less)
qed

lemma free_smap_bits_run:
  assumes "mounted sb s" "0 < n" "int (f + n) \<le> smap_bits sb" "\<And>m. f \<le> m \<Longrightarrow> m < f + n \<Longrightarrow> smap sb s m"
    "start = of_int (int f - 1 + uint (n_1st_sect sb))" "sects = of_nat n"
  shows "\<exists>s'. free_smap_bits ROOT_DEV sb start sects s = Inr s' \<and> same_tables s s' \<and>
    (\<forall>m. smap sb s' m \<longleftrightarrow> smap sb s m \<and> \<not> (f \<le> m \<and> m < f + n)) \<and>
    (\<forall>k. k < smap_at sb \<or> smap_at sb + 512 * uint (nr_smap_sects sb) \<le> k \<longrightarrow> rootdisk s' k = rootdisk s k)"
proof -
  note sb = mounted_bounds [OF assms(1)]
  define q o' cnt rest where "q = f div 8" and "o' = f mod 8" and "cnt = (n - (8 - o')) div 8" and "rest = (n - (8 - o')) mod 8"
  note C = release_counts [OF assms(2) q_def o'_def cnt_def rest_def]
  note f = C(1,2) and nr = C(3-5) and whole = C(6) and cnt = C(7) and rest = C(8)
  note B = release_bounds [OF assms(2) q_def o'_def cnt_def rest_def assms(3)]
  have fn: "f + n \<le> 2097152" using assms(3) sb(2) by linarith
  have "start - n_1st_sect sb + 1 = of_nat f" using assms(5) by (simp add: algebra_simps)
  then have bit_idx: "sint (start - n_1st_sect sb + 1) = int f" "sint sects = int n"
    using fn assms(6) by (simp_all add: signed_of_nat signed_take_bit_int_eq_self)
  define sect where "sect = 2 + uint (nr_imap_sects sb) + int q div 512"
  have fq: "c_div (int f) 8 = int q" "c_mod (int f) 8 = int o'" by (simp_all add: c_div_nonneg c_mod_nonneg q_def o'_def zdiv_int zmod_int)
  have q512: "c_div (int q) 512 = int q div 512" "c_mod (int q) 512 = int q mod 512" by (simp_all add: c_div_nonneg c_mod_nonneg)
  have sect: "sect * 512 + int q mod 512 = smap_at sb + int q" "0 \<le> sect" "sect < 2 ^ 22"
    using sb(3) fn f(1) by (auto simp: sect_def smap_at_def algebra_simps)
  have k: "0 \<le> int q mod 512" "int q mod 512 < 512" by simp_all
  have s32: "s32 (2 + uint (nr_imap_sects sb) + int q div 512) = sect"
    unfolding sect_def [symmetric] using sect(2,3) by (intro s32_small) auto
  let ?s1 = "s\<lparr>fsbuf := buf_copy (fsbuf s) 0 512 (rootdisk s) (sect * 512)\<rparr>"
  have b1: "buf_copy (fsbuf s) 0 512 (rootdisk s) (sect * 512) (int q mod 512) = rootdisk s (smap_at sb + int q)"
    using sect(1) k by (simp add: buf_copy_def)
  have bits: "bit (rootdisk s (smap_at sb + int a)) i" if "i < 8" "f \<le> 8 * a + i" "8 * a + i < f + n" for a i
    using assms(4) [OF that(2,3)] that(1) by (simp add: mapbit_def)
  have less: "int i < int o' + int n \<longleftrightarrow> i < o' + n" for i by linarith
  from clear_bits_run [of o' "int n" "rootdisk s (smap_at sb + int q)", unfolded less] f bits [of _ q] obtain v where
    v: "clear_bits [o'..<8] (rootdisk s (smap_at sb + int q)) (int n) = Inr (v, int n - min (int n) (8 - int o'))"
       "\<And>i. i < 8 \<Longrightarrow> bit v i \<longleftrightarrow> bit (rootdisk s (smap_at sb + int q)) i \<and> \<not> (o' \<le> i \<and> i < o' + n)" by auto
  let ?s2 = "?s1\<lparr>fsbuf := (fsbuf ?s1)(int q mod 512 := v)\<rparr>" and ?l = "int n - min (int n) (8 - int o')"
  have "vdisk sect ?s1 = rootdisk s" by (auto simp: vdisk_def buf_copy_def fun_eq_iff)
  then have v2: "vdisk sect ?s2 = (rootdisk s)(smap_at sb + int q := v)" using vdisk_upd [OF k, of sect ?s1 v] sect(1) by simp
  have a2: "sect * 512 + (int q mod 512 + 1) = smap_at sb + int q + 1" using sect(1) by simp
  have lt: "smap_at sb + int q + 1 + int cnt < 2 ^ 30" using B(1) sb(4,6) by simp
  have ff: "vdisk sect ?s2 (sect * 512 + (int q mod 512 + 1) + j) = 0xff" if "0 \<le> j" "j < int cnt" for j
  proof -
    have "\<not> n < 8 - o'" using that nr(3) by auto
    with whole that have "f \<le> 8 * (q + 1 + nat j) + i" "8 * (q + 1 + nat j) + i < f + n" if "i < 8" for i using that f by auto
    then have "rootdisk s (smap_at sb + int (q + 1 + nat j)) = 0xff" unfolding ff_iff using bits by blast
    then show ?thesis using that unfolding v2 a2 by (simp add: ac_simps)
  qed
  have c1: "0 \<le> int q mod 512 + 1" "int q mod 512 + 1 \<le> 512" "sect * 512 + (int q mod 512 + 1) + int cnt < 2 ^ 30"
    using k lt unfolding a2 by simp_all
  from clear_bytes_run [where left = ?l and n = cnt and s = ?s2, OF sect(2) c1 ff, unfolded v2 a2] obtain i3 sect3 s3 where
    s3: "clear_bytes ROOT_DEV cnt (int q mod 512 + 1) sect ?l ?s2 = Inr (i3, sect3, ?l - 8 * int cnt, s3)"
      "sect3 * 512 + i3 = smap_at sb + int q + 1 + int cnt" "0 \<le> i3" "i3 \<le> 512" "sect \<le> sect3"
      "vdisk sect3 s3 = buf_copy ((rootdisk s)(smap_at sb + int q := v)) (smap_at sb + int q + 1) (int cnt) (\<lambda>_. 0) 0" "same_tables ?s2 s3"
    by blast
  have "sect3 + 1 < 2 ^ 22" using s3(2,3) lt by simp
  moreover have "0 \<le> sect3" using sect(2) s3(5) by simp
  moreover have a3: "sect3 * 512 + i3 = smap_at sb + int (q + 1 + cnt)" using s3(2) by simp
  ultimately obtain i4 sect4 s4 where
    s4: "next_sect ROOT_DEV i3 sect3 s3 = Inr (i4, sect4, s4)" "sect4 * 512 + i4 = smap_at sb + int (q + 1 + cnt)" "0 \<le> i4" "i4 < 512"
      "sect3 \<le> sect4" "vdisk sect4 s4 = vdisk sect3 s3" "same_tables s3 s4"
    using next_sect_run [of sect3 i3 s3, OF _ _ s3(3,4), unfolded a3] by blast
  define w where "w = rootdisk s (smap_at sb + int (q + 1 + cnt)) AND push_bit rest (NOT 0)"
  have b4: "fsbuf s4 i4 = rootdisk s (smap_at sb + int (q + 1 + cnt))"
    using vdisk_byte [OF s4(3,4), of s4 sect4] unfolding s4(2,6) s3(6) by (simp add: buf_copy_def)
  have mask: "fsbuf s4 i4 AND NOT (push_bit rest 0xff) = NOT (push_bit rest 0xff)"
  proof (rule u8_eqI)
    fix i :: nat
    assume i: "i < 8"
    have "bit (rootdisk s (smap_at sb + int (q + 1 + cnt))) i" if "i < rest"
      using bits [OF i, of "q + 1 + cnt"] whole nr(3) f that by (cases "n < 8 - o'") auto
    then show "bit (fsbuf s4 i4 AND NOT (push_bit rest 0xff)) i \<longleftrightarrow> bit (NOT (push_bit rest 0xff) :: u8) i"
      unfolding bit_and_iff bit_low_mask b4 by blast
  qed
  let ?s5 = "s4\<lparr>fsbuf := (fsbuf s4)(i4 := w)\<rparr>"
  have "sect4 < 2 ^ 22" using s4(2,3) lt by simp
  then have "free_smap_bits ROOT_DEV sb start sects s = Inr (set_rootdisk (vdisk sect4 ?s5) ?s5)"
    unfolding free_smap_bits_def Let_def bit_idx fq q512 s32 cnt
    using v(1) s3(1,5) s4(1,5) mask sect b1 unfolding b4
    by (simp add: rd_root wr_root b4 [simplified] rest vdisk_def w_def)
  moreover have v5: "vdisk sect4 ?s5 = (buf_copy ((rootdisk s)(smap_at sb + int q := v)) (smap_at sb + int q + 1) (int cnt) (\<lambda>_. 0) 0)
      (smap_at sb + int (q + 1 + cnt) := w)"
    using vdisk_upd [OF s4(3,4), of sect4 s4 w] unfolding s4(2,6) s3(6) by simp
  moreover have "mapbit (vdisk sect4 ?s5) (smap_at sb) m \<longleftrightarrow> smap sb s m \<and> \<not> (f \<le> m \<and> m < f + n)" for m
    unfolding v5 by (rule cleared_map [where d = "rootdisk s" and at = "smap_at sb", OF f nr v(2)]) (auto simp only: w_def bit_and_iff bit_high_mask)
  moreover have "vdisk sect4 ?s5 k = rootdisk s k"
    if k: "k < smap_at sb \<or> smap_at sb + 512 * uint (nr_smap_sects sb) \<le> k" for k
  proof -
    have out: "rootdisk s (smap_at sb + int (q + 1 + cnt)) = w" if "rest = 0" using that
      by (intro u8_eqI) (auto simp only: w_def bit_and_iff bit_high_mask)
    with k B(2-4) show ?thesis unfolding v5 by (cases "rest = 0"; cases "cnt = 0") (auto simp: buf_copy_def)
  qed
  moreover have "same_tables s ?s5" using s3(7) s4(7) same_tables_trans [of s s3 s4] same_tables_trans [of s ?s2 s3] by simp
  ultimately show ?thesis by (intro exI [of _ "set_rootdisk (vdisk sect4 ?s5) ?s5"]) simp
qed

text \<open>
  C24: Allocating sectors takes the first run of the sector map: from the first free bit on,
  the bits of all sectors asked for are set, no other bit and no byte outside the map
  changes, whatever sector boundaries of the map the run crosses, and the number returned is
  that of the first sector. Releasing the run, as \<open>do_unlink()\<close> does byte by byte, gives back
  the disk it started from.
\<close>

theorem smap_alloc_free:
  assumes "mounted sb s" "0 < n" "int (f + n) \<le> smap_bits sb" "\<And>m. m < f \<Longrightarrow> smap sb s m"
    "\<And>m. f \<le> m \<Longrightarrow> m < f + n \<Longrightarrow> \<not> smap sb s m"
  shows "\<exists>start s1. alloc_smap_bit ROOT_DEV (int n) s = Inr (start, s1) \<and> start = int f - 1 + uint (n_1st_sect sb) \<and>
    same_tables s s1 \<and> (\<forall>m. smap sb s1 m \<longleftrightarrow> smap sb s m \<or> (f \<le> m \<and> m < f + n)) \<and>
    (\<forall>k. k < smap_at sb \<or> smap_at sb + 512 * uint (nr_smap_sects sb) \<le> k \<longrightarrow> rootdisk s1 k = rootdisk s k) \<and>
    (\<exists>s2. free_smap_bits ROOT_DEV sb (of_int start) (of_nat n) s1 = Inr s2 \<and> same_tables s s2 \<and> rootdisk s2 = rootdisk s)"
proof -
  have less: "int m < int f + int n \<longleftrightarrow> m < f + n" for m by linarith
  have "0 < int n" "int f + int n \<le> smap_bits sb" using assms(2,3) by simp_all
  from alloc_smap_bit_run [of sb s "int n" f, unfolded less, OF assms(1) this assms(4,5)] obtain s1 where
    s1: "alloc_smap_bit ROOT_DEV (int n) s = Inr (int f - 1 + uint (n_1st_sect sb), s1)" "same_tables s s1"
      "\<And>m. smap sb s1 m \<longleftrightarrow> smap sb s m \<or> (f \<le> m \<and> m < f + n)"
      "\<And>k. k < smap_at sb \<or> smap_at sb + 512 * uint (nr_smap_sects sb) \<le> k \<Longrightarrow> rootdisk s1 k = rootdisk s k" by blast
  have "mounted sb s1" using assms(1) mounted_same [OF s1(2)] by simp
  from free_smap_bits_run [OF this assms(2,3) _ refl refl] s1(3) obtain s2 where
    s2: "free_smap_bits ROOT_DEV sb (of_int (int f - 1 + uint (n_1st_sect sb))) (of_nat n) s1 = Inr s2" "same_tables s1 s2"
      "\<And>m. smap sb s2 m \<longleftrightarrow> smap sb s1 m \<and> \<not> (f \<le> m \<and> m < f + n)"
      "\<And>k. k < smap_at sb \<or> smap_at sb + 512 * uint (nr_smap_sects sb) \<le> k \<Longrightarrow> rootdisk s2 k = rootdisk s1 k" by blast
  have m: "smap sb s2 m \<longleftrightarrow> smap sb s m" for m unfolding s2(3) s1(3) using assms(5) by blast
  have "rootdisk s2 k = rootdisk s k" for k
  proof (cases "k < smap_at sb")
    case True
    then show ?thesis using s2(4) s1(4) by simp
  next
    case False
    define j where "j = nat (k - smap_at sb)"
    have k: "k = smap_at sb + int j" using False by (simp add: j_def)
    show ?thesis unfolding k
    proof (rule u8_eqI)
      fix i :: nat
      assume "i < 8"
      with m [of "8 * j + i"] show "bit (rootdisk s2 (smap_at sb + int j)) i = bit (rootdisk s (smap_at sb + int j)) i"
        by (simp add: mapbit_def)
    qed
  qed
  then have "rootdisk s2 = rootdisk s" by blast
  then show ?thesis using s1 s2(1) same_tables_trans [OF s1(2) s2(2)] by blast
qed


text \<open>The maps of a fresh file system: five inodes and the first 2048 sectors are taken.\<close>

definition demo_map :: fs where
  "demo_map = set_rootdisk (\<lambda>k. if k = 1024 then 0x1f else if 1536 \<le> k \<and> k < 1792 then 0xff else if k = 1792 then 1 else 0) (demo_fs READ 6)"

lemma demo_map_mounted: "mounted demo_sb demo_map"
  using demo_fs_facts(1) [of READ 6] mounted_cong [of demo_map "demo_fs READ 6"] by (simp add: demo_map_def)

lemma demo_imap: "imap demo_map m \<longleftrightarrow> m < 5" if "m < 8"
proof -
  have "(0x1f :: u8) = mask 5" by (simp add: mask_numeral)
  then have "bit (0x1f :: u8) m \<longleftrightarrow> m < 5" using that by (simp only: bit_mask_iff) auto
  then show ?thesis using that by (simp add: mapbit_def demo_map_def)
qed

lemma demo_smap: "smap demo_sb demo_map m \<longleftrightarrow> m < 2049"
proof -
  have at: "smap_at demo_sb = 1536" by (simp add: smap_at_def demo_sb_def mk_super_block_def Let_def)
  have "m < 2049 \<longleftrightarrow> m div 8 < 256 \<or> (m div 8 = 256 \<and> m mod 8 = 0)" by presburger
  moreover have "bit (0xff :: u8) (m mod 8)" using ff_iff [of "0xff :: u8"] by simp
  ultimately show ?thesis unfolding mapbit_def at by (auto simp: demo_map_def bit_1_iff)
qed

theorem imap_alloc_free_witness:
  "\<exists>s1. alloc_imap_bit ROOT_DEV demo_map = Inr (5, s1) \<and> (\<forall>m<8. imap s1 m \<longleftrightarrow> m < 6) \<and>
     (\<exists>s2. free_imap_bit ROOT_DEV 5 s1 = Inr s2 \<and> rootdisk s2 = rootdisk demo_map)"
proof -
  have "\<exists>s1. alloc_imap_bit ROOT_DEV demo_map = Inr (int 5, s1) \<and> same_tables demo_map s1 \<and>
         (\<forall>m. imap s1 m \<longleftrightarrow> m = 5 \<or> imap demo_map m) \<and>
         (\<forall>k. k \<noteq> 1024 + int (5 div 8) \<longrightarrow> rootdisk s1 k = rootdisk demo_map k) \<and>
         (\<exists>s2. free_imap_bit ROOT_DEV (int 5) s1 = Inr s2 \<and> same_tables demo_map s2 \<and> rootdisk s2 = rootdisk demo_map)"
    using imap_alloc_free [OF demo_map_mounted, THEN conjunct1, rule_format, of 5] demo_imap by auto
  then obtain s1 where s1: "alloc_imap_bit ROOT_DEV demo_map = Inr (5, s1)" "\<And>m. imap s1 m \<longleftrightarrow> m = 5 \<or> imap demo_map m"
    "\<exists>s2. free_imap_bit ROOT_DEV 5 s1 = Inr s2 \<and> rootdisk s2 = rootdisk demo_map" by auto
  have "\<forall>m<8. imap s1 m \<longleftrightarrow> m < 6" unfolding s1(2) using demo_imap by auto
  with s1(1,3) show ?thesis by blast
qed

theorem smap_alloc_free_witness:
  "\<exists>s1. alloc_smap_bit ROOT_DEV 2048 demo_map = Inr (2332, s1) \<and> smap demo_sb s1 4096 \<and> \<not> smap demo_sb s1 4097 \<and>
     (\<exists>s2. free_smap_bits ROOT_DEV demo_sb 2332 2048 s1 = Inr s2 \<and> rootdisk s2 = rootdisk demo_map)"
proof -
  have n1: "uint (n_1st_sect demo_sb) = 284" "uint (nr_smap_sects demo_sb) = 25"
    by (simp_all add: demo_sb_def mk_super_block_def Let_def)
  from smap_alloc_free [OF demo_map_mounted, of 2048 2049] demo_smap n1
  show ?thesis by auto
qed

end
