(* ===== verification/Disklog.thy ===== *)
theory Disklog
  imports Fsmap Lib
begin

section \<open>The log on the disk (fs/disklog.c)\<close>

text \<open>
  \<open>disklog()\<close> appends a string to a log kept in the last 2048 sectors of the root device: a header
  of 64 bytes that names the position, then the text. Its static variable \<open>pos\<close> is an argument
  and part of the result; the first call, with 0, reserves the sectors in the sector map and fills
  them with blanks. The first theorem states what later calls do to the log, the second that the
  first call leaves the log's own sectors free for files.
\<close>

abbreviation (input) NR_SECTS_FOR_LOG :: int where "NR_SECTS_FOR_LOG \<equiv> 2048"

subsection \<open>Reserving the sectors\<close>

text \<open>The bytes of one sector of the map; \<open>n\<close> rounds are left, \<open>bit_off\<close> applies to the first byte.\<close>

fun log_bytes :: "nat \<Rightarrow> nat \<Rightarrow> nat \<Rightarrow> (int \<Rightarrow> u8) \<Rightarrow> int \<Rightarrow> ((int \<Rightarrow> u8) \<times> int) res" where
  "log_bytes 0 byte_off bit_off b left = Inr (b, left)"
| "log_bytes (Suc n) byte_off bit_off b left =
     (if left \<le> 0 then Inr (b, left)
      else bindE (mark_bits [bit_off..<8] (b (int byte_off)) left) (\<lambda>(v, left1).
             log_bytes n (Suc byte_off) 0 (b(int byte_off := v)) left1))"

fun log_map :: "int \<Rightarrow> int \<Rightarrow> nat \<Rightarrow> int \<Rightarrow> nat \<Rightarrow> nat \<Rightarrow> int \<Rightarrow> fs \<Rightarrow> (int \<times> fs) res" where
  "log_map dev sect_nr 0 i byte_off bit_off left s = Inr (left, s)"
| "log_map dev sect_nr (Suc n) i byte_off bit_off left s =
     bindE (RD_SECT dev (sect_nr + i) s) (\<lambda>s1.
     bindE (log_bytes (512 - byte_off) byte_off bit_off (fsbuf s1) left) (\<lambda>(b, left1).
     bindE (WR_SECT dev (sect_nr + i) (s1\<lparr>fsbuf := b\<rparr>)) (\<lambda>s2.
       if left1 = 0 then Inr (left1, s2) else log_map dev sect_nr n (i + 1) 0 0 left1 s2)))"

text \<open>The padding, in chunks of 256 sectors from sector \<open>i\<close> on.\<close>

fun log_fill :: "int \<Rightarrow> nat \<Rightarrow> int \<Rightarrow> fs \<Rightarrow> fs res" where
  "log_fill dev 0 i s = Inr s"
| "log_fill dev (Suc n) i s =
     bindE (rw_sector True dev (s32 (i * 512)) (256 * 512) (s\<lparr>fsbuf := buf_write (fsbuf s) 0 (replicate (256 * 512) 0x20)\<rparr>))
       (log_fill dev n (i + 256))"

definition log_init :: "int \<Rightarrow> super_block \<Rightarrow> int \<Rightarrow> fs \<Rightarrow> fs res" where
  "log_init dev sb blk0 s =
     (let bits_per_sect = 512 * 8;
          smap_blk0_nr = sint (1 + 1 + nr_imap_sects sb);
          sect_nr = s32 (smap_blk0_nr + c_div blk0 bits_per_sect);
          byte_off = c_div (c_mod blk0 bits_per_sect) 8;
          bit_off = c_mod (c_mod blk0 bits_per_sect) 8
      in if byte_off < 0 \<or> bit_off < 0 then Inl (Fault ''fsbuf'')
         else bindE (log_map dev sect_nr (nat (c_div NR_SECTS_FOR_LOG bits_per_sect + 2)) 0 (nat byte_off) (nat bit_off) NR_SECTS_FOR_LOG s) (\<lambda>(left, s1).
           assertE (left = 0) ''bits_left == 0'' (log_fill dev (nat (NR_SECTS_FOR_LOG div 256)) blk0 s1)))"

subsection \<open>Appending\<close>

function log_loop :: "int \<Rightarrow> int \<Rightarrow> int \<Rightarrow> u8 list \<Rightarrow> fs \<Rightarrow> (int \<times> fs) res" where
  "log_loop dev sect_nr pos p s =
     (if p = [] then Inr (pos, s)
      else if pos < 0 then Inl (Fault ''fsbuf'')
      else
        bindE (RD_SECT dev sect_nr s) (\<lambda>s1.
          let off = pos mod 512; n = min (length p) (nat (512 - off));
              s2 = s1\<lparr>fsbuf := buf_write (fsbuf s1) off (take n p)\<rparr>
          in bindE (WR_SECT dev sect_nr s2) (log_loop dev (sect_nr + 1) (s32 (pos + int n)) (drop n p))))"
  by pat_completeness auto
termination
proof (relation "measure (\<lambda>(dev, sect_nr, pos, p, s). length p)", goal_cases)
  case (2 dev sect_nr pos p s s1 off n s2 s3)
  then have "off < 512" "p \<noteq> []" by simp_all
  then have "0 < n" using 2 by simp
  then show ?case using 2(1) by simp
qed simp

declare log_loop.simps [simp del]

text \<open>The header: \<open>sprintf (fsbuf, "%8d\\n", pos)\<close>, blanks and two ends of line.\<close>

definition log_header :: "int \<Rightarrow> (int \<Rightarrow> u8) \<Rightarrow> (int \<Rightarrow> u8) res" where
  "log_header pos b =
     bindE (vsprintf (''%8d'' @ [CHR 0x0A]) [Num pos]) (\<lambda>out.
       Inr ((buf_write ((buf_write (buf_write b 0 (map of_char out @ [0])) 9 (replicate 22 0x20))(31 := 0x0a)) 32 (replicate 31 0x20))(63 := 0x0a)))"

definition disklog :: "int \<Rightarrow> u8 list \<Rightarrow> fs \<Rightarrow> (int \<times> fs) res" where
  "disklog pos0 logstr s0 =
     (case root_inode s0 of None \<Rightarrow> Inl (Fault ''root_inode'')
      | Some r \<Rightarrow>
          let dev = i_dev (inode_table s0 r)
          in bindE (get_super_block dev s0) (\<lambda>sb.
             let blk0 = sint (nr_sects sb - 2048)
             in bindE (if pos0 = 0 then bindE (log_init dev sb blk0 s0) (\<lambda>s. Inr (0x40, s)) else Inr (pos0, s0)) (\<lambda>(pos, s).
                bindE (log_loop dev (s32 (blk0 + pos div 512)) pos logstr s) (\<lambda>(pos1, s1).
                bindE (RD_SECT dev blk0 s1) (\<lambda>s2.
                bindE (log_header pos1 (fsbuf s2)) (\<lambda>h.
                bindE (WR_SECT dev blk0 (s2\<lparr>fsbuf := h\<rparr>)) (\<lambda>s3.
                bindE (WR_SECT dev (s32 (blk0 + NR_SECTS_FOR_LOG - 1)) (s3\<lparr>fsbuf := buf_write (fsbuf s3) 64 (replicate 448 (fsbuf s3 51))\<rparr>)) (\<lambda>s4.
                  Inr (pos1, s4)))))))))"

text \<open>\<open>do_disklog()\<close>: the string is copied from the caller's memory; \<open>loc\<close> is the address of \<open>buf\<close>.\<close>

definition do_disklog :: "u32 \<Rightarrow> int \<Rightarrow> fs \<Rightarrow> (int \<times> fs) res" where
  "do_disklog loc pos s =
     (let n = m3i2 (fs_msg s); src = source (fs_msg s)
      in assertE (n < 1024) ''str_len < STR_DEFAULT_LEN''
        (if n < 0 then Inl (Fault ''buf'') else
         bindE (va2la (fs_kern s) TASK_FS loc) (\<lambda>dst.
         bindE (va2la (fs_kern s) src (m3p2 (fs_msg s))) (\<lambda>la1.
           let bs = phys_read (fs_mem s) la1 (nat n)
           in disklog pos (takeWhile (\<lambda>c. c \<noteq> 0) bs) (s\<lparr>fs_mem := phys_write (fs_mem s) dst (bs @ [0])\<rparr>)))))"

subsection \<open>The log grows by the string\<close>

lemma log_loop_root:
  assumes "0 \<le> pos" "0 \<le> blk0" "pos + int (length p) < 2 ^ 20" "(blk0 + 2048) * 512 < 2 ^ 31"
  shows "\<exists>b. log_loop 800 (blk0 + pos div 512) pos p s =
    Inr (pos + int (length p), set_rootdisk (buf_write (rootdisk s) (blk0 * 512 + pos) p) (s\<lparr>fsbuf := b\<rparr>))"
  using assms(1,3)
proof (induction "length p" arbitrary: pos p s rule: less_induct)
  case less
  show ?case
  proof (cases "p = []")
    case True
    have "buf_write (rootdisk s) (blk0 * 512 + pos) [] = rootdisk s" by (auto simp: buf_write_def fun_eq_iff)
    then show ?thesis using True by (subst log_loop.simps) (auto simp: set_rootdisk_def intro!: exI [of _ "fsbuf s"])
  next
    case False
    define off where "off = pos mod 512"
    define n where "n = min (length p) (nat (512 - off))"
    define sect where "sect = blk0 + pos div 512"
    have o: "0 \<le> off" "off < 512" by (simp_all add: off_def)
    have n: "0 < n" "n \<le> length p" "off + int n \<le> 512" using o False by (auto simp: n_def)
    have "pos < 2048 * 512" using less.prems by simp
    then have d: "0 \<le> pos div 512" "pos div 512 < 2048" using less.prems(1) by (simp_all add: int_div_less_mult pos_imp_zdiv_nonneg_iff)
    have sect: "s32 (sect * 512) = sect * 512" using d assms(2,4) by (intro s32_id) (simp_all add: sect_def)
    have at: "sect * 512 + off = blk0 * 512 + pos" by (simp add: sect_def off_def algebra_simps)
    have pos: "s32 (pos + int n) = pos + int n" using less.prems n by (intro s32_id) simp_all
    define s3 where "s3 = set_rootdisk (buf_write (rootdisk s) (blk0 * 512 + pos) (take n p)) (s\<lparr>fsbuf := buf_write (buf_copy (fsbuf s) 0 512 (rootdisk s) (sect * 512)) off (take n p)\<rparr>)"
    have run: "log_loop 800 sect pos p s = log_loop 800 (sect + 1) (pos + int n) (drop n p) s3"
      using False less.prems(1) buf_copy_through [of off "take n p" 512 "rootdisk s" "sect * 512" "fsbuf s"] o n sect pos at
      by (subst log_loop.simps) (simp add: RD_SECT_def WR_SECT_def Let_def s3_def off_def [symmetric] n_def [symmetric] set_rootdisk_def)
    show ?thesis
    proof (cases "n = length p")
      case True
      then have "log_loop 800 (sect + 1) (pos + int n) (drop n p) s3 = Inr (pos + int n, s3)" by (subst log_loop.simps) simp
      then show ?thesis unfolding sect_def [symmetric] run using True by (auto simp: s3_def)
    next
      case part: False
      then have on: "off + int n = 512" using n o by (auto simp: n_def)
      obtain q where q: "pos = 512 * q + off" "pos div 512 = q" using mult_div_mod_eq [of 512 pos] by (metis off_def)
      have "pos + int n = 512 * (q + 1)" using q(1) on by simp
      then have "(pos + int n) div 512 = q + 1" by (simp only: nonzero_mult_div_cancel_left)
      then have s1: "sect + 1 = blk0 + (pos + int n) div 512" by (simp add: sect_def q(2))
      have "length (drop n p) < length p" using n False by simp
      from less.hyps [OF this, of "pos + int n" s3] n part less.prems obtain b where
        b: "log_loop 800 (sect + 1) (pos + int n) (drop n p) s3 = Inr (pos + int (length p),
            set_rootdisk (buf_write (rootdisk s3) (blk0 * 512 + (pos + int n)) (drop n p)) (s3\<lparr>fsbuf := b\<rparr>))"
        unfolding s1 by (auto simp: of_nat_diff)
      have "buf_write (rootdisk s3) (blk0 * 512 + (pos + int n)) (drop n p) = buf_write (rootdisk s) (blk0 * 512 + pos) p"
        using n(2) buf_write_append [where b = "rootdisk s" and off = "blk0 * 512 + pos" and xs = "take n p" and ys = "drop n p", OF refl] by (simp add: s3_def add.assoc)
      then show ?thesis unfolding sect_def [symmetric] run b by (auto simp: s3_def set_rootdisk_def)
    qed
  qed
qed

lemma vsprintf_pos:
  assumes "0 \<le> n" "n < 10 ^ 10"
  shows "\<exists>out. vsprintf (''%8d'' @ [CHR 0x0A]) [Num n] = Inr out \<and> length out \<le> 20"
proof -
  have "vsprintf (''%8d'' @ [CHR 0x0A]) [Num n] = Inr (replicate (nat (8 - int (length (i2a n 10)))) CHR '' '' @ i2a n 10 @ [CHR 0x0A])"
    using assms by (simp add: vsprintf_def convert_def s32_def)
  then show ?thesis using i2a_length [of n 10] assms by auto
qed


lemma log_header_frame:
  assumes "0 \<le> pos" "pos < 10 ^ 10"
  shows "\<exists>h. log_header pos b = Inr h \<and> (\<forall>k\<ge>64. h k = b k)"
proof -
  obtain out where "vsprintf (''%8d'' @ [CHR 0x0A]) [Num pos] = Inr out" "length out \<le> 20" using vsprintf_pos [OF assms] by blast
  then show ?thesis by (auto simp: log_header_def buf_write_def)
qed

text \<open>The text in the log, and a state in which the log lies at sector \<open>blk0\<close> of the root device.\<close>

definition log_text :: "int \<Rightarrow> fs \<Rightarrow> int \<Rightarrow> u8 list" where
  "log_text blk0 s pos = buf_read (rootdisk s) (blk0 * 512 + 64) (nat (pos - 64))"

definition log_at :: "int \<Rightarrow> fs \<Rightarrow> bool" where
  "log_at blk0 s \<longleftrightarrow> (\<exists>r sb. root_inode s = Some r \<and> i_dev (inode_table s r) = ROOT_DEV \<and> get_super_block ROOT_DEV s = Inr sb \<and>
     blk0 = sint (nr_sects sb - 2048)) \<and> 0 \<le> blk0 \<and> (blk0 + 2048) * 512 < 2 ^ 31"

lemma disklog_append:
  assumes at: "log_at blk0 s" and pos: "64 \<le> pos" "pos + int (length str) \<le> 2047 * 512"
  shows "\<exists>s'. disklog pos str s = Inr (pos + int (length str), s') \<and> log_at blk0 s' \<and> same_tables s s' \<and>
    log_text blk0 s' (pos + int (length str)) = log_text blk0 s pos @ str \<and>
    (\<forall>a. a < blk0 * 512 \<or> (blk0 + 2048) * 512 \<le> a \<longrightarrow> rootdisk s' a = rootdisk s a)"
proof -
  from at obtain r sb where sb: "root_inode s = Some r" "i_dev (inode_table s r) = ROOT_DEV" "get_super_block ROOT_DEV s = Inr sb" "blk0 = sint (nr_sects sb - 2048)"
    and blk: "0 \<le> blk0" "(blk0 + 2048) * 512 < 2 ^ 31" by (auto simp: log_at_def)
  define pos1 where "pos1 = pos + int (length str)"
  define D1 where "D1 = buf_write (rootdisk s) (blk0 * 512 + pos) str"
  obtain b where lp: "log_loop 800 (blk0 + pos div 512) pos str s = Inr (pos1, set_rootdisk D1 (s\<lparr>fsbuf := b\<rparr>))"
    using log_loop_root [of pos blk0 str s] pos blk unfolding pos1_def D1_def by auto
  define b1 where "b1 = buf_copy b 0 512 D1 (blk0 * 512)"
  obtain h where h: "log_header pos1 b1 = Inr h" "\<forall>k\<ge>64. h k = b1 k" using log_header_frame [of pos1 b1] pos by (auto simp: pos1_def)
  define D2 where "D2 = buf_copy D1 (blk0 * 512) 512 h 0"
  define h2 where "h2 = buf_write h 64 (replicate 448 (h 51))"
  define D3 where "D3 = buf_copy D2 ((blk0 + 2047) * 512) 512 h2 0"
  define s' where "s' = set_rootdisk D3 (s\<lparr>fsbuf := h2\<rparr>)"
  have "pos < 2048 * 512" using pos by simp
  then have d: "0 \<le> pos div 512" "pos div 512 < 2048" using pos by (simp_all add: int_div_less_mult pos_imp_zdiv_nonneg_iff)
  have s32: "s32 (blk0 + pos div 512) = blk0 + pos div 512" "s32 (blk0 * 512) = blk0 * 512" "s32 (blk0 + 2048 - 1) = blk0 + 2047"
    "s32 ((blk0 + 2047) * 512) = (blk0 + 2047) * 512"
    using d blk by (simp_all add: s32_small)
  have run: "disklog pos str s = Inr (pos1, s')"
    using sb pos(1) lp h(1) s32
    by (simp add: disklog_def Let_def RD_SECT_def WR_SECT_def b1_def D2_def h2_def D3_def s'_def set_rootdisk_def)
  have in_log: "D3 a = D1 a" if "blk0 * 512 + 64 \<le> a" "a < (blk0 + 2047) * 512" for a
    using that h(2) by (simp add: D3_def D2_def buf_copy_def b1_def)
  have "D3 a = rootdisk s a" if "a < blk0 * 512 \<or> (blk0 + 2048) * 512 \<le> a" for a
    using that pos by (auto simp: D3_def D2_def buf_copy_def D1_def buf_write_def)
  moreover have "log_text blk0 s' pos1 = log_text blk0 s pos @ str"
  proof -
    obtain P where P: "pos = 64 + int P" using pos(1) by (metis nonneg_int_cases le_add_diff_inverse diff_ge_0_iff_ge)
    have "nat (pos1 - 64) = P + length str" by (simp add: pos1_def P)
    moreover have "D3 (blk0 * 512 + 64 + int i) = (if i < P then rootdisk s (blk0 * 512 + 64 + int i) else str ! (i - P))" if "i < P + length str" for i
      using that pos(2) by (simp add: in_log P D1_def buf_write_def nat_diff_distrib' flip: of_nat_diff)
    ultimately show ?thesis unfolding log_text_def s'_def by (auto simp: P buf_read_def nth_append intro!: nth_equalityI)
  qed
  moreover have "log_at blk0 s'" using at get_super_block_cong [of s' s ROOT_DEV] by (simp add: log_at_def s'_def)
  moreover have "same_tables s s'" by (simp add: s'_def)
  ultimately show ?thesis using run by (simp add: pos1_def s'_def)
qed


text \<open>Several calls, one after the other.\<close>

fun log_calls :: "int \<Rightarrow> u8 list list \<Rightarrow> fs \<Rightarrow> (int \<times> fs) res" where
  "log_calls pos [] s = Inr (pos, s)"
| "log_calls pos (x # xs) s = bindE (disklog pos x s) (\<lambda>(pos1, s1). log_calls pos1 xs s1)"

text \<open>
  C39: The log is append-only: after its first call, any number of calls of \<open>disklog()\<close> whose
  strings fit before the last sector succeed, and the text of the log is the text before followed
  by the strings in order; no byte of the device outside the 2048 sectors of the log changes.
\<close>

theorem disklog_appends:
  assumes "log_at blk0 s" "64 \<le> pos" "pos + int (length (concat strs)) \<le> 2047 * 512"
  shows "\<exists>s'. log_calls pos strs s = Inr (pos + int (length (concat strs)), s') \<and> log_at blk0 s' \<and>
    log_text blk0 s' (pos + int (length (concat strs))) = log_text blk0 s pos @ concat strs \<and>
    (\<forall>a. a < blk0 * 512 \<or> (blk0 + 2048) * 512 \<le> a \<longrightarrow> rootdisk s' a = rootdisk s a)"
  using assms
proof (induction strs arbitrary: pos s)
  case (Cons x xs)
  then have "pos + int (length x) \<le> 2047 * 512" by simp
  from disklog_append [OF Cons.prems(1,2) this] obtain s1 where
    s1: "disklog pos x s = Inr (pos + int (length x), s1)" "log_at blk0 s1" "log_text blk0 s1 (pos + int (length x)) = log_text blk0 s pos @ x"
      "\<forall>a. a < blk0 * 512 \<or> (blk0 + 2048) * 512 \<le> a \<longrightarrow> rootdisk s1 a = rootdisk s a" by blast
  from Cons.IH [OF s1(2), of "pos + int (length x)"] Cons.prems s1 show ?case by (auto simp: add.assoc)
qed simp

theorem disklog_appends_witness:
  "\<exists>s'. log_calls 64 [[104, 105], [33]] ((demo_fs READ 0)\<lparr>root_inode := Some 1\<rparr>) = Inr (67, s') \<and> log_text 97952 s' 67 = [104, 105, 33]"
proof -
  let ?s = "(demo_fs READ 0)\<lparr>root_inode := Some 1\<rparr>"
  have sb: "get_super_block ROOT_DEV ?s = Inr demo_sb"
    using demo_fs_facts(1) [of READ 0] get_super_block_cong [of ?s "demo_fs READ 0" ROOT_DEV] by (simp add: mounted_def)
  have dev: "i_dev (inode_table ?s 1) = ROOT_DEV" by (simp add: demo_fs_def demo_inode_def)
  have "sint (nr_sects demo_sb - 2048) = 97952" by (simp add: demo_sb_def mk_super_block_def)
  then have "log_at 97952 ?s" unfolding log_at_def using sb dev by auto
  moreover have "log_text 97952 ?s 64 = []" by (simp add: log_text_def buf_read_def)
  ultimately show ?thesis using disklog_appends [of 97952 ?s 64 "[[104, 105], [33]]"] by (simp del: log_calls.simps) blast
qed

subsection \<open>The first call\<close>

lemma log_bytes_run:
  assumes "0 < left" "k < 8" "k \<le> 8 * n" "\<And>m. 8 * j + k \<le> m \<Longrightarrow> m < 8 * (j + n) \<Longrightarrow> int m < int (8 * j + k) + left \<Longrightarrow> \<not> mapbit b 0 m"
  shows "\<exists>b'. log_bytes n j k b left = Inr (b', left - min left (8 * int n - int k)) \<and>
    (\<forall>m. mapbit b' 0 m \<longleftrightarrow> mapbit b 0 m \<or> (8 * j + k \<le> m \<and> m < 8 * (j + n) \<and> int m < int (8 * j + k) + left))"
  using assms
proof (induction n arbitrary: j k b left)
  case 0
  then show ?case by auto
next
  case (Suc n)
  have "\<not> bit (b (int j)) i" if "k \<le> i" "i < 8" "int i < int k + left" for i
    using Suc.prems(4) [of "8 * j + i"] that by (simp add: mapbit_def)
  with mark_bits_run [of k left "b (int j)"] Suc.prems(1,2) obtain v where
    v: "mark_bits [k..<8] (b (int j)) left = Inr (v, left - min left (8 - int k))"
       "\<And>i. i < 8 \<Longrightarrow> bit v i \<longleftrightarrow> bit (b (int j)) i \<or> (k \<le> i \<and> int i < int k + left)" by auto
  define b1 where "b1 = b(int j := v)"
  define l where "l = left - min left (8 - int k)"
  have mb: "mapbit b1 0 m \<longleftrightarrow> mapbit b 0 m \<or> (m div 8 = j \<and> 8 * j + k \<le> m \<and> int m < int (8 * j + k) + left)" for m
  proof -
    obtain q r where qr: "m = 8 * q + r" "r < 8" using div_mult_mod_eq [of m 8] by (metis mod_less_divisor mult.commute zero_less_numeral)
    then have "m div 8 = q" "m mod 8 = r" by simp_all
    then show ?thesis using v(2) [OF qr(2)] mapbit_upd [of b 0 j v m] unfolding b1_def mapbit_def by (auto simp: qr(1))
  qed
  have step: "log_bytes (Suc n) j k b left = log_bytes n (Suc j) 0 b1 l"
    using Suc.prems(1) v(1) by (simp add: b1_def l_def)
  show ?case
  proof (cases "left \<le> 8 - int k")
    case True
    then have "log_bytes n (Suc j) 0 b1 l = Inr (b1, 0)" using Suc.prems(1) by (cases n) (auto simp: l_def)
    moreover have "(m div 8 = j \<and> 8 * j + k \<le> m \<and> int m < int (8 * j + k) + left) \<longleftrightarrow>
        (8 * j + k \<le> m \<and> m < 8 * (j + Suc n) \<and> int m < int (8 * j + k) + left)" for m
      using True by auto
    ultimately show ?thesis using step mb True Suc.prems(1) by (auto intro!: exI [of _ b1])
  next
    case False
    then have l: "0 < l" "l = left - 8 + int k" by (auto simp: l_def)
    have "\<not> mapbit b1 0 m" if "8 * Suc j + 0 \<le> m" "m < 8 * (Suc j + n)" "int m < int (8 * Suc j + 0) + l" for m
      using Suc.prems(2) Suc.prems(4) [of m] that l mb [of m] by auto
    from Suc.IH [where j = "Suc j" and b = b1 and left = l and k = 0, OF l(1) _ _ this] obtain b' where
      b': "log_bytes n (Suc j) 0 b1 l = Inr (b', l - min l (8 * int n))"
      "\<And>m. mapbit b' 0 m \<longleftrightarrow> mapbit b1 0 m \<or> (8 * Suc j \<le> m \<and> m < 8 * (Suc j + n) \<and> int m < int (8 * Suc j) + l)" by auto
    have "l - min l (8 * int n) = left - min left (8 * int (Suc n) - int k)" using False l by auto
    moreover have "mapbit b' 0 m \<longleftrightarrow> mapbit b 0 m \<or> (8 * j + k \<le> m \<and> m < 8 * (j + Suc n) \<and> int m < int (8 * j + k) + left)" for m
      unfolding b'(2) mb using False l Suc.prems(2) by auto
    ultimately show ?thesis using step b'(1) by (intro exI [of _ b']) auto
  qed
qed

lemma log_map_run:
  assumes "0 \<le> blk0" "blk0 + int (i + n) \<le> 2 ^ 22" "at = blk0 * 512" "0 < left" "j < 512" "k < 8" "left \<le> 4096 * int n - int (8 * j + k)"
    "\<And>m. 4096 * i + 8 * j + k \<le> m \<Longrightarrow> int m < int (4096 * i + 8 * j + k) + left \<Longrightarrow> \<not> mapbit (rootdisk s) at m"
  shows "\<exists>s'. log_map ROOT_DEV blk0 n (int i) j k left s = Inr (0, s') \<and> same_tables s s' \<and>
    (\<forall>m. mapbit (rootdisk s') at m \<longleftrightarrow> mapbit (rootdisk s) at m \<or> (4096 * i + 8 * j + k \<le> m \<and> int m < int (4096 * i + 8 * j + k) + left)) \<and>
    (\<forall>x. x < at + 512 * int i \<or> at + 512 * int (i + n) \<le> x \<longrightarrow> rootdisk s' x = rootdisk s x)"
  using assms(2,4-)
proof (induction n arbitrary: i j k left s)
  case 0
  then show ?case by simp
next
  case (Suc n)
  let ?b = "buf_copy (fsbuf s) 0 512 (rootdisk s) (at + 512 * int i)"
  define p where "p = 8 * j + k"
  have p: "p < 4096" using Suc.prems(3,4) by (simp add: p_def)
  have "\<not> mapbit ?b 0 m" if "8 * j + k \<le> m" "m < 8 * (j + (512 - j))" "int m < int (8 * j + k) + left" for m
    using Suc.prems(3) Suc.prems(6) [of "4096 * i + m"] that sector_bit_read [of m "fsbuf s" "rootdisk s" at i] by simp
  moreover have "k \<le> 8 * (512 - j)" using Suc.prems(3,4) by simp
  ultimately have ex: "\<exists>b'. log_bytes (512 - j) j k ?b left = Inr (b', left - min left (8 * int (512 - j) - int k)) \<and>
      (\<forall>m. mapbit b' 0 m \<longleftrightarrow> mapbit ?b 0 m \<or> (8 * j + k \<le> m \<and> m < 8 * (j + (512 - j)) \<and> int m < int (8 * j + k) + left))"
    using log_bytes_run [where j = j and k = k and n = "512 - j" and b = ?b, OF Suc.prems(2,4)] by blast
  have "8 * int (512 - j) - int k = 4096 - int p" "8 * (j + (512 - j)) = 4096" using Suc.prems(3) by (simp_all add: p_def of_nat_diff)
  from ex [unfolded this, folded p_def]
  obtain b where b: "log_bytes (512 - j) j k ?b left = Inr (b, left - min left (4096 - int p))"
    "\<And>m. mapbit b 0 m \<longleftrightarrow> mapbit ?b 0 m \<or> (p \<le> m \<and> m < 4096 \<and> int m < int p + left)"
    by blast
  have blk: "0 \<le> blk0 + int i" "blk0 + int i < 2 ^ 22" using Suc.prems(1) assms(1) by simp_all
  have at: "(blk0 + int i) * 512 = at + 512 * int i" using assms(3) by simp
  define s1 where "s1 = set_rootdisk (buf_copy (rootdisk s) (at + 512 * int i) 512 b 0) (s\<lparr>fsbuf := b\<rparr>)"
  have step: "log_map ROOT_DEV blk0 (Suc n) (int i) j k left s =
      (if left - min left (4096 - int p) = 0 then Inr (0, s1) else log_map ROOT_DEV blk0 n (int (Suc i)) 0 0 (left - min left (4096 - int p)) s1)"
    using b(1) by (simp add: rd_root [OF blk, unfolded at] wr_root [OF blk, unfolded at] s1_def add.commute)
  have d1: "mapbit (rootdisk s1) at m \<longleftrightarrow> mapbit (rootdisk s) at m \<or> (4096 * i + p \<le> m \<and> m < 4096 * i + 4096 \<and> int m < int (4096 * i + p) + left)" for m
    using sector_bit_marked [where P = "\<lambda>m. p \<le> m \<and> m < 4096 \<and> int m < int p + left", OF b(2), of m] by (auto simp: s1_def)
  have k1: "rootdisk s1 x = rootdisk s x" if "x < at + 512 * int i \<or> at + 512 * int (Suc i) \<le> x" for x
    using that by (auto simp: s1_def buf_copy_def)
  have st1: "same_tables s s1" by (simp add: s1_def)
  show ?case
  proof (cases "left \<le> 4096 - int p")
    case True
    then show ?thesis using step st1 d1 k1 unfolding p_def by (intro exI [of _ s1]) auto
  next
    case False
    define l where "l = left - (4096 - int p)"
    have l: "0 < l" "l \<le> 4096 * int n - int (8 * 0 + 0)" "left - min left (4096 - int p) = l" using False Suc.prems(5) by (auto simp: l_def p_def)
    have clear: "\<not> mapbit (rootdisk s1) at m" if "4096 * Suc i + 8 * 0 + 0 \<le> m" "int m < int (4096 * Suc i + 8 * 0 + 0) + l" for m
      using Suc.prems(6) [of m] that d1 [of m] p by (auto simp: l_def p_def)
    have "blk0 + int (Suc i + n) \<le> 2 ^ 22" using Suc.prems(1) by simp
    from Suc.IH [OF this l(1) _ _ l(2) clear] obtain s' where s': "log_map ROOT_DEV blk0 n (int (Suc i)) 0 0 l s1 = Inr (0, s')"
      "same_tables s1 s'" "\<And>m. mapbit (rootdisk s') at m \<longleftrightarrow> mapbit (rootdisk s1) at m \<or> (4096 * Suc i \<le> m \<and> int m < int (4096 * Suc i) + l)"
      "\<And>x. x < at + 512 * int (Suc i) \<or> at + 512 * int (Suc i + n) \<le> x \<Longrightarrow> rootdisk s' x = rootdisk s1 x" by auto
    have "mapbit (rootdisk s') at m \<longleftrightarrow> mapbit (rootdisk s) at m \<or> (4096 * i + 8 * j + k \<le> m \<and> int m < int (4096 * i + 8 * j + k) + left)" for m
      unfolding s'(3) d1 using False p by (auto simp: l_def p_def)
    moreover have "rootdisk s' x = rootdisk s x" if "x < at + 512 * int i \<or> at + 512 * int (i + Suc n) \<le> x" for x
      using that s'(4) [of x] k1 [of x] by auto
    ultimately show ?thesis using step st1 s'(1,2) l False same_tables_trans by (intro exI [of _ s']) auto
  qed
qed

lemma sint_uint_small: "uint (w :: u32) < 2 ^ 31 \<Longrightarrow> sint w = uint w"
  using uint_nonnegative [of w] by (simp add: sint_uint signed_take_bit_int_eq_self_iff order_trans [of _ 0])

lemma log_fill_run:
  assumes "0 \<le> i" "(i + 256 * int n) * 512 < 2 ^ 31"
  shows "\<exists>s'. log_fill ROOT_DEV n i s = Inr s' \<and> same_tables s s' \<and>
    (\<forall>a. rootdisk s' a = (if i * 512 \<le> a \<and> a < (i + 256 * int n) * 512 then 0x20 else rootdisk s a))"
  using assms
proof (induction n arbitrary: i s)
  case (Suc n)
  define b where "b = buf_write (fsbuf s) 0 (replicate (256 * 512) 0x20)"
  define s1 where "s1 = set_rootdisk (buf_copy (rootdisk s) (i * 512) (256 * 512) b 0) (s\<lparr>fsbuf := b\<rparr>)"
  have "s32 (i * 512) = i * 512" using Suc.prems by (intro s32_small) simp_all
  then have step: "log_fill ROOT_DEV (Suc n) i s = log_fill ROOT_DEV n (i + 256) s1" by (simp add: s1_def b_def)
  have d1: "rootdisk s1 a = (if i * 512 \<le> a \<and> a < (i + 256) * 512 then 0x20 else rootdisk s a)" for a
    by (auto simp: s1_def b_def buf_copy_def buf_write_def)
  have "same_tables s s1" by (simp add: s1_def)
  with Suc.IH [of "i + 256" s1] Suc.prems obtain s' where s': "log_fill ROOT_DEV n (i + 256) s1 = Inr s'" "same_tables s s'"
    "\<And>a. rootdisk s' a = (if (i + 256) * 512 \<le> a \<and> a < (i + 256 + 256 * int n) * 512 then 0x20 else rootdisk s1 a)"
    by (auto intro: same_tables_trans)
  have "rootdisk s' a = (if i * 512 \<le> a \<and> a < (i + 256 * int (Suc n)) * 512 then 0x20 else rootdisk s a)" for a
    unfolding s'(3) d1 by auto
  with s'(1,2) step show ?case by (intro exI [of _ s']) simp
qed auto

text \<open>Bit \<open>m\<close> of a part of the map that starts \<open>q\<close> sectors further on.\<close>

lemma mapbit_shift: "mapbit d (at + 512 * int q) m \<longleftrightarrow> mapbit d at (4096 * q + m)"
  by (simp add: mapbit_def sector_bit_div add.assoc)

lemma log_init_run:
  assumes m: "mounted sb s" and blk: "uint (n_1st_sect sb) \<le> int L" "(int L + 2048) * 512 < 2 ^ 31" "int L + 2048 \<le> smap_bits sb"
    and free: "\<And>m. L \<le> m \<Longrightarrow> m < L + 2048 \<Longrightarrow> \<not> smap sb s m"
  shows "\<exists>s'. log_init ROOT_DEV sb (int L) s = Inr s' \<and> same_tables s s' \<and>
    (\<forall>m. int m < smap_bits sb \<longrightarrow> smap sb s' m = (smap sb s m \<or> (L \<le> m \<and> m < L + 2048)))"
proof -
  note sb = mounted_bounds [OF m]
  define q where "q = L div 4096"
  define j where "j = L mod 4096 div 8"
  define k where "k = L mod 4096 mod 8"
  have L: "L = 4096 * q + (8 * j + k)" "j < 512" "k < 8"
    using mult_div_mod_eq [of 4096 L] mult_div_mod_eq [of 8 "L mod 4096"] by (auto simp: q_def j_def k_def)
  define blk0 where "blk0 = 2 + uint (nr_imap_sects sb) + int q"
  have imap: "uint (1 + 1 + nr_imap_sects sb) = 2 + uint (nr_imap_sects sb)" using sb(3) by (simp add: uint_word_ariths(1))
  have sint: "sint (1 + 1 + nr_imap_sects sb) = 2 + uint (nr_imap_sects sb)"
    unfolding imap [symmetric] using imap sb(3) by (intro sint_uint_small) simp
  have qL: "int q \<le> 2 ^ 10" using blk(2) by (simp add: q_def)
  have cd: "c_div (int L) 4096 = int q" "c_div (c_mod (int L) 4096) 8 = int j" "c_mod (c_mod (int L) 4096) 8 = int k"
    by (simp_all add: c_div_nonneg c_mod_nonneg q_def j_def k_def zdiv_int zmod_int)
  have at: "blk0 * 512 = smap_at sb + 512 * int q" by (simp add: blk0_def smap_at_def)
  have b0: "0 \<le> blk0" "blk0 + int (0 + 2) \<le> 2 ^ 22" "s32 blk0 = blk0" using sb(3) qL by (simp_all add: blk0_def s32_small)
  have "\<not> mapbit (rootdisk s) (smap_at sb + 512 * int q) m" if "4096 * 0 + 8 * j + k \<le> m" "int m < int (4096 * 0 + 8 * j + k) + 2048" for m
    unfolding mapbit_shift using that free [of "4096 * q + m"] L(1) by simp
  from log_map_run [where left = 2048, OF b0(1,2) at [symmetric] _ L(2,3) _ this] L(2,3) obtain s1 where
    s1: "log_map ROOT_DEV blk0 2 0 j k 2048 s = Inr (0, s1)" "same_tables s s1"
      "\<And>m. mapbit (rootdisk s1) (smap_at sb + 512 * int q) m \<longleftrightarrow>
        mapbit (rootdisk s) (smap_at sb + 512 * int q) m \<or> (8 * j + k \<le> m \<and> int m < int (8 * j + k) + 2048)"
      "\<And>x. x < smap_at sb + 512 * int q \<Longrightarrow> rootdisk s1 x = rootdisk s x" by auto
  have m1: "smap sb s1 m \<longleftrightarrow> smap sb s m \<or> (L \<le> m \<and> m < L + 2048)" for m
  proof (cases "4096 * q \<le> m")
    case True
    then show ?thesis using s1(3) [of "m - 4096 * q"] L(1) unfolding mapbit_shift by auto
  next
    case False
    then have "m div 8 < 512 * q" by auto
    then have "smap_at sb + int (m div 8) < smap_at sb + 512 * int q" by linarith
    then show ?thesis using s1(4) False L(1) by (simp add: mapbit_def)
  qed
  obtain s2 where s2: "log_fill ROOT_DEV 8 (int L) s1 = Inr s2" "same_tables s1 s2"
    "\<And>a. a < int L * 512 \<Longrightarrow> rootdisk s2 a = rootdisk s1 a" using log_fill_run [of "int L" 8 s1] blk(2) by auto
  have m2: "smap sb s2 m = smap sb s1 m" if "int m < smap_bits sb" for m
  proof -
    have "int (m div 8) < 512 * uint (nr_smap_sects sb)" using that by (simp add: zdiv_int)
    then have "smap_at sb + int (m div 8) < int L * 512" using sb(6) blk(1) by linarith
    then show ?thesis using s2(3) by (simp add: mapbit_def)
  qed
  have "log_init ROOT_DEV sb (int L) s = Inr s2"
    using s1(1) s2(1) b0(3) sint cd by (simp add: log_init_def Let_def assertE_def blk0_def c_div_def)
  with m1 m2 s1(2) s2(2) same_tables_trans show ?thesis by blast
qed

lemma disklog_first:
  assumes at: "log_at (int L) s" and m: "mounted sb s" and i: "log_init ROOT_DEV sb (int L) s = Inr s1" "same_tables s s1"
  shows "disklog 0 str s = disklog 64 str s1"
proof -
  from at obtain r where r: "root_inode s = Some r" "i_dev (inode_table s r) = ROOT_DEV" "int L = sint (nr_sects sb - 2048)"
    using m by (auto simp: log_at_def mounted_def)
  have "get_super_block ROOT_DEV s = Inr sb" "get_super_block ROOT_DEV s1 = Inr sb"
    using m mounted_same [OF i(2), of sb] by (simp_all add: mounted_def)
  then show ?thesis using r i same_tablesD(4,6) [OF i(2)] by (simp add: disklog_def Let_def)
qed

text \<open>
  C40: The log is not safe from files. The first call of \<open>disklog()\<close> marks the bits numbered like
  the log's sectors, but bit \<open>m\<close> of the sector map stands for sector \<open>m - 1 + n_1st_sect\<close>. So on a
  device whose free space lies at its end, the call succeeds, and the next file that is created
  is given sectors that contain the first sector of the log, its header.
\<close>

theorem disklog_shares_sectors:
  assumes "mounted sb s" "log_at (int L) s" "uint (n_1st_sect sb) \<le> int L" "uint (n_1st_sect sb) \<le> 2049" "2048 \<le> L" "int L + 2048 \<le> smap_bits sb"
    and taken: "\<And>m. m < L - 2048 \<Longrightarrow> smap sb s m" and free: "\<And>m. L - 2048 \<le> m \<Longrightarrow> m < L + 2048 \<Longrightarrow> \<not> smap sb s m"
    and str: "int (length str) \<le> 2047 * 512 - 64"
  shows "\<exists>s1 s2 start. disklog 0 str s = Inr (64 + int (length str), s1) \<and> log_text (int L) s1 (64 + int (length str)) = str \<and>
    alloc_smap_bit ROOT_DEV 2048 s1 = Inr (start, s2) \<and> start \<le> int L \<and> int L < start + 2048"
proof -
  note sb = mounted_bounds [OF assms(1)]
  have "(int L + 2048) * 512 < 2 ^ 31" using assms(2) by (simp add: log_at_def)
  from log_init_run [OF assms(1,3) this assms(6)] free obtain s0 where s0: "log_init ROOT_DEV sb (int L) s = Inr s0" "same_tables s s0"
    "\<And>m. int m < smap_bits sb \<Longrightarrow> smap sb s0 m = (smap sb s m \<or> (L \<le> m \<and> m < L + 2048))" by auto
  have m0: "mounted sb s0" using assms(1) mounted_same [OF s0(2)] by simp
  have "log_at (int L) s0" using assms(2) get_super_block_cong [of s0 s ROOT_DEV] same_tablesD [OF s0(2)] by (simp add: log_at_def)
  from disklog_append [OF this, of 64 str] str obtain s1 where s1: "disklog 64 str s0 = Inr (64 + int (length str), s1)"
    "log_text (int L) s1 (64 + int (length str)) = str" "\<And>a. a < int L * 512 \<Longrightarrow> rootdisk s1 a = rootdisk s0 a" "same_tables s0 s1"
    by (auto simp: log_text_def [of _ s0] buf_read_def)
  have same: "smap sb s1 m = smap sb s0 m" if "int m < smap_bits sb" for m
  proof -
    have "int (m div 8) < 512 * uint (nr_smap_sects sb)" using that by (simp add: zdiv_int)
    then have "smap_at sb + int (m div 8) < int L * 512" using sb(6) assms(3) by linarith
    then show ?thesis using s1(3) by (simp add: mapbit_def)
  qed
  have "mounted sb s1" using m0 mounted_same [OF s1(4)] by simp
  moreover have "smap sb s1 m" if "m < L - 2048" for m using that assms(6) taken [of m] s0(3) [of m] same [of m] by simp
  moreover have "\<not> smap sb s1 m" if "L - 2048 \<le> m" "int m < int (L - 2048) + 2048" for m
    using that assms(5,6) free [of m] s0(3) [of m] same [of m] by simp
  ultimately obtain s2 where "alloc_smap_bit ROOT_DEV 2048 s1 = Inr (int (L - 2048) - 1 + uint (n_1st_sect sb), s2)"
    using alloc_smap_bit_run [of sb s1 2048 "L - 2048"] assms(5,6) by auto
  moreover have "disklog 0 str s = disklog 64 str s0" by (rule disklog_first [OF assms(2,1) s0(1,2)])
  ultimately show ?thesis using s1 assms(4,5) sb(5) by auto
qed

text \<open>A device of 100000 sectors of which all but the last 4096 bits of the map are taken.\<close>

definition demo_log :: fs where
  "demo_log = set_rootdisk (\<lambda>k. if 1536 \<le> k \<and> k < 13524 then 0xff else 0) ((demo_fs READ 0)\<lparr>root_inode := Some 1\<rparr>)"

lemma demo_log_smap: "smap demo_sb demo_log m \<longleftrightarrow> m < 95904"
proof -
  have at: "smap_at demo_sb = 1536" by (simp add: smap_at_def demo_sb_def mk_super_block_def Let_def)
  have "m < 95904 \<longleftrightarrow> m div 8 < 11988" by auto
  moreover have "bit (0xff :: u8) (m mod 8)" using ff_iff [of "0xff :: u8"] by simp
  ultimately show ?thesis unfolding mapbit_def at by (auto simp: demo_log_def)
qed

theorem disklog_shares_sectors_witness:
  "\<exists>s1 s2 start. disklog 0 [104, 105] demo_log = Inr (66, s1) \<and> log_text 97952 s1 66 = [104, 105] \<and>
     alloc_smap_bit ROOT_DEV 2048 s1 = Inr (start, s2) \<and> start \<le> 97952 \<and> 97952 < start + 2048"
proof -
  have m: "mounted demo_sb demo_log"
    using demo_fs_facts(1) [of READ 0] mounted_cong [of demo_log "demo_fs READ 0"] by (simp add: demo_log_def)
  have "i_dev (inode_table demo_log 1) = ROOT_DEV" by (simp add: demo_log_def demo_fs_def demo_inode_def)
  moreover have "sint (nr_sects demo_sb - 2048) = 97952" by (simp add: demo_sb_def mk_super_block_def)
  moreover have "root_inode demo_log = Some 1" by (simp add: demo_log_def)
  ultimately have at: "log_at (int 97952) demo_log" unfolding log_at_def using m by (auto simp: mounted_def)
  have n: "uint (n_1st_sect demo_sb) = 284" "uint (nr_smap_sects demo_sb) = 25"
    by (simp_all add: demo_sb_def mk_super_block_def Let_def)
  from disklog_shares_sectors [OF m at, of "[104, 105]"] n demo_log_smap show ?thesis by simp
qed

end
