(* ===== verification/Print.thy ===== *)
theory Print
  imports Tty Syscall Disklog
begin

section \<open>Formatted printing, assertions and panic (lib/printf.c, syslog.c, misc.c, kernel/main.c)\<close>

text \<open>
  The routines that format a text and pass it on: \<open>printl()\<close> to the kernel's \<open>printx\<close>, \<open>printf()\<close> to
  the file system, \<open>syslog()\<close> to the log; and what a failed assertion and \<open>panic()\<close> do with it. The
  address of a routine's local array is an argument.
\<close>

subsection \<open>The routines\<close>

text \<open>\<open>vsprintf()\<close> into a local array of \<open>n\<close> characters.\<close>

definition format_into :: "nat \<Rightarrow> string \<Rightarrow> arg list \<Rightarrow> string res" where
  "format_into n format args = bindE (vsprintf format args) (\<lambda>t. if length t < n then Inr t else Inl (Fault ''buf''))"

definition sprintf :: "string \<Rightarrow> arg list \<Rightarrow> string res" where
  "sprintf format args = vsprintf format args"

text \<open>The characters before the first zero, and the bytes of a text with its final zero.\<close>

definition before_nul :: "string \<Rightarrow> string" where
  "before_nul t = takeWhile (\<lambda>c. c \<noteq> CHR 0x00) t"

definition c_string :: "string \<Rightarrow> u8 list" where
  "c_string t = map of_char t @ [0]"

text \<open>
  \<open>printl()\<close> in \<open>process\<close>: the array lies in the process's own segment, or, when the kernel itself
  prints, at its linear address. \<open>k_reenter\<close> is the value the trap finds.
\<close>

definition own_address :: "kernel \<Rightarrow> int \<Rightarrow> u32 \<Rightarrow> u32 res" where
  "own_address k process a = (if k_reenter k = 0 then va2la k process a else Inr a)"

definition printl :: "int \<Rightarrow> u32 \<Rightarrow> string \<Rightarrow> arg list \<Rightarrow> tty_state \<Rightarrow> (int \<times> tty_state) res" where
  "printl process buf format args s =
     bindE (format_into 1024 format args) (\<lambda>t.
     bindE (own_address (kern s) process buf) (\<lambda>p.
     bindE (sys_printx 1024 buf process (s\<lparr>mem8 := phys_write (mem8 s) p (c_string t)\<rparr>)) (\<lambda>s1.
       Inr (int (length t), s1))))"

definition spin :: "int \<Rightarrow> u32 \<Rightarrow> string \<Rightarrow> tty_state \<Rightarrow> 'a res" where
  "spin process buf func_name s =
     bindE (printl process buf ([CHR 0x0A] @ ''spinning in %s ...'' @ [CHR 0x0A]) [Str func_name] s) (\<lambda>_. Inl (Hang ''spin''))"

definition assertion_failure :: "int \<Rightarrow> u32 \<Rightarrow> string \<Rightarrow> string \<Rightarrow> string \<Rightarrow> int \<Rightarrow> tty_state \<Rightarrow> 'a res" where
  "assertion_failure process buf exp file base_file line s =
     bindE (printl process buf ''%c assert(%s) failed: file: %s, base_file: %s, line: %d''
              [Num (uint MAGIC_CHAR_ASSERT), Str exp, Str file, Str base_file, Num line] s) (\<lambda>(_, s1).
       spin process buf ''assertion_failure()'' s1)"

definition panic :: "int \<Rightarrow> u32 \<Rightarrow> string \<Rightarrow> arg list \<Rightarrow> tty_state \<Rightarrow> 'a res" where
  "panic process buf format args s =
     bindE (format_into 256 format args) (\<lambda>t.
     bindE (printl process buf ''%c !!panic!! %s'' [Num (uint MAGIC_CHAR_PANIC), Str (before_nul t)] s) (\<lambda>_. Inl (Fault ''ud2'')))"

text \<open>
  \<open>printf()\<close> in a process whose calls of tasks are \<open>sr\<close>; \<open>store\<close> writes bytes into its memory.
\<close>

definition printf :: "'s trap \<Rightarrow> (u32 \<Rightarrow> u8 list \<Rightarrow> 's \<Rightarrow> 's) \<Rightarrow> MESSAGE \<Rightarrow> u32 \<Rightarrow> string \<Rightarrow> arg list \<Rightarrow> 's \<Rightarrow> (int \<times> 's) res" where
  "printf sr store junk buf format args s =
     bindE (format_into 1024 format args) (\<lambda>t.
     bindE (lib_write sr junk 1 buf (int (length t)) (store buf (c_string t) s)) (\<lambda>(c, s1).
       assertE (c = int (length t)) ''c == i'' (Inr (int (length t), s1))))"

text \<open>\<open>syslog()\<close>: \<open>strlen()\<close> stops at the first zero character that was formatted.\<close>

definition syslog :: "int \<Rightarrow> string \<Rightarrow> arg list \<Rightarrow> fs \<Rightarrow> (int \<times> fs) res" where
  "syslog pos fmt args s =
     bindE (format_into 1024 fmt args) (\<lambda>t.
       assertE (length (before_nul t) = length t) ''strlen(buf) == i'' (disklog pos (map of_char t) s))"

subsection \<open>The screen after a halt\<close>

text \<open>
  What \<open>sys_printx()\<close> leaves in the video memory before it stops the machine: the text from \<open>p + 1\<close>
  on in red at every eighth row, the rest of the rows gray with their characters. \<open>v\<close> counts
  cells, of two bytes; a row has 80 of them.
\<close>

abbreviation (input) RED_CHAR :: u8 where "RED_CHAR \<equiv> 0x1c"
abbreviation (input) GRAY_CHAR :: u8 where "GRAY_CHAR \<equiv> 0x08"

function halt_gray :: "nat \<Rightarrow> cells \<Rightarrow> nat \<times> cells" where
  "halt_gray v c =
     (if v mod 640 = 0 then (v, c) else halt_gray (v + 1) (c(int v := (fst (c (int v)), GRAY_CHAR))))"
  by pat_completeness auto
termination
  by (relation "measure (\<lambda>(v, c). (640 - v mod 640) mod 640)") (auto simp: mod_Suc)

declare halt_gray.simps [simp del]

lemma halt_gray_forward: "v \<le> fst (halt_gray v c)"
proof (induction v c rule: halt_gray.induct)
  case (1 v c)
  then show ?case by (subst halt_gray.simps) (auto simp: fun_upd_def)
qed

function halt_screen :: "(u32 \<Rightarrow> u8) \<Rightarrow> u32 \<Rightarrow> u32 \<Rightarrow> nat \<Rightarrow> cells \<Rightarrow> cells" where
  "halt_screen b p q v c =
     (if v < nat (VIDEO_MEM_SIZE div 2) then
        let c1 = c(int v := (b q, RED_CHAR))
        in if b (q + 1) = 0 then
             let (v2, c2) = halt_gray (v + 1) c1 in halt_screen b p (p + 1) v2 c2
           else halt_screen b p (q + 1) (v + 1) c1
      else c)"
  by pat_completeness auto
termination
proof (relation "measure (\<lambda>(b, p, q, v, c). nat (VIDEO_MEM_SIZE div 2) - v)", goal_cases)
  case (2 b p q v c c1 x v2 c2)
  then have "v + 1 \<le> v2" using halt_gray_forward [of "v + 1" c1] by (metis fst_conv)
  with 2(1) show ?case by simp
qed simp_all

declare halt_screen.simps [simp del]

lemma halt_gray_run:
  assumes "v \<le> 640 * k" "640 * k < v + 640"
  shows "halt_gray v c = (640 * k, \<lambda>a. if int v \<le> a \<and> a < 640 * int k then (fst (c a), GRAY_CHAR) else c a)"
  using assms
proof (induction "640 * k - v" arbitrary: v c)
  case 0
  then have "v = 640 * k" by simp
  then show ?case by (subst halt_gray.simps) (auto simp: fun_eq_iff)
next
  case (Suc d)
  then have v: "v < 640 * k" "640 * k < v + 640" by simp_all
  have "v mod 640 \<noteq> 0"
  proof
    assume "v mod 640 = 0"
    then obtain j where "v = 640 * j" by (metis mult_div_mod_eq add.right_neutral)
    then show False using v by simp
  qed
  then have "halt_gray v c = halt_gray (v + 1) (c(int v := (fst (c (int v)), GRAY_CHAR)))" by (subst halt_gray.simps) simp
  also have "\<dots> = (640 * k, \<lambda>a. if int v \<le> a \<and> a < 640 * int k then (fst (c a), GRAY_CHAR) else c a)"
    using Suc v by (subst Suc(1)) (auto simp: fun_eq_iff)
  finally show ?case .
qed

text \<open>A text of \<open>n\<close> bytes behind address \<open>p\<close>, and the block of eight rows that shows it.\<close>

definition text_behind :: "(u32 \<Rightarrow> u8) \<Rightarrow> u32 \<Rightarrow> nat \<Rightarrow> bool" where
  "text_behind b p n \<longleftrightarrow> 0 < n \<and> n \<le> 640 \<and> (\<forall>i<n. b (p + 1 + of_nat i) \<noteq> 0) \<and> b (p + 1 + of_nat n) = 0"

definition halt_block :: "(u32 \<Rightarrow> u8) \<Rightarrow> u32 \<Rightarrow> nat \<Rightarrow> nat \<Rightarrow> nat \<Rightarrow> cells \<Rightarrow> cells" where
  "halt_block b p n k i c = (\<lambda>a.
     if 640 * int k + int i \<le> a \<and> a < 640 * int k + int n then (b (p + 1 + of_int (a - 640 * int k)), RED_CHAR)
     else if 640 * int k + int n \<le> a \<and> a < 640 * int (Suc k) then (fst (c a), GRAY_CHAR) else c a)"

lemma halt_screen_block:
  assumes "text_behind b p n" "k < 25" "i < n"
  shows "halt_screen b p (p + 1 + of_nat i) (640 * k + i) c = halt_screen b p (p + 1) (640 * Suc k) (halt_block b p n k i c)"
  using assms(3)
proof (induction "n - i" arbitrary: i c)
  case (Suc d)
  define c1 where "c1 = c(int (640 * k + i) := (b (p + 1 + of_nat i), RED_CHAR))"
  have v: "640 * k + i < 16384" "n \<le> 640" using assms(1,2) Suc.prems by (auto simp: text_behind_def)
  have q: "p + 1 + of_nat i + 1 = p + 1 + of_nat (Suc i)" by simp
  show ?case
  proof (cases "Suc i = n")
    case True
    have e: "Suc (640 * k + i) = 640 * k + n" using True by simp
    have "b (p + 1 + of_nat i + 1) = 0" unfolding q True using assms(1) by (simp add: text_behind_def)
    then have "halt_screen b p (p + 1 + of_nat i) (640 * k + i) c =
        (let (v2, c2) = halt_gray (640 * k + n) c1 in halt_screen b p (p + 1) v2 c2)"
      using v(1) by (subst halt_screen.simps) (simp add: c1_def Let_def e)
    moreover have "halt_gray (640 * k + n) c1 = (640 * Suc k, halt_block b p n k i c)"
      using v True by (subst halt_gray_run [of _ "Suc k"]) (auto simp: halt_block_def c1_def fun_eq_iff)
    ultimately show ?thesis by simp
  next
    case False
    with Suc.prems have less: "Suc i < n" by simp
    have "b (p + 1 + of_nat i + 1) \<noteq> 0" unfolding q using assms(1) less by (auto simp: text_behind_def)
    then have "halt_screen b p (p + 1 + of_nat i) (640 * k + i) c = halt_screen b p (p + 1 + of_nat (Suc i)) (640 * k + Suc i) c1"
      using v by (subst halt_screen.simps) (simp add: c1_def Let_def q)
    also have "\<dots> = halt_screen b p (p + 1) (640 * Suc k) (halt_block b p n k (Suc i) c1)"
      using Suc(2) less by (intro Suc(1)) simp_all
    also have "halt_block b p n k (Suc i) c1 = halt_block b p n k i c"
      using less v by (auto simp: halt_block_def c1_def fun_eq_iff)
    finally show ?thesis .
  qed
qed simp

lemma halt_screen_below: "a < int v \<Longrightarrow> halt_screen b p q v c a = c a"
proof (induction b p q v c rule: halt_screen.induct)
  case (1 b p q v c)
  have g: "snd (halt_gray v1 c1) a = c1 a" if "a < int v1" for v1 c1
    using that
  proof (induction v1 c1 rule: halt_gray.induct)
    case (1 v1 c1)
    then show ?case by (subst halt_gray.simps) (auto simp: fun_upd_def)
  qed
  show ?case
  proof (cases "v < nat (VIDEO_MEM_SIZE div 2)")
    case True
    obtain v2 c2 where h: "halt_gray (v + 1) (c(int v := (b q, RED_CHAR))) = (v2, c2)" by fastforce
    have "a < int v2" using halt_gray_forward [of "v + 1" "c(int v := (b q, RED_CHAR))"] h 1(3) by simp
    moreover have "c2 a = c a" using g [of "v + 1" "c(int v := (b q, RED_CHAR))"] h 1(3) by simp
    ultimately show ?thesis
      using True h 1(1) [OF True refl] 1(2) [OF True refl] 1(3) by (subst halt_screen.simps) (auto simp: Let_def fun_upd_def)
  qed (subst halt_screen.simps, simp)
qed

lemma halt_screen_shows:
  assumes t: "text_behind b p n" and "k \<le> j" "j < 25" "i < n"
  shows "halt_screen b p (p + 1) (640 * k) c (640 * int j + int i) = (b (p + 1 + of_nat i), RED_CHAR)"
  using assms(2,3)
proof (induction "j - k" arbitrary: k c)
  case 0
  have n: "n \<le> 640" "0 < n" using t by (simp_all add: text_behind_def)
  have "halt_screen b p (p + 1) (640 * k) c = halt_screen b p (p + 1) (640 * Suc k) (halt_block b p n k 0 c)"
    using halt_screen_block [OF t, of k 0 c] 0 n by simp
  then show ?case using 0 n assms(4) by (simp add: halt_screen_below) (simp add: halt_block_def)
next
  case (Suc d)
  have "halt_screen b p (p + 1) (640 * k) c = halt_screen b p (p + 1) (640 * Suc k) (halt_block b p n k 0 c)"
    using halt_screen_block [OF t, of k 0 c] Suc t by (simp add: text_behind_def)
  then show ?case using Suc(1) [of "Suc k"] Suc(2-) by simp
qed

text \<open>Every screenful of the video memory, wherever it starts, contains a whole block.\<close>

lemma block_in_window:
  assumes "0 \<le> w" "w + 2000 \<le> 16384"
  obtains j :: nat where "w \<le> 640 * int j" "640 * int j + 640 \<le> w + 2000" "j < 25"
proof -
  define j where "j = nat ((w + 639) div 640)"
  have "int j = (w + 639) div 640" using assms by (simp add: j_def)
  then have "w + 639 = 640 * int j + (w + 639) mod 640" by simp
  then show ?thesis using assms that [of j] pos_mod_sign [of 640 "w + 639"] pos_mod_bound [of 640 "w + 639"] by linarith
qed

subsection \<open>Texts in memory\<close>

lemma unat_of_char8: "unat (of_char c :: u8) = of_char c"
proof -
  have "(of_char c :: u8) = of_nat (of_char c)" by (simp only: of_nat_of_char)
  then have "unat (of_char c :: u8) = of_char c mod 256" by (simp only: unat_of_nat) simp
  then show ?thesis by (simp only: of_char_mod_256)
qed

lemma char_of_of_char8 [simp]: "char_of (unat (of_char c :: u8)) = c"
  by (simp add: unat_of_char8)

lemma of_char8_eq [simp]: "(of_char c :: u8) = of_char d \<longleftrightarrow> c = d"
  by (metis char_of_of_char8)

lemma of_char8_zero [simp]: "(of_char c :: u8) = 0 \<longleftrightarrow> c = CHR 0x00"
  using of_char8_eq [of c "CHR 0x00"] by simp

lemma c_string_at:
  assumes "length t < 2 ^ 32"
  shows "i < length t \<Longrightarrow> phys_write b p (c_string t) (p + of_nat i) = of_char (t ! i)"
    "phys_write b p (c_string t) (p + of_nat (length t)) = 0"
  using assms by (simp_all add: phys_write_def c_string_def nth_append unat_of_nat)

lemma read_cstr_text:
  assumes "\<And>i. i < length bs \<Longrightarrow> m (p + of_nat i) = bs ! i" "m (p + of_nat (length bs)) = 0" "0 \<notin> set bs" "length bs < n"
  shows "read_cstr n m p = Some bs"
  using assms
proof (induction bs arbitrary: p n)
  case Nil
  then show ?case by (cases n) simp_all
next
  case (Cons x xs)
  obtain k where n: "n = Suc k" using Cons.prems(4) by (cases n) simp_all
  have x: "m p = x" "x \<noteq> 0" using Cons.prems(1) [of 0] Cons.prems(3) by simp_all
  have "read_cstr k m (p + 1) = Some xs"
    by (rule Cons.IH) (use Cons.prems(1) [of "Suc _"] Cons.prems(2-4) n in \<open>simp_all add: add.assoc\<close>)
  then show ?case using x n by simp
qed

lemma read_cstr_written:
  assumes "CHR 0x00 \<notin> set t" "length t < n" "length t < 2 ^ 32"
  shows "read_cstr n (phys_write b p (c_string t)) p = Some (map of_char t)"
  by (rule read_cstr_text) (use assms c_string_at [OF assms(3)] in auto)

lemma panic_text:
  "format_into 1024 ''%c !!panic!! %s'' [Num 2, Str t] =
    (if length t < 1012 then Inr (CHR 0x02 # '' !!panic!! '' @ t) else if length t < 1024 then Inl (Fault ''buf'') else Inl (Fault ''tmp''))"
  by (simp add: format_into_def vsprintf_def convert_def s32_def char_of_def)

text \<open>The text of a failed assertion, without the magic character.\<close>

definition assert_message :: "string \<Rightarrow> string \<Rightarrow> string \<Rightarrow> int \<Rightarrow> string" where
  "assert_message exp srcf basef line =
     '' assert('' @ exp @ '') failed: file: '' @ srcf @ '', base_file: '' @ basef @ '', line: '' @ i2a line 10"

lemma assert_text:
  assumes "length exp + length srcf + length basef < 900" "0 \<le> line" "line < 2 ^ 31"
  shows "format_into 1024 ''%c assert(%s) failed: file: %s, base_file: %s, line: %d'' [Num 3, Str exp, Str srcf, Str basef, Num line] =
    Inr (CHR 0x03 # assert_message exp srcf basef line)"
proof -
  have "length (i2a line 10) \<le> 10" using assms by (intro i2a_length) simp_all
  then show ?thesis using assms by (simp add: format_into_def vsprintf_def convert_def s32_def char_of_def assert_message_def)
qed

lemma spin_text:
  assumes "length func < 1000"
  shows "format_into 1024 ([CHR 0x0A] @ ''spinning in %s ...'' @ [CHR 0x0A]) [Str func] = Inr (CHR 0x0A # ''spinning in '' @ func @ '' ...'' @ [CHR 0x0A])"
  using assms by (simp add: format_into_def vsprintf_def convert_def s32_def)

text \<open>A text that the screen shows as it is: no zero, no backspace and neither of the magic characters.\<close>

definition plain :: "string \<Rightarrow> bool" where
  "plain t \<longleftrightarrow> (\<forall>c \<in> set t. c \<noteq> CHR 0x00 \<and> c \<noteq> CHR 0x02 \<and> c \<noteq> CHR 0x03 \<and> c \<noteq> CHR 0x08)"

lemma plain_append [simp]: "plain (s @ t) \<longleftrightarrow> plain s \<and> plain t" "plain (c # t) \<longleftrightarrow> c \<noteq> CHR 0x00 \<and> c \<noteq> CHR 0x02 \<and> c \<noteq> CHR 0x03 \<and> c \<noteq> CHR 0x08 \<and> plain t" "plain []"
  by (auto simp: plain_def)

lemma decimal_plain: "decimal ds \<Longrightarrow> plain ds"
  unfolding plain_def decimal_def by force

lemma sys_printx_at:
  assumes "own_address (kern s) process buf = Inr p"
  shows "sys_printx n buf process s =
     (if mem8 s p = MAGIC_CHAR_PANIC \<or> (mem8 s p = MAGIC_CHAR_ASSERT \<and> p_proc_ready (kern s) < NR_TASKS) then Inl (Panic ''hlt'')
      else case read_cstr n (mem8 s) p of
           None \<Rightarrow> Inl (Hang ''sys_printx'')
         | Some bs \<Rightarrow> tty_out_bytes (tty_console (tty_table s 0))
             (filter (\<lambda>b. b \<noteq> MAGIC_CHAR_PANIC \<and> b \<noteq> MAGIC_CHAR_ASSERT) bs) s)"
  using assms unfolding sys_printx_def own_address_def [symmetric] by simp

lemma printx_halts:
  assumes "own_address (kern s) process buf = Inr p"
    and "mem8 s p = MAGIC_CHAR_PANIC \<or> (mem8 s p = MAGIC_CHAR_ASSERT \<and> p_proc_ready (kern s) < NR_TASKS)"
  shows "sys_printx n buf process s = Inl (Panic ''hlt'')"
  using assms(2) by (simp add: sys_printx_at [OF assms(1)])

lemma plain_filter: "plain t \<Longrightarrow> filter (\<lambda>b. b \<noteq> 2 \<and> b \<noteq> 3) (map of_char t) = (map of_char t :: u8 list)"
proof (rule filter_True)
  assume t: "plain t"
  have "(of_char c :: u8) \<noteq> 2 \<and> (of_char c :: u8) \<noteq> 3" if "c \<in> set t" for c
    using t that of_char8_eq [of c "CHR 0x02"] of_char8_eq [of c "CHR 0x03"] by (auto simp: plain_def)
  then show "\<forall>b \<in> set (map of_char t). b \<noteq> 2 \<and> b \<noteq> (3 :: u8)" by auto
qed

lemma printl_shows:
  assumes addr: "own_address (kern s) process buf = Inr p" and t: "format_into 1024 format args = Inr (m @ t)" "plain t"
    and m: "m = [] \<or> (m = [CHR 0x03] \<and> NR_TASKS \<le> p_proc_ready (kern s))"
    and ok: "con_ok (console_table (scr s) (tty_console (tty_table s 0)))"
  shows "\<exists>v. out_chars (tty_console (tty_table s 0)) t (scr s) = Inr v \<and> con_ok (console_table v (tty_console (tty_table s 0))) \<and>
    printl process buf format args s = Inr (int (length (m @ t)), s\<lparr>mem8 := phys_write (mem8 s) p (c_string (m @ t)), scr := v\<rparr>)"
proof -
  let ?b = "phys_write (mem8 s) p (c_string (m @ t))"
  have len: "length (m @ t) < 1024" using t(1) by (cases "vsprintf format args") (simp_all add: format_into_def split: if_splits)
  have z: "CHR 0x00 \<notin> set t" using t(2) unfolding plain_def by blast
  have "CHR 0x00 \<notin> set (m @ t)" using z m by (elim disjE) simp_all
  then have rd: "read_cstr 1024 ?b p = Some (map of_char (m @ t))" using len by (intro read_cstr_written) simp_all
  have first: "?b p = of_char (hd (m @ t @ [CHR 0x00]))"
    unfolding phys_write_def c_string_def by (cases "m @ t") (simp_all flip: append_assoc)
  have "\<not> (?b p = 2 \<or> ?b p = 3 \<and> p_proc_ready (kern s) < NR_TASKS)"
    using m
  proof
    assume e: "m = []"
    have "hd (t @ [CHR 0x00]) \<noteq> CHR 0x02 \<and> hd (t @ [CHR 0x00]) \<noteq> CHR 0x03" using t(2) by (cases t) simp_all
    then show ?thesis using first of_char8_eq [of "hd (t @ [CHR 0x00])" "CHR 0x02"] of_char8_eq [of "hd (t @ [CHR 0x00])" "CHR 0x03"]
      by (simp add: e)
  qed (use first in simp)
  moreover have "filter (\<lambda>b. b \<noteq> 2 \<and> b \<noteq> 3) (map of_char (m @ t)) = (map of_char t :: u8 list)"
    using m plain_filter [OF t(2)] by (elim disjE) simp_all
  moreover obtain v where v: "out_chars (tty_console (tty_table s 0)) t (scr s) = Inr v" "con_ok (console_table v (tty_console (tty_table s 0)))"
    using out_chars_total [OF ok, of t] t(2) by (auto simp: plain_def)
  ultimately have "sys_printx 1024 buf process (s\<lparr>mem8 := ?b\<rparr>) = Inr (s\<lparr>mem8 := ?b, scr := v\<rparr>)"
    using rd sys_printx_at [of "s\<lparr>mem8 := ?b\<rparr>" process buf p 1024] addr by (simp add: tty_out_bytes_scr comp_def)
  then show ?thesis using addr t(1) v by (simp add: printl_def)
qed

subsection \<open>What a failure shows\<close>

text \<open>
  C14: \<open>panic()\<close> never returns and its message can be read: the machine stops, and every screenful
  of the video memory, whichever console is on display and however far it is scrolled, contains
  the whole message in red.
\<close>

theorem panic_on_screen:
  assumes "own_address (kern s) process buf = Inr p" "vsprintf format args = Inr t" "length t < 256"
  shows "let msg = '' !!panic!! '' @ before_nul t; b = phys_write (mem8 s) p (c_string (CHR 0x02 # msg)) in
    panic process buf format args s = (Inl (Panic ''hlt'') :: 'a res) \<and>
    (\<forall>w. 0 \<le> w \<longrightarrow> w + SCREEN_SIZE \<le> VIDEO_MEM_SIZE div 2 \<longrightarrow>
      (\<exists>r\<ge>w. r + int (length msg) \<le> w + SCREEN_SIZE \<and>
        (\<forall>i<length msg. halt_screen b p (p + 1) 0 (vram (scr s)) (r + int i) = (of_char (msg ! i), RED_CHAR))))"
proof -
  define msg where "msg = '' !!panic!! '' @ before_nul t"
  define b where "b = phys_write (mem8 s) p (c_string (CHR 0x02 # msg))"
  have len: "length (before_nul t) < 256" unfolding before_nul_def using assms(3) length_takeWhile_le le_less_trans by blast
  have nz: "CHR 0x00 \<notin> set msg" by (auto simp: msg_def before_nul_def dest: set_takeWhileD)
  have n: "length msg < 640" "0 < length msg" using len by (simp_all add: msg_def)
  have at: "b (p + 1 + of_nat i) = of_char (msg ! i)" if "i < length msg" for i
    using c_string_at(1) [of "CHR 0x02 # msg" "Suc i" "mem8 s" p] n that by (simp add: b_def add.assoc)
  moreover have "b (p + 1 + of_nat (length msg)) = 0"
    using c_string_at(2) [of "CHR 0x02 # msg" "mem8 s" p] n by (simp add: b_def add.assoc)
  ultimately have behind: "text_behind b p (length msg)" using n nz by (auto simp: text_behind_def in_set_conv_nth)
  have "b p = 2" using c_string_at(1) [of "CHR 0x02 # msg" 0 "mem8 s" p] n by (simp add: b_def)
  then have "sys_printx 1024 buf process (s\<lparr>mem8 := b\<rparr>) = Inl (Panic ''hlt'')"
    using printx_halts [of "s\<lparr>mem8 := b\<rparr>"] assms(1) by simp
  then have "panic process buf format args s = (Inl (Panic ''hlt'') :: 'a res)"
    using assms len by (simp add: panic_def format_into_def [of 256] printl_def panic_text b_def msg_def)
  moreover have "\<exists>r\<ge>w. r + int (length msg) \<le> w + SCREEN_SIZE \<and>
      (\<forall>i<length msg. halt_screen b p (p + 1) 0 (vram (scr s)) (r + int i) = (of_char (msg ! i), RED_CHAR))"
    if w: "0 \<le> w" "w + SCREEN_SIZE \<le> VIDEO_MEM_SIZE div 2" for w
  proof -
    have "w + 2000 \<le> 16384" using w(2) by simp
    from block_in_window [OF w(1) this] obtain j where j: "w \<le> 640 * int j" "640 * int j + 640 \<le> w + 2000" "j < 25" .
    have "halt_screen b p (p + 1) 0 (vram (scr s)) (640 * int j + int i) = (of_char (msg ! i), RED_CHAR)" if "i < length msg" for i
      using halt_screen_shows [OF behind, of 0 j i "vram (scr s)"] j(3) that at by simp
    then show ?thesis using j n by (intro exI [of _ "640 * int j"]) auto
  qed
  ultimately show ?thesis unfolding Let_def msg_def [symmetric] b_def [symmetric] by simp
qed

theorem panic_on_screen_witness:
  "\<exists>b r. panic 1 0x100 ''no %s'' [Str ''tty''] demo_tty = (Inl (Panic ''hlt'') :: unit res) \<and> 14384 \<le> r \<and> r \<le> 16367 \<and>
     halt_screen b 0x100 0x101 0 (vram demo_screen) (r + 11) = (of_char (CHR ''n''), RED_CHAR)"
proof -
  have "own_address (kern demo_tty) 1 0x100 = Inr 0x100"
    by (simp add: own_address_def va2la_def Let_def demo_tty_def ldt_seg_linear_def zero_process_def zero_desc_def)
  moreover have "vsprintf ''no %s'' [Str ''tty''] = Inr ''no tty''" by (simp add: vsprintf_def convert_def)
  moreover have "scr demo_tty = demo_screen" by (simp add: demo_tty_def)
  moreover have "'' !!panic!! '' @ before_nul ''no tty'' = '' !!panic!! no tty''" "length '' !!panic!! no tty'' = 17" "length ''no tty'' < 256" by (simp_all add: before_nul_def)
  ultimately obtain b where b: "panic 1 0x100 ''no %s'' [Str ''tty''] demo_tty = (Inl (Panic ''hlt'') :: unit res)"
    "\<And>w. 0 \<le> w \<Longrightarrow> w + 2000 \<le> 16384 \<Longrightarrow> \<exists>r\<ge>w. r + 17 \<le> w + 2000 \<and>
      (\<forall>i<17. halt_screen b 0x100 0x101 0 (vram demo_screen) (r + int i) = (of_char (('' !!panic!! no tty'') ! i), RED_CHAR))"
    using panic_on_screen [where s = demo_tty and process = 1 and buf = "0x100" and p = "0x100" and format = "''no %s''" and args = "[Str ''tty'']" and t = "''no tty''" and 'a = unit]
    by (simp add: Let_def del: append.simps list.size) blast
  from b(2) [of 14384] obtain r where r: "14384 \<le> r" "r + 17 \<le> 16384"
    "\<And>i. i < 17 \<Longrightarrow> halt_screen b 0x100 0x101 0 (vram demo_screen) (r + int i) = (of_char (('' !!panic!! no tty'') ! i), RED_CHAR)" by auto
  show ?thesis using b(1) r(1,2) r(3) [of 11] by (intro exI [of _ b] exI [of _ r]) simp
qed

text \<open>
  C1: A failed assertion stops whoever made it and is reported. In a task the machine halts; in a
  user process the message appears on the first terminal, the console stays well formed, and the
  process goes no further than \<open>spin()\<close>.
\<close>

theorem assertion_failure_reports:
  assumes "own_address (kern s) process buf = Inr p" "length exp + length srcf + length basef < 900" "0 \<le> line" "line < 2 ^ 31"
    "plain exp" "plain srcf" "plain basef" "con_ok (console_table (scr s) (tty_console (tty_table s 0)))"
  shows "if p_proc_ready (kern s) < NR_TASKS
    then assertion_failure process buf exp srcf basef line s = (Inl (Panic ''hlt'') :: 'a res)
    else \<exists>n s1. printl process buf ''%c assert(%s) failed: file: %s, base_file: %s, line: %d'' [Num 3, Str exp, Str srcf, Str basef, Num line] s = Inr (n, s1) \<and>
      out_chars (tty_console (tty_table s 0)) (assert_message exp srcf basef line) (scr s) = Inr (scr s1) \<and>
      con_ok (console_table (scr s1) (tty_console (tty_table s 0))) \<and>
      assertion_failure process buf exp srcf basef line s = (Inl (Hang ''spin'') :: 'a res)"
proof (cases "p_proc_ready (kern s) < NR_TASKS")
  case True
  let ?b = "phys_write (mem8 s) p (c_string (CHR 0x03 # assert_message exp srcf basef line))"
  have "?b p = 3" by (simp add: phys_write_def c_string_def)
  then have "sys_printx 1024 buf process (s\<lparr>mem8 := ?b\<rparr>) = Inl (Panic ''hlt'')"
    using printx_halts [of "s\<lparr>mem8 := ?b\<rparr>"] assms(1) True by simp
  then show ?thesis using assms(1) True assert_text [OF assms(2-4)] by (simp add: assertion_failure_def printl_def)
next
  case False
  let ?t = "assert_message exp srcf basef line" and ?a = "[Num 3, Str exp, Str srcf, Str basef, Num line]"
  have "plain ?t" using assms(5-7) i2a_decimal [OF assms(3)] decimal_plain by (simp add: assert_message_def)
  then obtain v where v: "out_chars (tty_console (tty_table s 0)) ?t (scr s) = Inr v" "con_ok (console_table v (tty_console (tty_table s 0)))"
    "printl process buf ''%c assert(%s) failed: file: %s, base_file: %s, line: %d'' [Num 3, Str exp, Str srcf, Str basef, Num line] s =
      Inr (int (length ?t) + 1, s\<lparr>mem8 := phys_write (mem8 s) p (c_string (CHR 0x03 # ?t)), scr := v\<rparr>)"
    using printl_shows [OF assms(1), where m = "[CHR 0x03]" and t = ?t and args = ?a, OF _ _ _ assms(8)] assert_text [OF assms(2-4)] False
    by (auto simp: add.commute [of 1])
  define s1 where "s1 = s\<lparr>mem8 := phys_write (mem8 s) p (c_string (CHR 0x03 # ?t)), scr := v\<rparr>"
  have s1: "own_address (kern s1) process buf = Inr p" "con_ok (console_table (scr s1) (tty_console (tty_table s1 0)))"
    using assms(1) v(2) by (simp_all add: s1_def)
  obtain r where "printl process buf ([CHR 0x0A] @ ''spinning in %s ...'' @ [CHR 0x0A]) [Str ''assertion_failure()''] s1 = Inr r"
    using printl_shows [OF s1(1), of _ _ "[]", OF _ _ _ s1(2), unfolded append_Nil, OF spin_text [of "''assertion_failure()''"]] by auto
  then have "spin process buf ''assertion_failure()'' s1 = (Inl (Hang ''spin'') :: 'a res)" by (simp add: spin_def)
  then show ?thesis using v False by (simp add: assertion_failure_def s1_def)
qed

theorem assertion_failure_reports_witness:
  "\<exists>n s1. printl 6 0x100 ''%c assert(%s) failed: file: %s, base_file: %s, line: %d''
      [Num 3, Str ''pid > 0'', Str ''a.c'', Str ''a.c'', Num 12] (demo_tty\<lparr>kern := (kern demo_tty)\<lparr>p_proc_ready := 6\<rparr>\<rparr>) = Inr (n, s1) \<and>
    out_chars 0 '' assert(pid > 0) failed: file: a.c, base_file: a.c, line: 12'' demo_screen = Inr (scr s1)"
proof -
  let ?s = "demo_tty\<lparr>kern := (kern demo_tty)\<lparr>p_proc_ready := 6\<rparr>\<rparr>"
  have "own_address (kern ?s) 6 0x100 = Inr 0x100"
    by (simp add: own_address_def va2la_def Let_def demo_tty_def ldt_seg_linear_def zero_process_def zero_desc_def)
  moreover have "con_ok (console_table (scr ?s) (tty_console (tty_table ?s 0)))" by (simp add: demo_tty_def demo_screen_ok put_key_def)
  moreover have "tty_console (tty_table ?s 0) = 0" "scr ?s = demo_screen" "p_proc_ready (kern ?s) = 6" by (simp_all add: demo_tty_def put_key_def)
  moreover have "assert_message ''pid > 0'' ''a.c'' ''a.c'' 12 = '' assert(pid > 0) failed: file: a.c, base_file: a.c, line: 12''"
    by (simp add: assert_message_def i2a.simps c_div_def c_mod_def digit_def char_of_def)
  ultimately show ?thesis
    using assertion_failure_reports [where s = ?s and process = 6 and buf = "0x100" and p = "0x100" and exp = "''pid > 0''" and srcf = "''a.c''" and basef = "''a.c''" and line = 12 and 'a = unit]
    by (auto simp: plain_def)
qed

end
