(* ===== verification/Userio.thy ===== *)
theory Userio
  imports Print
begin

section \<open>A process, the file system and the terminals together\<close>

text \<open>
  The way of a process's requests to the file system task and from there to the terminal task:
  \<open>user_trap\<close> is an instance of the trap of the library routines in which the requests are served
  by \<open>task_fs_msg\<close>, and what the file system sends on to a driver by \<open>task_tty_msg\<close>; \<open>tty_key\<close> is one
  round of the terminal task with the answer it may give. Both tasks see the same memory and
  the same process table. \<open>u_answer\<close> is the answer to the process's request, when there is one.
\<close>

record user_state =
  u_fs :: fs
  u_tty :: tty_state
  u_mem :: "u32 \<Rightarrow> u8"
  u_kern :: kernel
  u_answer :: "MESSAGE option"

definition fs_view :: "user_state \<Rightarrow> fs" where
  "fs_view s = (u_fs s)\<lparr>fs_kern := u_kern s, fs_mem := u_mem s, fs_outbox := []\<rparr>"

definition tty_view :: "user_state \<Rightarrow> tty_state" where
  "tty_view s = (u_tty s)\<lparr>kern := u_kern s, mem8 := u_mem s, outbox := []\<rparr>"

text \<open>The terminal task serves a message of the file system, which waits for the answer.\<close>

definition tty_serves :: "u32 \<Rightarrow> tty_state \<Rightarrow> MESSAGE \<Rightarrow> (MESSAGE \<times> tty_state) res" where
  "tty_serves loc t m =
     bindE (task_tty_msg loc (m\<lparr>source := TASK_FS\<rparr>) (t\<lparr>outbox := []\<rparr>)) (\<lambda>t1.
       case outbox t1 of [(d, a)] \<Rightarrow> Inr (a\<lparr>source := TASK_TTY\<rparr>, t1) | _ \<Rightarrow> Inl (Blocked ''send_recv''))"

definition tty_reply :: "u32 \<Rightarrow> tty_state \<Rightarrow> MESSAGE \<Rightarrow> MESSAGE" where
  "tty_reply loc t m = (case tty_serves loc t m of Inl e \<Rightarrow> m | Inr (a, t1) \<Rightarrow> a)"

fun tty_serves_all :: "u32 \<Rightarrow> (int \<times> MESSAGE) list \<Rightarrow> tty_state \<Rightarrow> tty_state res" where
  "tty_serves_all loc [] t = Inr t"
| "tty_serves_all loc ((d, m) # ms) t =
     (if d = TASK_TTY then bindE (tty_serves loc t m) (\<lambda>(a, t1). tty_serves_all loc ms t1) else tty_serves_all loc ms t)"

definition answer_to :: "int \<Rightarrow> (int \<times> MESSAGE) list \<Rightarrow> MESSAGE option" where
  "answer_to p ms = map_option (\<lambda>(d, a). a\<lparr>source := TASK_FS\<rparr>) (find (\<lambda>(d, a). d = p) ms)"

text \<open>
  A system call of process \<open>p\<close>: the request goes to the file system; the answer is there when the
  process receives, unless the file system keeps the process waiting.
\<close>

definition user_trap :: "u32 \<Rightarrow> u32 \<Rightarrow> MESSAGE \<Rightarrow> int \<Rightarrow> user_state trap" where
  "user_trap loc_fs loc_tty junk p fn dest m s =
     (if dest \<noteq> TASK_FS then Inl (Blocked ''sendrec'')
      else if fn = SEND then
        bindE (task_fs_msg junk loc_fs (tty_reply loc_tty (tty_view s)) (m\<lparr>source := p\<rparr>) (fs_view s)) (\<lambda>f.
        bindE (tty_serves_all loc_tty (fs_outbox f) ((tty_view s)\<lparr>kern := fs_kern f, mem8 := fs_mem f\<rparr>)) (\<lambda>t.
          Inr (0, m\<lparr>source := p\<rparr>, s\<lparr>u_fs := f, u_tty := t, u_mem := mem8 t, u_kern := kern t, u_answer := answer_to p (fs_outbox f)\<rparr>)))
      else case u_answer s of None \<Rightarrow> Inl (Blocked ''receive'') | Some a \<Rightarrow> Inr (0, a, s\<lparr>u_answer := None\<rparr>))"

text \<open>
  One round of the terminal task for terminal \<open>n\<close>: it takes a key and may tell the file system that
  the line is complete, which then answers the process.
\<close>

definition tty_key :: "u32 \<Rightarrow> u32 \<Rightarrow> MESSAGE \<Rightarrow> int \<Rightarrow> int \<Rightarrow> user_state \<Rightarrow> user_state res" where
  "tty_key loc_fs loc_tty junk p n s =
     bindE (tty_dev_write junk loc_tty n (tty_view s)) (\<lambda>t.
       case outbox t of
         [] \<Rightarrow> Inr (s\<lparr>u_tty := t, u_mem := mem8 t, u_kern := kern t\<rparr>)
       | (d, m) # ms \<Rightarrow>
           if d \<noteq> TASK_FS then Inl (Blocked ''send_recv'')
           else bindE (task_fs_msg junk loc_fs (\<lambda>m. m) (m\<lparr>source := TASK_TTY\<rparr>) (fs_view (s\<lparr>u_mem := mem8 t, u_kern := kern t\<rparr>))) (\<lambda>f.
             Inr (s\<lparr>u_fs := f, u_tty := t, u_mem := fs_mem f, u_kern := fs_kern f, u_answer := answer_to p (fs_outbox f)\<rparr>)))"

fun tty_key_rounds :: "u32 \<Rightarrow> u32 \<Rightarrow> MESSAGE \<Rightarrow> int \<Rightarrow> int \<Rightarrow> nat \<Rightarrow> user_state \<Rightarrow> user_state res" where
  "tty_key_rounds loc_fs loc_tty junk p n 0 s = Inr s"
| "tty_key_rounds loc_fs loc_tty junk p n (Suc k) s =
     bindE (tty_key loc_fs loc_tty junk p n s) (tty_key_rounds loc_fs loc_tty junk p n k)"

text \<open>The process stores bytes at an address of its data segment.\<close>

definition user_store :: "int \<Rightarrow> u32 \<Rightarrow> u8 list \<Rightarrow> user_state \<Rightarrow> user_state" where
  "user_store p a bs s =
     s\<lparr>u_mem := phys_write (u_mem s) (ldt_seg_linear (proc_table (u_kern s) p) INDEX_LDT_DATA + a) bs\<rparr>"

subsection \<open>printf on a terminal\<close>

text \<open>Descriptor \<open>fd\<close> of process \<open>p\<close> is open for reading and writing on terminal \<open>n\<close>.\<close>

definition tty_file :: "fs \<Rightarrow> int \<Rightarrow> int \<Rightarrow> int \<Rightarrow> bool" where
  "tty_file f p fd n \<longleftrightarrow> 0 \<le> fd \<and> fd < int NR_FILES \<and> (\<exists>d i. filp f p (nat fd) = Some d \<and> d < NR_FILE_DESC \<and>
     fd_mode (f_desc_table f d) AND O_RDWR \<noteq> 0 \<and> fd_inode (f_desc_table f d) = Some i \<and> i < NR_INODE \<and>
     i_mode (inode_table f i) AND I_TYPE_MASK = I_CHAR_SPECIAL \<and>
     MAJOR (sint (i_start_sect (inode_table f i))) = 4 \<and> MINOR (sint (i_start_sect (inode_table f i))) = n)"

lemma do_rdwt_tty:
  assumes "tty_file s (pcaller s) (m3i1 (fs_msg s)) n"
  shows "do_rdwt reply s =
     (let m = fs_msg s;
          m1 = m\<lparr>mtype := (if mtype m = READ then DEV_READ else DEV_WRITE), m3i4 := n, m3i3 := source m\<rparr>
      in assertE (m3i2 (reply m1) = m3i2 m) ''fs_msg.CNT == len''
           (Inr (m3i2 (reply m1), s\<lparr>fs_outbox := fs_outbox s @ [(TASK_TTY, m1)], fs_msg := reply m1\<rparr>)))"
proof -
  from assms obtain d i where *: "filp s (pcaller s) (nat (m3i1 (fs_msg s))) = Some d" "d < NR_FILE_DESC"
    "fd_mode (f_desc_table s d) AND O_RDWR \<noteq> 0" "fd_inode (f_desc_table s d) = Some i" "i < NR_INODE"
    "i_mode (inode_table s i) AND I_TYPE_MASK = I_CHAR_SPECIAL" "MAJOR (sint (i_start_sect (inode_table s i))) = 4"
    "MINOR (sint (i_start_sect (inode_table s i))) = n" "0 \<le> m3i1 (fs_msg s)" "m3i1 (fs_msg s) < int NR_FILES"
    by (auto simp: tty_file_def)
  then have "driver (sint (i_start_sect (inode_table s i))) = Inr TASK_TTY" by (simp add: driver_def dd_map_def)
  with * show ?thesis by (simp add: do_rdwt_def rdwt_special_def Let_def)
qed

lemma phys_read_c_string:
  assumes "length t < 2 ^ 32"
  shows "phys_read (phys_write b p (c_string t)) p (length t) = map of_char t"
  using c_string_at(1) [OF assms] by (intro nth_equalityI) simp_all

lemma tty_serves_write:
  assumes "tty_flat t" "va2la (kern t) (m3i3 m) (m3p2 m) = Inr p" "mtype m = DEV_WRITE" "0 \<le> m3i2 m"
    "out_chars (tty_console (tty_table t (m3i4 m))) (map (\<lambda>b. char_of (unat b)) (phys_read (mem8 t) p (nat (m3i2 m)))) (scr t) = Inr v"
  shows "tty_serves loc t m = Inr (m\<lparr>mtype := SYSCALL_RET, source := TASK_TTY\<rparr>,
    t\<lparr>scr := v, outbox := [(TASK_FS, m\<lparr>source := TASK_FS, mtype := SYSCALL_RET\<rparr>)]\<rparr>)"
proof -
  have "tty_flat (t\<lparr>outbox := []\<rparr>)" using assms(1) by (simp add: tty_flat_def)
  then show ?thesis using assms(2-) by (simp add: tty_serves_def task_tty_msg_def tty_do_write_def tty_write_loop_eq tty_send_def)
qed

lemma tty_serves_read:
  assumes "va2la (kern t) (m3i3 m) (m3p2 m) = Inr p" "mtype m = DEV_READ"
  shows "tty_serves loc t m = Inr (m\<lparr>mtype := SUSPEND_PROC, source := TASK_TTY\<rparr>,
    upd_tty (m3i4 m) (\<lambda>x. x\<lparr>tty_caller := TASK_FS, tty_procnr := m3i3 m, tty_req_buf := p, tty_left_cnt := m3i2 m, tty_trans_cnt := 0\<rparr>)
      (t\<lparr>outbox := [(TASK_FS, m\<lparr>source := TASK_FS, mtype := SUSPEND_PROC\<rparr>)]\<rparr>))"
  using assms by (simp add: tty_serves_def task_tty_msg_def tty_do_read_def tty_send_def upd_tty_def)

text \<open>A request for a terminal: the file system passes it on and takes over the terminal's answer \<open>a\<close>.\<close>

lemma user_trap_tty:
  assumes "tty_file (fs_view s) p (m3i1 m) n" "mtype m = READ \<or> mtype m = WRITE" "p \<noteq> TASK_TTY"
  defines "m1 \<equiv> m\<lparr>mtype := (if mtype m = READ then DEV_READ else DEV_WRITE), m3i4 := n, m3i3 := p, source := p\<rparr>"
  assumes serve: "tty_serves loc_tty (tty_view s) m1 = Inr (a, t)" and cnt: "m3i2 a = m3i2 m"
  shows "\<exists>s1. user_trap loc_fs loc_tty junk p SEND TASK_FS m s = Inr (0, m\<lparr>source := p\<rparr>, s1) \<and>
    u_tty s1 = t \<and> u_mem s1 = mem8 t \<and> u_kern s1 = kern t \<and>
    u_answer s1 = (if mtype a = SUSPEND_PROC then None else Some (a\<lparr>mtype := SYSCALL_RET, source := TASK_FS\<rparr>)) \<and>
    f_desc_table (u_fs s1) = f_desc_table (u_fs s) \<and> inode_table (u_fs s1) = inode_table (u_fs s) \<and> disk (u_fs s1) = disk (u_fs s)"
proof -
  let ?m = "m\<lparr>source := p\<rparr>"
  define f0 where "f0 = (fs_view s)\<lparr>fs_msg := ?m, pcaller := p\<rparr>"
  have tf: "tty_file f0 (pcaller f0) (m3i1 (fs_msg f0)) n" using assms(1) by (simp add: f0_def tty_file_def)
  have m1: "(let m = fs_msg f0 in m\<lparr>mtype := (if mtype m = READ then DEV_READ else DEV_WRITE), m3i4 := n, m3i3 := source m\<rparr>) = m1"
    by (simp add: f0_def m1_def)
  have rdwt: "do_rdwt (tty_reply loc_tty (tty_view s)) f0 = Inr (m3i2 a, f0\<lparr>fs_outbox := [(TASK_TTY, m1)], fs_msg := a\<rparr>)"
    using do_rdwt_tty [OF tf, of "tty_reply loc_tty (tty_view s)"] serve cnt m1
    by (simp add: Let_def tty_reply_def f0_def fs_view_def)
  define f where "f = (if mtype a = SUSPEND_PROC then f0\<lparr>fs_outbox := [(TASK_TTY, m1)], fs_msg := a\<rparr>
     else f0\<lparr>fs_outbox := [(TASK_TTY, m1), (p, a\<lparr>mtype := SYSCALL_RET\<rparr>)], fs_msg := a\<lparr>mtype := SYSCALL_RET\<rparr>\<rparr>)"
  have fs: "task_fs_msg junk loc_fs (tty_reply loc_tty (tty_view s)) ?m (fs_view s) = Inr f"
    using rdwt assms(2) by (auto simp: task_fs_msg_def f_def f0_def Let_def)
  have v: "(tty_view s)\<lparr>kern := fs_kern f, mem8 := fs_mem f\<rparr> = tty_view s" by (simp add: f_def f0_def fs_view_def tty_view_def)
  define s1 where "s1 = s\<lparr>u_fs := f, u_tty := t, u_mem := mem8 t, u_kern := kern t, u_answer := answer_to p (fs_outbox f)\<rparr>"
  have "tty_serves_all loc_tty (fs_outbox f) (tty_view s) = Inr t" using serve assms(3) by (simp add: f_def)
  then have "user_trap loc_fs loc_tty junk p SEND TASK_FS m s = Inr (0, ?m, s1)" by (simp add: user_trap_def fs v s1_def)
  then show ?thesis using assms(3)
    by (intro exI [of _ s1]) (simp add: s1_def f_def f0_def fs_view_def answer_to_def)
qed

text \<open>
  C11: \<open>printf()\<close> works: in a process whose standard output is open on a terminal with a well-formed
  console, it succeeds for every formatted text without a backspace that fits its buffer, returns
  the length, and the characters of the text, in order, are what the terminal's console prints. The
  console stays well formed and no table of the file system changes. (A backspace at the top of the
  window makes the console's scrolling loop run on; see \<open>out_char_backspace_hangs\<close>.)
\<close>

theorem printf_on_terminal:
  assumes "tty_file (fs_view s) p 1 n" "tty_flat (tty_view s)" "va2la (u_kern s) p buf = Inr la1" "p \<noteq> TASK_TTY"
    "vsprintf format args = Inr t" "length t < 1024" "CHR 0x08 \<notin> set t"
    "con_ok (console_table (scr (u_tty s)) (tty_console (tty_table (u_tty s) n)))"
  shows "\<exists>s'. printf (user_trap loc_fs loc_tty junk p) (user_store p) junk' buf format args s = Inr (int (length t), s') \<and>
    out_chars (tty_console (tty_table (u_tty s) n)) t (scr (u_tty s)) = Inr (scr (u_tty s')) \<and>
    con_ok (console_table (scr (u_tty s')) (tty_console (tty_table (u_tty s) n))) \<and>
    f_desc_table (u_fs s') = f_desc_table (u_fs s) \<and> inode_table (u_fs s') = inode_table (u_fs s) \<and> disk (u_fs s') = disk (u_fs s)"
proof -
  define s0 where "s0 = user_store p buf (c_string t) s"
  have la1: "la1 = ldt_seg_linear (proc_table (u_kern s) p) INDEX_LDT_DATA + buf"
    using assms(3) by (auto simp: va2la_def Let_def assertE_def split: if_splits)
  have s0: "u_mem s0 = phys_write (u_mem s) la1 (c_string t)" "u_kern s0 = u_kern s" "u_tty s0 = u_tty s" "u_fs s0 = u_fs s"
    by (simp_all add: s0_def user_store_def la1)
  obtain v where v: "out_chars (tty_console (tty_table (u_tty s) n)) t (scr (u_tty s)) = Inr v"
      "con_ok (console_table v (tty_console (tty_table (u_tty s) n)))" using out_chars_total [OF assms(8,7)] by blast
  define m where "m = junk'\<lparr>mtype := WRITE, m3i1 := 1, m3p2 := buf, m3i2 := int (length t)\<rparr>"
  define m1 where "m1 = m\<lparr>mtype := DEV_WRITE, m3i4 := n, m3i3 := p, source := p\<rparr>"
  define a where "a = m1\<lparr>mtype := SYSCALL_RET, source := TASK_TTY\<rparr>"
  have srv: "tty_serves loc_tty (tty_view s0) m1 = Inr (a,
      (tty_view s0)\<lparr>scr := v, outbox := [(TASK_FS, m1\<lparr>source := TASK_FS, mtype := SYSCALL_RET\<rparr>)]\<rparr>)"
    unfolding a_def
  proof (rule tty_serves_write)
    have "phys_read (u_mem s0) la1 (length t) = map of_char t"
      using phys_read_c_string [of t "u_mem s" la1] assms(6) by (simp add: s0(1))
    then show "out_chars (tty_console (tty_table (tty_view s0) (m3i4 m1)))
        (map (\<lambda>b. char_of (unat b)) (phys_read (mem8 (tty_view s0)) la1 (nat (m3i2 m1)))) (scr (tty_view s0)) = Inr v"
      using v(1) by (simp add: s0(3) m1_def m_def tty_view_def comp_def)
  qed (use assms(2,3) in \<open>simp_all add: m1_def m_def tty_view_def s0(2) tty_flat_def\<close>)
  have "tty_file (fs_view s0) p (m3i1 m) n" using assms(1) by (simp add: s0(2,4) fs_view_def tty_file_def m_def)
  from user_trap_tty [OF this _ assms(4), of loc_tty a _ loc_fs junk] srv obtain s1 where
    s1: "user_trap loc_fs loc_tty junk p SEND TASK_FS m s0 = Inr (0, m\<lparr>source := p\<rparr>, s1)" "scr (u_tty s1) = v"
      "u_answer s1 = Some (a\<lparr>mtype := SYSCALL_RET, source := TASK_FS\<rparr>)"
      "f_desc_table (u_fs s1) = f_desc_table (u_fs s)" "inode_table (u_fs s1) = inode_table (u_fs s)" "disk (u_fs s1) = disk (u_fs s)"
    by (auto simp: m_def m1_def a_def s0(4))
  have r: "user_trap loc_fs loc_tty junk p RECEIVE TASK_FS (m\<lparr>source := p\<rparr>) s1 =
      Inr (0, a\<lparr>mtype := SYSCALL_RET, source := TASK_FS\<rparr>, s1\<lparr>u_answer := None\<rparr>)" by (simp add: user_trap_def s1(3))
  have "m3i2 a = int (length t)" by (simp add: a_def m1_def m_def)
  then have "printf (user_trap loc_fs loc_tty junk p) (user_store p) junk' buf format args s = Inr (int (length t), s1\<lparr>u_answer := None\<rparr>)"
    using assms(5,6) s1(1) r
    by (simp add: printf_def format_into_def s0_def [symmetric] lib_write_def m_def [symmetric] call_def send_recv_def Let_def)
  then show ?thesis using v s1 by (intro exI [of _ "s1\<lparr>u_answer := None\<rparr>"]) simp
qed

text \<open>Process 6 has descriptor 1 open on terminal 1, in whose buffer the keys \<open>a\<close> and Enter wait.\<close>

definition demo_user :: user_state where
  "demo_user = \<lparr>u_fs = (demo_fs WRITE 0)\<lparr>inode_table := (\<lambda>i. demo_inode\<lparr>i_mode := I_CHAR_SPECIAL, i_start_sect := 0x401\<rparr>)\<rparr>,
     u_tty = demo_tty, u_mem = (\<lambda>_. 0), u_kern = (kern demo_tty)\<lparr>proc_table := (\<lambda>_. zero_process\<lparr>p_filp := [1 \<mapsto> 2]\<rparr>)\<rparr>, u_answer = None\<rparr>"

lemma demo_user_ok:
  "tty_file (fs_view demo_user) 6 1 1" "tty_flat (tty_view demo_user)" "va2la (u_kern demo_user) 6 0x100 = Inr 0x100" "u_tty demo_user = demo_tty"
  by (simp_all add: demo_user_def fs_view_def tty_view_def tty_file_def demo_fs_def demo_inode_def MAJOR_def MINOR_def
      tty_flat_def va2la_def ldt_seg_linear_def zero_process_def zero_desc_def)

theorem printf_on_terminal_witness:
  "\<exists>s'. printf (user_trap 0 0 zero_msg 6) (user_store 6) zero_msg 0x100 ''%d ok'' [Num 42] demo_user = Inr (5, s') \<and>
     out_chars 1 ''42 ok'' demo_screen = Inr (scr (u_tty s'))"
proof -
  have v: "vsprintf ''%d ok'' [Num 42] = Inr ''42 ok''"
    by (simp add: vsprintf_def convert_def s32_def i2a.simps c_div_def c_mod_def digit_def char_of_def)
  have c: "tty_console (tty_table demo_tty 1) = 1" "scr demo_tty = demo_screen" by (simp_all add: demo_tty_def put_key_def)
  from printf_on_terminal [OF demo_user_ok(1-3) _ v, where junk = zero_msg and junk' = zero_msg and loc_fs = 0 and loc_tty = 0]
  show ?thesis using demo_tty_ok(4) by (auto simp: demo_user_ok(4) c)
qed

subsection \<open>Reading a line\<close>

text \<open>Terminal \<open>n\<close> serves a request of \<open>p\<close>: the line so far and the keys that wait.\<close>

definition reading :: "int \<Rightarrow> nat \<Rightarrow> int \<Rightarrow> u32 \<Rightarrow> u8 list \<Rightarrow> u32 list \<Rightarrow> tty_state \<Rightarrow> bool" where
  "reading n cnt p buf line keys t \<longleftrightarrow> serving t n cnt line \<and> tty_inv (tty_table t n) \<and> tty_keys (tty_table t n) = keys \<and>
     con_ok (console_table (scr t) (tty_console (tty_table t n))) \<and> tty_flat t \<and> outbox t = [] \<and>
     tty_caller (tty_table t n) = TASK_FS \<and> tty_procnr (tty_table t n) = p \<and> tty_req_buf (tty_table t n) = buf"

lemma tty_view_idle: "outbox t = [] \<Longrightarrow> tty_view (s\<lparr>u_tty := t, u_mem := mem8 t, u_kern := kern t\<rparr>) = t"
  by (simp add: tty_view_def)

lemma tty_key_char:
  assumes "reading n cnt p buf line (key # keys) (tty_view s)" "0x20 \<le> (ucast key :: u8)" "(ucast key :: u8) \<le> 0x7e" "Suc (length line) < cnt"
  shows "\<exists>s'. tty_key loc_fs loc_tty junk p n s = Inr s' \<and> reading n cnt p buf (line @ [ucast key]) keys (tty_view s')"
proof -
  let ?t = "tty_view s" and ?c = "ucast key :: u8"
  from assms(1) have r: "serving ?t n cnt line" "tty_inv (tty_table ?t n)" "tty_keys (tty_table ?t n) = key # keys"
    "con_ok (console_table (scr ?t) (tty_console (tty_table ?t n)))" "tty_flat ?t" "outbox ?t = []"
    "tty_caller (tty_table ?t n) = TASK_FS" "tty_procnr (tty_table ?t n) = p" "tty_req_buf (tty_table ?t n) = buf" by (simp_all add: reading_def)
  have c: "\<not> (?c = 0x08 \<and> backs_out (console_table (scr ?t) (tty_console (tty_table ?t n))) (CHR 0x08))" "?c \<noteq> 0x0a" "edit ?c line = line @ [?c]"
    using assms(2,3) by (auto simp: edit_def)
  from tty_key_edits [OF r(1-4) c(1) r(5), of junk loc_tty] obtain t where t: "tty_dev_write junk loc_tty n ?t = Inr t" "tty_keys (tty_table t n) = keys"
    "tty_inv (tty_table t n)" "con_ok (console_table (scr t) (tty_console (tty_table t n)))" "kern t = kern ?t" "serving t n cnt (line @ [?c])" "outbox t = []"
    "tty_caller (tty_table t n) = TASK_FS" "tty_procnr (tty_table t n) = p" "tty_req_buf (tty_table t n) = buf"
    using assms(4) c(2,3) r(6-9) by (auto simp: Let_def)
  let ?s = "s\<lparr>u_tty := t, u_mem := mem8 t, u_kern := kern t\<rparr>"
  have "tty_key loc_fs loc_tty junk p n s = Inr ?s" using t(1,7) by (simp add: tty_key_def)
  moreover have "reading n cnt p buf (line @ [?c]) keys (tty_view ?s)"
    unfolding tty_view_idle [OF t(7)] reading_def using t r(5) by (simp add: tty_flat_def)
  ultimately show ?thesis by blast
qed

lemma tty_key_enter:
  assumes "reading n cnt p buf line (key # keys) (tty_view s)" "(ucast key :: u8) = 0x0a" "p \<noteq> TASK_TTY"
  shows "\<exists>s' a. tty_key loc_fs loc_tty junk p n s = Inr s' \<and> u_answer s' = Some a \<and> mtype a = SYSCALL_RET \<and> m3i2 a = int (length line) \<and>
    phys_read (u_mem s') buf (length line) = line \<and> tty_keys (tty_table (u_tty s') n) = keys"
proof -
  let ?t = "tty_view s" and ?c = "ucast key :: u8"
  from assms(1) have r: "serving ?t n cnt line" "tty_inv (tty_table ?t n)" "tty_keys (tty_table ?t n) = key # keys"
    "con_ok (console_table (scr ?t) (tty_console (tty_table ?t n)))" "tty_flat ?t" "outbox ?t = []"
    "tty_caller (tty_table ?t n) = TASK_FS" "tty_procnr (tty_table ?t n) = p" "tty_req_buf (tty_table ?t n) = buf" by (simp_all add: reading_def)
  have c: "\<not> (?c = 0x08 \<and> backs_out (console_table (scr ?t) (tty_console (tty_table ?t n))) (CHR 0x08))" "edit ?c line = line"
    using assms(2) by (auto simp: edit_def)
  define m where "m = junk\<lparr>mtype := RESUME_PROC, m3i3 := p, m3i2 := int (length line)\<rparr>"
  from tty_key_edits [OF r(1-4) c(1) r(5), of junk loc_tty] obtain t where t: "tty_dev_write junk loc_tty n ?t = Inr t" "tty_keys (tty_table t n) = keys"
    "phys_read (mem8 t) buf (length line) = line" "outbox t = [(TASK_FS, m)]"
    using assms(2) c(2) r(6-9) by (auto simp: Let_def m_def)
  define f where "f = (fs_view (s\<lparr>u_mem := mem8 t, u_kern := kern t\<rparr>))\<lparr>pcaller := TASK_TTY, fs_msg := m\<lparr>source := TASK_TTY, mtype := SYSCALL_RET\<rparr>,
      fs_outbox := [(p, m\<lparr>source := TASK_TTY, mtype := SYSCALL_RET\<rparr>)]\<rparr>"
  have "task_fs_msg junk loc_fs (\<lambda>m. m) (m\<lparr>source := TASK_TTY\<rparr>) (fs_view (s\<lparr>u_mem := mem8 t, u_kern := kern t\<rparr>)) = Inr f"
    by (simp add: task_fs_msg_def f_def m_def fs_view_def Let_def)
  then have "tty_key loc_fs loc_tty junk p n s = Inr (s\<lparr>u_fs := f, u_tty := t, u_mem := fs_mem f, u_kern := fs_kern f, u_answer := answer_to p (fs_outbox f)\<rparr>)"
    using t(1,4) by (simp add: tty_key_def)
  then show ?thesis using t(2,3) by (simp add: f_def answer_to_def fs_view_def m_def)
qed

lemma tty_key_line:
  assumes "reading n cnt p buf line (keys @ rest) (tty_view s)" "\<forall>k \<in> set keys. 0x20 \<le> (ucast k :: u8) \<and> (ucast k :: u8) \<le> 0x7e"
    "length line + length keys < cnt"
  shows "\<exists>s'. tty_key_rounds loc_fs loc_tty junk p n (length keys) s = Inr s' \<and> reading n cnt p buf (line @ map ucast keys) rest (tty_view s')"
  using assms
proof (induction keys arbitrary: line s)
  case (Cons k keys)
  then obtain s1 where s1: "tty_key loc_fs loc_tty junk p n s = Inr s1" "reading n cnt p buf (line @ [ucast k]) (keys @ rest) (tty_view s1)"
    using tty_key_char [of n cnt p buf line k "keys @ rest" s loc_fs loc_tty junk] by auto
  from Cons.IH [OF s1(2)] Cons.prems(2,3) s1(1) show ?case by auto
qed simp

lemma tty_key_rounds_snoc:
  "tty_key_rounds loc_fs loc_tty junk p n (Suc k) s = bindE (tty_key_rounds loc_fs loc_tty junk p n k s) (tty_key loc_fs loc_tty junk p n)"
proof (induction k arbitrary: s)
  case 0
  show ?case by (cases "tty_key loc_fs loc_tty junk p n s") simp_all
next
  case (Suc k)
  show ?case
    using Suc.IH by (cases "tty_key loc_fs loc_tty junk p n s") simp_all
qed

text \<open>
  C12: \<open>read()\<close> from a terminal works, for a line of printable characters shorter than the number
  asked for: the request keeps the process waiting; when the keys of the line and its end have been taken, the characters of the line lie in the process's buffer and the process is
  answered with their number, after exactly as many rounds of the terminal task as the line with
  its end has keys.
\<close>

theorem read_line_from_terminal:
  assumes "tty_file (fs_view s) p fd n" "tty_flat (tty_view s)" "va2la (u_kern s) p buf = Inr la1" "p \<noteq> TASK_TTY"
    "0 < cnt" "cnt < 2 ^ 31" "tty_inv (tty_table (u_tty s) n)" "con_ok (console_table (scr (u_tty s)) (tty_console (tty_table (u_tty s) n)))"
    "tty_keys (tty_table (u_tty s) n) = keys @ key # rest" "map ucast keys = line" "ucast key = (0x0a :: u8)"
    "\<forall>c \<in> set line. 0x20 \<le> c \<and> c \<le> 0x7e" "length line < cnt"
  shows "\<exists>s1 s2 a. user_trap loc_fs loc_tty junk p SEND TASK_FS (junk'\<lparr>mtype := READ, m3i1 := fd, m3p2 := buf, m3i2 := int cnt\<rparr>) s =
      Inr (0, junk'\<lparr>mtype := READ, m3i1 := fd, m3p2 := buf, m3i2 := int cnt, source := p\<rparr>, s1) \<and> u_answer s1 = None \<and>
    tty_key_rounds loc_fs loc_tty junk p n (length line + 1) s1 = Inr s2 \<and>
    u_answer s2 = Some a \<and> mtype a = SYSCALL_RET \<and> m3i2 a = int (length line) \<and>
    phys_read (u_mem s2) la1 (length line) = line \<and> tty_keys (tty_table (u_tty s2) n) = rest"
proof -
  define m where "m = junk'\<lparr>mtype := READ, m3i1 := fd, m3p2 := buf, m3i2 := int cnt\<rparr>"
  define m1 where "m1 = m\<lparr>mtype := DEV_READ, m3i4 := n, m3i3 := p, source := p\<rparr>"
  define t where "t = upd_tty n (\<lambda>x. x\<lparr>tty_caller := TASK_FS, tty_procnr := p, tty_req_buf := la1, tty_left_cnt := int cnt, tty_trans_cnt := 0\<rparr>)
      ((tty_view s)\<lparr>outbox := [(TASK_FS, m1\<lparr>source := TASK_FS, mtype := SUSPEND_PROC\<rparr>)]\<rparr>)"
  have srv: "tty_serves loc_tty (tty_view s) m1 = Inr (m1\<lparr>mtype := SUSPEND_PROC, source := TASK_TTY\<rparr>, t)"
    using tty_serves_read [of "tty_view s" m1 la1 loc_tty] assms(3) by (simp add: t_def m1_def m_def tty_view_def)
  have "tty_file (fs_view s) p (m3i1 m) n" using assms(1) by (simp add: m_def)
  from user_trap_tty [OF this _ assms(4), of loc_tty _ t loc_fs junk] srv obtain s1 where
    s1: "user_trap loc_fs loc_tty junk p SEND TASK_FS m s = Inr (0, m\<lparr>source := p\<rparr>, s1)"
      "u_tty s1 = t" "u_mem s1 = mem8 t" "u_kern s1 = kern t" "u_answer s1 = None" by (auto simp: m_def m1_def)
  have "tty_view s1 = t\<lparr>outbox := []\<rparr>" using s1(2-4) by (simp add: tty_view_def)
  then have "reading n cnt p la1 [] (keys @ key # rest) (tty_view s1)"
    using assms(2,5-9) by (simp add: reading_def t_def serving_def tty_view_def tty_flat_def phys_read_def tty_inv_def tty_keys_def)
  moreover have "\<forall>k \<in> set keys. 0x20 \<le> (ucast k :: u8) \<and> (ucast k :: u8) \<le> 0x7e" using assms(10,12) by auto
  moreover have "length keys = length line" using assms(10) by auto
  ultimately obtain s2 where s2: "tty_key_rounds loc_fs loc_tty junk p n (length line) s1 = Inr s2" "reading n cnt p la1 line (key # rest) (tty_view s2)"
    using tty_key_line [of n cnt p la1 "[]" keys "key # rest" s1 loc_fs loc_tty junk] assms(10,13) by auto
  from tty_key_enter [OF s2(2) assms(11,4), of loc_fs loc_tty junk] s2(1) s1(1,5) show ?thesis
    by (simp add: tty_key_rounds_snoc m_def del: tty_key_rounds.simps(2))
qed

theorem read_line_from_terminal_witness:
  "\<exists>s1 s2 a. user_trap 0 0 zero_msg 6 SEND TASK_FS (zero_msg\<lparr>mtype := READ, m3i1 := 1, m3p2 := 0x100, m3i2 := 80\<rparr>) demo_user =
      Inr (0, zero_msg\<lparr>mtype := READ, m3i1 := 1, m3p2 := 0x100, m3i2 := 80, source := 6\<rparr>, s1) \<and> u_answer s1 = None \<and>
    tty_key_rounds 0 0 zero_msg 6 1 2 s1 = Inr s2 \<and> u_answer s2 = Some a \<and> m3i2 a = 1 \<and> phys_read (u_mem s2) 0x100 1 = [0x61]"
proof -
  have "tty_inv (tty_table (u_tty demo_user) 1)" "tty_keys (tty_table (u_tty demo_user) 1) = [0x61] @ 0x0a # []"
    "con_ok (console_table (scr (u_tty demo_user)) (tty_console (tty_table (u_tty demo_user) 1)))"
    using demo_tty_ok by (simp_all add: demo_user_ok(4))
  moreover have "(6 :: int) \<noteq> TASK_TTY" "0 < (80 :: nat)" "(80 :: nat) < 2 ^ 31" "map ucast [0x61 :: u32] = [0x61 :: u8]" "ucast (0x0a :: u32) = (0x0a :: u8)"
    "\<forall>c \<in> set [0x61 :: u8]. 0x20 \<le> c \<and> c \<le> 0x7e" "length [0x61 :: u8] < 80" by simp_all
  moreover have "length [0x61 :: u8] + 1 = 2" "int (length [0x61 :: u8]) = 1" "length [0x61 :: u8] = 1" "int 80 = 80" by simp_all
  ultimately show ?thesis
    using read_line_from_terminal [OF demo_user_ok(1-3), of 80 "[0x61]" "0x0a" "[]" "[0x61]" 0 0 zero_msg zero_msg] by metis
qed

subsection \<open>printf in the file system task\<close>

text \<open>
  The trap of process \<open>p\<close>, whose message lies at \<open>mp\<close>, as the kernel's system call alone; the bytes
  of the process are not part of the kernel's state.
\<close>

definition kernel_trap :: "int \<Rightarrow> u32 \<Rightarrow> kernel trap" where
  "kernel_trap p mp fn dest m s =
     bindE (sys_sendrec fn dest mp p (s\<lparr>messages := (messages s)(mp := m)\<rparr>)) (\<lambda>s1. Inr (0, messages s1 mp, s1))"

text \<open>The first statement of \<open>dump_fd_graph()\<close>, which \<open>task_fs()\<close> calls when the log is compiled in.\<close>

definition fd_graph_enter :: "u32 \<Rightarrow> MESSAGE \<Rightarrow> u32 \<Rightarrow> string \<Rightarrow> kernel \<Rightarrow> (int \<times> kernel) res" where
  "fd_graph_enter mp junk buf fmt = printf (kernel_trap TASK_FS mp) (\<lambda>_ _ s. s) junk buf (''enter dump_fd_graph(%s).'' @ [CHR 0x0A]) [Str fmt]"

text \<open>
  \<open>printf()\<close> sends to the file system task; in that task itself the kernel refuses the message and
  \<open>dump_fd_graph()\<close> goes no further.
\<close>

theorem fd_graph_stops:
  assumes "k_reenter s = 0" "va2la s TASK_FS mp = Inr mp" "length fmt < 1000"
  shows "fd_graph_enter mp junk buf fmt s = Inl (AssertFailed ''mla->source != src_dest'')"
proof -
  have "format_into 1024 (''enter dump_fd_graph(%s).'' @ [CHR 0x0A]) [Str fmt] = Inr (''enter dump_fd_graph('' @ fmt @ '').'' @ [CHR 0x0A])"
    using assms(3) by (simp add: format_into_def vsprintf_def convert_def)
  moreover have "va2la (s\<lparr>messages := M\<rparr>) TASK_FS mp = Inr mp" for M using assms(2) by (simp add: va2la_def)
  then have "kernel_trap TASK_FS mp SEND TASK_FS m s = Inl (AssertFailed ''mla->source != src_dest'')" for m
    using assms(1) by (simp add: kernel_trap_def sys_sendrec_def Let_def)
  ultimately show ?thesis by (simp add: fd_graph_enter_def printf_def lib_write_def call_def send_recv_def Let_def)
qed

subsection \<open>The first user process\<close>

text \<open>
  \<open>Init()\<close> of kernel/main.c, for a trap \<open>sr\<close>, the memory \<open>b\<close> in which the two path names lie, and \<open>say\<close>,
  the effect of \<open>printl()\<close> in \<open>spin()\<close>.
\<close>

definition Init :: "'s trap \<Rightarrow> (u32 \<Rightarrow> u8 list \<Rightarrow> 's \<Rightarrow> 's) \<Rightarrow> (string \<Rightarrow> 's \<Rightarrow> 's res) \<Rightarrow> MESSAGE \<Rightarrow> u32 \<Rightarrow> (u32 \<Rightarrow> u8) \<Rightarrow> u32 \<Rightarrow> u32 \<Rightarrow> 's \<Rightarrow> 's res" where
  "Init sr store say junk buf b path_in path_out s =
     (let spin = (\<lambda>name s. bindE (say ([CHR 0x0A] @ ''spinning in '' @ name @ '' ...'' @ [CHR 0x0A]) s) (\<lambda>_. Inl (Hang ''spin'')))
      in bindE (lib_open sr junk b path_in 2 s) (\<lambda>(fd_stdin, s1).
         assertE (fd_stdin = 0) ''fd_stdin == 0''
        (bindE (lib_open sr junk b path_out 2 s1) (\<lambda>(fd_stdout, s2).
         assertE (fd_stdout = 1) ''fd_stdout == 1''
        (bindE (printf sr store junk buf (''Init() is running ...'' @ [CHR 0x0A]) [] s2) (\<lambda>(_, s3).
         bindE (lib_fork sr junk s3) (\<lambda>(pid, s4).
           if pid \<noteq> 0 then
             bindE (printf sr store junk buf (''parent is running, child pid=%d.'' @ [CHR 0x0A]) [Num pid] s4) (\<lambda>(_, s5). spin ''parent'' s5)
           else
             bindE (lib_getpid sr junk s4) (\<lambda>(me, s5).
             bindE (printf sr store junk buf (''child is running, pid=%d.'' @ [CHR 0x0A]) [Num me] s5) (\<lambda>(_, s6). spin ''child'' s6)))))))))"

text \<open>Neither the parent nor the child ever leaves the function, which has nowhere to return to.\<close>

lemma Init_never_returns: "Init sr store say junk buf b path_in path_out s \<noteq> Inr s'"
  by (auto simp: Init_def Let_def bindE_Inr assertE_Inr split: if_splits)

end
