(* ===== verification/Ttytask.thy ===== *)
theory Ttytask
  imports Tty
begin

section \<open>The terminal task (kernel/tty.c, task_tty)\<close>

text \<open>
  The task's start and one round of its endless loop: every terminal is served until its key
  buffer is empty, then one message is received and handled. \<open>mk\<close> is what the variable \<open>make\<close> of
  \<open>keyboard_read()\<close> holds before it is set. The inner loop may run for ever when a count is
  negative, so it is an option; the theorem states that from a well-formed state it ends.
\<close>

partial_function (option) tty_drain :: "MESSAGE \<Rightarrow> u32 \<Rightarrow> bool \<Rightarrow> int \<Rightarrow> tty_state \<Rightarrow> (tty_state res) option" where
  "tty_drain junk loc mk t s =
     (case bindE (tty_dev_read t mk s) (tty_dev_write junk loc t) of
        Inl e \<Rightarrow> Some (Inl e)
      | Inr s1 \<Rightarrow> if inbuf_count (tty_table s1 t) \<noteq> 0 then tty_drain junk loc mk t s1 else Some (Inr s1))"

fun tty_scan :: "MESSAGE \<Rightarrow> u32 \<Rightarrow> bool \<Rightarrow> int list \<Rightarrow> tty_state \<Rightarrow> (tty_state res) option" where
  "tty_scan junk loc mk [] s = Some (Inr s)"
| "tty_scan junk loc mk (t # ts) s =
     (case tty_drain junk loc mk t s of
        None \<Rightarrow> None | Some (Inl e) \<Rightarrow> Some (Inl e) | Some (Inr s1) \<Rightarrow> tty_scan junk loc mk ts s1)"

definition task_tty_round :: "MESSAGE \<Rightarrow> u32 \<Rightarrow> bool \<Rightarrow> MESSAGE \<Rightarrow> tty_state \<Rightarrow> tty_state res" where
  "task_tty_round junk loc mk m s = loopE (tty_scan junk loc mk [0, 1, 2] s) ''task_tty'' (\<lambda>r. bindE r (task_tty_msg loc m))"

definition task_tty_start :: "tty_state \<Rightarrow> tty_state res" where
  "task_tty_start s =
     bindE (init_keyboard (kb s)) (\<lambda>k.
     bindE (init_tty 0 (s\<lparr>kb := k\<rparr>)) (\<lambda>s0.
     bindE (init_tty 1 s0) (\<lambda>s1.
     bindE (init_tty 2 s1) (\<lambda>s2.
       Inr (s2\<lparr>scr := select_console 0 (scr s2)\<rparr>)))))"

subsection \<open>Every round reaches its message\<close>

definition tty_ok :: "tty_state \<Rightarrow> bool" where
  "tty_ok s \<longleftrightarrow> kb_inv (kb_in (kb s)) \<and> (\<forall>t. tty_inv (tty_table s t))"

text \<open>Terminals other than \<open>t\<close> keep their keys.\<close>

abbreviation others :: "int \<Rightarrow> tty_state \<Rightarrow> tty_state \<Rightarrow> bool" where
  "others t s s' \<equiv> \<forall>u. u \<noteq> t \<longrightarrow> tty_table s' u = tty_table s u"

text \<open>A terminal without a request stays without one.\<close>

abbreviation still_idle :: "int \<Rightarrow> tty_state \<Rightarrow> tty_state \<Rightarrow> bool" where
  "still_idle t s s' \<equiv> tty_left_cnt (tty_table s t) = 0 \<longrightarrow> tty_left_cnt (tty_table s' t) = 0"

lemma put_key_left: "tty_left_cnt (put_key key x) = tty_left_cnt x"
  by (simp add: put_key_def)

lemma in_process_ok:
  assumes "\<forall>u. tty_inv (tty_table s u)"
  shows "\<exists>s'. in_process t key s = Inr s' \<and> (\<forall>u. tty_inv (tty_table s' u)) \<and> others t s s' \<and> still_idle t s s'"
  using assms tty_fifo.put_inv by (auto simp: in_process_def Let_def put_key_left)

lemma tty_dev_read_ret:
  assumes "tty_ok s"
  shows "ret (tty_dev_read t mk s) waits (\<lambda>s'. tty_ok s' \<and> others t s s' \<and> still_idle t s s' \<and> (kb_count (kb_in (kb s')) \<le> 0 \<or> s' = s))"
proof (cases "is_current_console (tty_console (tty_table s t)) (scr s)")
  case True
  let ?I = "\<lambda>x. (\<forall>u. tty_inv (tty_table x u)) \<and> others t s x \<and> still_idle t s x"
  have "ret (keyboard_read (in_process t) mk (kb s) s) (\<lambda>e. waits e \<or> False) (\<lambda>(k', x). kb_inv (kb_in k') \<and> kb_contents (kb_in k') = [] \<and> ?I x)"
    unfolding keyboard_read_def
  proof (rule keyboard_loop_ret)
    fix key x assume I: "?I x"
    then obtain y where "in_process t key x = Inr y" "\<forall>u. tty_inv (tty_table y u)" "others t x y" "still_idle t x y"
      using in_process_ok [of x t key] by blast
    with I show "ret (in_process t key x) (\<lambda>_. False) ?I" by (simp add: ret_def)
  qed (use assms in \<open>simp_all add: tty_ok_def length_pending\<close>)
  then show ?thesis using True
    by (cases "keyboard_read (in_process t) mk (kb s) s") (auto simp: tty_dev_read_def ret_def tty_ok_def kb_contents_empty)
qed (use assms in \<open>simp add: tty_dev_read_def ret_def\<close>)

lemma tty_dev_read_ok:
  assumes "tty_ok s" "tty_dev_read t mk s = Inr s'"
  shows "tty_ok s'" "others t s s'" "still_idle t s s'" "kb_count (kb_in (kb s')) \<le> 0 \<or> s' = s"
  using tty_dev_read_ret [OF assms(1), of t mk] assms(2) by (simp_all add: ret_def)

text \<open>Serving a request leaves the key buffers and the keyboard alone.\<close>

definition keys_kept :: "int \<Rightarrow> tty_state \<Rightarrow> tty_state \<Rightarrow> bool" where
  "keys_kept t s s' \<longleftrightarrow> kb s' = kb s \<and> others t s s' \<and> inbuf (tty_table s' t) = inbuf (tty_table s t) \<and> inbuf_head (tty_table s' t) = inbuf_head (tty_table s t) \<and>
     inbuf_tail (tty_table s' t) = inbuf_tail (tty_table s t) \<and> inbuf_count (tty_table s' t) = inbuf_count (tty_table s t)"

lemma keys_kept_trans: "keys_kept t s s1 \<Longrightarrow> keys_kept t s1 s2 \<Longrightarrow> keys_kept t s s2"
  by (simp add: keys_kept_def)

lemma tty_out_kept: "tty_out c ch s = Inr s' \<Longrightarrow> kb s' = kb s \<and> tty_table s' = tty_table s"
  by (auto simp: tty_out_def bindE_Inr)

lemma tty_send_kb [simp]: "kb (tty_send d m s) = kb s"
  by (simp add: tty_send_def)

lemma tty_echo_kept: "tty_echo loc t ch s = Inr s' \<Longrightarrow> keys_kept t s s'"
  by (auto simp: tty_echo_def keys_kept_def bindE_Inr Let_def dest!: tty_out_kept split: if_splits)

lemma tty_finish_kept: "tty_finish junk t ch s = Inr s' \<Longrightarrow> keys_kept t s s'"
  by (auto simp: tty_finish_def keys_kept_def bindE_Inr dest!: tty_out_kept split: if_splits)

lemma tty_dev_write_ok:
  assumes "tty_ok s" "tty_dev_write junk loc t s = Inr s'"
  shows "tty_ok s' \<and> others t s s' \<and> kb s' = kb s \<and>
    inbuf_count (tty_table s' t) = (if inbuf_count (tty_table s t) > 0 then inbuf_count (tty_table s t) - 1 else inbuf_count (tty_table s t))"
proof (cases "inbuf_count (tty_table s t) > 0")
  case True
  obtain key x where x: "take_key (tty_table s t) = (key, x)" by fastforce
  have i: "tty_inv x" "inbuf_count x = inbuf_count (tty_table s t) - 1"
    using take_key_spec(2) [of "tty_table s t"] True assms(1) x by (auto simp: tty_ok_def take_key_def)
  let ?s1 = "upd_tty t (\<lambda>_. x) s"
  have "keys_kept t ?s1 s'"
  proof (cases "tty_left_cnt x = 0")
    case left: True
    then have "s' = ?s1" using assms(2) True x by (simp add: tty_dev_write_def)
    then show ?thesis by (simp add: keys_kept_def)
  next
    case False
    then have "bindE (tty_echo loc t (ucast key) ?s1) (tty_finish junk t (ucast key)) = Inr s'"
      using assms(2) True x by (simp add: tty_dev_write_def Let_def)
    then show ?thesis using tty_echo_kept tty_finish_kept keys_kept_trans unfolding bindE_Inr by blast
  qed
  then have k: "kb s' = kb s" "others t s s'" "inbuf_count (tty_table s' t) = inbuf_count x" "tty_inv (tty_table s' t)"
    using i(1) by (auto simp: keys_kept_def tty_inv_def)
  then have "tty_inv (tty_table s' u)" for u using assms(1) by (cases "u = t") (simp_all add: tty_ok_def)
  then show ?thesis using k assms(1) i(2) True by (simp add: tty_ok_def)
qed (use assms in \<open>simp add: tty_dev_write_def\<close>)

lemma tty_dev_write_idle:
  assumes "tty_left_cnt (tty_table s t) = 0"
  shows "\<exists>s'. tty_dev_write junk loc t s = Inr s' \<and> tty_left_cnt (tty_table s' t) = 0"
  using assms by (auto simp: tty_dev_write_def take_key_def)

lemma tty_dev_read_quiet: "kb_count (kb_in (kb s)) \<le> 0 \<Longrightarrow> tty_dev_read t mk s = Inr s"
proof -
  assume k: "kb_count (kb_in (kb s)) \<le> 0"
  have "keyboard_loop (in_process t) n key mk (kb s) s = Inr (kb s, s)" for n key using k by (cases n) simp_all
  then show ?thesis by (simp add: tty_dev_read_def keyboard_read_def)
qed

text \<open>
  What the inner loop guarantees: it ends; when it ends without an error the buffer is empty, and
  without a request the only error is a wait for the keyboard.
\<close>

definition drained :: "int \<Rightarrow> tty_state \<Rightarrow> (tty_state res) option \<Rightarrow> bool" where
  "drained t s x \<longleftrightarrow> (\<exists>r. x = Some r \<and> (\<forall>s'. r = Inr s' \<longrightarrow> tty_ok s' \<and> others t s s' \<and> inbuf_count (tty_table s' t) = 0) \<and>
     (\<forall>e. r = Inl e \<longrightarrow> waits e \<or> tty_left_cnt (tty_table s t) \<noteq> 0))"

lemma drained_trans: "drained t s1 x \<Longrightarrow> others t s s1 \<Longrightarrow> still_idle t s s1 \<Longrightarrow> drained t s x"
  by (fastforce simp: drained_def)

text \<open>One round of it, when the rest is known to end.\<close>

lemma tty_drain_step:
  assumes "tty_ok s" and rest: "\<And>s1 s2. tty_dev_read t mk s = Inr s1 \<Longrightarrow> tty_dev_write junk loc t s1 = Inr s2 \<Longrightarrow> tty_ok s2 \<Longrightarrow>
      inbuf_count (tty_table s2 t) \<noteq> 0 \<Longrightarrow> drained t s2 (tty_drain junk loc mk t s2)"
  shows "drained t s (tty_drain junk loc mk t s)"
proof (cases "bindE (tty_dev_read t mk s) (tty_dev_write junk loc t)")
  case (Inl e)
  have "waits e \<or> tty_left_cnt (tty_table s t) \<noteq> 0"
  proof (cases "tty_dev_read t mk s")
    case e: (Inl e')
    then show ?thesis using tty_dev_read_ret [OF assms(1), of t mk] Inl by (simp add: ret_def)
  next
    case s1: (Inr s1)
    then have "tty_dev_write junk loc t s1 = Inl e" using Inl by simp
    then show ?thesis using tty_dev_write_idle [of s1 t junk loc] tty_dev_read_ok(3) [OF assms(1) s1] by auto
  qed
  then show ?thesis using Inl by (subst tty_drain.simps) (simp add: drained_def)
next
  case (Inr s2)
  then obtain s1 where s1: "tty_dev_read t mk s = Inr s1" "tty_dev_write junk loc t s1 = Inr s2" by (auto simp: bindE_Inr)
  note r = tty_dev_read_ok [OF assms(1) s1(1)]
  have w: "tty_ok s2" "others t s s2" "still_idle t s s2"
    using tty_dev_write_ok [OF r(1) s1(2)] tty_dev_write_idle [of s1 t junk loc] r(2,3) s1(2) by auto
  show ?thesis
  proof (cases "inbuf_count (tty_table s2 t) = 0")
    case True
    then show ?thesis using Inr w by (subst tty_drain.simps) (simp add: drained_def)
  next
    case False
    then show ?thesis using Inr drained_trans [OF rest [OF s1 w(1) False] w(2,3)] by (subst tty_drain.simps) simp
  qed
qed

lemma count_decreases:
  assumes "tty_ok s" "tty_dev_write junk loc t s = Inr s'" "inbuf_count (tty_table s' t) \<noteq> 0"
  shows "nat (inbuf_count (tty_table s' t)) < nat (inbuf_count (tty_table s t))"
proof -
  have "0 \<le> inbuf_count (tty_table s t)" using assms(1) by (simp add: tty_ok_def tty_inv_def)
  then show ?thesis using tty_dev_write_ok [OF assms(1,2)] assms(3) by (auto split: if_splits)
qed

lemma tty_drain_quiet:
  assumes "tty_ok s" "kb_count (kb_in (kb s)) \<le> 0"
  shows "drained t s (tty_drain junk loc mk t s)"
  using assms
proof (induction "nat (inbuf_count (tty_table s t))" arbitrary: s rule: less_induct)
  case less
  show ?case
  proof (rule tty_drain_step [OF less.prems(1)])
    fix s1 s2 assume s1: "tty_dev_read t mk s = Inr s1" "tty_dev_write junk loc t s1 = Inr s2" "tty_ok s2" "inbuf_count (tty_table s2 t) \<noteq> 0"
    then have w: "tty_dev_write junk loc t s = Inr s2" using tty_dev_read_quiet [OF less.prems(2)] by simp
    show "drained t s2 (tty_drain junk loc mk t s2)"
      using less.hyps [OF count_decreases [OF less.prems(1) w s1(4)] s1(3)] tty_dev_write_ok [OF less.prems(1) w] less.prems(2) by simp
  qed
qed

lemma tty_drain_ends: "tty_ok s \<Longrightarrow> drained t s (tty_drain junk loc mk t s)"
proof (induction "nat (inbuf_count (tty_table s t))" arbitrary: s rule: less_induct)
  case less
  show ?case
  proof (rule tty_drain_step [OF less.prems])
    fix s1 s2 assume s1: "tty_dev_read t mk s = Inr s1" "tty_dev_write junk loc t s1 = Inr s2" "tty_ok s2" "inbuf_count (tty_table s2 t) \<noteq> 0"
    note r = tty_dev_read_ok [OF less.prems s1(1)]
    show "drained t s2 (tty_drain junk loc mk t s2)"
    proof (cases "s1 = s")
      case True
      then show ?thesis using less.hyps [OF count_decreases [OF less.prems _ s1(4)] s1(3)] s1(2) by simp
    next
      case False
      then show ?thesis using r(4) tty_dev_write_ok [OF r(1) s1(2)] by (intro tty_drain_quiet [OF s1(3)]) simp
    qed
  qed
qed

lemma tty_scan_drains:
  assumes "tty_ok s"
  shows "\<exists>r. tty_scan junk loc mk ts s = Some r \<and> (\<forall>s'. r = Inr s' \<longrightarrow> tty_ok s' \<and> (\<forall>t. t \<notin> set ts \<longrightarrow> tty_table s' t = tty_table s t) \<and>
    (\<forall>t \<in> set ts. inbuf_count (tty_table s' t) = 0)) \<and>
    (\<forall>e. distinct ts \<longrightarrow> r = Inl e \<longrightarrow> waits e \<or> (\<exists>t \<in> set ts. tty_left_cnt (tty_table s t) \<noteq> 0))"
  using assms
proof (induction ts arbitrary: s)
  case (Cons t ts)
  obtain r where r: "tty_drain junk loc mk t s = Some r" "\<And>s'. r = Inr s' \<Longrightarrow> tty_ok s' \<and> others t s s' \<and> inbuf_count (tty_table s' t) = 0"
    "\<And>e. r = Inl e \<Longrightarrow> waits e \<or> tty_left_cnt (tty_table s t) \<noteq> 0"
    using tty_drain_ends [OF Cons.prems, of t junk loc mk] by (auto simp: drained_def)
  show ?case
  proof (cases r)
    case (Inr s1)
    note s1 = r(2) [OF Inr]
    then obtain r' where r': "tty_scan junk loc mk ts s1 = Some r'" "\<And>s'. r' = Inr s' \<Longrightarrow> tty_ok s' \<and> (\<forall>t. t \<notin> set ts \<longrightarrow> tty_table s' t = tty_table s1 t) \<and>
        (\<forall>t \<in> set ts. inbuf_count (tty_table s' t) = 0)"
      "\<And>e. distinct ts \<Longrightarrow> r' = Inl e \<Longrightarrow> waits e \<or> (\<exists>t \<in> set ts. tty_left_cnt (tty_table s1 t) \<noteq> 0)" using Cons.IH by blast
    have "\<forall>u \<in> set (t # ts). inbuf_count (tty_table s' u) = 0" if "r' = Inr s'" for s' using r'(2) [OF that] s1 by (cases "t \<in> set ts") auto
    moreover have "waits e \<or> (\<exists>u \<in> set (t # ts). tty_left_cnt (tty_table s u) \<noteq> 0)" if "distinct (t # ts)" "r' = Inl e" for e
      using r'(3) [OF _ that(2)] that(1) s1 by (metis distinct.simps(2) list.set_intros(2))
    ultimately show ?thesis using r'(1,2) r(1) Inr s1 by (intro exI [of _ r']) auto
  qed (use r(1,3) in auto)
qed simp

text \<open>
  C13: The terminal task always comes to its next message: from any state with well-formed buffers
  the loops over the terminals end, and then the key buffers of all three terminals are empty
  and all buffers are well formed again. The run can only stop before that while it waits for
  the keyboard, or while it serves a read request.
\<close>

theorem task_tty_scan_ends:
  assumes "kb_inv (kb_in (kb s))" "\<And>t. tty_inv (tty_table s t)"
  shows "(\<exists>s'. tty_scan junk loc mk [0, 1, 2] s = Some (Inr s') \<and> kb_inv (kb_in (kb s')) \<and> (\<forall>t. tty_inv (tty_table s' t)) \<and>
      tty_keys (tty_table s' 0) = [] \<and> tty_keys (tty_table s' 1) = [] \<and> tty_keys (tty_table s' 2) = []) \<or>
    (\<exists>e. tty_scan junk loc mk [0, 1, 2] s = Some (Inl e) \<and> (waits e \<or>
      tty_left_cnt (tty_table s 0) \<noteq> 0 \<or> tty_left_cnt (tty_table s 1) \<noteq> 0 \<or> tty_left_cnt (tty_table s 2) \<noteq> 0))"
proof -
  have "tty_ok s" using assms by (simp add: tty_ok_def)
  from tty_scan_drains [OF this, of junk loc mk "[0, 1, 2]"] obtain r where
    r: "tty_scan junk loc mk [0, 1, 2] s = Some r" "\<And>s'. r = Inr s' \<Longrightarrow> tty_ok s' \<and> (\<forall>t \<in> {0, 1, 2}. inbuf_count (tty_table s' t) = 0)"
      "\<And>e. r = Inl e \<Longrightarrow> waits e \<or> tty_left_cnt (tty_table s 0) \<noteq> 0 \<or> tty_left_cnt (tty_table s 1) \<noteq> 0 \<or> tty_left_cnt (tty_table s 2) \<noteq> 0"
    by (auto simp del: tty_scan.simps)
  show ?thesis
  proof (cases r)
    case (Inr s')
    then show ?thesis using r(1) r(2) [OF Inr] by (simp add: tty_ok_def tty_keys_empty del: tty_scan.simps)
  next
    case (Inl e)
    then show ?thesis using r(1) r(3) [OF Inl] by (simp del: tty_scan.simps)
  qed
qed

text \<open>Three terminals without requests, each with two keys in its buffer.\<close>

definition demo_idle :: tty_state where
  "demo_idle = demo_tty\<lparr>tty_table := (\<lambda>t. (tty_table demo_tty t)\<lparr>tty_left_cnt := 0\<rparr>)\<rparr>"

theorem task_tty_scan_ends_witness:
  "(\<exists>s'. tty_scan zero_msg 0 True [0, 1, 2] demo_idle = Some (Inr s') \<and> tty_keys (tty_table s' 0) = [] \<and> tty_keys (tty_table s' 1) = []) \<or>
    (\<exists>e. tty_scan zero_msg 0 True [0, 1, 2] demo_idle = Some (Inl e) \<and> waits e)"
proof -
  have "kb_inv (kb_in (kb demo_idle))" using demo_kbd_inv(1) by (simp add: demo_idle_def demo_tty_def)
  moreover have "tty_inv (tty_table demo_idle t)" for t
  proof -
    have "tty_inv \<lparr>inbuf = (\<lambda>_. 0), inbuf_head = 0, inbuf_tail = 0, inbuf_count = 0, tty_caller = TASK_FS, tty_procnr = 6, tty_req_buf = 0x5000,
        tty_left_cnt = 4, tty_trans_cnt = 0, tty_console = t\<rparr>" by (simp add: tty_inv_def ring_inv_def)
    then have "tty_inv (tty_table demo_tty t)" by (simp add: demo_tty_def tty_fifo.put_inv)
    then show ?thesis by (simp add: demo_idle_def tty_inv_def)
  qed
  moreover have "tty_left_cnt (tty_table demo_idle t) = 0" for t by (simp add: demo_idle_def)
  ultimately show ?thesis using task_tty_scan_ends [of demo_idle zero_msg 0 True] by (auto simp del: tty_scan.simps)
qed

end
