(* ===== verification/Hd.thy ===== *)
theory Hd
  imports Fsdata
begin

section \<open>Hard disk driver (kernel/hd.c)\<close>

text \<open>
  The driver task: partition tables, and reading and writing sectors. What the disk controller
  does is a parameter: \<open>ata ports k i\<close> is, for the bytes a command wrote to the controller's
  ports, byte \<open>i\<close> of the sector it delivers as its \<open>k\<close>th. The values \<open>get_ticks()\<close> returns and
  those read from the status register, one after the other, are the lists \<open>hd_ticks\<close> and
  \<open>hd_stats\<close> of the state; when one is used up, the loop that reads it is still going round. The
  wait for the disk's interrupt is a \<open>RECEIVE\<close> that returns when \<open>hd_handler()\<close> has run: \<open>hd_ints\<close>
  counts the interrupts the disk has yet to send for the command it was given, one for each sector
  of the count in its register, and with none left the wait does not end. A sector written is kept
  in \<open>hd_written\<close>. What is printed is not kept.
\<close>

subsection \<open>Data (hd.h)\<close>

record part_info =
  pi_base :: u32
  pi_size :: u32

record hd_info =
  open_cnt :: int
  primary :: "nat \<Rightarrow> part_info"
  logical :: "nat \<Rightarrow> part_info"

record hd_cmd =
  features :: u8
  count :: u8
  lba_low :: u8
  lba_mid :: u8
  lba_high :: u8
  device :: u8
  command :: u8

text \<open>The fields of a \<open>part_ent\<close> the driver reads.\<close>

record part_ent =
  sys_id :: u8
  start_sect :: u32
  nr_sects_ent :: u32

type_synonym ports = "(u16 \<times> u8) list"

record hd =
  hd_kern :: kernel
  hd_mem :: "u32 \<Rightarrow> u8"
  hdbuf :: "u8 list"
  hd_status :: u8
  hd_info0 :: hd_info
  hd_ticks :: "int list"
  hd_stats :: "u8 list"
  hd_ports :: ports
  hd_sect :: nat
  hd_ints :: nat
  hd_written :: "u8 list list"

abbreviation (input) MAX_PRIM :: int where "MAX_PRIM \<equiv> 10"
abbreviation (input) MINOR_hd1a :: int where "MINOR_hd1a \<equiv> 0x10"
abbreviation (input) NR_SUB_PER_DRIVE :: int where "NR_SUB_PER_DRIVE \<equiv> 64"
abbreviation (input) STATUS_BSY :: u8 where "STATUS_BSY \<equiv> 0x80"
abbreviation (input) STATUS_DRQ :: u8 where "STATUS_DRQ \<equiv> 0x08"
abbreviation (input) HD_TIMEOUT :: int where "HD_TIMEOUT \<equiv> 10000"
abbreviation (input) ATA_INDENTIFY :: u8 where "ATA_INDENTIFY \<equiv> 0xec"
abbreviation (input) ATA_READ :: u8 where "ATA_READ \<equiv> 0x20"
abbreviation (input) ATA_WRITE :: u8 where "ATA_WRITE \<equiv> 0x30"

definition DRV_OF_DEV :: "int \<Rightarrow> int" where
  "DRV_OF_DEV dev = (if dev \<le> MAX_PRIM then c_div dev 5 else c_div (dev - MINOR_hd1a) NR_SUB_PER_DRIVE)"

definition MAKE_DEVICE_REG :: "u8 \<Rightarrow> u8 \<Rightarrow> u8 \<Rightarrow> u8" where
  "MAKE_DEVICE_REG lba drv lba_highest = push_bit 6 lba OR push_bit 4 drv OR (lba_highest AND 0xf) OR 0xa0"

definition upd_info :: "(hd_info \<Rightarrow> hd_info) \<Rightarrow> hd \<Rightarrow> hd" where
  "upd_info f s = s\<lparr>hd_info0 := f (hd_info0 s)\<rparr>"

text \<open>\<open>hd_info\<close> has one element, and its arrays 5 and 64.\<close>

definition part_of :: "int \<Rightarrow> int \<Rightarrow> hd \<Rightarrow> part_info res" where
  "part_of drive dev s =
     (if drive \<noteq> 0 then Inl (Fault ''hd_info'')
      else if dev < MAX_PRIM
        then if 0 \<le> dev \<and> dev < 5 then Inr (primary (hd_info0 s) (nat dev)) else Inl (Fault ''primary'')
        else let logidx = c_mod (dev - MINOR_hd1a) NR_SUB_PER_DRIVE
             in if 0 \<le> logidx then Inr (logical (hd_info0 s) (nat logidx)) else Inl (Fault ''logical''))"

subsection \<open>The controller\<close>

text \<open>The loop of \<open>waitfor()\<close>, with \<open>HZ\<close> 100: the value returned, and what is left of the two lists.\<close>

fun waitfor_loop :: "u8 \<Rightarrow> u8 \<Rightarrow> int \<Rightarrow> int \<Rightarrow> int list \<Rightarrow> u8 list \<Rightarrow> (bool \<times> int list \<times> u8 list) res" where
  "waitfor_loop msk val timeout t [] stats = Inl (Blocked ''waitfor'')"
| "waitfor_loop msk val timeout t (tick # tks) stats =
     (if c_div (s32 (s32 (tick - t) * 1000)) 100 < timeout
      then (case stats of [] \<Rightarrow> Inl (Blocked ''waitfor'')
            | status # sts \<Rightarrow> if status AND msk = val then Inr (True, tks, sts) else waitfor_loop msk val timeout t tks sts)
      else Inr (False, tks, stats))"

definition waitfor :: "u8 \<Rightarrow> u8 \<Rightarrow> int \<Rightarrow> hd \<Rightarrow> (bool \<times> hd) res" where
  "waitfor msk val timeout s =
     (case hd_ticks s of [] \<Rightarrow> Inl (Blocked ''get_ticks'')
      | t # tks \<Rightarrow> bindE (waitfor_loop msk val timeout t tks (hd_stats s)) (\<lambda>(r, tks', stats').
          Inr (r, s\<lparr>hd_ticks := tks', hd_stats := stats'\<rparr>)))"

definition cmd_ports :: "hd_cmd \<Rightarrow> ports" where
  "cmd_ports c = [(0x3f6, 0), (0x1f1, features c), (0x1f2, count c), (0x1f3, lba_low c), (0x1f4, lba_mid c), (0x1f5, lba_high c),
     (0x1f6, device c), (0x1f7, command c)]"

text \<open>A count of 0 asks for 256 sectors.\<close>

definition ata_count :: "hd_cmd \<Rightarrow> nat" where
  "ata_count c = (if count c = 0 then 256 else unat (count c))"

text \<open>The disk interrupts once for each sector it moves, and once when it has identified itself.\<close>

definition cmd_ints :: "hd_cmd \<Rightarrow> nat" where
  "cmd_ints c = (if command c = ATA_READ \<or> command c = ATA_WRITE then ata_count c else 1)"

definition hd_cmd_out :: "hd_cmd \<Rightarrow> hd \<Rightarrow> hd res" where
  "hd_cmd_out c s =
     bindE (waitfor STATUS_BSY 0 HD_TIMEOUT s) (\<lambda>(r, s1).
       if \<not> r then Inl (Panic ''hd error.'') else Inr (s1\<lparr>hd_ports := cmd_ports c, hd_sect := 0, hd_ints := cmd_ints c\<rparr>))"

definition interrupt_wait :: "hd \<Rightarrow> hd res" where
  "interrupt_wait s = (if hd_ints s = 0 then Inl (Hang ''interrupt_wait'') else Inr (s\<lparr>hd_ints := hd_ints s - 1\<rparr>))"

text \<open>\<open>interrupt_wait()\<close> and \<open>port_read (REG_DATA, hdbuf, SECTOR_SIZE)\<close>: the next sector of the command.\<close>

definition next_sector :: "(ports \<Rightarrow> nat \<Rightarrow> nat \<Rightarrow> u8) \<Rightarrow> hd \<Rightarrow> hd res" where
  "next_sector ata s = bindE (interrupt_wait s) (\<lambda>s1.
     Inr (s1\<lparr>hdbuf := map (ata (hd_ports s1) (hd_sect s1)) [0..<512], hd_sect := Suc (hd_sect s1)\<rparr>))"

definition hd_handler :: "u8 \<Rightarrow> hd \<Rightarrow> hd res" where
  "hd_handler status s = bindE (inform_init TASK_HD (hd_kern s)) (\<lambda>k. Inr (s\<lparr>hd_status := status, hd_kern := k\<rparr>))"

text \<open>The command to read or write \<open>n\<close> sectors from \<open>sect_nr\<close> on.\<close>

definition sect_cmd :: "u8 \<Rightarrow> int \<Rightarrow> u32 \<Rightarrow> int \<Rightarrow> hd_cmd" where
  "sect_cmd cm n sect_nr drive =
     \<lparr>features = 0, count = of_int n, lba_low = ucast (sect_nr AND 0xff), lba_mid = ucast (drop_bit 8 sect_nr AND 0xff),
      lba_high = ucast (drop_bit 16 sect_nr AND 0xff), device = MAKE_DEVICE_REG 1 (of_int drive) (ucast (drop_bit 24 sect_nr AND 0xf)),
      command = cm\<rparr>"

subsection \<open>Opening: identification and partitions\<close>

text \<open>\<open>junk\<close> is what the fields of \<open>cmd\<close> hold that \<open>hd_identify()\<close> does not set.\<close>

definition hd_identify :: "(ports \<Rightarrow> nat \<Rightarrow> nat \<Rightarrow> u8) \<Rightarrow> hd_cmd \<Rightarrow> hd \<Rightarrow> hd res" where
  "hd_identify ata junk s =
     bindE (hd_cmd_out (junk\<lparr>device := MAKE_DEVICE_REG 0 0 0, command := ATA_INDENTIFY\<rparr>) s) (\<lambda>s1.
     bindE (next_sector ata s1) (\<lambda>s2.
       Inr (upd_info (\<lambda>i. i\<lparr>primary := (primary i)(0 := \<lparr>pi_base = 0, pi_size = get32 (\<lambda>k. hdbuf s2 ! nat k) 120\<rparr>)\<rparr>) s2)))"

definition get_part_table :: "(ports \<Rightarrow> nat \<Rightarrow> nat \<Rightarrow> u8) \<Rightarrow> int \<Rightarrow> u32 \<Rightarrow> hd \<Rightarrow> ((nat \<Rightarrow> part_ent) \<times> hd) res" where
  "get_part_table ata drive sect_nr s =
     bindE (hd_cmd_out (sect_cmd ATA_READ 1 sect_nr drive) s) (\<lambda>s1.
     bindE (next_sector ata s1) (\<lambda>s2.
       let b = (\<lambda>k. hdbuf s2 ! nat k)
       in Inr (\<lambda>i. \<lparr>sys_id = b (0x1be + 16 * int i + 4), start_sect = get32 b (0x1be + 16 * int i + 8),
                    nr_sects_ent = get32 b (0x1be + 16 * int i + 12)\<rparr>, s2)))"

text \<open>The loop over the logical partitions of primary partition \<open>j\<close>; \<open>n\<close> rounds are left.\<close>

fun part_extended :: "(ports \<Rightarrow> nat \<Rightarrow> nat \<Rightarrow> u8) \<Rightarrow> int \<Rightarrow> u32 \<Rightarrow> nat \<Rightarrow> nat \<Rightarrow> u32 \<Rightarrow> hd \<Rightarrow> hd res" where
  "part_extended ata drive ext_start 0 dev_nr sct s = Inr s"
| "part_extended ata drive ext_start (Suc n) dev_nr sct s =
     bindE (get_part_table ata drive sct s) (\<lambda>(tbl, s1).
       let s2 = upd_info (\<lambda>i. i\<lparr>logical := (logical i)(dev_nr := \<lparr>pi_base = sct + start_sect (tbl 0), pi_size = nr_sects_ent (tbl 0)\<rparr>)\<rparr>) s1
       in if sys_id (tbl 1) = 0 then Inr s2
          else part_extended ata drive ext_start n (Suc dev_nr) (ext_start + start_sect (tbl 1)) s2)"

text \<open>One round of the loop over the four primary partitions; \<open>device\<close> is 0, the whole first drive.\<close>

definition part_primary :: "(ports \<Rightarrow> nat \<Rightarrow> nat \<Rightarrow> u8) \<Rightarrow> (nat \<Rightarrow> part_ent) \<Rightarrow> nat \<Rightarrow> hd \<Rightarrow> hd res" where
  "part_primary ata tbl i s =
     (if sys_id (tbl i) = 0 then Inr s
      else
        let s1 = upd_info (\<lambda>x. x\<lparr>primary := (primary x)(Suc i := \<lparr>pi_base = start_sect (tbl i), pi_size = nr_sects_ent (tbl i)\<rparr>)\<rparr>) s
        in if sys_id (tbl i) = 5
           then part_extended ata 0 (pi_base (primary (hd_info0 s1) (Suc i))) 16 (16 * i) (pi_base (primary (hd_info0 s1) (Suc i))) s1
           else Inr s1)"

definition partition :: "(ports \<Rightarrow> nat \<Rightarrow> nat \<Rightarrow> u8) \<Rightarrow> hd \<Rightarrow> hd res" where
  "partition ata s =
     bindE (get_part_table ata 0 0 s) (\<lambda>(tbl, s1).
     bindE (bindE (bindE (bindE (part_primary ata tbl 0 s1) (part_primary ata tbl 1)) (part_primary ata tbl 2)) (part_primary ata tbl 3)) (\<lambda>s2.
       assertE (\<exists>i \<in> {0, 1, 2, 3}. sys_id (tbl i) \<noteq> 0) ''nr_prim_parts != 0'' (Inr s2)))"

definition hd_open :: "(ports \<Rightarrow> nat \<Rightarrow> nat \<Rightarrow> u8) \<Rightarrow> hd_cmd \<Rightarrow> int \<Rightarrow> hd \<Rightarrow> hd res" where
  "hd_open ata junk dev s =
     assertE (DRV_OF_DEV dev = 0) ''drive == 0''
       (bindE (hd_identify ata junk s) (\<lambda>s1.
          let n = open_cnt (hd_info0 s1); s2 = upd_info (\<lambda>i. i\<lparr>open_cnt := n + 1\<rparr>) s1
          in if n = 0 then partition ata s2 else Inr s2))"

definition hd_close :: "int \<Rightarrow> hd \<Rightarrow> hd res" where
  "hd_close dev s = assertE (DRV_OF_DEV dev = 0) ''drive == 0'' (Inr (upd_info (\<lambda>i. i\<lparr>open_cnt := open_cnt i - 1\<rparr>) s))"

subsection \<open>Reading and writing\<close>

function hd_loop :: "(ports \<Rightarrow> nat \<Rightarrow> nat \<Rightarrow> u8) \<Rightarrow> u32 \<Rightarrow> bool \<Rightarrow> u32 \<Rightarrow> int \<Rightarrow> hd \<Rightarrow> hd res" where
  "hd_loop ata hdbuf_at is_read lin bytes_left s =
     (if bytes_left \<le> 0 then Inr s
      else
        let bytes = nat (min 512 bytes_left)
        in bindE (if is_read then
               bindE (next_sector ata s) (\<lambda>s1.
               bindE (va2la (hd_kern s1) TASK_HD hdbuf_at) (\<lambda>_.
                 Inr (s1\<lparr>hd_mem := phys_write (hd_mem s1) lin (take bytes (hdbuf s1))\<rparr>)))
             else bindE (waitfor STATUS_DRQ STATUS_DRQ HD_TIMEOUT s) (\<lambda>(r, s1).
               if \<not> r then Inl (Panic ''hd writing error.'')
               else interrupt_wait (s1\<lparr>hd_written := hd_written s1 @ [phys_read (hd_mem s1) lin bytes]\<rparr>)))
           (hd_loop ata hdbuf_at is_read (lin + 512) (bytes_left - 512)))"
  by pat_completeness auto
termination
  by (relation "measure (\<lambda>(ata, hdbuf_at, is_read, lin, bytes_left, s). nat bytes_left)") auto

declare hd_loop.simps [simp del]

text \<open>
  The assertion on the position compares with \<open>1 << 31\<close>, a negative \<open>int\<close> that becomes a number
  above every sector number when it is compared with a \<open>u64\<close>.
\<close>

definition hd_rdwt :: "(ports \<Rightarrow> nat \<Rightarrow> nat \<Rightarrow> u8) \<Rightarrow> u32 \<Rightarrow> MESSAGE \<Rightarrow> hd \<Rightarrow> hd res" where
  "hd_rdwt ata hdbuf_at m s =
     (let drive = DRV_OF_DEV (m3i4 m); pos = m3l1 m
      in assertE (drop_bit 9 pos < 0xffffffff80000000) ''(pos >> SECTOR_SIZE_SHIFT) < (1 << 31)''
        (assertE (pos AND 0x1ff = 0) ''(pos & 0x1ff) == 0''
          (bindE (part_of drive (m3i4 m) s) (\<lambda>part.
             let sect_nr = ucast (drop_bit 9 pos) + pi_base part
             in bindE (hd_cmd_out (sect_cmd (if mtype m = DEV_READ then ATA_READ else ATA_WRITE) (c_div (m3i2 m + 511) 512) sect_nr drive) s) (\<lambda>s1.
                bindE (va2la (hd_kern s1) (m3i3 m) (m3p2 m)) (\<lambda>lin.
                  hd_loop ata hdbuf_at (mtype m = DEV_READ) lin (m3i2 m) s1))))))"

definition hd_ioctl :: "u32 \<Rightarrow> MESSAGE \<Rightarrow> hd \<Rightarrow> hd res" where
  "hd_ioctl src m s =
     assertE (m3i2 m = 1) ''0''
       (bindE (va2la (hd_kern s) (m3i3 m) (m3p2 m)) (\<lambda>dst.
        bindE (va2la (hd_kern s) TASK_HD src) (\<lambda>_.
        bindE (part_of (DRV_OF_DEV (m3i4 m)) (m3i4 m) s) (\<lambda>p.
          Inr (s\<lparr>hd_mem := phys_write (hd_mem s) dst (bytes32 (pi_base p) @ bytes32 (pi_size p))\<rparr>)))))"

subsection \<open>The task\<close>

definition zero_info :: hd_info where
  "zero_info = \<lparr>open_cnt = 0, primary = (\<lambda>_. \<lparr>pi_base = 0, pi_size = 0\<rparr>), logical = (\<lambda>_. \<lparr>pi_base = 0, pi_size = 0\<rparr>)\<rparr>"

text \<open>\<open>init_hd()\<close>, without the interrupt lines it enables.\<close>

definition init_hd :: "hd \<Rightarrow> hd res" where
  "init_hd s = assertE (hd_mem s 0x475 \<noteq> 0) ''*pNrDrives'' (Inr (s\<lparr>hd_info0 := zero_info\<rparr>))"

text \<open>One message of the main loop: the state and whom the message goes back to.\<close>

definition task_hd_msg :: "(ports \<Rightarrow> nat \<Rightarrow> nat \<Rightarrow> u8) \<Rightarrow> hd_cmd \<Rightarrow> u32 \<Rightarrow> MESSAGE \<Rightarrow> hd \<Rightarrow> (int \<times> MESSAGE \<times> hd) res" where
  "task_hd_msg ata junk hdbuf_at m s =
     bindE (if mtype m = DEV_OPEN then hd_open ata junk (m3i4 m) s
            else if mtype m = DEV_CLOSE then hd_close (m3i4 m) s
            else if mtype m = DEV_READ \<or> mtype m = DEV_WRITE then hd_rdwt ata hdbuf_at m s
            else if mtype m = DEV_IOCTL then hd_ioctl hdbuf_at m s
            else Inl (Hang ''spin''))
       (\<lambda>s1. Inr (source m, m, s1))"

subsection \<open>A read delivers the sectors asked for\<close>

lemma phys_write_append:
  assumes "length xs + length ys \<le> 2 ^ 32" "length xs < 2 ^ 32"
  shows "phys_write (phys_write m p xs) (p + of_nat (length xs)) ys = phys_write m p (xs @ ys)"
proof
  fix a
  define d where "d = unat (a - p)"
  have l: "unat (of_nat (length xs) :: u32) = length xs" using assms(2) unfolding unat_of_nat by simp
  have e: "a - (p + of_nat (length xs)) = (a - p) - of_nat (length xs)" by simp
  have d: "d < 2 ^ 32" unfolding d_def using unsigned_less [of "a - p", where 'a = nat] by simp
  show "phys_write (phys_write m p xs) (p + of_nat (length xs)) ys a = phys_write m p (xs @ ys) a"
  proof (cases "length xs \<le> d")
    case True
    then have "of_nat (length xs) \<le> a - p" using l by (simp add: word_le_nat_alt d_def)
    then have "unat (a - (p + of_nat (length xs))) = d - length xs" unfolding e by (simp add: unat_sub l d_def)
    then show ?thesis using True by (auto simp: phys_write_def d_def [symmetric] nth_append)
  next
    case False
    have "unat (a - p - of_nat (length xs)) = d + 2 ^ 32 - length xs"
      using False l assms(2) by (simp add: unat_sub_if_size word_size d_def)
    then have "length ys \<le> unat (a - (p + of_nat (length xs)))" unfolding e using False assms(1) by simp
    then show ?thesis using False by (auto simp: phys_write_def d_def [symmetric] nth_append)
  qed
qed

text \<open>The address in the registers of a command, and the controller the driver relies on.\<close>

definition lba :: "hd_cmd \<Rightarrow> u32" where
  "lba c = ucast (lba_low c) OR push_bit 8 (ucast (lba_mid c)) OR push_bit 16 (ucast (lba_high c)) OR push_bit 24 (ucast (device c AND 0xf))"

definition ata_reads :: "(ports \<Rightarrow> nat \<Rightarrow> nat \<Rightarrow> u8) \<Rightarrow> (int \<Rightarrow> u8) \<Rightarrow> bool" where
  "ata_reads ata D \<longleftrightarrow> (\<forall>c k. command c = ATA_READ \<longrightarrow> bit (device c) 6 \<longrightarrow> \<not> bit (device c) 4 \<longrightarrow> k < ata_count c \<longrightarrow>
     (\<forall>i<512. ata (cmd_ports c) k i = D ((uint (lba c) + int k) * 512 + int i)))"

lemma ata_count_le: "ata_count c \<le> 256"
  using unsigned_less [of "count c", where 'a = nat] by (simp add: ata_count_def)

lemma ata_count_sect_cmd: "0 < n \<Longrightarrow> n \<le> 256 \<Longrightarrow> int (ata_count (sect_cmd cm n sect drive)) = n"
proof -
  assume n: "0 < n" "n \<le> 256"
  show ?thesis
  proof (cases "n = 256")
    case False
    then have "uint (of_int n :: u8) = n" using n by (simp add: uint_word_of_int_eq take_bit_int_eq_self)
    moreover from this have "(of_int n :: u8) \<noteq> 0" using n by (metis less_irrefl uint_0_eq)
    ultimately show ?thesis by (simp add: ata_count_def sect_cmd_def)
  qed (simp add: ata_count_def sect_cmd_def)
qed

lemma lba_sect_cmd:
  assumes "uint sect < 2 ^ 28"
  shows "lba (sect_cmd cm n sect 0) = sect" "bit (device (sect_cmd cm n sect 0)) 6" "\<not> bit (device (sect_cmd cm n sect 0)) 4"
proof -
  have "take_bit 28 (uint sect) = uint sect" using assms by (simp add: take_bit_int_eq_self)
  then have t: "take_bit 28 sect = sect" by (metis unsigned_take_bit_eq unsigned_word_eqI)
  have hi: "k < 28" if "bit sect k" for k using that arg_cong [OF t, of "\<lambda>x. bit x k"] by (simp add: bit_simps)
  have dv: "device (sect_cmd cm n sect 0) = push_bit 6 1 OR take_bit 4 (ucast (take_bit 4 (drop_bit 24 sect))) OR 0xa0"
    by (simp add: sect_cmd_def MAKE_DEVICE_REG_def and_masks)
  have a0: "bit (0xa0 :: u8) k \<longleftrightarrow> k = 5 \<or> k = 7" for k
  proof (cases "k < 8")
    case True
    then have "k \<in> set [0..<8]" by simp
    then show ?thesis by (auto simp: upt_rec)
  next
    case False
    then have "\<not> bit (0xa0 :: u8) k" using bit_imp_le_length [of "0xa0 :: u8" k] by auto
    then show ?thesis using False by auto
  qed
  show "bit (device (sect_cmd cm n sect 0)) 6" "\<not> bit (device (sect_cmd cm n sect 0)) 4" unfolding dv by (simp_all add: bit_simps a0)
  have d4: "take_bit 4 (device (sect_cmd cm n sect 0)) = ucast (take_bit 4 (drop_bit 24 sect))"
    unfolding dv by (auto simp: bit_eq_iff bit_simps a0)
  show "lba (sect_cmd cm n sect 0) = sect"
  proof (rule bit_word_eqI)
    fix k
    assume "k < LENGTH(32)"
    then consider "k < 8" | "8 \<le> k" "k < 16" | "16 \<le> k" "k < 24" | "24 \<le> k" "k < 32" by force
    then show "bit (lba (sect_cmd cm n sect 0)) k = bit sect k"
      unfolding lba_def and_masks d4 by cases (use hi [of k] in \<open>auto simp: sect_cmd_def and_masks bit_simps\<close>)
  qed
qed

lemma hd_loop_read:
  assumes "ata_reads ata D" "\<exists>x. va2la (hd_kern s) TASK_HD at = Inr x" "hd_ports s = cmd_ports c" "command c = ATA_READ" "bit (device c) 6" "\<not> bit (device c) 4"
    "0 \<le> left" "int (hd_sect s) * 512 + left \<le> int (ata_count c) * 512" "hd_ints s + hd_sect s = ata_count c"
  shows "\<exists>s'. hd_loop ata at True lin left s = Inr s' \<and> hd_info0 s' = hd_info0 s \<and>
    hd_mem s' = phys_write (hd_mem s) lin (buf_read D ((uint (lba c) + int (hd_sect s)) * 512) (nat left))"
  using assms(2,3,7,8,9)
proof (induction "nat left" arbitrary: left lin s rule: less_induct)
  case less
  show ?case
  proof (cases "left = 0")
    case True
    then show ?thesis by (subst hd_loop.simps) (simp add: phys_write_def buf_read_def)
  next
    case False
    then have l: "0 < left" using less.prems(3) by simp
    define bytes where "bytes = nat (min 512 left)"
    let ?p = "(uint (lba c) + int (hd_sect s)) * 512"
    define s1 where "s1 = s\<lparr>hd_ints := hd_ints s - 1, hdbuf := map (ata (hd_ports s) (hd_sect s)) [0..<512], hd_sect := Suc (hd_sect s)\<rparr>"
    have k: "hd_sect s < ata_count c" using less.prems(4) l by linarith
    then have ns: "next_sector ata s = Inr s1" using less.prems(5) by (simp add: next_sector_def interrupt_wait_def s1_def)
    have b: "hdbuf s1 = buf_read D ?p 512" using assms(1,4-6) k less.prems(2) by (simp add: s1_def ata_reads_def buf_read_def)
    define s2 where "s2 = s1\<lparr>hd_mem := phys_write (hd_mem s1) lin (take bytes (hdbuf s1))\<rparr>"
    have tb: "take bytes (hdbuf s1) = buf_read D ?p bytes" unfolding b by (simp add: buf_read_def bytes_def take_map)
    have run: "hd_loop ata at True lin left s = hd_loop ata at True (lin + 512) (left - 512) s2"
      using l less.prems(1) by (subst hd_loop.simps) (auto simp add: ns s2_def bytes_def Let_def s1_def)
    have st: "hd_ints s2 + hd_sect s2 = ata_count c" "hd_kern s2 = hd_kern s" "hd_ports s2 = hd_ports s" "hd_sect s2 = Suc (hd_sect s)" "hd_info0 s2 = hd_info0 s" "hd_mem s2 = phys_write (hd_mem s) lin (buf_read D ?p bytes)"
      using less.prems(5) k unfolding tb [symmetric] by (simp_all add: s2_def s1_def)
    show ?thesis
    proof (cases "left \<le> 512")
      case True
      then have "hd_loop ata at True (lin + 512) (left - 512) s2 = Inr s2" by (subst hd_loop.simps) simp
      then show ?thesis using run st True by (simp add: bytes_def)
    next
      case big: False
      then have bb: "bytes = 512" by (simp add: bytes_def)
      from less.hyps [of "left - 512" s2 "lin + 512"] big less.prems st obtain s' where
        s': "hd_loop ata at True (lin + 512) (left - 512) s2 = Inr s'" "hd_info0 s' = hd_info0 s"
          "hd_mem s' = phys_write (hd_mem s2) (lin + 512) (buf_read D ((uint (lba c) + int (hd_sect s2)) * 512) (nat (left - 512)))" by auto
      have "left \<le> 256 * 512" using less.prems(4) ata_count_le [of c] by simp
      then have len: "512 + nat (left - 512) \<le> 2 ^ 32" by simp
      have q: "(uint (lba c) + int (hd_sect s2)) * 512 = ?p + 512" using st(4) by (simp add: algebra_simps)
      have rd: "buf_read D ?p 512 @ buf_read D (?p + 512) (nat (left - 512)) = buf_read D ?p (nat left)"
      proof -
        have "nat left = 512 + nat (left - 512)" using big by simp
        then show ?thesis unfolding buf_read_def by (auto simp: nth_append add.assoc intro!: nth_equalityI)
      qed
      have "hd_mem s' = phys_write (hd_mem s) lin (buf_read D ?p (nat left))"
        using phys_write_append [of "buf_read D ?p 512" "buf_read D (?p + 512) (nat (left - 512))" "hd_mem s" lin] len
        unfolding s'(3) q st(6) bb rd by simp
      then show ?thesis using run s' by simp
    qed
  qed
qed

lemma sector_number:
  assumes "q < 2 ^ 28"
  shows "drop_bit 9 (512 * of_nat q :: u64) = of_nat q" "(512 * of_nat q :: u64) AND 0x1ff = 0"
proof -
  have b: "uint (512 * of_nat q :: u64) = 512 * int q"
  proof -
    have "(512 * of_nat q :: u64) = of_nat (512 * q)" by simp
    moreover have "uint (of_nat (512 * q) :: u64) = int (512 * q)"
      using assms by (simp only: unsigned_of_nat) (simp add: take_bit_nat_eq_self)
    ultimately show ?thesis by simp
  qed
  show "drop_bit 9 (512 * of_nat q :: u64) = of_nat q"
  proof (rule unsigned_word_eqI [where 'a = int])
    show "uint (drop_bit 9 (512 * of_nat q :: u64)) = uint (of_nat q :: u64)"
      using assms by (simp only: unsigned_drop_bit_eq b unsigned_of_nat) (simp add: drop_bit_eq_div take_bit_nat_eq_self take_bit_int_eq_self)
  qed
  have "(512 * of_nat q :: u64) AND 0x1ff = take_bit 9 (512 * of_nat q)"
    by (simp add: take_bit_eq_mask mask_eq_exp_minus_1)
  moreover have "(512 * of_nat q :: u64) = push_bit 9 (of_nat q)" by (simp add: push_bit_eq_mult)
  moreover have "take_bit 9 (push_bit 9 (of_nat q :: u64)) = 0" by (simp only: take_bit_push_bit) simp
  ultimately show "(512 * of_nat q :: u64) AND 0x1ff = 0" by simp
qed

lemma waitfor_frame:
  assumes "waitfor msk val timeout s = Inr (r, s1)"
  shows "\<exists>tks sts. s1 = s\<lparr>hd_ticks := tks, hd_stats := sts\<rparr>"
  using assms by (auto simp: waitfor_def bindE_Inr split: list.splits)

lemma sector_range:
  assumes "uint (pi_base p) + int q < 2 ^ 28"
  shows "q < 2 ^ 28" "uint (of_nat q + pi_base p) = uint (pi_base p) + int q"
proof -
  have "int q < 2 ^ 28" using assms uint_nonnegative [of "pi_base p"] by linarith
  then show q: "q < 2 ^ 28" by simp
  have "uint (of_nat q :: u32) = int q" using q by (simp add: unsigned_of_nat take_bit_nat_eq_self)
  then show "uint (of_nat q + pi_base p) = uint (pi_base p) + int q" using assms by (simp add: uint_word_ariths(1))
qed

text \<open>For an aligned position the two assertions hold, and the command is one for the sector of the partition.\<close>

lemma hd_rdwt_sector:
  assumes "m3l1 m = 512 * of_nat q" "DRV_OF_DEV (m3i4 m) = 0" "part_of 0 (m3i4 m) s = Inr p" "uint (pi_base p) + int q < 2 ^ 28"
  shows "hd_rdwt ata at m s =
    bindE (hd_cmd_out (sect_cmd (if mtype m = DEV_READ then ATA_READ else ATA_WRITE) (c_div (m3i2 m + 511) 512) (of_nat q + pi_base p) 0) s) (\<lambda>s1.
    bindE (va2la (hd_kern s1) (m3i3 m) (m3p2 m)) (\<lambda>lin. hd_loop ata at (mtype m = DEV_READ) lin (m3i2 m) s1))"
proof -
  note q = sector_range(1) [OF assms(4)]
  have w: "ucast (of_nat q :: u64) = (of_nat q :: u32)" using q unfolding unsigned_of_nat by (simp add: take_bit_nat_eq_self)
  have "(of_nat q :: u64) < 0xffffffff80000000" using q by (simp add: word_less_def unsigned_of_nat take_bit_nat_eq_self)
  then show ?thesis unfolding hd_rdwt_def Let_def assms(1,2,3) sector_number [OF q] w by simp
qed

lemma hd_cmd_out_ready:
  assumes "waitfor STATUS_BSY 0 HD_TIMEOUT s = Inr (True, s1)"
  obtains tks sts where "hd_cmd_out c s = Inr (s\<lparr>hd_ticks := tks, hd_stats := sts, hd_ports := cmd_ports c, hd_sect := 0, hd_ints := cmd_ints c\<rparr>)"
  using assms waitfor_frame [OF assms] by (auto simp: hd_cmd_out_def)

lemma hd_read:
  assumes disk: "ata_reads ata D"
    and msg: "mtype m = DEV_READ" "DRV_OF_DEV (m3i4 m) = 0" "m3l1 m = 512 * of_nat q" "0 \<le> m3i2 m" "m3i2 m \<le> 256 * 512"
    and part: "part_of 0 (m3i4 m) s = Inr p" "uint (pi_base p) + int q < 2 ^ 28"
    and ready: "waitfor STATUS_BSY 0 HD_TIMEOUT s = Inr (True, s1)"
    and addr: "va2la (hd_kern s) (m3i3 m) (m3p2 m) = Inr lin" "\<exists>x. va2la (hd_kern s) TASK_HD at = Inr x"
  shows "\<exists>s'. hd_rdwt ata at m s = Inr s' \<and>
    hd_mem s' = phys_write (hd_mem s) lin (buf_read D ((uint (pi_base p) + int q) * 512) (nat (m3i2 m)))"
proof -
  define n where "n = c_div (m3i2 m + 511) 512"
  define c where "c = sect_cmd ATA_READ n (of_nat q + pi_base p) 0"
  obtain tks sts where out: "hd_cmd_out c s = Inr (s\<lparr>hd_ticks := tks, hd_stats := sts, hd_ports := cmd_ports c, hd_sect := 0, hd_ints := cmd_ints c\<rparr>)"
    using hd_cmd_out_ready [OF ready] .
  define s2 where "s2 = s\<lparr>hd_ticks := tks, hd_stats := sts, hd_ports := cmd_ports c, hd_sect := 0, hd_ints := cmd_ints c\<rparr>"
  note sect = sector_range(2) [OF part(2)]
  have n: "n \<le> 256" "m3i2 m \<le> n * 512" "0 < m3i2 m \<Longrightarrow> 0 < n" using msg(4,5) by (simp_all add: n_def c_div_def sgn_if)
  have cn: "m3i2 m \<le> int (ata_count c) * 512"
    using n msg(4) ata_count_sect_cmd [of n ATA_READ "of_nat q + pi_base p" 0] by (cases "m3i2 m = 0") (simp_all add: c_def)
  have lb: "lba c = of_nat q + pi_base p" "bit (device c) 6" "\<not> bit (device c) 4"
    using lba_sect_cmd [of "of_nat q + pi_base p" ATA_READ n] part(2) unfolding sect by (simp_all add: c_def)
  have cm: "command c = ATA_READ" by (simp add: c_def sect_cmd_def)
  have run: "hd_rdwt ata at m s = hd_loop ata at True lin (m3i2 m) s2"
    using hd_rdwt_sector [OF msg(3,2) part] out msg(1) addr(1) by (simp add: s2_def c_def n_def)
  from hd_loop_read [OF disk, of s2 at c "m3i2 m" lin] addr(2) cm lb cn n msg(4)
  show ?thesis unfolding run by (auto simp: s2_def sect cmd_ints_def)
qed

definition rw_sector_msg :: "int \<Rightarrow> int \<Rightarrow> int \<Rightarrow> int \<Rightarrow> int \<Rightarrow> u32 \<Rightarrow> MESSAGE \<Rightarrow> MESSAGE" where
  "rw_sector_msg io_type dev pos bytes proc_nr buf m =
     m\<lparr>mtype := io_type, m3i4 := MINOR dev, m3l1 := of_int pos, m3p2 := buf, m3i2 := bytes, m3i3 := proc_nr\<rparr>"

lemma phys_write_at:
  assumes "0 \<le> i" "i < 2 ^ 32" "length xs \<le> 2 ^ 32"
  shows "phys_write mm lin xs (lin + of_int i) = (if i < int (length xs) then xs ! nat i else mm (lin + of_int i))"
proof -
  have "unat (of_int i :: u32) = nat i" using assms(1,2) by (simp add: unsigned_of_int take_bit_int_eq_self)
  then show ?thesis using assms(1) by (auto simp: phys_write_def nat_less_iff)
qed

text \<open>
  C35: a read of the file system is what the driver does. Let the disk be \<open>D\<close> as the controller
  reads it, the partition begin at sector \<open>pi_base p\<close> and the file system see the part of \<open>D\<close>
  from there. If \<open>rw_sector()\<close> takes the file system from \<open>f\<close> to \<open>f'\<close>, then the driver, given the
  message \<open>rw_sector()\<close> sends, finishes and leaves in memory at the buffer's address the bytes of
  the file system's buffer in \<open>f'\<close>, for requests of up to 256 sectors below sector \<open>2 ^ 28\<close>.
\<close>

theorem rw_sector_served:
  assumes disk: "ata_reads ata D" "disk f (MINOR dev) = (\<lambda>a. D (uint (pi_base p) * 512 + a))"
    and part: "part_of 0 (MINOR dev) s = Inr p" "DRV_OF_DEV (MINOR dev) = 0" "uint (pi_base p) + int q < 2 ^ 28"
    and size: "0 \<le> bytes" "bytes \<le> 256 * 512"
    and ready: "waitfor STATUS_BSY 0 HD_TIMEOUT s = Inr (True, s1)"
    and addr: "va2la (hd_kern s) TASK_FS buf = Inr lin" "va2la (hd_kern s) TASK_HD at = Inr x"
    and buf: "\<forall>i. 0 \<le> i \<and> i < 0x100000 \<longrightarrow> hd_mem s (lin + of_int i) = fsbuf f i"
    and run: "rw_sector False dev (512 * int q) bytes f = Inr f'"
  shows "\<exists>s'. hd_rdwt ata at (rw_sector_msg DEV_READ dev (512 * int q) bytes TASK_FS buf m) s = Inr s' \<and>
    (\<forall>i. 0 \<le> i \<and> i < 0x100000 \<longrightarrow> hd_mem s' (lin + of_int i) = fsbuf f' i)"
proof -
  let ?m = "rw_sector_msg DEV_READ dev (512 * int q) bytes TASK_FS buf m"
  from hd_read [OF disk(1), of ?m q s p s1 lin at] part size ready addr obtain s' where
    s': "hd_rdwt ata at ?m s = Inr s'" "hd_mem s' = phys_write (hd_mem s) lin (buf_read D ((uint (pi_base p) + int q) * 512) (nat bytes))"
    by (auto simp: rw_sector_msg_def)
  have f': "fsbuf f' = buf_copy (fsbuf f) 0 bytes (disk f (MINOR dev)) (512 * int q)" using run size by (auto simp: rw_sector_def bindE_Inr)
  have "hd_mem s' (lin + of_int i) = fsbuf f' i" if "0 \<le> i" "i < 0x100000" for i
    using that buf size unfolding s'(2) f' disk(2)
    by (simp add: phys_write_at buf_copy_def buf_read_def algebra_simps)
  with s'(1) show ?thesis by blast
qed

lemma waitfor_cases [case_names wait fail ok]:
  obtains "waitfor msk val timeout s \<in> {Inl (Blocked ''waitfor''), Inl (Blocked ''get_ticks'')}"
  | tks sts where "waitfor msk val timeout s = Inr (False, s\<lparr>hd_ticks := tks, hd_stats := sts\<rparr>)"
  | tks sts where "waitfor msk val timeout s = Inr (True, s\<lparr>hd_ticks := tks, hd_stats := sts\<rparr>)"
proof (cases "waitfor msk val timeout s")
  case (Inl e)
  have "waitfor_loop msk val timeout t tks sts = Inl e \<Longrightarrow> e = Blocked ''waitfor''" for t tks sts
    by (induction msk val timeout t tks sts rule: waitfor_loop.induct) (auto split: list.splits if_splits)
  with Inl that(1) show thesis by (auto simp: waitfor_def bindE_def split: list.splits sum.splits)
next
  case (Inr x)
  then obtain r s1 where "waitfor msk val timeout s = Inr (r, s1)" by (cases x) auto
  with waitfor_frame [OF this] that(2,3) show thesis by (cases r) auto
qed

lemma length_concat_const: "\<forall>b \<in> set xs. length b = n \<Longrightarrow> length (concat xs) = n * length xs"
  by (induction xs) auto

definition stopped :: "hd res \<Rightarrow> bool" where
  "stopped r \<longleftrightarrow> r \<in> {Inl (Blocked ''waitfor''), Inl (Blocked ''get_ticks''), Inl (Panic ''hd error.''), Inl (Panic ''hd writing error.'')}"

lemma hd_loop_write:
  "left \<le> int (hd_ints s) * 512 \<Longrightarrow> stopped (hd_loop ata at False lin left s) \<or>
   (\<exists>s' secs. hd_loop ata at False lin left s = Inr s' \<and> hd_ports s' = hd_ports s \<and> hd_mem s' = hd_mem s \<and> hd_written s' = hd_written s @ secs \<and>
      concat secs = phys_read (hd_mem s) lin (nat left) \<and> (left mod 512 = 0 \<longrightarrow> (\<forall>b \<in> set secs. length b = 512)))"
proof (induction "nat left" arbitrary: left lin s rule: less_induct)
  case less
  show ?case
  proof (cases "left \<le> 0")
    case True
    then show ?thesis by (subst (1 2) hd_loop.simps) (auto simp: phys_read_def)
  next
    case False
    define bytes where "bytes = nat (min 512 left)"
    have unf: "hd_loop ata at False lin left s =
        bindE (bindE (waitfor STATUS_DRQ STATUS_DRQ HD_TIMEOUT s) (\<lambda>(r, s1).
               if \<not> r then Inl (Panic ''hd writing error.'')
               else interrupt_wait (s1\<lparr>hd_written := hd_written s1 @ [phys_read (hd_mem s1) lin bytes]\<rparr>)))
          (hd_loop ata at False (lin + 512) (left - 512))"
      unfolding bytes_def using False by (subst hd_loop.simps) simp
    consider (stop) "stopped (hd_loop ata at False lin left s)"
      | (go) tks sts where "hd_loop ata at False lin left s =
          hd_loop ata at False (lin + 512) (left - 512) (s\<lparr>hd_ticks := tks, hd_stats := sts, hd_written := hd_written s @ [phys_read (hd_mem s) lin bytes], hd_ints := hd_ints s - 1\<rparr>)"
      by (rule waitfor_cases [of STATUS_DRQ STATUS_DRQ HD_TIMEOUT s]) (use unf less.prems False in \<open>auto simp: stopped_def interrupt_wait_def\<close>)
    then show ?thesis
    proof cases
      case stop
      then show ?thesis by simp
    next
      case go
      let ?s = "s\<lparr>hd_ticks := tks, hd_stats := sts, hd_written := hd_written s @ [phys_read (hd_mem s) lin bytes], hd_ints := hd_ints s - 1\<rparr>"
      have mem: "phys_read (hd_mem s) lin (nat left) = phys_read (hd_mem s) lin bytes @ phys_read (hd_mem s) (lin + 512) (nat (left - 512))"
      proof (cases "left \<le> 512")
        case True
        then show ?thesis by (simp add: bytes_def phys_read_def)
      next
        case big: False
        then have "nat left = 512 + nat (left - 512)" "bytes = 512" by (simp_all add: bytes_def)
        then show ?thesis using phys_read_append [of "hd_mem s" lin 512 "nat (left - 512)"] by simp
      qed
      have full: "bytes = 512" if "left mod 512 = 0"
      proof -
        have "512 \<le> left" using that False by presburger
        then show ?thesis by (simp add: bytes_def)
      qed
      from less.hyps [of "left - 512" ?s "lin + 512"] False less.prems consider
          "stopped (hd_loop ata at False (lin + 512) (left - 512) ?s)"
        | s' secs where "hd_loop ata at False (lin + 512) (left - 512) ?s = Inr s'" "hd_ports s' = hd_ports s" "hd_mem s' = hd_mem s"
            "hd_written s' = hd_written s @ [phys_read (hd_mem s) lin bytes] @ secs" "concat secs = phys_read (hd_mem s) (lin + 512) (nat (left - 512))"
            "left mod 512 = 0 \<longrightarrow> (\<forall>b \<in> set secs. length b = 512)"
        by auto
      then show ?thesis
      proof cases
        case 1
        then show ?thesis using go by simp
      next
        case (2 s' secs)
        then show ?thesis unfolding go mem using full
          by (intro disjI2 exI [of _ s'] exI [of _ "phys_read (hd_mem s) lin bytes # secs"]) (auto simp: phys_read_def)
      qed
    qed
  qed
qed


text \<open>The disk after a write command has been given the sectors \<open>secs\<close>.\<close>

definition ata_store :: "(int \<Rightarrow> u8) \<Rightarrow> hd_cmd \<Rightarrow> u8 list list \<Rightarrow> (int \<Rightarrow> u8)" where
  "ata_store D c secs = buf_write D (uint (lba c) * 512) (concat secs)"

text \<open>
  C36: and so is a write: for up to 256 whole sectors, the driver either stops because the disk is not
  ready, or gives the controller a write command and the sectors such that the disk they leave,
  seen from the beginning of the partition, is the one \<open>rw_sector()\<close> leaves in the model of the
  file system.
\<close>

theorem rw_sector_stored:
  assumes disk: "disk f (MINOR dev) = (\<lambda>a. D (uint (pi_base p) * 512 + a))"
    and part: "part_of 0 (MINOR dev) s = Inr p" "DRV_OF_DEV (MINOR dev) = 0" "uint (pi_base p) + int q < 2 ^ 28"
    and size: "0 < k" "k \<le> 256"
    and addr: "va2la (hd_kern s) TASK_FS buf = Inr lin"
    and buf: "\<forall>i. 0 \<le> i \<and> i < 0x100000 \<longrightarrow> hd_mem s (lin + of_int i) = fsbuf f i"
    and run: "rw_sector True dev (512 * int q) (512 * int k) f = Inr f'"
  shows "stopped (hd_rdwt ata at (rw_sector_msg DEV_WRITE dev (512 * int q) (512 * int k) TASK_FS buf m) s) \<or>
    (\<exists>s' c secs. hd_rdwt ata at (rw_sector_msg DEV_WRITE dev (512 * int q) (512 * int k) TASK_FS buf m) s = Inr s' \<and>
       hd_ports s' = cmd_ports c \<and> command c = ATA_WRITE \<and> ata_count c = k \<and> bit (device c) 6 \<and> \<not> bit (device c) 4 \<and>
       hd_written s' = hd_written s @ secs \<and> length secs = k \<and> (\<forall>b \<in> set secs. length b = 512) \<and>
       disk f' (MINOR dev) = (\<lambda>a. ata_store D c secs (uint (pi_base p) * 512 + a)))"
proof -
  let ?m = "rw_sector_msg DEV_WRITE dev (512 * int q) (512 * int k) TASK_FS buf m"
  define c where "c = sect_cmd ATA_WRITE (int k) (of_nat q + pi_base p) 0"
  note sect = sector_range(2) [OF part(3)]
  have lb: "lba c = of_nat q + pi_base p" "bit (device c) 6" "\<not> bit (device c) 4"
    using lba_sect_cmd [of "of_nat q + pi_base p" ATA_WRITE "int k"] part(3) unfolding sect by (simp_all add: c_def)
  have cc: "command c = ATA_WRITE" "ata_count c = k"
    using size ata_count_sect_cmd [of "int k" ATA_WRITE "of_nat q + pi_base p" 0] by (simp_all add: c_def sect_cmd_def)
  have "c_div (512 * int k + 511) 512 = int k" by (simp add: c_div_def sgn_if)
  then have run': "hd_rdwt ata at ?m s = bindE (hd_cmd_out c s) (\<lambda>s1. bindE (va2la (hd_kern s1) TASK_FS buf) (\<lambda>lin. hd_loop ata at False lin (512 * int k) s1))"
    using hd_rdwt_sector [of ?m q s p ata at] part by (simp add: rw_sector_msg_def c_def)
  have f': "disk f' (MINOR dev) = buf_copy (disk f (MINOR dev)) (512 * int q) (512 * int k) (fsbuf f) 0"
    using run size by (auto simp: rw_sector_def bindE_Inr)
  consider "stopped (hd_cmd_out c s)"
    | tks sts where "hd_cmd_out c s = Inr (s\<lparr>hd_ticks := tks, hd_stats := sts, hd_ports := cmd_ports c, hd_sect := 0, hd_ints := cmd_ints c\<rparr>)"
    by (rule waitfor_cases [of STATUS_BSY 0 HD_TIMEOUT s]) (auto simp: hd_cmd_out_def stopped_def)
  then show ?thesis
  proof cases
    case 1
    then show ?thesis unfolding run' by (auto simp: stopped_def)
  next
    case (2 tks sts)
    let ?s = "s\<lparr>hd_ticks := tks, hd_stats := sts, hd_ports := cmd_ports c, hd_sect := 0, hd_ints := cmd_ints c\<rparr>"
    have run2: "hd_rdwt ata at ?m s = hd_loop ata at False lin (512 * int k) ?s" unfolding run' 2 using addr by simp
    from hd_loop_write [of "512 * int k" ?s ata at lin] cc consider "stopped (hd_rdwt ata at ?m s)"
      | s' secs where "hd_rdwt ata at ?m s = Inr s'" "hd_ports s' = cmd_ports c" "hd_written s' = hd_written s @ secs"
          "concat secs = phys_read (hd_mem s) lin (nat (512 * int k))" "\<forall>b \<in> set secs. length b = 512"
      unfolding run2 by (auto simp: cmd_ints_def)
    then show ?thesis
    proof cases
      case 1
      then show ?thesis by simp
    next
      case (2 s' secs)
      have l: "length secs = k"
        using arg_cong [OF 2(4), of length] length_concat_const [of secs 512] 2(5) by (simp add: phys_read_def)
      have "disk f' (MINOR dev) = (\<lambda>a. ata_store D c secs (uint (pi_base p) * 512 + a))"
      proof
        fix a
        show "disk f' (MINOR dev) a = ata_store D c secs (uint (pi_base p) * 512 + a)"
          using buf [rule_format, of "a - 512 * int q"] size unfolding f' disk ata_store_def 2(4) lb(1) sect
          by (auto simp: buf_copy_def buf_write_def phys_read_def algebra_simps)
      qed
      with 2 l cc lb show ?thesis by blast
    qed
  qed
qed

subsection \<open>Requests of more than 256 sectors\<close>

lemma hd_loop_read_hangs:
  assumes "int (hd_ints s) * 512 < left" "\<exists>x. va2la (hd_kern s) TASK_HD at = Inr x"
  shows "hd_loop ata at True lin left s = Inl (Hang ''interrupt_wait'')"
  using assms
proof (induction "hd_ints s" arbitrary: left lin s)
  case 0
  then show ?case by (subst hd_loop.simps) (simp add: next_sector_def interrupt_wait_def)
next
  case (Suc n)
  define s2 where "s2 = s\<lparr>hd_ints := n, hdbuf := map (ata (hd_ports s) (hd_sect s)) [0..<512], hd_sect := Suc (hd_sect s),
    hd_mem := phys_write (hd_mem s) lin (take (nat (min 512 left)) (map (ata (hd_ports s) (hd_sect s)) [0..<512]))\<rparr>"
  have "hd_loop ata at True lin left s = hd_loop ata at True (lin + 512) (left - 512) s2"
    using Suc.hyps(2) [symmetric] Suc.prems by (subst hd_loop.simps) (auto simp: next_sector_def interrupt_wait_def s2_def Let_def)
  moreover have "n = hd_ints s2" "int (hd_ints s2) * 512 < left - 512" "\<exists>x. va2la (hd_kern s2) TASK_HD at = Inr x"
    using Suc.hyps(2) Suc.prems by (auto simp: s2_def)
  ultimately show ?case using Suc.hyps(1) [of s2 "left - 512" "lin + 512"] by simp
qed

lemma hd_loop_write_long:
  assumes "int (hd_ints s) * 512 < left"
  shows "hd_loop ata at False lin left s \<noteq> Inr s'"
  using assms
proof (induction "hd_ints s" arbitrary: left lin s)
  case 0
  then show ?case
    by (subst hd_loop.simps) (auto simp: interrupt_wait_def bindE_Inr split: if_splits dest!: waitfor_frame)
next
  case (Suc n)
  show ?case
  proof
    assume "hd_loop ata at False lin left s = Inr s'"
    then have "(if left \<le> 0 then Inr s else bindE (bindE (waitfor STATUS_DRQ STATUS_DRQ HD_TIMEOUT s) (\<lambda>(r, s1).
          if \<not> r then Inl (Panic ''hd writing error.'')
          else interrupt_wait (s1\<lparr>hd_written := hd_written s1 @ [phys_read (hd_mem s1) lin (nat (min 512 left))]\<rparr>)))
        (hd_loop ata at False (lin + 512) (left - 512))) = Inr s'"
      by (subst (asm) hd_loop.simps) (simp only: Let_def if_False)
    moreover have "0 < left" using Suc.prems by linarith
    ultimately obtain s1 s2 where w: "waitfor STATUS_DRQ STATUS_DRQ HD_TIMEOUT s = Inr (True, s1)"
      and i: "interrupt_wait (s1\<lparr>hd_written := hd_written s1 @ [phys_read (hd_mem s1) lin (nat (min 512 left))]\<rparr>) = Inr s2"
      and l: "hd_loop ata at False (lin + 512) (left - 512) s2 = Inr s'"
      by (auto simp: bindE_Inr split: if_splits)
    from waitfor_frame [OF w] i Suc.hyps(2) [symmetric] l have s2: "hd_ints s2 = n" "hd_loop ata at False (lin + 512) (left - 512) s2 = Inr s'"
      by (auto simp: interrupt_wait_def)
    have "int (hd_ints s2) * 512 < left - 512" using Suc.prems Suc.hyps(2) [symmetric] s2(1) by simp
    from Suc.hyps(1) [OF s2(1) [symmetric] this] s2(2) show False by simp
  qed
qed

text \<open>
  The other branch of \<open>rw_sector()\<close>: the driver never finishes a request of more than 256 sectors,
  because the command's count has eight bits. A read stops in \<open>interrupt_wait()\<close>.
\<close>

theorem rw_sector_too_long:
  assumes part: "part_of 0 (MINOR dev) s = Inr p" "DRV_OF_DEV (MINOR dev) = 0" "uint (pi_base p) + int q < 2 ^ 28"
    and size: "256 * 512 < bytes"
    and ready: "waitfor STATUS_BSY 0 HD_TIMEOUT s = Inr (True, s1)"
    and addr: "va2la (hd_kern s) TASK_FS buf = Inr lin" "\<exists>x. va2la (hd_kern s) TASK_HD at = Inr x"
  shows "hd_rdwt ata at (rw_sector_msg DEV_READ dev (512 * int q) bytes TASK_FS buf m) s = Inl (Hang ''interrupt_wait'')"
    "hd_rdwt ata at (rw_sector_msg DEV_WRITE dev (512 * int q) bytes TASK_FS buf m) s \<noteq> Inr s'"
proof -
  have long: "int (cmd_ints (sect_cmd cm n sect 0)) * 512 < bytes" for cm n sect
    using ata_count_le [of "sect_cmd cm n sect 0"] size by (auto simp: cmd_ints_def)
  let ?r = "rw_sector_msg DEV_READ dev (512 * int q) bytes TASK_FS buf m"
  let ?w = "rw_sector_msg DEV_WRITE dev (512 * int q) bytes TASK_FS buf m"
  let ?n = "c_div (bytes + 511) 512" and ?sect = "of_nat q + pi_base p"
  obtain s2 where "hd_cmd_out (sect_cmd ATA_READ ?n ?sect 0) s = Inr s2" "hd_kern s2 = hd_kern s"
      "hd_ints s2 = cmd_ints (sect_cmd ATA_READ ?n ?sect 0)"
    using hd_cmd_out_ready [OF ready, of "sect_cmd ATA_READ ?n ?sect 0"] by force
  then show "hd_rdwt ata at ?r s = Inl (Hang ''interrupt_wait'')"
    using hd_rdwt_sector [of ?r q s p ata at] part addr hd_loop_read_hangs [of s2 bytes at ata lin] long
    by (simp add: rw_sector_msg_def)
  obtain s3 where "hd_cmd_out (sect_cmd ATA_WRITE ?n ?sect 0) s = Inr s3" "hd_kern s3 = hd_kern s"
      "hd_ints s3 = cmd_ints (sect_cmd ATA_WRITE ?n ?sect 0)"
    using hd_cmd_out_ready [OF ready, of "sect_cmd ATA_WRITE ?n ?sect 0"] by force
  then show "hd_rdwt ata at ?w s \<noteq> Inr s'"
    using hd_rdwt_sector [of ?w q s p ata at] part addr hd_loop_write_long [of s3 bytes ata at lin s'] long
    by (simp add: rw_sector_msg_def)
qed

subsection \<open>Partitions\<close>

lemma get_part_table_info:
  "get_part_table ata drive sect s = Inr (tbl, s1) \<Longrightarrow> hd_info0 s1 = hd_info0 s"
  by (auto simp: get_part_table_def hd_cmd_out_def next_sector_def interrupt_wait_def bindE_Inr Let_def split: if_splits dest!: waitfor_frame)

text \<open>Primary partition \<open>i + 1\<close> has 16 logical partitions at most, all inside the array.\<close>

lemma part_extended_info:
  assumes "part_extended ata drive ext n d sct s = Inr s'"
  shows "open_cnt (hd_info0 s') = open_cnt (hd_info0 s)" "primary (hd_info0 s') = primary (hd_info0 s)"
    "k < d \<or> d + n \<le> k \<Longrightarrow> logical (hd_info0 s') k = logical (hd_info0 s) k"
proof -
  have "open_cnt (hd_info0 s') = open_cnt (hd_info0 s) \<and> primary (hd_info0 s') = primary (hd_info0 s) \<and>
    (k < d \<or> d + n \<le> k \<longrightarrow> logical (hd_info0 s') k = logical (hd_info0 s) k)"
    using assms
  proof (induction ata drive ext n d sct s arbitrary: s' rule: part_extended.induct)
    case (2 ata drive ext n d sct s)
    from "2.prems" obtain tbl s1 where t: "get_part_table ata drive sct s = Inr (tbl, s1)" by (auto simp: bindE_Inr)
    define s2 where "s2 = upd_info (\<lambda>i. i\<lparr>logical := (logical i)(d := \<lparr>pi_base = sct + start_sect (tbl 0), pi_size = nr_sects_ent (tbl 0)\<rparr>)\<rparr>) s1"
    have s2: "open_cnt (hd_info0 s2) = open_cnt (hd_info0 s)" "primary (hd_info0 s2) = primary (hd_info0 s)"
      "k \<noteq> d \<Longrightarrow> logical (hd_info0 s2) k = logical (hd_info0 s) k"
      by (simp_all add: s2_def upd_info_def get_part_table_info [OF t])
    show ?case
    proof (cases "sys_id (tbl 1) = 0")
      case True
      then have "s' = s2" using "2.prems" t by (simp add: s2_def)
      then show ?thesis using s2 by auto
    next
      case False
      then have "part_extended ata drive ext n (Suc d) (ext + start_sect (tbl 1)) s2 = Inr s'"
        using "2.prems" t by (simp add: s2_def)
      from "2.IH" [OF s2_def False this] s2 show ?thesis by auto
    qed
  qed simp
  then show "open_cnt (hd_info0 s') = open_cnt (hd_info0 s)" "primary (hd_info0 s') = primary (hd_info0 s)"
    "k < d \<or> d + n \<le> k \<Longrightarrow> logical (hd_info0 s') k = logical (hd_info0 s) k" by auto
qed

lemma part_primary_info:
  assumes "part_primary ata tbl i s = Inr s'"
  shows "open_cnt (hd_info0 s') = open_cnt (hd_info0 s)"
    "primary (hd_info0 s') = (if sys_id (tbl i) = 0 then primary (hd_info0 s)
       else (primary (hd_info0 s))(Suc i := \<lparr>pi_base = start_sect (tbl i), pi_size = nr_sects_ent (tbl i)\<rparr>))"
    "k < 16 * i \<or> 16 * i + 16 \<le> k \<Longrightarrow> logical (hd_info0 s') k = logical (hd_info0 s) k"
  using assms part_extended_info [of ata 0 "start_sect (tbl i)" 16 "16 * i" "start_sect (tbl i)" _ s']
  by (auto simp: part_primary_def Let_def upd_info_def split: if_splits)

lemma partition_info:
  assumes "partition ata s = Inr s'"
  shows "\<exists>tbl s1. get_part_table ata 0 0 s = Inr (tbl, s1) \<and> (\<exists>i<4. sys_id (tbl i) \<noteq> 0) \<and>
    (\<forall>i<4. primary (hd_info0 s') (Suc i) = (if sys_id (tbl i) = 0 then primary (hd_info0 s) (Suc i)
       else \<lparr>pi_base = start_sect (tbl i), pi_size = nr_sects_ent (tbl i)\<rparr>)) \<and>
    primary (hd_info0 s') 0 = primary (hd_info0 s) 0 \<and> (\<forall>k\<ge>64. logical (hd_info0 s') k = logical (hd_info0 s) k)"
proof -
  from assms obtain tbl s1 a b c where p: "get_part_table ata 0 0 s = Inr (tbl, s1)" "part_primary ata tbl 0 s1 = Inr a"
    "part_primary ata tbl 1 a = Inr b" "part_primary ata tbl 2 b = Inr c" "part_primary ata tbl 3 c = Inr s'"
    "\<exists>i\<in>{0, 1, 2, 3}. sys_id (tbl i) \<noteq> 0"
    by (auto simp: partition_def bindE_Inr assertE_def split: if_splits)
  note i = p(2-5) [THEN part_primary_info(2)] and l = p(2-5) [THEN part_primary_info(3)]
  have "primary (hd_info0 s') (Suc i) = (if sys_id (tbl i) = 0 then primary (hd_info0 s) (Suc i)
       else \<lparr>pi_base = start_sect (tbl i), pi_size = nr_sects_ent (tbl i)\<rparr>)" if "i < 4" for i
    using that unfolding i using get_part_table_info [OF p(1)] by (auto simp: less_Suc_eq numeral_eq_Suc)
  moreover have "primary (hd_info0 s') 0 = primary (hd_info0 s) 0" unfolding i using get_part_table_info [OF p(1)] by auto
  moreover have "logical (hd_info0 s') k = logical (hd_info0 s) k" if "64 \<le> k" for k
    using that l [of k] get_part_table_info [OF p(1)] by simp
  moreover have "\<exists>i<4. sys_id (tbl i) \<noteq> 0" using p(6) by (auto intro: exI [of _ "0 :: nat"] exI [of _ "1 :: nat"] exI [of _ "2 :: nat"] exI [of _ "3 :: nat"])
  ultimately show ?thesis using p(1) by blast
qed

subsection \<open>A disk to try the properties on\<close>

text \<open>A controller for the disk \<open>D\<close>: it reads the sector number from the ports the driver wrote.\<close>

definition demo_ata :: "(int \<Rightarrow> u8) \<Rightarrow> ports \<Rightarrow> nat \<Rightarrow> nat \<Rightarrow> u8" where
  "demo_ata D ps k i =
     (let r = (\<lambda>j. snd (ps ! j));
          c = \<lparr>features = r 1, count = r 2, lba_low = r 3, lba_mid = r 4, lba_high = r 5, device = r 6, command = r 7\<rparr>
      in D ((uint (lba c) + int k) * 512 + int i))"

lemma demo_ata_reads: "ata_reads (demo_ata D) D"
  by (simp add: ata_reads_def demo_ata_def cmd_ports_def lba_def Let_def)

text \<open>The root partition starts at sector 63; the disk becomes ready at the second look.\<close>

definition demo_hd :: hd where
  "demo_hd =
     \<lparr>hd_kern = fs_kern (demo_fs READ 0), hd_mem = (\<lambda>_. 7), hdbuf = [], hd_status = 0,
      hd_info0 = zero_info\<lparr>logical := (\<lambda>i. if i = 16 then \<lparr>pi_base = 63, pi_size = 100000\<rparr> else \<lparr>pi_base = 0, pi_size = 0\<rparr>)\<rparr>,
      hd_ticks = [5, 5, 6, 7, 7, 7, 7], hd_stats = [0x80, 0x50, 0x58, 0x58], hd_ports = [], hd_sect = 0, hd_ints = 0, hd_written = []\<rparr>"

definition demo_hd_fs :: fs where
  "demo_hd_fs = (demo_fs READ 0)\<lparr>fsbuf := \<lambda>_. 7, disk := \<lambda>_ a. of_int a\<rparr>"

lemma demo_hd_part: "part_of 0 (MINOR ROOT_DEV) demo_hd = Inr \<lparr>pi_base = 63, pi_size = 100000\<rparr>" "DRV_OF_DEV (MINOR ROOT_DEV) = 0"
  by (simp_all add: part_of_def root_dev(2) demo_hd_def zero_info_def c_mod_def c_div_def DRV_OF_DEV_def)

lemma demo_hd_addr: "va2la (hd_kern demo_hd) TASK_FS 0x600000 = Inr 0x600000" "va2la (hd_kern demo_hd) TASK_HD 0x8000 = Inr 0x8000"
  by (simp_all add: demo_hd_def va2la_def demo_fs_def Let_def ldt_seg_linear_def zero_process_def zero_desc_def)

lemma demo_hd_ready: "\<exists>s1. waitfor STATUS_BSY 0 HD_TIMEOUT demo_hd = Inr (True, s1)"
  by (simp add: waitfor_def demo_hd_def c_div_def s32_def)

lemma demo_hd_buf: "\<forall>i. 0 \<le> i \<and> i < 0x100000 \<longrightarrow> hd_mem demo_hd (0x600000 + of_int i) = fsbuf demo_hd_fs i"
  "disk demo_hd_fs (MINOR ROOT_DEV) = (\<lambda>a. of_int (uint (pi_base \<lparr>pi_base = 63, pi_size = 100000\<rparr>) * 512 + a - 63 * 512))"
  "uint (pi_base \<lparr>pi_base = 63, pi_size = 100000\<rparr>) + int 1 < 2 ^ 28"
  by (simp_all add: demo_hd_def demo_hd_fs_def)

lemma demo_hd_rw: "bytes \<le> 131072 \<Longrightarrow> \<exists>f'. rw_sector False ROOT_DEV pos bytes demo_hd_fs = Inr f' \<and> fsbuf f' = buf_copy (\<lambda>_. 7) 0 bytes (\<lambda>a. of_int a) pos"
  "bytes \<le> 131072 \<Longrightarrow> \<exists>f'. rw_sector True ROOT_DEV pos bytes demo_hd_fs = Inr f' \<and> disk f' (MINOR ROOT_DEV) = buf_copy (\<lambda>a. of_int a) pos bytes (\<lambda>_. 7) 0"
  by (simp_all add: rw_sector_def root_dev(2) demo_hd_fs_def)

text \<open>Bytes 1000 and 1023 of the partition, read with sector 1, are bytes 488 and 511 of the buffer.\<close>

theorem rw_sector_served_witness:
  "\<exists>s'. hd_rdwt (demo_ata (\<lambda>a. of_int (a - 63 * 512))) 0x8000 (rw_sector_msg DEV_READ ROOT_DEV 512 512 TASK_FS 0x600000 zero_msg) demo_hd = Inr s' \<and>
     hd_mem s' (0x600000 + 511) = of_int 1023 \<and> hd_mem s' (0x600000 + 512) = 7"
proof -
  from demo_hd_rw(1) [of "512 * int 1" 512] obtain f' where f': "rw_sector False ROOT_DEV (512 * int 1) 512 demo_hd_fs = Inr f'"
    "fsbuf f' = buf_copy (\<lambda>_. 7) 0 512 (\<lambda>a. of_int a) 512" by auto
  from demo_hd_ready obtain s1 where s1: "waitfor STATUS_BSY 0 HD_TIMEOUT demo_hd = Inr (True, s1)" by auto
  from rw_sector_served [OF demo_ata_reads demo_hd_buf(2) demo_hd_part demo_hd_buf(3) _ _ s1 demo_hd_addr demo_hd_buf(1) f'(1), where m = zero_msg]
  obtain s' where s': "hd_rdwt (demo_ata (\<lambda>a. of_int (a - 63 * 512))) 0x8000 (rw_sector_msg DEV_READ ROOT_DEV 512 512 TASK_FS 0x600000 zero_msg) demo_hd = Inr s'"
      "\<forall>i. 0 \<le> i \<and> i < 0x100000 \<longrightarrow> hd_mem s' (0x600000 + of_int i) = fsbuf f' i" by auto
  from s'(2) [rule_format, of 511] s'(2) [rule_format, of 512] s'(1) f'(2) show ?thesis by (auto simp: buf_copy_def)
qed

theorem rw_sector_stored_witness:
  "\<exists>s' c secs. hd_rdwt (\<lambda>_ _ _. 0) 0x8000 (rw_sector_msg DEV_WRITE ROOT_DEV 512 512 TASK_FS 0x600000 zero_msg) demo_hd = Inr s' \<and>
     hd_ports s' = cmd_ports c \<and> hd_written s' = secs \<and>
     ata_store (\<lambda>a. of_int (a - 63 * 512)) c secs (63 * 512 + 1000) = 7 \<and> ata_store (\<lambda>a. of_int (a - 63 * 512)) c secs (63 * 512 + 1024) = of_int 1024"
proof -
  let ?r = "hd_rdwt (\<lambda>_ _ _. 0) 0x8000 (rw_sector_msg DEV_WRITE ROOT_DEV 512 512 TASK_FS 0x600000 zero_msg) demo_hd"
  from demo_hd_rw(2) [of "512 * int 1" "512 * int 1"] obtain f' where f': "rw_sector True ROOT_DEV (512 * int 1) (512 * int 1) demo_hd_fs = Inr f'"
    "disk f' (MINOR ROOT_DEV) = buf_copy (\<lambda>a. of_int a) 512 512 (\<lambda>_. 7) 0" by auto
  have ns: "\<not> stopped ?r"
  proof -
    have "?r = bindE (hd_cmd_out (sect_cmd ATA_WRITE 1 64 0) demo_hd) (\<lambda>s1.
        bindE (va2la (hd_kern s1) TASK_FS 0x600000) (\<lambda>lin. hd_loop (\<lambda>_ _ _. 0) 0x8000 False lin 512 s1))"
      using hd_rdwt_sector [where q = 1 and s = demo_hd and ata = "\<lambda>_ _ _. 0" and at = "0x8000" and m = "rw_sector_msg DEV_WRITE ROOT_DEV 512 512 TASK_FS 0x600000 zero_msg"] demo_hd_part
      by (simp add: rw_sector_msg_def c_div_def)
    then show ?thesis using demo_hd_addr
      by (simp add: hd_cmd_out_def waitfor_def demo_hd_def c_div_def s32_def hd_loop.simps stopped_def interrupt_wait_def cmd_ints_def ata_count_def sect_cmd_def)
  qed
  have w: "hd_written demo_hd = []" by (simp add: demo_hd_def)
  from rw_sector_stored [OF demo_hd_buf(2) demo_hd_part demo_hd_buf(3) _ _ demo_hd_addr(1) demo_hd_buf(1) f'(1), where ata = "\<lambda>_ _ _. 0" and at = "0x8000" and m = zero_msg] ns w
  obtain s' c secs where s': "?r = Inr s'" "hd_ports s' = cmd_ports c" "hd_written s' = secs"
      "disk f' (MINOR ROOT_DEV) = (\<lambda>a. ata_store (\<lambda>a. of_int (a - 63 * 512)) c secs (63 * 512 + a))"
    by (auto simp del: of_int_diff)
  from fun_cong [OF s'(4), of 1000] fun_cong [OF s'(4), of 1024] s' f'(2) show ?thesis by (auto simp: buf_copy_def)
qed

end
