(* ===== verification/Debug.thy ===== *)
theory Debug
  imports Print Hd
begin

section \<open>Debugging output (kernel/proc.c, tty.c, hd.c, protect.c, lib/klib.c)\<close>

text \<open>
  The routines that print tables of the kernel. Those that use \<open>printl()\<close> are sequences of formats
  with their arguments; those that write to the screen directly go through \<open>disp_color_str()\<close>. The
  lemmas say that a sequence of calls prints the texts one after the other, and where the
  message of an exception stands on the screen.
\<close>

subsection \<open>Sequences of printl()\<close>

fun printls :: "int \<Rightarrow> u32 \<Rightarrow> (string \<times> arg list) list \<Rightarrow> tty_state \<Rightarrow> tty_state res" where
  "printls process buf [] s = Inr s"
| "printls process buf ((format, args) # ls) s = bindE (printl process buf format args s) (\<lambda>(_, s1). printls process buf ls s1)"

text \<open>A line break, and an unsigned number as the \<open>int\<close> that \<open>vsprintf()\<close> takes it for.\<close>

abbreviation (input) nl :: string where "nl \<equiv> [CHR 0x0A]"

abbreviation (input) unum :: "u32 \<Rightarrow> arg" where "unum w \<equiv> Num (sint w)"

text \<open>\<open>dump_msg()\<close>: \<open>msg_at\<close> is the address of the message; the first word of its union and the others in order.\<close>

definition dump_msg :: "int \<Rightarrow> u32 \<Rightarrow> string \<Rightarrow> u32 \<Rightarrow> MESSAGE \<Rightarrow> tty_state \<Rightarrow> tty_state res" where
  "dump_msg process buf title msg_at msg s =
     (let sep = nl @ ''        ''
      in printls process buf
        [(''{%s}'' @ nl @ ''<0x%x>{%ssrc:%s(%d),%stype:%d,%s(0x%x, 0x%x, 0x%x, 0x%x, 0x%x, 0x%x)%s}%s'',
          [Str title, unum msg_at, Str sep, Str (p_name (proc_table (kern s) (source msg))), Num (source msg), Str sep, Num (mtype msg), Str sep,
           Num (m3i1 msg), Num (m3i2 msg), Num (m3i3 msg), Num (m3i4 msg), unum (m3p1 msg), unum (m3p2 msg), Str nl, Str nl])] s)"

text \<open>
  \<open>dump_tty_buf()\<close> shows terminal 1. Its static variable \<open>sep\<close> is an argument and part of the result:
  it is a row of dashes at the first call and an empty line at the later ones.
\<close>

definition dashes :: string where
  "dashes = replicate 32 (CHR ''-'') @ nl"

definition dump_tty_buf :: "int \<Rightarrow> u32 \<Rightarrow> string \<Rightarrow> tty_state \<Rightarrow> (string \<times> tty_state) res" where
  "dump_tty_buf process buf sep s =
     (let tty = tty_table s 1; name = (\<lambda>pid. p_name (proc_table (kern s) pid))
      in bindE (printls process buf
          [(sep, []),
           (''head: %d'' @ nl, [Num (int (inbuf_head tty))]),
           (''tail: %d'' @ nl, [Num (int (inbuf_tail tty))]),
           (''cnt: %d'' @ nl, [Num (inbuf_count tty)]),
           (''caller: %s (%d)'' @ nl, [Str (name (tty_caller tty)), Num (tty_caller tty)]),
           (''caller: %s (%d)'' @ nl, [Str (name (tty_procnr tty)), Num (tty_procnr tty)]),
           (''req_buf: %d'' @ nl, [unum (tty_req_buf tty)]),
           (''left_cnt: %d'' @ nl, [Num (tty_left_cnt tty)]),
           (''trans_cnt: %d'' @ nl, [Num (tty_trans_cnt tty)]),
           (dashes, [])] s) (\<lambda>s1. Inr (nl, s1)))"

definition hd_part_line :: "string \<Rightarrow> arg list \<Rightarrow> part_info \<Rightarrow> string \<times> arg list" where
  "hd_part_line prefix args p =
     (prefix @ ''%d: base %d(0x%x), size %d(0x%x) (in sector)'' @ nl, args @ [unum (pi_base p), unum (pi_base p), unum (pi_size p), unum (pi_size p)])"

definition print_hdinfo :: "int \<Rightarrow> u32 \<Rightarrow> hd_info \<Rightarrow> tty_state \<Rightarrow> tty_state res" where
  "print_hdinfo process buf hdi s =
     printls process buf
       (map (\<lambda>i. hd_part_line ''HD::%sPART_'' [Str (if i = 0 then '' '' else ''    ''), Num (int i)] (primary hdi i)) [0..<5] @
        map (\<lambda>i. hd_part_line ''HD::        '' [Num (int i)] (logical hdi i)) (filter (\<lambda>i. pi_size (logical hdi i) \<noteq> 0) [0..<64])) s"

text \<open>
  \<open>print_identify_info()\<close> on the bytes of the sector \<open>hdinfo\<close>: the disk stores its strings with the two
  characters of each word exchanged.
\<close>

definition ident_string :: "nat \<Rightarrow> nat \<Rightarrow> u8 list \<Rightarrow> string" where
  "ident_string idx len hdinfo =
     concat (map (\<lambda>i. [char_of (unat (hdinfo ! (2 * idx + 2 * i + 1))), char_of (unat (hdinfo ! (2 * idx + 2 * i)))]) [0..<len div 2])"

definition ident_word :: "nat \<Rightarrow> u8 list \<Rightarrow> u16" where
  "ident_word k hdinfo = ucast (hdinfo ! (2 * k)) OR push_bit 8 (ucast (hdinfo ! (2 * k + 1)))"

definition print_identify_info :: "int \<Rightarrow> u32 \<Rightarrow> u8 list \<Rightarrow> tty_state \<Rightarrow> tty_state res" where
  "print_identify_info process buf hdinfo s =
     (let sectors = s32 (uint (ident_word 61 hdinfo) * 2 ^ 16 + uint (ident_word 60 hdinfo));
          bytes = s32 (sectors * 512)
      in printls process buf
        [(''HD::%s: %s'' @ nl, [Str ''HD SN'', Str (before_nul (ident_string 10 20 hdinfo))]),
         (''HD::%s: %s'' @ nl, [Str ''HD Model'', Str (before_nul (ident_string 27 40 hdinfo))]),
         (''HD::LBA supported: %s'' @ nl, [Str (if ident_word 49 hdinfo AND 0x0200 \<noteq> 0 then ''yes'' else ''no'')]),
         (''HD::LBA48 supported: %s'' @ nl, [Str (if ident_word 83 hdinfo AND 0x0400 \<noteq> 0 then ''yes'' else ''no'')]),
         (''HD::size: %dMB, %dKB'' @ nl, [Num (c_div bytes 1000000), Num bytes])] s)"

subsection \<open>Text on the screen\<close>

text \<open>
  \<open>disp_color_str()\<close> of lib/kliba.asm: \<open>disp_pos\<close> counts bytes; an end of line goes to the next row of 160
  bytes, behind the last cell of the screen the text goes on at the top.
\<close>

definition disp_color_char :: "u8 \<Rightarrow> char \<Rightarrow> screen \<Rightarrow> screen" where
  "disp_color_char color ch s =
     (if ch = CHR 0x0A then s\<lparr>disp_pos := (disp_pos s div 160 + 1) * 160\<rparr>
      else s\<lparr>vram := (vram s)(disp_pos s div 2 := (of_char ch, color)),
             disp_pos := (if disp_pos s + 2 < 80 * 25 * 2 then disp_pos s + 2 else 0)\<rparr>)"

definition disp_color_str :: "string \<Rightarrow> u8 \<Rightarrow> screen \<Rightarrow> screen" where
  "disp_color_str string color = fold (disp_color_char color) string"

definition disp_str :: "string \<Rightarrow> screen \<Rightarrow> screen" where
  "disp_str string = disp_color_str string 0x0f"

definition disp_int :: "u32 \<Rightarrow> screen \<Rightarrow> screen" where
  "disp_int integer = disp_str (itoa integer)"

definition err_msg :: "string list" where
  "err_msg =
     [''#DE Divide Error'', ''#DB RESERVED'', ''--  NMI Interrupt'', ''#BP Breakpoint'', ''#OF Overflow'', ''#BR BOUND Range Exceeded'',
      ''#UD Invalid Opcode (Undefined Opcode)'', ''#NM Device Not Available (No Math Coprocessor)'', ''#DF Double Fault'',
      ''    Coprocessor Segment Overrun (reserved)'', ''#TS Invalid TSS'', ''#NP Segment Not Present'', ''#SS Stack-Segment Fault'',
      ''#GP General Protection'', ''#PF Page Fault'', ''--  (Intel reserved. Do not use)'',
      ''#MF x87 FPU Floating-Point Error (Math Fault)'', ''#AC Alignment Check'', ''#MC Machine Check'', ''#XF SIMD Floating-Point Exception'']"

definition exception_handler :: "nat \<Rightarrow> u32 \<Rightarrow> u32 \<Rightarrow> u32 \<Rightarrow> u32 \<Rightarrow> screen \<Rightarrow> screen res" where
  "exception_handler vec_no err_code eip cs eflags s =
     (if length err_msg \<le> vec_no then Inl (Fault ''err_msg'')
      else
        let s1 = ((disp_str '' '' ^^ (80 * 5)) (s\<lparr>disp_pos := 0\<rparr>))\<lparr>disp_pos := 0\<rparr>;
            out = (\<lambda>t. disp_color_str t 0x74);
            s2 = out (nl @ nl) (out (err_msg ! vec_no) (out ''Exception! --> '' s1));
            s3 = disp_int eip (out ''EIP:'' (disp_int cs (out ''CS:'' (disp_int eflags (out ''EFLAGS:'' s2)))))
        in Inr (if err_code \<noteq> 0xffffffff then disp_int err_code (out ''Error code:'' s3) else s3))"

text \<open>
  \<open>dump_proc()\<close>: \<open>nr\<close> is the number of the process, \<open>raw\<close> the bytes of its entry. The last of the three
  calls for \<open>p_sendto\<close> belonged to a field that is no longer printed.
\<close>

fun disp_all :: "u8 \<Rightarrow> (string \<times> arg list) list \<Rightarrow> screen \<Rightarrow> screen res" where
  "disp_all color [] s = Inr s"
| "disp_all color ((format, args) # ls) s =
     bindE (format_into 1024 format args) (\<lambda>t. disp_all color ls (disp_color_str t color s))"

definition dump_proc :: "int \<Rightarrow> u8 list \<Rightarrow> PROCESS \<Rightarrow> screen \<Rightarrow> screen res" where
  "dump_proc nr raw p s =
     disp_all 0x24
       ([(''byte dump of proc_table[%d]:'' @ nl, [Num nr])] @ map (\<lambda>b. (''%x.'', [Num (uint b)])) raw @
        [(nl @ nl, []), (''ANY: 0x%x.'' @ nl, [Num ANY]), (''NO_TASK: 0x%x.'' @ nl, [Num NO_TASK]), (nl, []),
         (''ldt_sel: 0x%x.  '', [Num (uint (p_ldt_sel p))]), (''ticks: 0x%x.  '', [Num (p_ticks p)]), (''priority: 0x%x.  '', [Num (p_priority p)]),
         (''pid: 0x%x.  '', [unum (p_pid p)]), (''name: %s.  '', [Str (p_name p)]), (nl, []),
         (''p_flags: 0x%x.  '', [unum (p_flags p)]), (''p_recvfrom: 0x%x.  '', [Num (p_recvfrom p)]),
         (''p_sendto: 0x%x.  '', [Num (p_sendto p)]), (''p_sendto: 0x%x.  '', [Num (p_sendto p)]), (nl, []),
         (''has_int_msg: 0x%x.  '', [Num (p_has_int_msg p)])])
       (s\<lparr>crtc := (crtc s)(START_ADDR_H := 0, START_ADDR_L := 0)\<rparr>)"

subsection \<open>What is printed\<close>

lemma printls_shows:
  assumes "own_address (kern s) process buf = Inr p" "con_ok (console_table (scr s) (tty_console (tty_table s 0)))"
    "list_all2 (\<lambda>l t. format_into 1024 (fst l) (snd l) = Inr t \<and> plain t) ls ts"
  shows "\<exists>s'. printls process buf ls s = Inr s' \<and> out_chars (tty_console (tty_table s 0)) (concat ts) (scr s) = Inr (scr s') \<and>
    con_ok (console_table (scr s') (tty_console (tty_table s 0))) \<and> kern s' = kern s \<and> tty_table s' = tty_table s"
  using assms(3,1,2)
proof (induction ls ts arbitrary: s rule: list_all2_induct)
  case (Cons l ls t ts)
  obtain f a where l: "l = (f, a)" by (cases l)
  from Cons.hyps Cons.prems l printl_shows [of s process buf p f a "[]" t] obtain v where
    v: "out_chars (tty_console (tty_table s 0)) t (scr s) = Inr v" "con_ok (console_table v (tty_console (tty_table s 0)))"
      "printl process buf f a s = Inr (int (length t), s\<lparr>mem8 := phys_write (mem8 s) p (c_string t), scr := v\<rparr>)" by auto
  from Cons.IH [of "s\<lparr>mem8 := phys_write (mem8 s) p (c_string t), scr := v\<rparr>"] Cons.prems v obtain s' where
    "printls process buf ls (s\<lparr>mem8 := phys_write (mem8 s) p (c_string t), scr := v\<rparr>) = Inr s'"
    "out_chars (tty_console (tty_table s 0)) (concat ts) v = Inr (scr s')" "con_ok (console_table (scr s') (tty_console (tty_table s 0)))"
    "kern s' = kern s" "tty_table s' = tty_table s" by auto
  then show ?case using v l by (auto simp: out_chars_append)
qed simp

lemma ident_string_nth:
  assumes "k < 2 * (len div 2)"
  shows "ident_string idx len h ! k = char_of (unat (h ! (2 * idx + (if even k then k + 1 else k - 1))))"
proof -
  have "concat (map (\<lambda>i. [f (2 * i + 1), f (2 * i)]) [0..<n]) ! k = f (if even k then k + 1 else k - 1)" if "k < 2 * n" for f :: "nat \<Rightarrow> char" and n
    using that
  proof (induction n)
    case (Suc n)
    have len: "length (concat (map (\<lambda>i. [f (2 * i + 1), f (2 * i)]) [0..<n])) = 2 * n" by (induction n) simp_all
    show ?case
    proof (cases "k < 2 * n")
      case False
      then have "k = 2 * n \<or> k = 2 * n + 1" using Suc.prems by auto
      then show ?thesis using len by (auto simp: nth_append)
    qed (use Suc.IH len in \<open>simp add: nth_append\<close>)
  qed simp
  from this [of "len div 2" "\<lambda>j. char_of (unat (h ! (2 * idx + j)))"] assms show ?thesis
    unfolding ident_string_def by (simp add: add.assoc)
qed

lemma length_ident_string: "length (ident_string idx len h) = 2 * (len div 2)"
proof -
  have "length (concat (map (\<lambda>i. [f i, g i]) [0..<n])) = 2 * n" for f g :: "nat \<Rightarrow> char" and n by (induction n) simp_all
  then show ?thesis by (simp add: ident_string_def)
qed

subsection \<open>What the screen shows\<close>

text \<open>Text that stays on the screen: the cells it fills and where the next text goes.\<close>

lemma disp_color_str_run:
  assumes "disp_pos s = 2 * k" "0 \<le> k" "k + int (length t) < 2000" "CHR 0x0A \<notin> set t"
  shows "disp_pos (disp_color_str t c s) = 2 * (k + int (length t))"
    "vram (disp_color_str t c s) a = (if k \<le> a \<and> a < k + int (length t) then (of_char (t ! nat (a - k)), c) else vram s a)"
proof -
  have "disp_pos (disp_color_str t c s) = 2 * (k + int (length t)) \<and>
    vram (disp_color_str t c s) a = (if k \<le> a \<and> a < k + int (length t) then (of_char (t ! nat (a - k)), c) else vram s a)"
    using assms
  proof (induction t arbitrary: s k)
    case (Cons x t)
    have x: "x \<noteq> CHR 0x0A" "CHR 0x0A \<notin> set t" using Cons.prems(4) by auto
    let ?s = "disp_color_char c x s"
    have s: "disp_pos ?s = 2 * (k + 1)" "vram ?s = (vram s)(k := (of_char x, c))" using Cons.prems(1-3) x by (simp_all add: disp_color_char_def)
    have "disp_color_str (x # t) c s = disp_color_str t c ?s" by (simp add: disp_color_str_def)
    moreover have "t ! nat (a - (k + 1)) = (x # t) ! nat (a - k)" if "k + 1 \<le> a"
    proof -
      have "nat (a - k) = Suc (nat (a - (k + 1)))" using that by simp
      then show ?thesis by simp
    qed
    ultimately show ?case using Cons.IH [OF s(1)] Cons.prems x s(2) by auto
  qed (auto simp: disp_color_str_def)
  then show "disp_pos (disp_color_str t c s) = 2 * (k + int (length t))"
    "vram (disp_color_str t c s) a = (if k \<le> a \<and> a < k + int (length t) then (of_char (t ! nat (a - k)), c) else vram s a)" by simp_all
qed

lemma itoa_line: "CHR 0x0A \<notin> set (itoa x)" "length (itoa x) \<le> 10"
proof -
  have h: "hexdigit (n AND 0xf) \<noteq> CHR 0x0A" for n
  proof
    assume "hexdigit (n AND 0xf) = CHR 0x0A"
    then have e: "(of_char (hexdigit (n AND 0xf)) :: nat) = 10" by simp
    have "n AND 0xf \<le> 0xf" by (simp add: word_and_le1)
    then have "unat (n AND 0xf) \<le> 15" by (simp add: word_le_nat_alt)
    then show False using e by (auto simp: hexdigit_def Let_def split: if_splits)
  qed
  have l: "CHR 0x0A \<notin> set (itoa_loop is f x)" for "is" f
    by (induction "is" arbitrary: f) (auto simp: Let_def h h [symmetric])
  show "CHR 0x0A \<notin> set (itoa x)" unfolding itoa_def using l [of "[28, 24, 20, 16, 12, 8, 4, 0]" False] by (simp del: itoa_loop.simps)
  obtain ds where "itoa x = ''0x'' @ ds" "length ds \<le> 8" using itoa_fits [of x] by blast
  then show "length (itoa x) \<le> 10" by simp
qed

text \<open>The row at the top of the screen is \<open>v\<close> and the next text goes to a cell from 160 to \<open>n\<close>.\<close>

definition below_row :: "(int \<Rightarrow> u8 \<times> u8) \<Rightarrow> int \<Rightarrow> screen \<Rightarrow> bool" where
  "below_row v n s \<longleftrightarrow> (\<exists>k. disp_pos s = 2 * k \<and> 160 \<le> k \<and> k \<le> n \<and> (\<forall>a. 0 \<le> a \<longrightarrow> a < 80 \<longrightarrow> vram s a = v a))"

lemma below_row_str:
  assumes "below_row v n s" "n + int m < 2000" "CHR 0x0A \<notin> set t" "length t \<le> m"
  shows "below_row v (n + int m) (disp_color_str t c s)"
proof -
  from assms(1) obtain k where k: "disp_pos s = 2 * k" "160 \<le> k" "k \<le> n" "\<forall>a. 0 \<le> a \<longrightarrow> a < 80 \<longrightarrow> vram s a = v a"
    by (auto simp: below_row_def)
  note r = disp_color_str_run [OF k(1) _ _ assms(3), of c]
  have "disp_pos (disp_color_str t c s) = 2 * (k + int (length t))" "k + int (length t) \<le> n + int m" using r(1) k assms(2,4) by simp_all
  moreover have "vram (disp_color_str t c s) a = v a" if "0 \<le> a" "a < 80" for a using r(2) [of a] k assms(2,4) that by simp
  ultimately show ?thesis using k(2) unfolding below_row_def by (intro exI [of _ "k + int (length t)"]) simp
qed

lemma below_row_int: "below_row v n s \<Longrightarrow> n + 10 < 2000 \<Longrightarrow> below_row v (n + 10) (disp_int x s)"
  using below_row_str [of v n s 10 "itoa x" "0x0f"] itoa_line [of x] by (simp add: disp_int_def disp_str_def)

lemma err_msg_line: "i < 20 \<Longrightarrow> CHR 0x0A \<notin> set (err_msg ! i) \<and> length (err_msg ! i) \<le> 46"
proof -
  have "\<forall>m \<in> set err_msg. CHR 0x0A \<notin> set m \<and> length m \<le> 46" by (simp add: err_msg_def)
  moreover have "length err_msg = 20" by (simp add: err_msg_def)
  ultimately show "i < 20 \<Longrightarrow> ?thesis" by simp
qed

text \<open>
  After an exception the top row of the screen shows its name.
\<close>

theorem exception_on_screen:
  assumes "vec_no < 20"
  shows "\<exists>s'. exception_handler vec_no err_code eip cs eflags s = Inr s' \<and>
    (\<forall>i<length (''Exception! --> '' @ err_msg ! vec_no). vram s' (int i) = (of_char ((''Exception! --> '' @ err_msg ! vec_no) ! i), 0x74))"
proof -
  let ?m = "''Exception! --> '' @ err_msg ! vec_no"
  define s1 where "s1 = ((disp_str '' '' ^^ (80 * 5)) (s\<lparr>disp_pos := 0\<rparr>))\<lparr>disp_pos := 0\<rparr>"
  define s2 where "s2 = disp_color_str (err_msg ! vec_no) 0x74 (disp_color_str ''Exception! --> '' 0x74 s1)"
  have s2': "s2 = disp_color_str ?m 0x74 s1" by (simp add: s2_def disp_color_str_def)
  note em = err_msg_line [OF assms]
  have r: "disp_pos s2 = 2 * int (length ?m)" "\<And>a. 0 \<le> a \<Longrightarrow> a < int (length ?m) \<Longrightarrow> vram s2 a = (of_char (?m ! nat a), 0x74)"
    unfolding s2' using disp_color_str_run [of s1 0 ?m "0x74"] em by (auto simp: s1_def)
  define s3 where "s3 = disp_color_str (nl @ nl) 0x74 s2"
  have len: "length ?m < 80" using em by simp
  then have "2 * int (length ?m) div 160 = 0" by simp
  then have "below_row (vram s2) 160 s3" using r(1) by (simp add: below_row_def s3_def disp_color_str_def disp_color_char_def)
  then have "below_row (vram s2) 167 (disp_color_str ''EFLAGS:'' 0x74 s3)" using below_row_str [of "vram s2" 160 s3 7 "''EFLAGS:''"] by simp
  from below_row_int [OF this, of eflags] have "below_row (vram s2) 180 (disp_color_str ''CS:'' 0x74 (disp_int eflags (disp_color_str ''EFLAGS:'' 0x74 s3)))"
    using below_row_str [where n = 177 and m = 3 and t = "''CS:''"] by simp
  from below_row_int [OF this, of cs] have "below_row (vram s2) 194 (disp_color_str ''EIP:'' 0x74 (disp_int cs (disp_color_str ''CS:'' 0x74 (disp_int eflags (disp_color_str ''EFLAGS:'' 0x74 s3)))))"
    using below_row_str [where n = 190 and m = 4 and t = "''EIP:''"] by simp
  from below_row_int [OF this, of eip] obtain s4 where s4: "s4 = disp_int eip (disp_color_str ''EIP:'' 0x74 (disp_int cs (disp_color_str ''CS:'' 0x74 (disp_int eflags (disp_color_str ''EFLAGS:'' 0x74 s3)))))"
    "below_row (vram s2) 204 s4" by simp
  from below_row_int [OF below_row_str [OF s4(2), of 11 "''Error code:''" "0x74"], of err_code]
  have "below_row (vram s2) 225 (disp_int err_code (disp_color_str ''Error code:'' 0x74 s4))" by simp
  moreover have "exception_handler vec_no err_code eip cs eflags s = Inr (if err_code \<noteq> 0xffffffff then disp_int err_code (disp_color_str ''Error code:'' 0x74 s4) else s4)"
    using assms by (simp add: exception_handler_def err_msg_def Let_def s4(1) s3_def s2_def s1_def)
  ultimately show ?thesis using s4(2) r(2) len by (auto simp: below_row_def)
qed

text \<open>
  \<open>%x\<close> takes its argument for signed: a number with the top bit set is printed with characters
  that are no digits.
\<close>

lemma vsprintf_hex_negative: "vsprintf ''%x'' [unum 0xffffffff] = Inr ''/''"
  by (simp add: vsprintf_def convert_def i2a.simps c_div_def c_mod_def digit_def) code_simp

text \<open>The size \<open>print_identify_info()\<close> prints overflows from 2 GiB on.\<close>

lemma identify_size_overflow: "s32 (0x400000 * 512) = - (2 ^ 31)" "c_div (s32 (0x400000 * 512)) 1000000 = - 2147"
  by (simp_all add: s32_def c_div_def)

end
