(* ===== verification/Kmain.thy ===== *)
theory Kmain
  imports Ksteps
begin

section \<open>Booting the process table (kernel/main.c, kernel/global.c)\<close>

text \<open>
  \<open>kernel_main()\<close> fills the process table from \<open>task_table\<close> and \<open>user_process_table\<close> and
  sets the globals before the first \<open>restart()\<close>. What the linker and the boot loader decide
  is a parameter: the address of every task's entry point, the top of \<open>task_stack\<close>, the
  global descriptor table the loader built, and the result of \<open>get_kernel_map()\<close>, which
  reads the kernel's ELF header through the \<^verbatim>\<open>elf.h\<close> that is not part of the
  repository. The two routines that program devices, \<open>init_clock()\<close> and
  \<open>init_keyboard()\<close>, do not touch this state and belong to other theories.
\<close>

record TASK =
  t_stacksize :: u32
  t_name :: string
  t_priority :: int

abbreviation (input) STACK_SIZE_DEFAULT :: u32 where "STACK_SIZE_DEFAULT \<equiv> 0x4000"

definition task_table :: "TASK list" where
  "task_table = [
     \<lparr>t_stacksize = STACK_SIZE_DEFAULT, t_name = ''tty'', t_priority = 20\<rparr>,
     \<lparr>t_stacksize = STACK_SIZE_DEFAULT, t_name = ''sys'', t_priority = 20\<rparr>,
     \<lparr>t_stacksize = STACK_SIZE_DEFAULT, t_name = ''hd'', t_priority = 20\<rparr>,
     \<lparr>t_stacksize = STACK_SIZE_DEFAULT, t_name = ''fs'', t_priority = 20\<rparr>,
     \<lparr>t_stacksize = STACK_SIZE_DEFAULT, t_name = ''mm'', t_priority = 20\<rparr>]"

definition user_process_table :: "TASK list" where
  "user_process_table = [
     \<lparr>t_stacksize = STACK_SIZE_DEFAULT, t_name = ''INIT'', t_priority = 25\<rparr>,
     \<lparr>t_stacksize = STACK_SIZE_DEFAULT, t_name = ''TestA'', t_priority = 5\<rparr>,
     \<lparr>t_stacksize = STACK_SIZE_DEFAULT, t_name = ''TestB'', t_priority = 10\<rparr>,
     \<lparr>t_stacksize = STACK_SIZE_DEFAULT, t_name = ''TestC'', t_priority = 15\<rparr>]"

record boot_env =
  e_gdt :: "nat \<Rightarrow> DESCRIPTOR"
  e_entry :: "int \<Rightarrow> u32"
  e_stack_top :: u32
  e_kernel_map :: "int \<times> u32 \<times> u32"

text \<open>The two LDT descriptors of a process.\<close>

definition boot_ldts :: "boot_env \<Rightarrow> string \<Rightarrow> u8 \<Rightarrow> (nat \<Rightarrow> DESCRIPTOR) \<Rightarrow> (nat \<Rightarrow> DESCRIPTOR) res" where
  "boot_ldts e nm priv ldts =
     (if nm \<noteq> ''INIT'' then
        Inr (ldts(INDEX_LDT_CODE := (e_gdt e (unat (drop_bit 3 SELECTOR_KERNEL_CS)))
                    \<lparr>attr1 := 0x98 OR push_bit 5 priv\<rparr>,
                  INDEX_LDT_DATA := (e_gdt e (unat (drop_bit 3 SELECTOR_KERNEL_DS)))
                    \<lparr>attr1 := 0x92 OR push_bit 5 priv\<rparr>))
      else (let (ret, k_base, k_limit) = e_kernel_map e in
        assertE (ret = 0) ''ret == 0''
         (Inr (ldts(INDEX_LDT_CODE := init_desc 0 (drop_bit 12 (k_base + k_limit))
                      (DA_32 OR DA_LIMIT_4K OR DA_C OR push_bit 5 (ucast priv)),
                    INDEX_LDT_DATA := init_desc 0 (drop_bit 12 (k_base + k_limit))
                      (DA_32 OR DA_LIMIT_4K OR DA_DRW OR push_bit 5 (ucast priv)))))))"

text \<open>
  One round of the loop: slot \<open>i\<close> and the current stack pointer. The selectors are
  \<open>INDEX << 3 | SA_TIL | rpl\<close>, and \<open>gs\<close> is \<open>(SELECTOR_KERNEL_GS & SA_RPL_MASK) | rpl\<close>.
\<close>

definition boot_slot :: "boot_env \<Rightarrow> int \<Rightarrow> u32 \<Rightarrow> PROCESS \<Rightarrow> (PROCESS \<times> u32) res" where
  "boot_slot e i stk p =
     (if i \<ge> NR_TASKS + NR_NATIVE_PROCS then Inr (p\<lparr>p_flags := FREE_SLOT\<rparr>, stk)
      else
        let t = (if i < NR_TASKS then task_table ! nat i else user_process_table ! nat (i - NR_TASKS));
            priv = (if i < NR_TASKS then PRIVILEGE_TASK else PRIVILEGE_USER);
            rpl = (if i < NR_TASKS then 1 else 3 :: u32);
            eflags = (if i < NR_TASKS then 0x1202 else 0x0202)
        in bindE (boot_ldts e (t_name t) priv (p_ldts p)) (\<lambda>ldts.
             let cs = push_bit 3 (of_nat INDEX_LDT_CODE) OR 4 OR rpl;
                 ss = push_bit 3 (of_nat INDEX_LDT_DATA) OR 4 OR rpl
             in Inr (p\<lparr>p_name := t_name t, p_parent := NO_TASK, p_ldts := ldts,
                  p_regs := (p_regs p)\<lparr>r_cs := cs, r_ds := ss, r_es := ss, r_fs := ss, r_ss := ss,
                    r_gs := (0x1b AND 0xfffc) OR rpl, r_eip := e_entry e i, r_esp := stk,
                    r_eflags := eflags\<rparr>,
                  p_flags := 0, p_msg := 0, p_recvfrom := NO_TASK, p_sendto := NO_TASK,
                  p_has_int_msg := 0, p_sending_queue := None, p_next_sending := None,
                  p_filp := (\<lambda>j. if j < NR_FILES then None else p_filp p j)\<rparr>,
                stk - t_stacksize t)))"

fun boot_slots :: "boot_env \<Rightarrow> int list \<Rightarrow> u32 \<Rightarrow> (int \<Rightarrow> PROCESS) \<Rightarrow> (int \<Rightarrow> PROCESS) res" where
  "boot_slots e [] stk pt = Inr pt"
| "boot_slots e (i # is) stk pt =
     bindE (boot_slot e i stk (pt i)) (\<lambda>(p, stk'). boot_slots e is stk' (pt(i := p)))"

text \<open>The state in which \<open>restart()\<close> starts the first process.\<close>

definition kernel_main :: "boot_env \<Rightarrow> kernel \<Rightarrow> kernel res" where
  "kernel_main e s =
     bindE (boot_slots e slots (e_stack_top e) (proc_table s)) (\<lambda>pt.
       Inr (s\<lparr>proc_table := pt, ticks := 0, k_reenter := 0, p_proc_ready := 0\<rparr>))"

subsection \<open>What the loop leaves in each slot\<close>

lemma boot_slot_total:
  assumes "fst (e_kernel_map e) = 0"
  shows "\<exists>r. boot_slot e i stk p = Inr r"
  using assms by (auto simp: boot_slot_def boot_ldts_def Let_def split: prod.splits)

lemma boot_slots_total:
  assumes "fst (e_kernel_map e) = 0"
  shows "\<exists>pt'. boot_slots e is stk pt = Inr pt'"
proof (induction "is" arbitrary: stk pt)
  case (Cons i "is")
  obtain r where "boot_slot e i stk (pt i) = Inr r" using boot_slot_total [OF assms] by blast
  with Cons show ?case by (cases r) simp
qed simp

lemma boot_slots_lookup:
  assumes "boot_slots e is stk pt = Inr pt'" "distinct is"
  shows "(i \<in> set is \<longrightarrow> (\<exists>k k'. boot_slot e i k (pt i) = Inr (pt' i, k'))) \<and> (i \<notin> set is \<longrightarrow> pt' i = pt i)"
  using assms
proof (induction "is" arbitrary: stk pt)
  case (Cons j "is")
  from Cons.prems(1) obtain p k where j: "boot_slot e j stk (pt j) = Inr (p, k)"
    and rest: "boot_slots e is k (pt(j := p)) = Inr pt'" by (auto simp: res_simps)
  from Cons.IH [OF rest] Cons.prems(2) j show ?case by (auto split: if_splits)
qed simp

lemma distinct_slots: "distinct slots"
  using sorted_slots strict_sorted_iff by (auto simp: slots_def)

text \<open>
  What \<open>init_protect()\<close> and the loader leave: a cleared process table, a flat data
  segment, a readable kernel image. The last conjunct is about the memory
  \<open>proc_table[INTERRUPT]\<close> denotes, below the table.
\<close>

definition boot_ok :: "boot_env \<Rightarrow> kernel \<Rightarrow> bool" where
  "boot_ok e s \<longleftrightarrow> fst (e_kernel_map e) = 0 \<and>
     desc_base (e_gdt e (unat (drop_bit 3 SELECTOR_KERNEL_DS))) = 0 \<and>
     (\<forall>i\<in>set slots. \<exists>sel. proc_table s i = zero_process\<lparr>p_ldt_sel := sel\<rparr>) \<and>
     p_flags (proc_table s INTERRUPT) AND SENDING = 0"

definition boot_ipc :: "kernel \<Rightarrow> ipc" where
  "boot_ipc s = \<lparr>st = (\<lambda>i. if native i then Idle else Dormant), queue = (\<lambda>_. []),
     pend = (\<lambda>_. False), mem = messages s, base = (\<lambda>_. 0)\<rparr>"

lemma ldt_seg_linear_desc: "ldt_seg_linear p i = desc_base (p_ldts p i)"
  by (simp add: ldt_seg_linear_def desc_base_def Let_def)

lemma boot_ldts_base:
  assumes "boot_ldts e nm priv ldts = Inr ldts'"
    "desc_base (e_gdt e (unat (drop_bit 3 SELECTOR_KERNEL_DS))) = 0"
  shows "desc_base (ldts' INDEX_LDT_DATA) = 0"
  using assms
  by (auto simp: boot_ldts_def res_simps split: if_splits prod.splits) (simp add: desc_base_def)

lemma boot_slot_native:
  assumes "boot_slot e i k (zero_process\<lparr>p_ldt_sel := sel\<rparr>) = Inr (p, k')" "i < NR_TASKS + NR_NATIVE_PROCS"
    "desc_base (e_gdt e (unat (drop_bit 3 SELECTOR_KERNEL_DS))) = 0"
  shows "rep_proc p Idle" "p_sending_queue p = None" "p_has_int_msg p = 0"
    "ldt_seg_linear p INDEX_LDT_DATA = 0" "p_ticks p = 0" "p_priority p = 0" "p_parent p = NO_TASK"
    "p_ldt_sel p = sel" "p_filp p = (\<lambda>_. None)"
  using assms boot_ldts_base [OF _ assms(3)]
  by (auto simp: boot_slot_def Let_def res_simps zero_process_def ldt_seg_linear_desc split: if_splits)

lemma zero_desc_base: "desc_base zero_desc = 0"
  by (simp add: desc_base_def zero_desc_def)

lemma boot_slot_free:
  assumes "boot_slot e i k (zero_process\<lparr>p_ldt_sel := sel\<rparr>) = Inr (p, k')" "i \<ge> NR_TASKS + NR_NATIVE_PROCS"
  shows "p = zero_process\<lparr>p_ldt_sel := sel, p_flags := FREE_SLOT\<rparr>"
  using assms by (simp add: boot_slot_def)

lemma kernel_main_slots:
  assumes ok: "boot_ok e s" and run: "kernel_main e s = Inr s'" and i: "i \<in> set slots"
  shows "\<exists>sel. if native i
    then rep_proc (proc_table s' i) Idle \<and> p_sending_queue (proc_table s' i) = None \<and>
      p_has_int_msg (proc_table s' i) = 0 \<and> ldt_seg_linear (proc_table s' i) INDEX_LDT_DATA = 0 \<and>
      p_ticks (proc_table s' i) = 0 \<and> p_priority (proc_table s' i) = 0
    else proc_table s' i = zero_process\<lparr>p_ldt_sel := sel, p_flags := FREE_SLOT\<rparr>"
proof -
  from run have bs: "boot_slots e slots (e_stack_top e) (proc_table s) = Inr (proc_table s')"
    by (auto simp: kernel_main_def res_simps)
  from ok i obtain sel where z: "proc_table s i = zero_process\<lparr>p_ldt_sel := sel\<rparr>"
    and ds: "desc_base (e_gdt e (unat (drop_bit 3 SELECTOR_KERNEL_DS))) = 0"
    unfolding boot_ok_def by blast
  from boot_slots_lookup [OF bs distinct_slots] i z obtain k k' where
    sl: "boot_slot e i k (zero_process\<lparr>p_ldt_sel := sel\<rparr>) = Inr (proc_table s' i, k')" by metis
  show ?thesis
  proof (cases "native i")
    case True
    then have "i < NR_TASKS + NR_NATIVE_PROCS" by (simp add: native_def)
    from boot_slot_native [OF sl this ds] True show ?thesis by auto
  next
    case False
    with i have "i \<ge> NR_TASKS + NR_NATIVE_PROCS" by (simp add: native_def set_slots)
    from boot_slot_free [OF sl this] False show ?thesis by auto
  qed
qed

lemma kernel_main_total: "boot_ok e s \<Longrightarrow> \<exists>s'. kernel_main e s = Inr s'"
  using boot_slots_total [of e slots "e_stack_top e" "proc_table s"]
  by (auto simp: boot_ok_def kernel_main_def)

lemma kernel_main_globals:
  assumes "kernel_main e s = Inr s'"
  shows "ticks s' = 0" "k_reenter s' = 0" "p_proc_ready s' = 0" "messages s' = messages s"
    "key_pressed s' = key_pressed s" "i \<notin> set slots \<Longrightarrow> proc_table s' i = proc_table s i"
  using assms boot_slots_lookup [OF _ distinct_slots, of e "e_stack_top e" "proc_table s" "proc_table s'" i]
  by (auto simp: kernel_main_def res_simps)

lemma boot_ipc_ok: "ipc_ok (boot_ipc s)"
proof -
  have "waits_for (boot_ipc s) = {}" by (simp add: boot_ipc_def waits_for_def)
  then have "acyclic (waits_for (boot_ipc s))" by (simp add: acyclic_def)
  then show ?thesis by (intro ipc_okI) (simp_all add: boot_ipc_def split: if_splits)
qed

lemma kernel_main_rep:
  assumes ok: "boot_ok e s" and run: "kernel_main e s = Inr s'"
  shows "ipc_rep s' (boot_ipc s')"
proof (rule ipc_repI)
  fix i assume i: "i \<in> set slots"
  note sl = kernel_main_slots [OF ok run i]
  from sl show "rep_proc (proc_table s' i) (st (boot_ipc s') i)"
    by (auto simp: boot_ipc_def zero_process_def split: if_splits)
  from sl show "chain (next_of s') (p_sending_queue (proc_table s' i)) (queue (boot_ipc s') i)"
    by (auto simp: boot_ipc_def zero_process_def split: if_splits)
  from sl show "pend (boot_ipc s') i \<longleftrightarrow> p_has_int_msg (proc_table s' i) \<noteq> 0"
    by (auto simp: boot_ipc_def zero_process_def split: if_splits)
  from sl show "ldt_seg_linear (proc_table s' i) INDEX_LDT_DATA = base (boot_ipc s') i"
    by (auto simp: boot_ipc_def zero_process_def ldt_seg_linear_desc zero_desc_base split: if_splits)
next
  show "mem (boot_ipc s') = messages s'" by (simp add: boot_ipc_def)
  show "p_flags (proc_table s' INTERRUPT) AND SENDING = 0"
    using ok kernel_main_globals(6) [OF run, of INTERRUPT] by (simp add: boot_ok_def)
qed

lemma kernel_main_kinv:
  assumes ok: "boot_ok e s" and run: "kernel_main e s = Inr s'"
  shows "kinv s'"
proof -
  have cur: "current_ok s'"
    using kernel_main_slots [OF ok run, of 0] kernel_main_globals [OF run]
    by (auto simp: current_ok_def set_slots native_def)
  have "accounts_ok s'"
    unfolding accounts_ok_def
  proof (intro conjI ballI)
    fix i assume "i \<in> set slots"
    then have "p_ticks (proc_table s' i) = 0 \<and> p_priority (proc_table s' i) = 0"
      using kernel_main_slots [OF ok run, of i] by (auto simp: zero_process_def split: if_splits)
    then show "0 \<le> p_ticks (proc_table s' i)" "p_ticks (proc_table s' i) < 2 ^ 31"
      "0 \<le> p_priority (proc_table s' i)" "p_priority (proc_table s' i) < 2 ^ 31" by simp_all
  qed (simp_all add: kernel_main_globals [OF run])
  with cur kernel_main_rep [OF ok run] boot_ipc_ok show ?thesis by (auto simp: kinv_def)
qed

lemma kernel_main_not_runnable:
  assumes "boot_ok e s" "kernel_main e s = Inr s'"
  shows "\<not> runnable s' p"
  using kernel_main_slots [OF assms, of p]
  by (auto simp: runnable_def zero_process_def split: if_splits)

subsection \<open>Priorities, and the runs of the booted machine\<close>

text \<open>
  \<open>kernel_main()\<close> leaves the ticks and priorities of the cleared table. The assignment it
  lacks, \<open>p->ticks = p->priority = prio\<close>, is a separate definition, so that the runs below
  can start from the machine as written (\<open>prio\<close> zero) and from every machine in which
  processes get to run; \<open>table_priority\<close> are the priorities of the two task tables.
\<close>

definition with_priorities :: "(int \<Rightarrow> int) \<Rightarrow> kernel \<Rightarrow> kernel" where
  "with_priorities prio s = s\<lparr>proc_table := (\<lambda>i. if native i
     then (proc_table s i)\<lparr>p_ticks := prio i, p_priority := prio i\<rparr> else proc_table s i)\<rparr>"

definition table_priority :: "int \<Rightarrow> int" where
  "table_priority i = t_priority (if i < NR_TASKS then task_table ! nat i else user_process_table ! nat (i - NR_TASKS))"

definition priorities_ok :: "(int \<Rightarrow> int) \<Rightarrow> bool" where
  "priorities_ok prio \<longleftrightarrow> (\<forall>i. native i \<longrightarrow> 0 \<le> prio i \<and> prio i < 2 ^ 31)"

lemma with_priorities_simps [simp]:
  "p_proc_ready (with_priorities prio s) = p_proc_ready s" "messages (with_priorities prio s) = messages s"
  "k_reenter (with_priorities prio s) = k_reenter s" "ticks (with_priorities prio s) = ticks s"
  "key_pressed (with_priorities prio s) = key_pressed s"
  "p_flags (proc_table (with_priorities prio s) i) = p_flags (proc_table s i)"
  "p_ticks (proc_table (with_priorities prio s) i) = (if native i then prio i else p_ticks (proc_table s i))"
  "p_priority (proc_table (with_priorities prio s) i) = (if native i then prio i else p_priority (proc_table s i))"
  by (simp_all add: with_priorities_def)

lemma rep_proc_ticks [simp]: "rep_proc (p\<lparr>p_ticks := t, p_priority := q\<rparr>) x = rep_proc p x"
  by (cases x) simp_all

lemma with_priorities_rep:
  assumes "ipc_rep s a"
  shows "ipc_rep (with_priorities prio s) a"
proof -
  have n: "next_of (with_priorities prio s) = next_of s" by (auto simp: with_priorities_def)
  have "\<not> native INTERRUPT" by (simp add: native_def)
  with assms n show ?thesis
    unfolding ipc_rep_def
    by (auto simp: with_priorities_def ldt_seg_linear_def)
qed

lemma boot_kinv:
  assumes "boot_ok e s" "kernel_main e s = Inr s'" "priorities_ok prio"
  shows "kinv (with_priorities prio s')"
proof -
  from kernel_main_kinv [OF assms(1,2)] obtain a where
    "ipc_rep s' a" "ipc_ok a" "current_ok s'" "accounts_ok s'" by (auto simp: kinv_def)
  with with_priorities_rep [of s' a prio] assms(3) show ?thesis
    by (auto simp: kinv_def current_ok_def accounts_ok_def priorities_ok_def)
qed

lemma kstep_reenter: "kstep s s' \<Longrightarrow> k_reenter s' = k_reenter s"
proof (elim kstepE)
  fix ev assume "exec ev s = Inr s'"
  then show ?thesis
  proof (cases ev)
    case Tick
    with \<open>exec ev s = Inr s'\<close> obtain s3 where
      "s3 = account s \<or> inform_init TASK_TTY (account s) = Inr s3" "s' = s3 \<or> schedule s3 = Some s'"
      by (auto simp: clock_handler_account Let_def res_simps split: if_splits)
    then show ?thesis using schedule_frame [of s3 s'] inform_init_frame [of TASK_TTY "account s" s3]
      by (auto simp: sched_frame_def)
  qed (auto dest!: sys_sendrec_frame inform_init_frame simp: sched_frame_def)
qed

lemma run_reenter: "kstep\<^sup>*\<^sup>* s s' \<Longrightarrow> k_reenter s' = k_reenter s"
  by (induction rule: rtranclp_induct) (simp_all add: kstep_reenter)

definition booted :: "boot_env \<Rightarrow> (int \<Rightarrow> int) \<Rightarrow> kernel \<Rightarrow> bool" where
  "booted e prio s \<longleftrightarrow> (\<exists>s0 s1. boot_ok e s0 \<and> kernel_main e s0 = Inr s1 \<and> priorities_ok prio \<and>
     s = with_priorities prio s1)"

lemma booted_run:
  assumes "booted e prio s" "kstep\<^sup>*\<^sup>* s s'"
  shows "kinv s'" "k_reenter s' = 0"
proof -
  from assms(1) have "kinv s" "k_reenter s = 0"
    by (auto simp: booted_def boot_kinv kernel_main_globals)
  with kernel_machine.run_inv [OF assms(2)] run_reenter [OF assms(2)] show "kinv s'" "k_reenter s' = 0"
    by simp_all
qed

lemma send_outcomes:
  assumes inv: "kinv s" and k: "k_reenter s = 0" and d: "native d" "d \<noteq> p_proc_ready s" and m: "m \<noteq> 0"
  shows "exec (Send d m) s = Inl (Panic ''>>DEADLOCK<<'') \<and> (d, p_proc_ready s) \<in> (sends_to s)\<^sup>+ \<or>
    (d, p_proc_ready s) \<notin> (sends_to s)\<^sup>+ \<and>
    (exec (Send d m) s = Inl (Hang ''schedule'') \<or> (\<exists>s'. exec (Send d m) s = Inr s' \<and> kinv s'))"
proof -
  let ?p = "p_proc_ready s"
  from inv obtain a where a: "ipc_rep s a" "ipc_ok a" and cur: "current_ok s" by (auto simp: kinv_def)
  have w: "waits_for (a_stamp ?p m a) = sends_to s"
    using sends_to_waits [OF a(1)] by (simp add: waits_for_def)
  have out: "send_outcome ?p d m (a_stamp ?p m a) s (exec (Send d m) s)"
    using sys_sendrec_send_rep [OF a current_Idle [OF a(1) cur] d(1) _ m k] d(2) by auto
  show ?thesis
  proof (cases "(d, ?p) \<in> (sends_to s)\<^sup>+")
    case True
    with out w show ?thesis by (simp add: send_outcome_def a_send_def)
  next
    case False
    then obtain a' where "a_send ?p d m (a_stamp ?p m a) = Some a'" using w by (simp add: a_send_def)
    with out False show ?thesis
      using send_step_inv [OF inv d(1) m]
      by (auto simp: send_outcome_def block_outcome_def split: if_splits)
  qed
qed

subsection \<open>A concrete machine\<close>

definition demo_env :: boot_env where
  "demo_env = \<lparr>e_gdt = (\<lambda>_. init_desc 0 0xfffff 0xc092), e_entry = (\<lambda>i. 0x1000 + of_int i),
     e_stack_top = 0x80000, e_kernel_map = (0, 0x1000, 0x20000)\<rparr>"

definition demo_reset :: kernel where
  "demo_reset = \<lparr>proc_table = (\<lambda>_. zero_process), p_proc_ready = 0, messages = (\<lambda>_. zero_msg),
     k_reenter = 0, ticks = 0, key_pressed = 0\<rparr>"

lemma demo_boot_ok: "boot_ok demo_env demo_reset"
proof -
  have "\<exists>sel. zero_process = zero_process\<lparr>p_ldt_sel := sel\<rparr>"
    by (rule exI [of _ 0]) (simp add: zero_process_def)
  then show ?thesis by (simp add: boot_ok_def demo_env_def demo_reset_def) (simp add: zero_process_def)
qed

subsection \<open>A run of the booted machine\<close>

text \<open>One blocking \<open>SEND\<close> of the running process, with the frame the run below threads through.\<close>

lemma send_blocks:
  assumes a: "ipc_rep s a" "ipc_ok a" and cur: "current_ok s" and k: "k_reenter s = 0"
    and d: "native d" "st a d = Idle" "d \<noteq> p_proc_ready s" and m: "m \<noteq> 0"
    and run: "runnable s q" "q \<noteq> p_proc_ready s"
  defines "p \<equiv> p_proc_ready s"
  defines "a' \<equiv> (a_stamp p m a)\<lparr>st := (st a)(p := Sending d m), queue := (queue a)(d := queue a d @ [p])\<rparr>"
  shows "\<exists>s'. exec (Send d m) s = Inr s' \<and> kstep s s' \<and> ipc_rep s' a' \<and> ipc_ok a' \<and> chosen s' \<and> sched_frame s s'"
proof -
  note p = current_Idle [OF a(1) cur]
  have nw: "(d, p) \<notin> (waits_for (a_stamp p m a))\<^sup>+" using d(2) by (intro not_waiting) simp
  have send: "a_send p d m (a_stamp p m a) = Some a'" using nw d(2) by (simp add: a_send_def a'_def)
  have "\<not> accepts (a_stamp p m a) d p" using d(2) by (simp add: accepts_def)
  with sys_sendrec_send_rep [OF a p d(1) _ m k] send d(3)
  have "block_outcome p False a' s (exec (Send d m) s)" by (auto simp: send_outcome_def p_def)
  with block_outcome_run run obtain s' where
    s': "exec (Send d m) s = Inr s'" "ipc_rep s' a'" "chosen s'" unfolding p_def by blast
  moreover have "ipc_ok a'" using a_send_ok [OF _ p(1) _ d(1) _ m send [unfolded p_def]] a(2) p(2) d(3) by auto
  moreover have "kstep s s'" using d(1) m by (intro kstep [OF _ s'(1)]) simp
  moreover have "sched_frame s s'" using sys_sendrec_frame s'(1) by simp
  ultimately show ?thesis by blast
qed

lemma table_priority_ok: "native i \<Longrightarrow> table_priority i =
    (if i < NR_TASKS then 20 else if i = 5 then 25 else if i = 6 then 5 else if i = 7 then 10 else 15)"
proof -
  assume "native i"
  then have "i \<in> {0, 1, 2, 3, 4, 5, 6, 7, 8}" by (auto simp: native_def)
  then show ?thesis by (auto simp: table_priority_def task_table_def user_process_table_def)
qed


lemma table_priorities_ok: "priorities_ok table_priority"
  by (simp add: priorities_ok_def table_priority_ok)

lemma chosen_is:
  assumes "chosen s" "q \<in> set slots" "p_flags (proc_table s q) = 0"
    "\<And>p. p \<in> set slots \<Longrightarrow> p_flags (proc_table s p) = 0 \<Longrightarrow> p \<noteq> q \<Longrightarrow>
      (if p < q then p_ticks (proc_table s p) < p_ticks (proc_table s q)
       else p_ticks (proc_table s p) \<le> p_ticks (proc_table s q))"
  shows "p_proc_ready s = q"
proof (rule ccontr)
  let ?c = "p_proc_ready s"
  assume ne: "?c \<noteq> q"
  from assms(1) have c: "?c \<in> set slots" "p_flags (proc_table s ?c) = 0" and
    "if q < ?c then p_ticks (proc_table s q) < p_ticks (proc_table s ?c)
      else p_ticks (proc_table s q) \<le> p_ticks (proc_table s ?c)"
    using assms(2,3) by (auto simp: chosen_def Let_def)
  with assms(4) [OF c ne] ne show False by (auto split: if_splits)
qed

lemma ready_iff:
  assumes "ipc_rep s a" "i \<in> set slots"
  shows "p_flags (proc_table s i) = 0 \<longleftrightarrow> st a i = Idle"
  using ipc_repD(1) [OF assms] by (cases "st a i") auto

text \<open>
  The demonstration machine boots with the priorities of the tables, as \<open>demo_boot\<close>. Then
  TASK 0 sends to task 1 and blocks, INIT is charged a tick, sends to task 1 and blocks
  behind TASK 0, and task 1, chosen next, receives.
\<close>

definition demo_boot :: kernel where
  "demo_boot = (case kernel_main demo_env demo_reset of Inr s \<Rightarrow> with_priorities table_priority s | Inl _ \<Rightarrow> demo_reset)"

lemma demo_booted:
  shows "booted demo_env table_priority demo_boot" and "ipc_rep demo_boot (boot_ipc demo_boot)"
    and "p_proc_ready demo_boot = 0" "k_reenter demo_boot = 0" "key_pressed demo_boot = 0" "ticks demo_boot = 0"
    and "native i \<Longrightarrow> p_ticks (proc_table demo_boot i) = table_priority i \<and>
      p_priority (proc_table demo_boot i) = table_priority i \<and> p_flags (proc_table demo_boot i) = 0"
proof -
  obtain s where s: "kernel_main demo_env demo_reset = Inr s"
    using kernel_main_total [OF demo_boot_ok] by blast
  then have d: "demo_boot = with_priorities table_priority s" by (simp add: demo_boot_def)
  show "booted demo_env table_priority demo_boot"
    unfolding booted_def using demo_boot_ok s d table_priorities_ok by blast
  have "boot_ipc demo_boot = boot_ipc s" by (simp add: boot_ipc_def d)
  then show "ipc_rep demo_boot (boot_ipc demo_boot)"
    using with_priorities_rep [OF kernel_main_rep [OF demo_boot_ok s], of table_priority] by (simp only: d)
  show "p_proc_ready demo_boot = 0" "k_reenter demo_boot = 0" "key_pressed demo_boot = 0" "ticks demo_boot = 0"
    using kernel_main_globals [OF s] by (simp_all add: d demo_reset_def)
  show "p_ticks (proc_table demo_boot i) = table_priority i \<and>
      p_priority (proc_table demo_boot i) = table_priority i \<and> p_flags (proc_table demo_boot i) = 0"
    if "native i"
    using kernel_main_slots [OF demo_boot_ok s, of i] that by (auto simp: d native_slots)
qed

lemma boot_ipc_st: "st (boot_ipc s) i = (if native i then Idle else Dormant)"
  by (simp add: boot_ipc_def)

lemma demo_first_send:
  "\<exists>s1 a1. exec (Send 1 64) demo_boot = Inr s1 \<and> kstep demo_boot s1 \<and> ipc_rep s1 a1 \<and> ipc_ok a1 \<and>
     st a1 = (st (boot_ipc demo_boot))(0 := Sending 1 64) \<and> queue a1 = (\<lambda>i. if i = 1 then [0] else []) \<and>
     pend a1 = (\<lambda>_. False) \<and> base a1 = (\<lambda>_. 0) \<and> source (mem a1 64) = 0 \<and>
     p_proc_ready s1 = 5 \<and> sched_frame demo_boot s1"
proof -
  let ?a = "boot_ipc demo_boot"
  note b = demo_booted
  have cur: "current_ok demo_boot" using b(3) b(7) [of 0] by (simp add: current_ok_def set_slots native_def)
  have "runnable demo_boot 5" using b(7) [of 5] by (simp add: runnable_def set_slots native_def table_priority_ok)
  from send_blocks [OF b(2) boot_ipc_ok cur b(4), of 1 64 5] this obtain s1 a1 where
    s1: "exec (Send 1 64) demo_boot = Inr s1" "kstep demo_boot s1" "ipc_rep s1 a1" "ipc_ok a1" "chosen s1"
      "sched_frame demo_boot s1" and
    a1: "a1 = (a_stamp 0 64 ?a)\<lparr>st := (st ?a)(0 := Sending 1 64), queue := (queue ?a)(1 := queue ?a 1 @ [0])\<rparr>"
    using b(3) by (auto simp: native_def boot_ipc_def)
  have tk: "p_ticks (proc_table s1 i) = table_priority i" if "native i" for i
    using s1(6) b(7) [OF that] unfolding sched_frame_def by metis
  have fl: "p_flags (proc_table s1 i) = 0 \<longleftrightarrow> native i \<and> i \<noteq> 0" if "i \<in> set slots" for i
    using ready_iff [OF s1(3) that] by (simp add: a1 boot_ipc_st)
  have "p_ticks (proc_table s1 5) = 25" using tk [of 5] by (simp add: native_def table_priority_ok)
  then have "p_proc_ready s1 = 5"
    using fl by (intro chosen_is [OF s1(5)]) (auto simp: set_slots tk table_priority_ok, auto simp: native_def)
  with s1 a1 show ?thesis by (intro exI [of _ s1] exI [of _ a1]) (auto simp: boot_ipc_def a_stamp_def)
qed


lemma demo_tick:
  assumes "kinv s" "p_ticks (proc_table s (p_proc_ready s)) > 1" "key_pressed s = 0"
  shows "exec Tick s = Inr (account s)" "kstep s (account s)"
proof -
  from assms(1) have ok: "accounts_ok s" "current_ok s" by (simp_all add: kinv_def)
  from account_ticks(2) [OF ok, of "p_proc_ready s"] assms(2,3)
  show "exec Tick s = Inr (account s)" by (auto simp: clock_handler_account Let_def)
  then show "kstep s (account s)" by (intro kstep [of Tick]) simp_all
qed

lemma demo_second_send:
  "\<exists>s1 s3 a3. exec (Send 1 64) demo_boot = Inr s1 \<and> p_proc_ready s1 = 5 \<and> exec Tick s1 = Inr (account s1) \<and>
     exec (Send 1 128) (account s1) = Inr s3 \<and> kstep\<^sup>*\<^sup>* demo_boot s3 \<and> ipc_rep s3 a3 \<and> ipc_ok a3 \<and>
     st a3 = (st (boot_ipc demo_boot))(0 := Sending 1 64, 5 := Sending 1 128) \<and>
     queue a3 = (\<lambda>i. if i = 1 then [0, 5] else []) \<and> pend a3 = (\<lambda>_. False) \<and> base a3 = (\<lambda>_. 0) \<and>
     source (mem a3 64) = 0 \<and> p_proc_ready s3 = 1 \<and> ticks s3 = 1"
proof -
  note b = demo_booted
  obtain s1 a1 where s1: "exec (Send 1 64) demo_boot = Inr s1" "kstep demo_boot s1" "p_proc_ready s1 = 5"
      "sched_frame demo_boot s1" and rep1: "ipc_rep s1 a1" "ipc_ok a1" and
    a1: "st a1 = (st (boot_ipc demo_boot))(0 := Sending 1 64)" "queue a1 = (\<lambda>i. if i = 1 then [0] else [])"
      "pend a1 = (\<lambda>_. False)" "base a1 = (\<lambda>_. 0)" "source (mem a1 64) = 0"
    using demo_first_send by blast
  have tk1: "p_ticks (proc_table s1 i) = table_priority i \<and> p_priority (proc_table s1 i) = table_priority i"
    if "native i" for i using s1(4) b(7) [OF that] unfolding sched_frame_def by metis
  have inv1: "kinv s1" using booted_run(1) [OF b(1)] s1(2) by blast
  have key1: "key_pressed s1 = 0" "k_reenter s1 = 0" "ticks s1 = 0"
    using s1(4) b(4,5,6) by (simp_all add: sched_frame_def)
  define s2 where "s2 = account s1"
  have s2: "exec Tick s1 = Inr s2" "kstep s1 s2"
    unfolding s2_def by (rule demo_tick [OF inv1]; simp add: s1(3) tk1 native_def table_priority_ok key1)+
  have g2: "p_proc_ready s2 = 5" "k_reenter s2 = 0" "ipc_rep s2 a1" "ticks s2 = 1"
    using s1(3) key1 account_rep [OF rep1(1)] account_ticks(1) [of s1] inv1 by (auto simp: s2_def kinv_def)
  have tk2: "p_ticks (proc_table s2 i) = (if i = 5 then 24 else table_priority i) \<and>
      p_priority (proc_table s2 i) = table_priority i" if "native i" for i
    using tk1 [OF that] account_ticks(2) [of s1 i] inv1 s1(3)
    by (auto simp: s2_def kinv_def table_priority_ok [OF that])
  have run2: "kstep\<^sup>*\<^sup>* demo_boot s2" using s1(2) s2(2) by simp
  have cur2: "current_ok s2" using booted_run(1) [OF b(1) run2] by (simp add: kinv_def)
  have "runnable s2 1"
    using ready_iff [OF g2(3), of 1] tk2 [of 1]
    by (simp add: runnable_def set_slots a1 boot_ipc_st native_def table_priority_ok)
  from send_blocks [OF g2(3) rep1(2) cur2 g2(2), of 1 128 1] this obtain s3 a3 where
    s3: "exec (Send 1 128) s2 = Inr s3" "kstep s2 s3" "ipc_rep s3 a3" "ipc_ok a3" "chosen s3" "sched_frame s2 s3" and
    a3: "a3 = (a_stamp 5 128 a1)\<lparr>st := (st a1)(5 := Sending 1 128), queue := (queue a1)(1 := queue a1 1 @ [5])\<rparr>"
    using g2(1) by (auto simp: native_def a1 boot_ipc_st)
  have tk3: "p_ticks (proc_table s3 i) = table_priority i" if "native i" "i \<noteq> 5" for i
    using s3(6) tk2 [OF that(1)] that(2) unfolding sched_frame_def by metis
  have "p_flags (proc_table s3 i) = 0 \<longleftrightarrow> native i \<and> i \<noteq> 0 \<and> i \<noteq> 5" if "i \<in> set slots" for i
    using ready_iff [OF s3(3) that] by (simp add: a1 a3 boot_ipc_st)
  moreover have "p_ticks (proc_table s3 1) = 20" using tk3 [of 1] by (simp add: native_def table_priority_ok)
  ultimately have "p_proc_ready s3 = 1"
    by (intro chosen_is [OF s3(5)]) (auto simp: set_slots tk3 table_priority_ok, auto simp: native_def)
  moreover have "kstep\<^sup>*\<^sup>* demo_boot s3" using run2 s3(2) by simp
  moreover have "ticks s3 = 1" using s3(6) g2(4) by (simp add: sched_frame_def)
  ultimately show ?thesis
    using s1 s2 s3 a1 a3 unfolding s2_def
    by (intro exI [of _ s1] exI [of _ s3] exI [of _ a3]) (auto simp: a_stamp_def)
qed

lemma demo_run:
  "\<exists>s1 s2 s3 s4. exec (Send 1 64) demo_boot = Inr s1 \<and> exec Tick s1 = Inr s2 \<and> exec (Send 1 128) s2 = Inr s3 \<and>
     exec (Receive ANY 256) s3 = Inr s4 \<and> kstep\<^sup>*\<^sup>* demo_boot s3 \<and> kstep\<^sup>*\<^sup>* demo_boot s4 \<and>
     p_proc_ready s1 = 5 \<and> p_proc_ready s3 = 1 \<and> sends_to s3 = {(0, 1), (5, 1)} \<and> sends_to s4 = {(5, 1)} \<and>
     p_sending_queue (proc_table s4 1) = Some 5 \<and> source (messages s4 256) = 0 \<and> ticks s4 = 1"
proof -
  obtain s1 s3 a3 where
    s: "exec (Send 1 64) demo_boot = Inr s1" "exec Tick s1 = Inr (account s1)" "exec (Send 1 128) (account s1) = Inr s3"
      "kstep\<^sup>*\<^sup>* demo_boot s3" "p_proc_ready s1 = 5" "p_proc_ready s3 = 1" "ticks s3 = 1" and
    rep3: "ipc_rep s3 a3" "ipc_ok a3" and
    a3: "st a3 = (st (boot_ipc demo_boot))(0 := Sending 1 64, 5 := Sending 1 128)"
      "queue a3 = (\<lambda>i. if i = 1 then [0, 5] else [])" "pend a3 = (\<lambda>_. False)" "base a3 = (\<lambda>_. 0)"
      "source (mem a3 64) = 0"
    using demo_second_send by blast
  let ?a = "a_stamp 1 256 a3"
  have "k_reenter s3 = 0" using booted_run(2) [OF demo_booted(1) s(4)] .
  then have "receive_outcome 1 ANY 256 ?a s3 (exec (Receive ANY 256) s3)"
    using sys_sendrec_receive_rep [OF rep3, of 1 ANY 256]
    by (simp add: s(6) set_slots a3 boot_ipc_st native_def)
  moreover have "available ?a 1 ANY" by (simp add: a3 available_def)
  ultimately obtain s4 where s4: "exec (Receive ANY 256) s3 = Inr s4" "ipc_rep s4 (a_receive 1 ANY 256 ?a)"
    by (auto simp: receive_outcome_def)
  have a4: "a_receive 1 ANY 256 ?a = a_take 1 0 256 64 ?a"
    by (simp add: a_receive_def a3)
  have k4: "kstep s3 s4" "ticks s4 = 1"
    using kstep [OF _ s4(1)] sys_sendrec_frame [of RECEIVE ANY 256 1 s3 s4] s4(1) s(6,7) by (auto simp: sched_frame_def)
  have w: "sends_to s3 = {(0, 1), (5, 1)}" "sends_to s4 = {(5, 1)}"
    using sends_to_waits [OF rep3(1)] sends_to_waits [OF s4(2)]
    by (auto simp: waits_for_def a4 a_take_def a3 boot_ipc_st set_slots split: if_splits)
  have "p_sending_queue (proc_table s4 1) = Some 5"
    using ipc_repD(2) [OF s4(2), of 1] by (simp add: a4 a_take_def a3 set_slots)
  moreover have "source (messages s4 256) = 0"
    using ipc_rep_mem(1) [OF s4(2) [unfolded a4]] a3
    by (simp add: a_take_def a_stamp_def flip: ipc_rep_mem(1) [OF s4(2) [unfolded a4]])
  moreover have "kstep\<^sup>*\<^sup>* demo_boot s4" using s(4) k4(1) by simp
  ultimately show ?thesis using s s4 k4 w by blast
qed

subsection \<open>Properties\<close>





text \<open>
  C10: \<open>kernel_main()\<close> copies the name and the entry point of each task but never its
  priority, and \<open>init_protect()\<close> has cleared the table: no process of the booted machine
  has ticks or a priority, so the first clock interrupt enters a \<open>schedule()\<close> that never
  returns.
\<close>

theorem boot_clock_hangs:
  assumes "boot_ok e s0" "kernel_main e s0 = Inr s" "key_pressed s0 = 0"
  shows "schedule s = None \<and> clock_handler s = Inl (Hang ''schedule'')"
proof -
  note nr = kernel_main_not_runnable [OF assms(1,2)] and g = kernel_main_globals [OF assms(2)]
  have none: "schedule t = None" if "\<And>p. runnable t p = runnable s p" for t
    using schedule_only_if [of t] that nr by (cases "schedule t") auto
  have p0: "p_ticks (proc_table s 0) = 0"
    using kernel_main_slots [OF assms(1,2), of 0] by (auto simp: set_slots native_def)
  then have acc: "account s = s\<lparr>ticks := 1\<rparr>"
    by (simp add: account_def Let_def g s32_id)
  have "clock_handler s = Inl (Hang ''schedule'')"
    using none [of "s\<lparr>ticks := 1\<rparr>"] acc g p0 assms(3)
    by (simp add: clock_handler_account runnable_def)
  with none [of s] show ?thesis by simp
qed

theorem boot_clock_hangs_witness:
  "\<exists>s. kernel_main demo_env demo_reset = Inr s \<and> schedule s = None \<and>
    clock_handler s = Inl (Hang ''schedule'')"
proof -
  obtain s where s: "kernel_main demo_env demo_reset = Inr s"
    using kernel_main_total [OF demo_boot_ok] by blast
  have "key_pressed demo_reset = 0" by (simp add: demo_reset_def)
  from boot_clock_hangs [OF demo_boot_ok s this] s show ?thesis by blast
qed

end
