(* ===== verification/Fsdir.thy ===== *)
theory Fsdir
  imports Fsmap
begin

section \<open>Directories\<close>

text \<open>
  The root directory as the sequence of its entries, from byte \<open>at\<close> of the device on, and
  what \<open>search_file()\<close>, \<open>new_dir_entry()\<close> and the last part of \<open>do_unlink()\<close> do to it.
\<close>

subsection \<open>Entries\<close>

definition dinode :: "(int \<Rightarrow> u8) \<Rightarrow> int \<Rightarrow> nat \<Rightarrow> int" where
  "dinode b at k = sint (get32 b (at + 16 * int k))"

definition dname :: "(int \<Rightarrow> u8) \<Rightarrow> int \<Rightarrow> nat \<Rightarrow> u8 list" where
  "dname b at k = buf_read b (at + 16 * int k + 4) MAX_FILENAME_LEN"

lemma sector_entry:
  assumes "j < 32"
  shows "de_inode (buf_copy b 0 512 d (at + 512 * int i)) j = dinode d at (32 * i + j)"
    "de_name (buf_copy b 0 512 d (at + 512 * int i)) j = dname d at (32 * i + j)"
  using assms by (auto simp: de_inode_def de_name_def dinode_def dname_def get32_def buf_read_def buf_copy_def algebra_simps)

text \<open>The root directory \<open>d\<close>: its sectors are in the data area and its size is a number of entries.\<close>

definition dir_ok :: "super_block \<Rightarrow> fs \<Rightarrow> nat \<Rightarrow> bool" where
  "dir_ok sb s d \<longleftrightarrow> mounted sb s \<and> root_inode s = Some d \<and> i_dev (inode_table s d) = ROOT_DEV \<and> i_num (inode_table s d) = 1 \<and>
     uint (n_1st_sect sb) \<le> uint (i_start_sect (inode_table s d)) \<and> uint (i_start_sect (inode_table s d)) + 2048 < 2 ^ 22 \<and>
     uint (i_size (inode_table s d)) mod 16 = 0 \<and> uint (i_size (inode_table s d)) < 2 ^ 20"

abbreviation dir_at :: "fs \<Rightarrow> nat \<Rightarrow> int" where
  "dir_at s d \<equiv> uint (i_start_sect (inode_table s d)) * 512"

definition dir_len :: "fs \<Rightarrow> nat \<Rightarrow> nat" where
  "dir_len s d = unat (i_size (inode_table s d)) div 16"

subsection \<open>Searching\<close>

lemma find_upt_split: "i \<le> j \<Longrightarrow> j \<le> k \<Longrightarrow> find P [i..<k] = (case find P [i..<j] of None \<Rightarrow> find P [j..<k] | Some x \<Rightarrow> Some x)"
  by (induction "j - i" arbitrary: i) (auto simp: upt_conv_Cons)

lemma search_entries_find:
  assumes "m \<le> nr" "l = min n (nat (nr - m) + 1)"
  shows "search_entries name b nr n j m =
    (case find (\<lambda>j. de_name b j = name) [j..<j + l] of
       Some j' \<Rightarrow> (Some (de_inode b j'), m + int (j' - j)) | None \<Rightarrow> (None, m + int l))"
  using assms
proof (induction n arbitrary: j m l)
  case (Suc n)
  have "0 < l" using Suc.prems(2) by simp
  then have u: "[j..<j + l] = j # [Suc j..<j + l]" by (simp add: upt_conv_Cons)
  show ?case
  proof (cases "de_name b j = name \<or> m + 1 > nr")
    case True
    then show ?thesis using Suc.prems u by (auto simp: nat_eq_iff2)
  next
    case False
    define l' where "l' = l - 1"
    have "l' = min n (nat (nr - (m + 1)) + 1)" "j + l = Suc j + l'" using Suc.prems False by (auto simp: l'_def)
    then have e: "search_entries name b nr (Suc n) j m =
        (case find (\<lambda>j. de_name b j = name) [Suc j..<j + l] of
          Some j' \<Rightarrow> (Some (de_inode b j'), m + 1 + int (j' - Suc j)) | None \<Rightarrow> (None, m + 1 + int l'))"
      using Suc.IH [of "m + 1" l' "Suc j"] False by simp
    show ?thesis
    proof (cases "find (\<lambda>j. de_name b j = name) [Suc j..<j + l]")
      case None
      then show ?thesis using e u False \<open>0 < l\<close> by (simp add: l'_def)
    next
      case (Some j')
      then have "Suc j \<le> j'" by (auto simp: find_Some_iff)
      then show ?thesis using Some e u False by simp
    qed
  qed
qed simp


text \<open>What \<open>search_file()\<close> finds among the first \<open>n\<close> entries.\<close>

definition entry_inode :: "(int \<Rightarrow> u8) \<Rightarrow> int \<Rightarrow> nat option \<Rightarrow> int" where
  "entry_inode b at r = (case r of Some k \<Rightarrow> dinode b at k | None \<Rightarrow> 0)"

definition lookup :: "(int \<Rightarrow> u8) \<Rightarrow> int \<Rightarrow> nat \<Rightarrow> u8 list \<Rightarrow> int" where
  "lookup b at n name = entry_inode b at (find (\<lambda>k. dname b at k = name) [0..<n])"

lemma entry_inode_simps [simp]: "entry_inode b at None = 0" "entry_inode b at (Some k) = dinode b at k"
  by (simp_all add: entry_inode_def)

lemma find_shift: "find P [i + a..<i + b] = map_option ((+) i) (find (\<lambda>j. P (i + j)) [a..<b :: nat])"
  by (induction "b - a" arbitrary: a) (auto simp: upt_conv_Cons simp flip: add_Suc_right)

lemma search_blocks_find:
  assumes "0 \<le> blk0" "blk0 + int (i + n) \<le> 2 ^ 22" "at = blk0 * 512" "32 * int i \<le> nr"
    "hi = min (32 * (i + n)) (nat nr + 1)"
  shows "\<exists>b. search_blocks name ROOT_DEV blk0 nr n (int i) (32 * int i) s =
    Inr (entry_inode (rootdisk s) at (find (\<lambda>k. dname (rootdisk s) at k = name) [32 * i..<hi]), s\<lparr>fsbuf := b\<rparr>)"
  using assms(2,4,5)
proof (induction n arbitrary: i s)
  case 0
  then show ?case by (auto intro!: exI [of _ "fsbuf s"])
next
  case (Suc n)
  let ?b = "buf_copy (fsbuf s) 0 512 (rootdisk s) (at + 512 * int i)" and ?P = "\<lambda>k. dname (rootdisk s) at k = name"
  have p: "(blk0 + int i) * 512 = at + 512 * int i" using assms(3) by simp
  have rd: "RD_SECT ROOT_DEV (blk0 + int i) s = Inr (s\<lparr>fsbuf := ?b\<rparr>)"
    using rd_root [of "blk0 + int i" s, unfolded p] assms(1) Suc.prems(1) by simp
  define l where "l = min 32 (nat (nr - 32 * int i) + 1)"
  have hi: "32 * i + l \<le> hi" "32 * i \<le> 32 * i + l" using Suc.prems(2,3) by (auto simp: l_def)
  have "find (\<lambda>j. de_name ?b j = name) [0..<0 + l] = find (\<lambda>j. ?P (32 * i + j)) [0..<l]"
    using sector_entry(2) by (auto simp: l_def intro!: find_cong)
  then have f: "find ?P [32 * i..<32 * i + l] = map_option ((+) (32 * i)) (find (\<lambda>j. de_name ?b j = name) [0..<0 + l])"
    using find_shift [of ?P "32 * i" 0 l] by simp
  note se = search_entries_find [OF Suc.prems(2) l_def, of name ?b 0]
  show ?case
  proof (cases "find (\<lambda>j. de_name ?b j = name) [0..<0 + l]")
    case (Some j)
    then have "j < l" by (simp add: find_upt_Some)
    then have "j < 32" by (simp add: l_def)
    then show ?thesis using Some se f rd sector_entry(1) [of j "fsbuf s" "rootdisk s" at i] find_upt_split [OF hi(2,1), of ?P] by auto
  next
    case None
    show ?thesis
    proof (cases "32 * int (Suc i) \<le> nr")
      case True
      then have "l = 32" by (simp add: l_def)
      moreover from Suc.IH [of "Suc i" "s\<lparr>fsbuf := ?b\<rparr>"] True Suc.prems obtain b where
        "search_blocks name ROOT_DEV blk0 nr n (int (Suc i)) (32 * int (Suc i)) (s\<lparr>fsbuf := ?b\<rparr>) =
          Inr (entry_inode (rootdisk s) at (find ?P [32 * Suc i..<hi]), s\<lparr>fsbuf := b\<rparr>)" by auto
      ultimately show ?thesis using None se f rd True find_upt_split [OF hi(2,1), of ?P]
        by (intro exI [of _ b]) (simp add: add.commute)
    next
      case False
      then have "32 * int i + int l = nr + 1 \<or> (nr + 1 = 32 * int i + 32)" "hi = 32 * i + l" using Suc.prems by (auto simp: l_def)
      then show ?thesis using None se f rd False Suc.prems by (auto simp: l_def)
    qed
  qed
qed


lemma dir_numbers:
  assumes "dir_ok sb s d"
  shows "nr_dir_entries (inode_table s d) = int (dir_len s d)" "sint (i_start_sect (inode_table s d)) = uint (i_start_sect (inode_table s d))"
    "uint (i_size (inode_table s d)) = 16 * int (dir_len s d)" "dir_len s d < 65536"
    "unat ((i_size (inode_table s d) + 511) div 512) = (dir_len s d + 31) div 32"
    "unat ((i_size (inode_table s d) + 512) div 512) = dir_len s d div 32 + 1"
proof -
  let ?z = "i_size (inode_table s d)" and ?st = "i_start_sect (inode_table s d)"
  have z: "uint ?z mod 16 = 0" "uint ?z < 1048576" "uint ?st < 4194304" using assms by (simp_all add: dir_ok_def)
  have "int (unat ?z mod 16) = 0" using z(1) by (simp add: zmod_int)
  then have n: "unat ?z mod 16 = 0" by simp
  show "nr_dir_entries (inode_table s d) = int (dir_len s d)" by (simp add: nr_dir_entries_def dir_len_def uint_div zdiv_int)
  show "sint ?st = uint ?st" using z(3) order_trans [OF _ uint_ge_0, of "- 2147483648" ?st]
    by (simp add: sint_uint signed_take_bit_int_eq_self)
  have u: "unat ?z = 16 * dir_len s d" using n div_mult_mod_eq [of "unat ?z" 16] by (simp add: dir_len_def)
  from arg_cong [OF this, of int] show "uint ?z = 16 * int (dir_len s d)" by simp
  have "int (unat ?z) < 1048576" using z(2) by simp
  then have lt: "unat ?z < 1048576" by linarith
  then show "dir_len s d < 65536" unfolding u by simp
  have "unat (?z + 511) = unat ?z + 511" "unat (?z + 512) = unat ?z + 512"
    using lt by (simp_all add: unat_word_ariths)
  then show "unat ((?z + 511) div 512) = (dir_len s d + 31) div 32" "unat ((?z + 512) div 512) = dir_len s d div 32 + 1"
    unfolding unat_div u by simp_all
qed

text \<open>
  How many entries \<open>search_file()\<close> looks at: the loop compares before it counts, and so looks at
  one entry too many unless the last sector is full.
\<close>

definition dir_seen :: "nat \<Rightarrow> nat" where
  "dir_seen n = (if n mod 32 = 0 then n else n + 1)"

lemma search_file_find:
  assumes "dir_ok sb s d" "strip_path path = Some name" "name \<noteq> []" "length name \<le> 11"
  shows "\<exists>b. search_file path s = Inr (lookup (rootdisk s) (dir_at s d) (dir_seen (dir_len s d)) (pad_name name), s\<lparr>fsbuf := b\<rparr>)"
proof -
  note N = dir_numbers [OF assms(1)]
  let ?n = "(dir_len s d + 31) div 32" and ?st = "uint (i_start_sect (inode_table s d))"
  have ok: "root_inode s = Some d" "i_dev (inode_table s d) = 800" "?st + 2048 < 2 ^ 22" using assms(1) by (simp_all add: dir_ok_def)
  have "?n \<le> 2048" using N(4) by simp
  then have blk: "?st + int (0 + ?n) \<le> 2 ^ 22" using ok(3) by simp
  have hi: "dir_seen (dir_len s d) = min (32 * (0 + ?n)) (nat (int (dir_len s d)) + 1)" unfolding dir_seen_def by presburger
  from search_blocks_find [OF _ blk refl _ hi, of "pad_name name" s] obtain b where
    "search_blocks (pad_name name) ROOT_DEV ?st (int (dir_len s d)) ?n 0 0 s =
      Inr (lookup (rootdisk s) (dir_at s d) (dir_seen (dir_len s d)) (pad_name name), s\<lparr>fsbuf := b\<rparr>)"
    by (auto simp: lookup_def)
  then show ?thesis using assms(2-4) ok N by (intro exI [of _ b]) (simp add: search_file_def dir_inode_def Let_def)
qed

lemma search_file_long: "strip_path path = Some name \<Longrightarrow> \<not> length name \<le> 11 \<Longrightarrow> search_file path s = Inl (Fault ''filename'')"
  by (simp add: search_file_def)

subsection \<open>New entries\<close>

lemma find_slot_find:
  assumes "m \<le> nr" "l = min n (nat (nr - m))"
  shows "find_slot b nr n j m =
    (case find (\<lambda>j. de_inode b j = 0) [j..<j + l] of
       Some j' \<Rightarrow> (True, m + int (j' - j) + 1, j')
     | None \<Rightarrow> (False, if l < n then nr + 1 else m + int n, j + l))"
  using assms
proof (induction n arbitrary: j m l)
  case (Suc n)
  show ?case
  proof (cases "m + 1 > nr")
    case True
    then show ?thesis using Suc.prems by simp
  next
    case False
    then have "0 < l" using Suc.prems(2) by simp
    then have u: "[j..<j + l] = j # [Suc j..<j + l]" by (simp add: upt_conv_Cons)
    define l' where "l' = l - 1"
    have l': "l' = min n (nat (nr - (m + 1)))" "j + l = Suc j + l'" "l' < n \<longleftrightarrow> l < Suc n" using Suc.prems False \<open>0 < l\<close> by (auto simp: l'_def)
    show ?thesis
    proof (cases "de_inode b j = 0")
      case True
      then show ?thesis using u False by simp
    next
      case nz: False
      then have e: "find_slot b nr (Suc n) j m =
          (case find (\<lambda>j. de_inode b j = 0) [Suc j..<j + l] of
             Some j' \<Rightarrow> (True, m + 1 + int (j' - Suc j) + 1, j')
           | None \<Rightarrow> (False, if l' < n then nr + 1 else m + 1 + int n, j + l))"
        using Suc.IH [OF _ l'(1), of "Suc j"] False unfolding l'(2) by simp
      show ?thesis
      proof (cases "find (\<lambda>j. de_inode b j = 0) [Suc j..<j + l]")
        case None
        then show ?thesis using e u nz l'(3) by simp
      next
        case (Some j')
        then have "Suc j \<le> j'" by (auto simp: find_Some_iff)
        then show ?thesis using Some e u nz by simp
      qed
    qed
  qed
qed simp

text \<open>The entry that is taken: the first one without an inode, else the one after the last.\<close>

definition slot_of :: "(int \<Rightarrow> u8) \<Rightarrow> int \<Rightarrow> nat \<Rightarrow> nat" where
  "slot_of b at n = (case find (\<lambda>k. dinode b at k = 0) [0..<n] of Some k \<Rightarrow> k | None \<Rightarrow> n)"

lemma slot_blocks_find:
  assumes "0 \<le> blk0" "blk0 + int (i + n) \<le> 2 ^ 22" "at = blk0 * 512" "32 * i \<le> nr" "nr < 32 * (i + n)"
    "K = (case find (\<lambda>k. dinode (rootdisk s) at k = 0) [32 * i..<nr] of Some k \<Rightarrow> k | None \<Rightarrow> nr)"
  shows "\<exists>b. slot_blocks ROOT_DEV blk0 (int nr) n (int i) (32 * int i) pde s =
    Inr (K < nr, int (K div 32), Some (K mod 32), s\<lparr>fsbuf := buf_copy b 0 512 (rootdisk s) (at + 512 * int (K div 32))\<rparr>)"
  using assms(2,4,5,6)
proof (induction n arbitrary: i s pde)
  case 0
  then show ?case by simp
next
  case (Suc n)
  let ?b = "buf_copy (fsbuf s) 0 512 (rootdisk s) (at + 512 * int i)" and ?P = "\<lambda>k. dinode (rootdisk s) at k = 0"
  have p: "(blk0 + int i) * 512 = at + 512 * int i" using assms(3) by simp
  have rd: "RD_SECT ROOT_DEV (blk0 + int i) s = Inr (s\<lparr>fsbuf := ?b\<rparr>)"
    using rd_root [of "blk0 + int i" s, unfolded p] assms(1) Suc.prems(1) by simp
  define l where "l = min 32 (nat (int nr - 32 * int i))"
  have hi: "32 * i + l \<le> nr" "32 * i \<le> 32 * i + l" "l \<le> 32" using Suc.prems(2) by (auto simp: l_def)
  have "find (\<lambda>j. de_inode ?b j = 0) [0..<0 + l] = find (\<lambda>j. ?P (32 * i + j)) [0..<l]"
    using sector_entry(1) hi(3) by (auto intro!: find_cong)
  then have f: "find ?P [32 * i..<32 * i + l] = map_option ((+) (32 * i)) (find (\<lambda>j. de_inode ?b j = 0) [0..<0 + l])"
    using find_shift [of ?P "32 * i" 0 l] by simp
  have m: "32 * int i \<le> int nr" using Suc.prems(2) by linarith
  note se = find_slot_find [OF m l_def, of ?b 0]
  show ?case
  proof (cases "find (\<lambda>j. de_inode ?b j = 0) [0..<0 + l]")
    case (Some j)
    then have j: "j < l" "j < 32" using hi(3) by (simp_all add: find_upt_Some)
    have "K = 32 * i + j" using Some f Suc.prems(4) find_upt_split [OF hi(2,1), of ?P] by simp
    moreover have "K < nr" using calculation j hi(1) by simp
    ultimately show ?thesis using Some se rd j by (intro exI [of _ "fsbuf s"]) simp
  next
    case None
    show ?thesis
    proof (cases "32 * Suc i \<le> nr")
      case True
      then have "l = 32" by (simp add: l_def)
      moreover from True Suc.prems f None find_upt_split [OF hi(2,1), of ?P] calculation
      have "\<exists>b. slot_blocks ROOT_DEV blk0 (int nr) n (int (Suc i)) (32 * int (Suc i)) (Some 32) (s\<lparr>fsbuf := ?b\<rparr>) =
          Inr (K < nr, int (K div 32), Some (K mod 32), s\<lparr>fsbuf := buf_copy b 0 512 (rootdisk s) (at + 512 * int (K div 32))\<rparr>)"
        using Suc.IH [of "Suc i" "s\<lparr>fsbuf := ?b\<rparr>" "Some 32"] by (simp add: add.commute)
      ultimately show ?thesis using None se rd True by (auto simp: add.commute)
    next
      case False
      then have l: "l = nr - 32 * i" "l < 32" using Suc.prems(2) by (auto simp: l_def)
      have nr: "nr = 32 * i + l" using l Suc.prems(2) by simp
      then have "find ?P [32 * i..<nr] = None" using None f by simp
      with Suc.prems(4) have "K = nr" by simp
      moreover note nr
      ultimately show ?thesis using None se rd l(2) by (intro exI [of _ "fsbuf s"]) simp
    qed
  qed
qed


definition dirent_bytes :: "int \<Rightarrow> u8 list \<Rightarrow> u8 list" where
  "dirent_bytes nr name = bytes32 (of_int nr) @ name @ [0]"

lemma store_dirent_write: "store_dirent off nr name b = buf_write b off (dirent_bytes nr name)"
  by (simp add: store_dirent_def put32_def dirent_bytes_def buf_write_append)

lemma int_mod_32: "int k = 32 * int (k div 32) + int (k mod 32)"
  by (simp add: zdiv_int zmod_int)

text \<open>
  A name of at most 11 characters, or one in another than the last entry of a sector: what is
  written lies in the sector.
\<close>

lemma new_dir_entry_run:
  assumes "dir_ok sb s d" "K = slot_of (rootdisk s) (dir_at s d) (dir_len s d)" "length name \<le> 12" "length name \<le> 11 \<or> K mod 32 \<noteq> 31"
    "N = (if K < dir_len s d then dir_len s d else dir_len s d + 1)" "dir_len s d < 65535"
  shows "\<exists>s'. new_dir_entry d nr name s = Inr s' \<and> dir_ok sb s' d \<and> dir_len s' d = N \<and>
    inode_table s' = (inode_table s)(d := (inode_table s d)\<lparr>i_size := of_nat (16 * N)\<rparr>) \<and>
    (\<forall>k. inode_pos sb 1 + 16 \<le> k \<longrightarrow> rootdisk s' k = buf_write (rootdisk s) (dir_at s d + 16 * int K) (dirent_bytes nr name) k) \<and>
    inode_pos sb 1 + 16 \<le> dir_at s d"
proof -
  note D = dir_numbers [OF assms(1)]
  let ?ino = "inode_table s d"
  let ?st = "uint (i_start_sect ?ino)"
  have ok: "mounted sb s" "root_inode s = Some d" "i_dev ?ino = 800" "i_num ?ino = 1" "uint (n_1st_sect sb) \<le> ?st" "?st + 2048 < 2 ^ 22"
    using assms(1) by (simp_all add: dir_ok_def)
  have KN: "K \<le> dir_len s d" unfolding assms(2) slot_of_def by (auto simp: find_upt_Some split: option.split)
  define n where "n = dir_len s d div 32 + 1"
  have n: "?st + int (0 + n) \<le> 2 ^ 22" "dir_len s d < 32 * (0 + n)" using D(4) ok(6) unfolding n_def by simp_all
  from slot_blocks_find [OF _ n(1) refl _ n(2), of K s None] assms(2) obtain b where
    b: "slot_blocks ROOT_DEV ?st (int (dir_len s d)) n 0 0 None s =
      Inr (K < dir_len s d, int (K div 32), Some (K mod 32), s\<lparr>fsbuf := buf_copy b 0 512 (rootdisk s) (?st * 512 + 512 * int (K div 32))\<rparr>)"
    by (auto simp: slot_of_def)
  define pos where "pos = ?st * 512 + 512 * int (K div 32)"
  have pos: "pos + 16 * int (K mod 32) = dir_at s d + 16 * int K" "(?st + int (K div 32)) * 512 = pos"
    using int_mod_32 [of K] by (simp_all add: pos_def)
  have "?st + int (K div 32) < 2 ^ 22" using KN D(4) ok(6) by simp
  note wr = wr_root [OF _ this, unfolded pos(2)]
  define z where "z = (of_nat (16 * N) :: u32)"
  have "N < 65536" using assms(5,6) by simp
  then have uz: "unat z = 16 * N" unfolding z_def unat_of_nat by simp
  from arg_cong [OF this, of int] have uz': "uint z = 16 * int N" by simp
  have iz: "i_size ?ino = of_nat (16 * dir_len s d)"
    using D(3) by (metis of_int_of_nat_eq of_nat_mult of_nat_numeral word_of_int_uint)
  define s1 where "s1 = s\<lparr>fsbuf := buf_copy b 0 512 (rootdisk s) pos\<rparr>"
  define s2 where "s2 = (if K < dir_len s d then s1 else upd_inode d (\<lambda>x. x\<lparr>i_size := i_size x + 16\<rparr>) s1)"
  have s2: "inode_table s2 = (inode_table s)(d := ?ino\<lparr>i_size := z\<rparr>)" "fsbuf s2 = buf_copy b 0 512 (rootdisk s) pos" "rootdisk s2 = rootdisk s"
    "sb_table s2 = sb_table s" "root_inode s2 = root_inode s"
    using iz assms(5) by (auto simp: s2_def s1_def z_def fun_eq_iff)
  let ?bs = "dirent_bytes nr name"
  have len: "16 * int (K mod 32) + int (length ?bs) \<le> 512" using assms(3,4) by (auto simp: dirent_bytes_def)
  define s3 where "s3 = set_rootdisk (buf_write (rootdisk s) (dir_at s d + 16 * int K) ?bs) (s2\<lparr>fsbuf := buf_write (fsbuf s2) (16 * int (K mod 32)) ?bs\<rparr>)"
  have w: "WR_SECT ROOT_DEV (?st + int (K div 32)) (s2\<lparr>fsbuf := store_dirent (DIR_ENTRY_SIZE * int (K mod 32)) nr name (fsbuf s2)\<rparr>) = Inr s3"
    using wr [of "s2\<lparr>fsbuf := buf_write (fsbuf s2) (16 * int (K mod 32)) ?bs\<rparr>"] len pos(1)
    by (simp add: store_dirent_write s3_def s2 buf_copy_through)
  have "mounted sb s3" using ok(1) mounted_cong [of s3 s] s2(4) by (simp add: s3_def)
  moreover have i3: "inode_table s3 d = ?ino\<lparr>i_size := z\<rparr>" by (simp add: s3_def s2)
  ultimately obtain b' where sy: "sync_inode d s3 = Inr (set_rootdisk (store_inode (?ino\<lparr>i_size := z\<rparr>) (inode_pos sb 1) (rootdisk s3)) (s3\<lparr>fsbuf := b'\<rparr>))"
    (is "_ = Inr ?s4")
    using sync_inode_root [of sb s3 d] ok(3,4) by auto
  have run: "new_dir_entry d nr name s = Inr ?s4"
    using b w sy D ok(3) unfolding new_dir_entry_def Let_def n_def by (simp add: pos_def [symmetric] s1_def [symmetric] s2_def [symmetric])
  have below: "inode_pos sb 1 + 16 \<le> dir_at s d" using inode_place(2,4,5) [OF ok(1), of 1] ok(5) by simp
  have "dir_ok sb ?s4 d" using assms(1,5,6) s2 i3 uz' mounted_cong [of ?s4 s] by (simp add: dir_ok_def s3_def)
  moreover have "dir_len ?s4 d = N" using i3 uz by (simp add: dir_len_def)
  ultimately show ?thesis using run below s2 i3
    by (intro exI [of _ ?s4]) (auto simp: s3_def z_def store_inode_other)
qed

lemma strip_loop_name: "strip_loop n cs = Some name \<Longrightarrow> n < 12 \<Longrightarrow> 0 \<notin> set name \<and> n + length name \<le> 12"
  by (induction n cs arbitrary: name rule: strip_loop.induct) (auto split: if_splits)

lemma strip_path_name: "strip_path path = Some name \<Longrightarrow> 0 \<notin> set name \<and> length name \<le> 12"
  using strip_loop_name [of 0] by (auto simp: strip_path_def split: list.splits if_splits)

abbreviation zero_name :: "u8 list" where
  "zero_name \<equiv> replicate 12 0"

lemma pad_name_nonzero: "name \<noteq> [] \<Longrightarrow> 0 \<notin> set name \<Longrightarrow> pad_name name \<noteq> zero_name"
  by (cases name) (auto simp: pad_name_def numeral_eq_Suc)

lemma dinode_cong: "(\<And>i. 0 \<le> i \<Longrightarrow> i < 4 \<Longrightarrow> b (at + 16 * int k + i) = b' (at + 16 * int k + i)) \<Longrightarrow> dinode b at k = dinode b' at k"
proof -
  assume a: "\<And>i. 0 \<le> i \<Longrightarrow> i < 4 \<Longrightarrow> b (at + 16 * int k + i) = b' (at + 16 * int k + i)"
  from a [of 0] a [of 1] a [of 2] a [of 3] show ?thesis by (simp add: dinode_def get32_def)
qed

lemma dinode_write:
  assumes "length name \<le> 11"
  shows "dinode (buf_write b (at + 16 * int K) (dirent_bytes nr name)) at k = (if k = K then sint (of_int nr :: u32) else dinode b at k)"
proof (cases "k = K")
  case True
  have "get32 (buf_write b p (dirent_bytes nr name)) p = get32 (put32 p (of_int nr) b) p" for p
    by (rule get32_cong) (auto simp: put32_def dirent_bytes_def buf_write_def nth_append)
  with True show ?thesis by (simp add: dinode_def)
next
  case False
  have "length (dirent_bytes nr name) \<le> 16" using assms by (simp add: dirent_bytes_def)
  then have "dinode (buf_write b (at + 16 * int K) (dirent_bytes nr name)) at k = dinode b at k"
    using False by (intro dinode_cong buf_write_other) linarith
  with False show ?thesis by simp
qed

lemma dname_write:
  assumes "length name \<le> 11"
  shows "k \<noteq> K \<Longrightarrow> dname (buf_write b (at + 16 * int K) (dirent_bytes nr name)) at k = dname b at k"
    "dname b at K = zero_name \<Longrightarrow> dname (buf_write b (at + 16 * int K) (dirent_bytes nr name)) at K = pad_name name"
proof -
  have l: "length (dirent_bytes nr name) = 5 + length name" by (simp add: dirent_bytes_def)
  show "dname (buf_write b (at + 16 * int K) (dirent_bytes nr name)) at k = dname b at k" if "k \<noteq> K"
  proof -
    have "buf_write b (at + 16 * int K) (dirent_bytes nr name) (at + 16 * int k + 4 + int i) = b (at + 16 * int k + 4 + int i)" if "i < 12" for i
      using that \<open>k \<noteq> K\<close> assms l by (intro buf_write_other) linarith
    then show ?thesis by (auto simp: dname_def buf_read_def)
  qed
  assume z: "dname b at K = zero_name"
  show "dname (buf_write b (at + 16 * int K) (dirent_bytes nr name)) at K = pad_name name"
  proof (rule nth_equalityI)
    fix i
    assume "i < length (dname (buf_write b (at + 16 * int K) (dirent_bytes nr name)) at K)"
    then have i: "i < 12" by (simp add: dname_def)
    have "b (at + 16 * int K + 4 + int i) = 0" using arg_cong [OF z, of "\<lambda>x. x ! i"] i by (simp add: dname_def)
    then show "dname (buf_write b (at + 16 * int K) (dirent_bytes nr name)) at K ! i = pad_name name ! i"
      using i l assms by (auto simp: dname_def buf_write_def dirent_bytes_def pad_name_def nth_append nat_add_distrib)
  qed (use assms in \<open>simp add: dname_def pad_name_def\<close>)
qed


text \<open>Entries without a file and the two entries behind the last one have an empty name.\<close>

definition dir_clean :: "fs \<Rightarrow> nat \<Rightarrow> bool" where
  "dir_clean s d \<longleftrightarrow> (\<forall>k. (k < dir_len s d \<and> dinode (rootdisk s) (dir_at s d) k = 0) \<or> k = dir_len s d \<or> k = dir_len s d + 1 \<longrightarrow>
     dname (rootdisk s) (dir_at s d) k = zero_name)"

lemma slot_of_cases:
  "K = slot_of b at n \<Longrightarrow> K \<le> n \<and> (K < n \<longrightarrow> dinode b at K = 0)"
  by (auto simp: slot_of_def find_upt_Some split: option.splits)

lemma find_upt_cong: "m \<le> n \<Longrightarrow> (\<And>k. k < m \<Longrightarrow> P k = Q k) \<Longrightarrow> (\<And>k. m \<le> k \<Longrightarrow> k < n \<Longrightarrow> \<not> Q k) \<Longrightarrow> find P [0..<m] = find Q [0..<n]"
proof -
  assume a: "m \<le> n" "\<And>k. k < m \<Longrightarrow> P k = Q k" "\<And>k. m \<le> k \<Longrightarrow> k < n \<Longrightarrow> \<not> Q k"
  have "find P [0..<m] = find Q [0..<m]" using a(2) by (intro find_cong) auto
  moreover have "find Q [m..<n] = None" using a(3) by (auto simp: find_None_iff)
  ultimately show ?thesis using find_upt_split [of 0 m n Q] a(1) by (cases "find Q [0..<m]") auto
qed

lemma find_upt_unique: "K < n \<Longrightarrow> P K \<Longrightarrow> (\<And>k. k < n \<Longrightarrow> P k \<Longrightarrow> k = K) \<Longrightarrow> find P [0..<n] = Some K"
  unfolding find_upt_Some by (metis less_irrefl less_trans)

lemma dir_seen_mono: "dir_seen n \<le> dir_seen (n + 1)" "n \<le> dir_seen n" "dir_seen n \<le> n + 1"
  by (auto simp: dir_seen_def)

text \<open>
  C22: A new directory entry can be found: in a directory whose unused entries have no name
  (\<open>dir_clean\<close>) and that does not hold the name yet, after \<open>new_dir_entry()\<close> with a name of at most
  11 characters a search for its path returns its inode number, and a search for any other name
  returns what it returned before. (A search for a name of 12 characters or more overruns the
  array it is copied to, before as after.)
\<close>

theorem new_entry_found:
  assumes "dir_ok sb s d" "dir_clean s d" "strip_path path = Some name" "name \<noteq> []" "length name \<le> 11" "0 < nr" "nr < 2 ^ 31"
    "dir_len s d < 65535" "\<And>k. k < dir_len s d \<Longrightarrow> dname (rootdisk s) (dir_at s d) k \<noteq> pad_name name"
  shows "\<exists>s1. new_dir_entry d nr name s = Inr s1 \<and> dir_ok sb s1 d \<and> (\<exists>s2. search_file path s1 = Inr (nr, s2)) \<and>
    (\<forall>path' name'. strip_path path' = Some name' \<and> name' \<noteq> [] \<and> pad_name name' \<noteq> pad_name name \<longrightarrow>
       (if length name' \<le> 11 then \<exists>r s2 s3. search_file path' s = Inr (r, s2) \<and> search_file path' s1 = Inr (r, s3)
        else search_file path' s = Inl (Fault ''filename'') \<and> search_file path' s1 = Inl (Fault ''filename'')))"
proof -
  let ?b = "rootdisk s" and ?at = "dir_at s d" and ?n = "dir_len s d"
  define K N where "K = slot_of ?b ?at ?n" and "N = (if K < ?n then ?n else ?n + 1)"
  have K: "K \<le> ?n" "dname ?b ?at K = zero_name" "K < N" "?n \<le> N" "N \<le> ?n + 1"
    using slot_of_cases [OF K_def] assms(2) by (auto simp: N_def dir_clean_def le_less)
  have "length name \<le> 12" "length name \<le> 11 \<or> K mod 32 \<noteq> 31" using assms(5) by simp_all
  from new_dir_entry_run [OF assms(1) K_def this N_def assms(8), of nr] obtain s1 where
    s1: "new_dir_entry d nr name s = Inr s1" "dir_ok sb s1 d" "dir_len s1 d = N"
      "inode_table s1 = (inode_table s)(d := (inode_table s d)\<lparr>i_size := of_nat (16 * N)\<rparr>)"
      "\<And>k. inode_pos sb 1 + 16 \<le> k \<Longrightarrow> rootdisk s1 k = buf_write ?b (?at + 16 * int K) (dirent_bytes nr name) k"
      "inode_pos sb 1 + 16 \<le> ?at" by blast
  have at: "dir_at s1 d = ?at" using s1(4) by simp
  have w: "dinode (rootdisk s1) ?at k = dinode (buf_write ?b (?at + 16 * int K) (dirent_bytes nr name)) ?at k"
    "dname (rootdisk s1) ?at k = dname (buf_write ?b (?at + 16 * int K) (dirent_bytes nr name)) ?at k" for k
    using s1(5,6) by (auto simp: dname_def buf_read_def intro!: dinode_cong)
  have snr: "sint (of_int nr :: u32) = nr" using assms(6,7) by (simp add: signed_of_int signed_take_bit_int_eq_self)
  have di: "dinode (rootdisk s1) ?at k = (if k = K then nr else dinode ?b ?at k)" for k unfolding w(1) dinode_write [OF assms(5)] snr ..
  have dn: "dname (rootdisk s1) ?at k = (if k = K then pad_name name else dname ?b ?at k)" for k
    unfolding w(2) using dname_write [OF assms(5)] K(2) by simp
  have tail: "dname ?b ?at k = zero_name" if "?n \<le> k" "k \<le> ?n + 1" for k using assms(2) that by (auto simp: dir_clean_def le_Suc_eq)
  have nz: "pad_name name \<noteq> zero_name" using pad_name_nonzero assms(4) strip_path_name [OF assms(3)] by blast
  have "find (\<lambda>k. dname (rootdisk s1) ?at k = pad_name name) [0..<dir_seen N] = Some K"
  proof (rule find_upt_unique)
    show "K < dir_seen N" using K dir_seen_mono(2) [of N] by simp
    fix k
    assume k: "k < dir_seen N" "dname (rootdisk s1) ?at k = pad_name name"
    have "k \<le> ?n + 1" using k(1) dir_seen_mono(3) [of N] K(5) by simp
    then show "k = K" using k(2) tail [of k] nz assms(9) [of k] by (cases "k < ?n") (auto simp: dn split: if_splits)
  qed (simp add: dn)
  then have "lookup (rootdisk s1) ?at (dir_seen N) (pad_name name) = nr" by (simp add: lookup_def di)
  then have found: "\<exists>s2. search_file path s1 = Inr (nr, s2)" using search_file_find [OF s1(2) assms(3,4,5)] s1(3) at by auto
  have others: "lookup (rootdisk s1) ?at (dir_seen N) nm = lookup ?b ?at (dir_seen ?n) nm" if nm: "nm \<noteq> pad_name name" "nm \<noteq> zero_name" for nm
  proof -
    have e: "find (\<lambda>k. dname ?b ?at k = nm) [0..<dir_seen ?n] = find (\<lambda>k. dname (rootdisk s1) ?at k = nm) [0..<dir_seen N]"
    proof (rule find_upt_cong)
      show "dir_seen ?n \<le> dir_seen N" using dir_seen_mono(1) [of ?n] by (simp add: N_def)
      show "dname ?b ?at k = nm \<longleftrightarrow> dname (rootdisk s1) ?at k = nm" for k using nm K(2) by (auto simp: dn)
      fix k
      assume "dir_seen ?n \<le> k" "k < dir_seen N"
      then have "?n \<le> k" "k \<le> ?n + 1" using dir_seen_mono [of ?n] dir_seen_mono(3) [of N] K(5) by linarith+
      then show "dname (rootdisk s1) ?at k \<noteq> nm" using tail [of k] nm by (auto simp: dn)
    qed
    have "k \<noteq> K" if "find (\<lambda>k. dname ?b ?at k = nm) [0..<dir_seen ?n] = Some k" for k
      using that nm K(2) by (auto simp: find_upt_Some)
    then show ?thesis unfolding lookup_def e [symmetric]
      by (cases "find (\<lambda>k. dname ?b ?at k = nm) [0..<dir_seen ?n]") (simp_all add: di)
  qed
  have "\<exists>r s2 s3. search_file path' s = Inr (r, s2) \<and> search_file path' s1 = Inr (r, s3)"
    if p: "strip_path path' = Some name'" "name' \<noteq> []" "pad_name name' \<noteq> pad_name name" "length name' \<le> 11" for path' name'
    using search_file_find [OF assms(1) p(1,2,4)] search_file_find [OF s1(2) p(1,2,4)] s1(3) at
      others [OF p(3) pad_name_nonzero] p(2) strip_path_name [OF p(1)] by auto
  with s1(1,2) found show ?thesis by (intro exI [of _ s1]) (auto simp: search_file_long)
qed

subsection \<open>Removed entries\<close>

text \<open>How many of the entries \<open>a\<close> to \<open>e - 1\<close> are in use.\<close>

definition live :: "(nat \<Rightarrow> int) \<Rightarrow> nat \<Rightarrow> nat \<Rightarrow> int" where
  "live f a e = int (length (filter (\<lambda>k. f k \<noteq> 0) [a..<e]))"

lemma live_Cons: "a < e \<Longrightarrow> live f a e = (if f a \<noteq> 0 then 1 else 0) + live f (Suc a) e"
  by (simp add: live_def upt_conv_Cons)

lemma live_split: "a \<le> b \<Longrightarrow> b \<le> e \<Longrightarrow> live f a e = live f a b + live f b e"
  using upt_add_eq_append [of a b "e - b"] by (simp add: live_def)

lemma live_empty [simp]: "live f a a = 0"
  by (simp add: live_def)

lemma live_shift: "live f (i + a) (i + e) = live (\<lambda>k. f (i + k)) a e"
proof -
  have "[i + a..<i + e] = map ((+) i) [a..<e]" by (induction e) auto
  then show ?thesis by (simp add: live_def filter_map o_def)
qed

lemma live_cong: "(\<And>k. a \<le> k \<Longrightarrow> k < e \<Longrightarrow> f k = g k) \<Longrightarrow> live f a e = live g a e"
proof -
  assume a: "\<And>k. a \<le> k \<Longrightarrow> k < e \<Longrightarrow> f k = g k"
  have "filter (\<lambda>k. f k \<noteq> 0) [a..<e] = filter (\<lambda>k. g k \<noteq> 0) [a..<e]" by (rule filter_cong [OF refl]) (simp add: a)
  then show ?thesis by (simp add: live_def)
qed

lemma unlink_entries_find:
  assumes "m \<le> nr" "l = min n (nat (nr - m))"
  shows "unlink_entries ino b nr n j m dsz =
    (case find (\<lambda>j. de_inode b j = ino) [j..<j + l] of
       Some j' \<Rightarrow> (True, j', m + int (j' - j) + 1, dsz + 16 * live (de_inode b) j j')
     | None \<Rightarrow> (False, j + l, if l < n then nr + 1 else m + int n, dsz + 16 * live (de_inode b) j (j + l)))"
  using assms
proof (induction n arbitrary: j m l dsz)
  case (Suc n)
  show ?case
  proof (cases "m + 1 > nr")
    case True
    then show ?thesis using Suc.prems by simp
  next
    case False
    then have "0 < l" using Suc.prems(2) by simp
    then have u: "[j..<j + l] = j # [Suc j..<j + l]" by (simp add: upt_conv_Cons)
    define l' where "l' = l - 1"
    have l': "l' = min n (nat (nr - (m + 1)))" "j + l = Suc j + l'" "l' < n \<longleftrightarrow> l < Suc n" using Suc.prems False \<open>0 < l\<close> by (auto simp: l'_def)
    show ?thesis
    proof (cases "de_inode b j = ino")
      case True
      then show ?thesis using u False by simp
    next
      case nz: False
      define dsz' where "dsz' = (if de_inode b j \<noteq> 0 then dsz + 16 else dsz)"
      have e: "unlink_entries ino b nr (Suc n) j m dsz =
          (case find (\<lambda>j. de_inode b j = ino) [Suc j..<j + l] of
             Some j' \<Rightarrow> (True, j', m + 1 + int (j' - Suc j) + 1, dsz' + 16 * live (de_inode b) (Suc j) j')
           | None \<Rightarrow> (False, j + l, if l' < n then nr + 1 else m + 1 + int n, dsz' + 16 * live (de_inode b) (Suc j) (j + l)))"
        using Suc.IH [OF _ l'(1), of "Suc j" dsz'] False nz unfolding l'(2) by (simp add: dsz'_def)
      have d: "dsz' + 16 * live (de_inode b) (Suc j) j' = dsz + 16 * live (de_inode b) j j'" if "j < j'" for j'
        using live_Cons [OF that, of "de_inode b"] by (simp add: dsz'_def)
      show ?thesis
      proof (cases "find (\<lambda>j. de_inode b j = ino) [Suc j..<j + l]")
        case None
        then show ?thesis using e u nz l'(3) d [of "j + l"] \<open>0 < l\<close> by simp
      next
        case (Some j')
        then have "Suc j \<le> j'" by (auto simp: find_Some_iff)
        then show ?thesis using Some e u nz d [of j'] by simp
      qed
    qed
  qed
qed simp

lemma unlink_blocks_find:
  assumes "0 \<le> blk0" "blk0 + int (i + n) \<le> 2 ^ 22" "at = blk0 * 512" "32 * i \<le> nr" "nr < 32 * (i + n)"
    "find (\<lambda>k. dinode (rootdisk s) at k = ino) [32 * i..<nr] = Some K"
  shows "\<exists>s'. unlink_blocks ino ROOT_DEV blk0 (int nr) n (int i) (32 * int i) dsz s =
    Inr (True, int K + 1, dsz + 16 * live (dinode (rootdisk s) at) (32 * i) K, s') \<and> same_tables s s' \<and>
    rootdisk s' = buf_copy (rootdisk s) (at + 16 * int K) 16 (\<lambda>_. 0) 0"
  using assms(2,4,5,6)
proof (induction n arbitrary: i s dsz)
  case 0
  then show ?case by simp
next
  case (Suc n)
  let ?b = "buf_copy (fsbuf s) 0 512 (rootdisk s) (at + 512 * int i)" and ?P = "\<lambda>k. dinode (rootdisk s) at k = ino"
  let ?D = "dinode (rootdisk s) at"
  have p: "(blk0 + int i) * 512 = at + 512 * int i" using assms(3) by simp
  have blk: "0 \<le> blk0 + int i" "blk0 + int i < 2 ^ 22" using assms(1) Suc.prems(1) by simp_all
  note rd = rd_root [OF blk, of s, unfolded p] and wr = wr_root [OF blk, unfolded p]
  define l where "l = min 32 (nat (int nr - 32 * int i))"
  have hi: "32 * i + l \<le> nr" "32 * i \<le> 32 * i + l" "l \<le> 32" using Suc.prems(2) by (auto simp: l_def)
  have "find (\<lambda>j. de_inode ?b j = ino) [0..<0 + l] = find (\<lambda>j. ?P (32 * i + j)) [0..<l]"
    using sector_entry(1) hi(3) by (auto intro!: find_cong)
  then have f: "find ?P [32 * i..<32 * i + l] = map_option ((+) (32 * i)) (find (\<lambda>j. de_inode ?b j = ino) [0..<0 + l])"
    using find_shift [of ?P "32 * i" 0 l] by simp
  have lv: "live (de_inode ?b) 0 e = live ?D (32 * i) (32 * i + e)" if "e \<le> 32" for e
  proof -
    have "live (de_inode ?b) 0 e = live (\<lambda>j. ?D (32 * i + j)) 0 e" using that by (intro live_cong) (simp add: sector_entry)
    also have "\<dots> = live ?D (32 * i + 0) (32 * i + e)" by (rule live_shift [symmetric])
    finally show ?thesis by simp
  qed
  have m: "32 * int i \<le> int nr" using Suc.prems(2) by linarith
  note se = unlink_entries_find [OF m l_def, of ino ?b 0 dsz]
  show ?case
  proof (cases "find (\<lambda>j. de_inode ?b j = ino) [0..<0 + l]")
    case (Some j)
    then have j: "j < l" "j < 32" using hi(3) by (simp_all add: find_upt_Some)
    have K: "K = 32 * i + j" using Some f Suc.prems(4) find_upt_split [OF hi(2,1), of ?P] by simp
    have "buf_copy (rootdisk s) (at + 512 * int i) 512 (buf_copy ?b (16 * int j) 16 (\<lambda>_. 0) 0) 0 =
        buf_copy (rootdisk s) (at + 16 * int K) 16 (\<lambda>_. 0) 0"
      using j by (auto simp: buf_copy_def fun_eq_iff K)
    then show ?thesis using Some se rd wr lv [of j] j K by simp
  next
    case None
    with f Suc.prems(4) find_upt_split [OF hi(2,1), of ?P] have K: "find ?P [32 * i + l..<nr] = Some K" by simp
    then have "32 * i + l \<le> K" "K < nr" by (auto simp: find_Some_iff)
    then have l: "l = 32" "32 * Suc i \<le> nr" by (auto simp: l_def)
    define dsz' where "dsz' = dsz + 16 * live ?D (32 * i) (32 * Suc i)"
    from K l have "find (\<lambda>k. dinode (rootdisk (s\<lparr>fsbuf := ?b\<rparr>)) at k = ino) [32 * Suc i..<nr] = Some K" by (simp add: add.commute)
    from Suc.IH [OF _ l(2) _ this, of dsz'] Suc.prems(1,3) obtain s' where
      "unlink_blocks ino ROOT_DEV blk0 (int nr) n (int (Suc i)) (32 * int (Suc i)) dsz' (s\<lparr>fsbuf := ?b\<rparr>) =
        Inr (True, int K + 1, dsz' + 16 * live ?D (32 * Suc i) K, s')" "same_tables s s'"
      "rootdisk s' = buf_copy (rootdisk s) (at + 16 * int K) 16 (\<lambda>_. 0) 0" by (auto simp: same_tables_def)
    moreover have "dsz' + 16 * live ?D (32 * Suc i) K = dsz + 16 * live ?D (32 * i) K"
      using live_split [of "32 * i" "32 * Suc i" K ?D] \<open>32 * i + l \<le> K\<close> l by (simp add: dsz'_def)
    ultimately show ?thesis using None se rd l lv [of 32] by (intro exI [of _ s']) (auto simp: dsz'_def add.commute)
  qed
qed

lemma live_le: "live f 0 n \<le> int n" "0 \<le> live f 0 n"
  using length_filter_le [of "\<lambda>k. f k \<noteq> 0" "[0..<n]"] by (simp_all add: live_def)

lemma live_full: "(\<And>k. k < n \<Longrightarrow> f k \<noteq> 0) \<Longrightarrow> live f 0 n = int n"
  by (simp add: live_def)

lemma live_holes: "a < b \<Longrightarrow> b < n \<Longrightarrow> f a = 0 \<Longrightarrow> f b = 0 \<Longrightarrow> live f 0 n \<le> int n - 2"
proof -
  assume a: "a < b" "b < n" "f a = 0" "f b = 0"
  have "filter (\<lambda>k. f k \<noteq> 0) [0..<n] = filter (\<lambda>k. f k \<noteq> 0) (filter (\<lambda>k. k \<noteq> a \<and> k \<noteq> b) [0..<n])"
    using a(3,4) by (auto intro!: filter_cong)
  then have "length (filter (\<lambda>k. f k \<noteq> 0) [0..<n]) \<le> card {k. k < n \<and> k \<noteq> a \<and> k \<noteq> b}"
    using length_filter_le [of "\<lambda>k. f k \<noteq> 0" "filter (\<lambda>k. k \<noteq> a \<and> k \<noteq> b) [0..<n]"] distinct_card [of "filter (\<lambda>k. k \<noteq> a \<and> k \<noteq> b) [0..<n]"]
    by (simp add: conj_assoc)
  moreover have "{k. k < n \<and> k \<noteq> a \<and> k \<noteq> b} = {..<n} - {a, b}" by auto
  ultimately show ?thesis using a by (simp add: live_def)
qed

abbreviation zero_entry :: "(int \<Rightarrow> u8) \<Rightarrow> int \<Rightarrow> nat \<Rightarrow> int \<Rightarrow> u8" where
  "zero_entry b at K \<equiv> buf_copy b (at + 16 * int K) 16 (\<lambda>_. 0) 0"

lemma zero_entry_at:
  "dinode (zero_entry b at K) at k = (if k = K then 0 else dinode b at k)"
  "dname (zero_entry b at K) at k = (if k = K then zero_name else dname b at k)"
proof -
  have o: "zero_entry b at K (at + 16 * int k + i) = (if k = K then 0 else b (at + 16 * int k + i))" if "0 \<le> i" "i < 16" for i
    using that by (auto simp: buf_copy_def)
  show "dinode (zero_entry b at K) at k = (if k = K then 0 else dinode b at k)"
    using o [of 0] o [of 1] o [of 2] o [of 3] by (simp add: dinode_def get32_def)
  have "zero_entry b at K (at + 16 * int k + 4 + int i) = (if k = K then 0 else b (at + 16 * int k + 4 + int i))" if "i < 12" for i
    using o [of "4 + int i"] that by (simp add: add.assoc)
  then show "dname (zero_entry b at K) at k = (if k = K then zero_name else dname b at k)"
    by (auto simp: dname_def buf_read_def intro!: nth_equalityI)
qed

lemma remove_dir_entry_run:
  assumes "dir_ok sb s d" "find (\<lambda>k. dinode (rootdisk s) (dir_at s d) k = ino) [0..<dir_len s d] = Some K"
    "N = (if K + 1 = dir_len s d then nat (live (dinode (rootdisk s) (dir_at s d)) 0 K) else dir_len s d)"
  shows "\<exists>s'. remove_dir_entry d ino s = Inr s' \<and> dir_ok sb s' d \<and> dir_len s' d = N \<and> dir_at s' d = dir_at s d \<and>
    (\<forall>k. dinode (rootdisk s') (dir_at s d) k = (if k = K then 0 else dinode (rootdisk s) (dir_at s d) k) \<and>
         dname (rootdisk s') (dir_at s d) k = (if k = K then zero_name else dname (rootdisk s) (dir_at s d) k))"
proof -
  note D = dir_numbers [OF assms(1)]
  let ?ino = "inode_table s d"
  let ?st = "uint (i_start_sect ?ino)" and ?D = "dinode (rootdisk s) (dir_at s d)"
  have ok: "mounted sb s" "root_inode s = Some d" "i_dev ?ino = 800" "i_num ?ino = 1" "uint (n_1st_sect sb) \<le> ?st" "?st + 2048 < 2 ^ 22"
    using assms(1) by (simp_all add: dir_ok_def)
  have K: "K < dir_len s d" using assms(2) by (simp add: find_upt_Some)
  define n where "n = dir_len s d div 32 + 1"
  have n: "?st + int (0 + n) \<le> 2 ^ 22" "dir_len s d < 32 * (0 + n)" using D(4) ok(6) unfolding n_def by simp_all
  from unlink_blocks_find [OF _ n(1) refl _ n(2), of s ino K 0] assms(2) obtain s1 where
    s1: "unlink_blocks ino ROOT_DEV ?st (int (dir_len s d)) n 0 0 0 s = Inr (True, int K + 1, 16 * live ?D 0 K, s1)"
      "same_tables s s1" "rootdisk s1 = zero_entry (rootdisk s) (dir_at s d) K" by auto
  note T = same_tablesD [OF s1(2)]
  have below: "inode_pos sb 1 + 16 \<le> dir_at s d" using inode_place(2,4,5) [OF ok(1), of 1] ok(5) by simp
  define z where "z = (if K + 1 = dir_len s d then of_int (16 * live ?D 0 K) else i_size ?ino)"
  have zN: "uint z = 16 * int N"
  proof (cases "K + 1 = dir_len s d")
    case True
    define y where "y = 16 * live ?D 0 K"
    have "0 \<le> y" "y < 4294967296" using live_le [of ?D K] K D(4) by (simp_all add: y_def)
    then have "uint (of_int y :: u32) = y" by (simp add: uint_word_of_int)
    then show ?thesis using True live_le [of ?D K] by (simp add: z_def assms(3) y_def del: of_int_mult)
  qed (use D(3) assms(3) in \<open>simp add: z_def\<close>)
  have "N < 65536" using D(4) K live_le [of ?D K] by (auto simp: assms(3))
  define t where "t = (if K + 1 = dir_len s d then upd_inode d (\<lambda>x. x\<lparr>i_size := z\<rparr>) s1 else s1)"
  have t: "inode_table t d = ?ino\<lparr>i_size := z\<rparr>" "rootdisk t = rootdisk s1" "sb_table t = sb_table s" "root_inode t = root_inode s"
    using T by (auto simp: t_def z_def)
  have mt: "mounted sb t" using ok(1) mounted_cong [of t s] t(3) by simp
  have "\<exists>s'. remove_dir_entry d ino s = Inr s' \<and> inode_table s' d = inode_table t d \<and> sb_table s' = sb_table t \<and> root_inode s' = root_inode t \<and>
    (\<forall>k. inode_pos sb 1 + 16 \<le> k \<longrightarrow> rootdisk s' k = rootdisk t k)"
  proof (cases "K + 1 = dir_len s d")
    case True
    from sync_inode_root [OF mt, of d] t ok(3,4) obtain b where
      "sync_inode d t = Inr (set_rootdisk (store_inode (inode_table t d) (inode_pos sb 1) (rootdisk t)) (t\<lparr>fsbuf := b\<rparr>))" by auto
    then show ?thesis using True s1(1) D ok(3)
      by (auto simp: remove_dir_entry_def n_def t_def z_def store_inode_other Let_def)
  next
    case False
    then show ?thesis using s1(1) D ok(3) by (auto simp: remove_dir_entry_def n_def t_def Let_def)
  qed
  then obtain s' where s': "remove_dir_entry d ino s = Inr s'" "inode_table s' d = inode_table t d" "sb_table s' = sb_table t" "root_inode s' = root_inode t"
    "\<And>k. inode_pos sb 1 + 16 \<le> k \<Longrightarrow> rootdisk s' k = rootdisk t k" by blast
  have dt: "dir_at s' d = dir_at s d" using s'(2) t(1) by simp
  have "dinode (rootdisk s') (dir_at s d) k = dinode (rootdisk s1) (dir_at s d) k" "dname (rootdisk s') (dir_at s d) k = dname (rootdisk s1) (dir_at s d) k" for k
    using s'(5) t(2) below by (auto simp: dname_def buf_read_def intro!: dinode_cong)
  then have "\<forall>k. dinode (rootdisk s') (dir_at s d) k = (if k = K then 0 else ?D k) \<and>
      dname (rootdisk s') (dir_at s d) k = (if k = K then zero_name else dname (rootdisk s) (dir_at s d) k)" by (simp add: s1(3) zero_entry_at)
  moreover have "dir_ok sb s' d" using assms(1) s' t zN \<open>N < 65536\<close> mounted_cong [of s' s] by (simp add: dir_ok_def)
  moreover have "dir_len s' d = N"
  proof -
    have "int (unat z) = int (16 * N)" using zN by simp
    then have "unat z = 16 * N" by linarith
    then show ?thesis using s'(2) t(1) by (simp add: dir_len_def)
  qed
  ultimately show ?thesis using s'(1) dt by blast
qed

text \<open>
  C23: Removing a directory entry removes that file and no other: when the directory has no
  unused entry before its last one, or the entry is not the last, \<open>do_unlink()\<close>'s loop returns,
  the removed name is found no more, every other name (of at most 11 characters) is found as
  before, and the directory is again one that \<open>new_dir_entry()\<close> can extend.
\<close>

theorem removed_entry_gone:
  assumes "dir_ok sb s d" "dir_clean s d" "find (\<lambda>k. dinode (rootdisk s) (dir_at s d) k = ino) [0..<dir_len s d] = Some K"
    "\<And>k. k < dir_len s d \<Longrightarrow> k \<noteq> K \<Longrightarrow> dname (rootdisk s) (dir_at s d) k \<noteq> dname (rootdisk s) (dir_at s d) K"
    "K + 1 < dir_len s d \<or> (\<forall>k<K. dinode (rootdisk s) (dir_at s d) k \<noteq> 0)"
  shows "\<exists>s1. remove_dir_entry d ino s = Inr s1 \<and> dir_ok sb s1 d \<and> dir_clean s1 d \<and>
    (\<forall>path name. strip_path path = Some name \<and> name \<noteq> [] \<longrightarrow>
       (if length name \<le> 11
        then \<exists>r s2 s3. search_file path s = Inr (r, s2) \<and>
          search_file path s1 = Inr (if pad_name name = dname (rootdisk s) (dir_at s d) K then 0 else r, s3)
        else search_file path s = Inl (Fault ''filename'') \<and> search_file path s1 = Inl (Fault ''filename'')))"
proof -
  let ?b = "rootdisk s" and ?at = "dir_at s d" and ?n = "dir_len s d"
  define N where "N = (if K + 1 = ?n then nat (live (dinode ?b ?at) 0 K) else ?n)"
  have K: "K < ?n" using assms(3) by (simp add: find_upt_Some)
  have N: "N = (if K + 1 = ?n then K else ?n)" using assms(5) by (auto simp: N_def live_full)
  from remove_dir_entry_run [OF assms(1,3) N_def] obtain s1 where
    s1: "remove_dir_entry d ino s = Inr s1" "dir_ok sb s1 d" "dir_len s1 d = N" "dir_at s1 d = ?at"
      "\<And>k. dinode (rootdisk s1) ?at k = (if k = K then 0 else dinode ?b ?at k)"
      "\<And>k. dname (rootdisk s1) ?at k = (if k = K then zero_name else dname ?b ?at k)" by blast
  have tail: "dname (rootdisk s1) ?at k = zero_name" if "N \<le> k" "k \<le> ?n + 1" for k
  proof -
    have "k = K \<or> k = ?n \<or> k = ?n + 1" using that K by (auto simp: N split: if_splits)
    then show ?thesis using assms(2) by (auto simp: s1(6) dir_clean_def)
  qed
  have cl: "dir_clean s1 d"
    unfolding dir_clean_def s1(3,4)
  proof (intro allI impI)
    fix k
    assume "k < N \<and> dinode (rootdisk s1) ?at k = 0 \<or> k = N \<or> k = N + 1"
    moreover have "dname (rootdisk s1) ?at k = zero_name" if "k < N" "dinode (rootdisk s1) ?at k = 0"
      using that assms(2) K by (auto simp: s1(5,6) N dir_clean_def split: if_splits)
    ultimately show "dname (rootdisk s1) ?at k = zero_name" using tail [of k] by (auto simp: N split: if_splits)
  qed
  have others: "lookup (rootdisk s1) ?at (dir_seen N) nm = (if nm = dname ?b ?at K then 0 else lookup ?b ?at (dir_seen ?n) nm)" if nm: "nm \<noteq> zero_name" for nm
  proof -
    have le: "dir_seen N \<le> dir_seen ?n" using dir_seen_mono(1) [of N] by (auto simp: N)
    have up: "dname (rootdisk s1) ?at k = zero_name" if "N \<le> k" "k < dir_seen ?n" for k
      using that dir_seen_mono(3) [of ?n] tail by simp
    show ?thesis
    proof (cases "nm = dname ?b ?at K")
      case True
      have "dname (rootdisk s1) ?at k \<noteq> nm" if "k < dir_seen N" for k
      proof (cases "k < N")
        case c: True
        then show ?thesis using assms(4) [of k] True nm K by (auto simp: s1(6) N split: if_splits)
      qed (use up [of k] that nm le in auto)
      then have "find (\<lambda>k. dname (rootdisk s1) ?at k = nm) [0..<dir_seen N] = None" by (simp add: find_upt_None)
      then show ?thesis using True by (simp add: lookup_def)
    next
      case False
      have e: "find (\<lambda>k. dname (rootdisk s1) ?at k = nm) [0..<dir_seen N] = find (\<lambda>k. dname ?b ?at k = nm) [0..<dir_seen ?n]"
      proof (rule find_upt_cong [OF le])
        show "dname (rootdisk s1) ?at k = nm \<longleftrightarrow> dname ?b ?at k = nm" for k using False nm by (auto simp: s1(6))
        show "dname ?b ?at k \<noteq> nm" if "dir_seen N \<le> k" "k < dir_seen ?n" for k
          using up [of k] that False nm dir_seen_mono(2) [of N] by (auto simp: s1(6) split: if_splits)
      qed
      have "k \<noteq> K" if "find (\<lambda>k. dname ?b ?at k = nm) [0..<dir_seen ?n] = Some k" for k using that False by (auto simp: find_upt_Some)
      then show ?thesis using False unfolding lookup_def e
        by (cases "find (\<lambda>k. dname ?b ?at k = nm) [0..<dir_seen ?n]") (simp_all add: s1(5))
    qed
  qed
  have "\<exists>r s2 s3. search_file path s = Inr (r, s2) \<and> search_file path s1 = Inr (if pad_name name = dname ?b ?at K then 0 else r, s3)"
    if p: "strip_path path = Some name" "name \<noteq> []" "length name \<le> 11" for path name
    using search_file_find [OF assms(1) p] search_file_find [OF s1(2) p] s1(3,4) others [OF pad_name_nonzero] p(2) strip_path_name [OF p(1)] by auto
  with s1(1,2) cl show ?thesis by (intro exI [of _ s1]) (auto simp: search_file_long)
qed

text \<open>
  C26: Removing the last entry can lose other files: the new size of the directory counts the
  entries in use and not the entries, so with two unused entries in between the entry before the
  last one is behind the end of the directory, and the search for its file, which found it, now
  answers that it does not exist.
\<close>

theorem unlink_last_loses_entry:
  assumes "dir_ok sb s d" "find (\<lambda>k. dinode (rootdisk s) (dir_at s d) k = ino) [0..<dir_len s d] = Some (k + 1)" "dir_len s d = k + 2"
    "a < b" "b < k" "dinode (rootdisk s) (dir_at s d) a = 0" "dinode (rootdisk s) (dir_at s d) b = 0"
    "strip_path path = Some name" "name \<noteq> []" "length name \<le> 11"
    "\<And>j. dname (rootdisk s) (dir_at s d) j = pad_name name \<longleftrightarrow> j = k"
  shows "\<exists>s1 s2 s3. search_file path s = Inr (dinode (rootdisk s) (dir_at s d) k, s2) \<and>
    remove_dir_entry d ino s = Inr s1 \<and> search_file path s1 = Inr (0, s3)"
proof -
  let ?b = "rootdisk s" and ?at = "dir_at s d"
  define N where "N = nat (live (dinode ?b ?at) 0 (k + 1))"
  have "N \<le> k - 1" using live_holes [of a b "k + 1" "dinode ?b ?at"] assms(4-7) by (auto simp: N_def)
  then have N: "dir_seen N \<le> k" using dir_seen_mono(3) [of N] assms(4,5) by linarith
  have "find (\<lambda>j. dname ?b ?at j = pad_name name) [0..<dir_seen (k + 2)] = Some k"
    using assms(11) dir_seen_mono(2) [of "k + 2"] by (intro find_upt_unique) simp_all
  then have before: "\<exists>s2. search_file path s = Inr (dinode ?b ?at k, s2)"
    using search_file_find [OF assms(1,8,9,10)] assms(3) by (auto simp: lookup_def)
  have "N = (if k + 1 + 1 = dir_len s d then nat (live (dinode ?b ?at) 0 (k + 1)) else dir_len s d)" using assms(3) by (simp add: N_def)
  from remove_dir_entry_run [OF assms(1,2) this] obtain s1 where
    s1: "remove_dir_entry d ino s = Inr s1" "dir_ok sb s1 d" "dir_len s1 d = N" "dir_at s1 d = ?at"
      "\<And>j. dname (rootdisk s1) ?at j = (if j = k + 1 then zero_name else dname ?b ?at j)" by blast
  have "find (\<lambda>j. dname (rootdisk s1) ?at j = pad_name name) [0..<dir_seen N] = None"
    using assms(11) N by (auto simp: s1(5) find_upt_None)
  then have "\<exists>s3. search_file path s1 = Inr (0, s3)"
    using search_file_find [OF s1(2) assms(8,9,10)] s1(3,4) by (auto simp: lookup_def)
  with before s1(1) show ?thesis by blast
qed

subsection \<open>An example directory\<close>

text \<open>Entries with inode numbers of one byte and names of one character.\<close>

definition demo_entries :: "(u8 \<times> u8) list \<Rightarrow> int \<Rightarrow> u8" where
  "demo_entries es a =
     (let i = a - 145408; k = nat (i div 16)
      in if i < 0 \<or> length es \<le> k then 0 else if i mod 16 = 0 then fst (es ! k) else if i mod 16 = 4 then snd (es ! k) else 0)"

definition demo_dir :: "(u8 \<times> u8) list \<Rightarrow> fs" where
  "demo_dir es = set_rootdisk (demo_entries es) ((demo_fs READ 6)\<lparr>inode_table := (\<lambda>p. zero_inode)(0 :=
     \<lparr>i_mode = I_DIRECTORY, i_size = of_nat (16 * length es), i_start_sect = 284, i_nr_sects = 2048, i_dev = ROOT_DEV, i_cnt = 1, i_num = 1\<rparr>)\<rparr>)"

lemma demo_entries_at:
  assumes "0 \<le> i" "i < 16"
  shows "demo_entries es (145408 + 16 * int k + i) =
    (if length es \<le> k then 0 else if i = 0 then fst (es ! k) else if i = 4 then snd (es ! k) else 0)"
proof -
  have "(16 * int k + i) div 16 = int k" "(16 * int k + i) mod 16 = i" using assms by simp_all
  then show ?thesis using assms by (simp add: demo_entries_def Let_def algebra_simps del: mod_mult_self4)
qed

lemma demo_dir_entries:
  "dinode (demo_entries es) 145408 k = (if k < length es then sint (ucast (fst (es ! k)) :: u32) else 0)"
  "dname (demo_entries es) 145408 k = (if k < length es then pad_name [snd (es ! k)] else zero_name)"
proof -
  note a = demo_entries_at [of _ es k]
  show "dinode (demo_entries es) 145408 k = (if k < length es then sint (ucast (fst (es ! k)) :: u32) else 0)"
    using a [of 0] a [of 1] a [of 2] a [of 3] by (simp add: dinode_def get32_def)
  have "demo_entries es (145408 + 16 * int k + 4 + int i) = (if length es \<le> k \<or> i \<noteq> 0 then 0 else snd (es ! k))" if "i < 12" for i
    using a [of "4 + int i"] that by (simp add: add.assoc)
  then show "dname (demo_entries es) 145408 k = (if k < length es then pad_name [snd (es ! k)] else zero_name)"
    by (auto simp: dname_def buf_read_def pad_name_def nth_Cons' intro!: nth_equalityI)
qed

lemma demo_dir_facts:
  assumes "length es \<le> 100"
  shows "dir_ok demo_sb (demo_dir es) 0" "dir_len (demo_dir es) 0 = length es" "dir_at (demo_dir es) 0 = 145408"
    "rootdisk (demo_dir es) = demo_entries es"
proof -
  have un: "unat (of_nat (16 * length es) :: u32) = 16 * length es" using assms unfolding unat_of_nat by simp
  from arg_cong [OF this, of int] have sz: "uint (of_nat (16 * length es) :: u32) = 16 * int (length es)" by simp
  have "mounted demo_sb (demo_dir es)"
    using demo_fs_facts(1) [of READ 6] mounted_cong [of "demo_dir es" "demo_fs READ 6"] by (simp add: demo_dir_def)
  then show "dir_ok demo_sb (demo_dir es) 0" using sz assms
    by (simp add: dir_ok_def demo_dir_def demo_fs_def demo_sb_def mk_super_block_def Let_def)
  show "dir_len (demo_dir es) 0 = length es" using un by (simp add: dir_len_def demo_dir_def)
qed (simp_all add: demo_dir_def)

lemma pad_name_one: "pad_name [a] = pad_name [b] \<longleftrightarrow> a = b" "pad_name [a] = zero_name \<longleftrightarrow> a = 0" "zero_name = pad_name [a] \<longleftrightarrow> a = 0"
  by (auto simp: pad_name_def numeral_eq_Suc)

lemma demo_dir_clean:
  assumes "length es \<le> 100" "list_all (\<lambda>e. sint (ucast (fst e) :: u32) = 0 \<longrightarrow> snd e = 0) es"
  shows "dir_clean (demo_dir es) 0"
  using assms by (auto simp: dir_clean_def demo_dir_facts demo_dir_entries pad_name_one list_all_length)

lemma less_five: "(k :: nat) < 5 \<longleftrightarrow> k = 0 \<or> k = 1 \<or> k = 2 \<or> k = 3 \<or> k = 4" "k < 4 \<longleftrightarrow> k = 0 \<or> k = 1 \<or> k = 2 \<or> k = 3"
  "k < 3 \<longleftrightarrow> k = 0 \<or> k = 1 \<or> k = 2"
  by auto

lemmas demo_dir_simps = demo_dir_facts demo_dir_entries pad_name_one find_upt_Some less_five less_Suc_eq

theorem new_entry_found_witness:
  "\<exists>s1. new_dir_entry 0 7 [0x63] (demo_dir [(1, 0x2e), (5, 0x61)]) = Inr s1 \<and> (\<exists>s2. search_file [0x2f, 0x63] s1 = Inr (7, s2))"
proof -
  let ?es = "[(1, 0x2e), (5, 0x61)] :: (u8 \<times> u8) list"
  have p: "strip_path [0x2f, 0x63] = Some [0x63]" by (simp add: strip_path_def)
  have c: "dir_clean (demo_dir ?es) 0" by (rule demo_dir_clean) simp_all
  have u: "dname (rootdisk (demo_dir ?es)) (dir_at (demo_dir ?es) 0) k \<noteq> pad_name [0x63]" if "k < dir_len (demo_dir ?es) 0" for k
    using that by (auto simp: demo_dir_simps)
  show ?thesis using new_entry_found [OF demo_dir_facts(1) c p _ _ _ _ _ u, of 7] by (auto simp: demo_dir_facts)
qed

theorem removed_entry_gone_witness:
  "\<exists>s1. remove_dir_entry 0 5 (demo_dir [(1, 0x2e), (5, 0x61), (0, 0), (6, 0x62)]) = Inr s1 \<and>
     (\<exists>s2. search_file [0x2f, 0x61] s1 = Inr (0, s2)) \<and> (\<exists>s2. search_file [0x2f, 0x62] s1 = Inr (6, s2))"
proof -
  let ?es = "[(1, 0x2e), (5, 0x61), (0, 0), (6, 0x62)] :: (u8 \<times> u8) list"
  let ?s = "demo_dir ?es"
  have c: "dir_clean ?s 0" by (rule demo_dir_clean) simp_all
  have f: "find (\<lambda>k. dinode (rootdisk ?s) (dir_at ?s 0) k = 5) [0..<dir_len ?s 0] = Some 1"
    by (auto simp: demo_dir_simps)
  have u: "dname (rootdisk ?s) (dir_at ?s 0) k \<noteq> dname (rootdisk ?s) (dir_at ?s 0) 1" if "k < dir_len ?s 0" "k \<noteq> 1" for k
    using that by (auto simp: demo_dir_simps)
  have p: "strip_path [0x2f, 0x61] = Some [0x61]" "strip_path [0x2f, 0x62] = Some [0x62]" by (simp_all add: strip_path_def)
  have seen: "dir_seen (Suc (Suc (Suc (Suc 0)))) = 5" by (simp add: dir_seen_def)
  have "find (\<lambda>k. dname (demo_entries ?es) 145408 k = pad_name [0x62]) [0..<5] = Some 3"
    by (auto simp: demo_dir_simps)
  then have "lookup (demo_entries ?es) 145408 5 (pad_name [0x62]) = 6" by (simp add: lookup_def demo_dir_entries)
  with search_file_find [OF demo_dir_facts(1) p(2), of ?es] have b: "\<exists>s2. search_file [0x2f, 0x62] ?s = Inr (6, s2)"
    by (auto simp: demo_dir_facts seen)
  have k1: "dname (rootdisk ?s) (dir_at ?s 0) 1 = pad_name [0x61]" "pad_name [0x62] \<noteq> pad_name [0x61]" by (simp_all add: demo_dir_simps)
  have h: "1 + 1 < dir_len ?s 0" by (simp add: demo_dir_facts)
  have l: "length ?es \<le> 100" by simp
  from removed_entry_gone [OF demo_dir_facts(1) [OF l] c f u disjI1 [OF h], unfolded k1(1)] obtain s1 where s1: "remove_dir_entry 0 5 ?s = Inr s1"
    "\<forall>path name. strip_path path = Some name \<and> name \<noteq> [] \<longrightarrow>
       (if length name \<le> 11
        then \<exists>r s2 s3. search_file path ?s = Inr (r, s2) \<and> search_file path s1 = Inr (if pad_name name = pad_name [0x61] then 0 else r, s3)
        else search_file path ?s = Inl (Fault ''filename'') \<and> search_file path s1 = Inl (Fault ''filename''))"
    by blast
  then show ?thesis using spec [OF spec [OF s1(2)], of "[0x2f, 0x61]" "[0x61]"] spec [OF spec [OF s1(2)], of "[0x2f, 0x62]" "[0x62]"] p b k1(2)
    by (intro exI [of _ s1]) auto
qed

theorem unlink_last_loses_entry_witness:
  "\<exists>s1 s2 s3. search_file [0x2f, 0x62] (demo_dir [(1, 0x2e), (0, 0), (0, 0), (6, 0x62), (7, 0x63)]) = Inr (6, s2) \<and>
     remove_dir_entry 0 7 (demo_dir [(1, 0x2e), (0, 0), (0, 0), (6, 0x62), (7, 0x63)]) = Inr s1 \<and> search_file [0x2f, 0x62] s1 = Inr (0, s3)"
proof -
  let ?es = "[(1, 0x2e), (0, 0), (0, 0), (6, 0x62), (7, 0x63)] :: (u8 \<times> u8) list"
  let ?s = "demo_dir ?es"
  have f: "find (\<lambda>k. dinode (rootdisk ?s) (dir_at ?s 0) k = 7) [0..<dir_len ?s 0] = Some (3 + 1)"
    by (auto simp: demo_dir_simps)
  have p: "strip_path [0x2f, 0x62] = Some [0x62]" by (simp add: strip_path_def)
  have u: "dname (rootdisk ?s) (dir_at ?s 0) j = pad_name [0x62] \<longleftrightarrow> j = 3" for j
    by (auto simp: demo_dir_simps)
  show ?thesis using unlink_last_loses_entry [OF demo_dir_facts(1) f _ _ _ _ _ p _ _ u, of 1 2] by (simp add: demo_dir_facts demo_dir_entries)
qed

end
