(* ===== verification/Fsref.thy ===== *)
theory Fsref
  imports Fsdir
begin

section \<open>Who holds a file\<close>

text \<open>
  The reference counts of the file system: \<open>fd_cnt\<close> of a descriptor is the number of places in
  the \<open>filp[]\<close> of all processes that name it, and \<open>i_cnt\<close> of an inode in memory the number of
  those places that lead to it, besides the references \<open>h\<close> the file system holds itself (one
  for the root directory; others where \<open>do_unlink()\<close> forgets to give one back).
\<close>

subsection \<open>Counting\<close>

type_synonym files = "int \<Rightarrow> nat \<Rightarrow> nat option"

definition places :: "files \<Rightarrow> (nat \<Rightarrow> bool) \<Rightarrow> (int \<times> nat) set" where
  "places F P = {(p, i). p \<in> set slots \<and> i < NR_FILES \<and> (\<exists>d. F p i = Some d \<and> P d)}"

lemma finite_places [simp]: "finite (places F P)"
  by (rule finite_subset [of _ "set slots \<times> {..<64}"]) (auto simp: places_def)

lemma places_add:
  assumes "p \<in> set slots" "i < 64" "F p i = None"
  shows "card (places (F(p := (F p)(i := Some d))) P) = card (places F P) + (if P d then 1 else 0)"
proof -
  have "places (F(p := (F p)(i := Some d))) P = (if P d then insert (p, i) (places F P) else places F P)" "(p, i) \<notin> places F P"
    using assms by (auto simp: places_def split: if_splits)
  then show ?thesis by simp
qed

lemma places_drop:
  assumes "p \<in> set slots" "i < 64" "F p i = Some d"
  shows "card (places F P) = card (places (F(p := (F p)(i := None))) P) + (if P d then 1 else 0)"
proof -
  have "places F P = (if P d then insert (p, i) (places (F(p := (F p)(i := None))) P) else places (F(p := (F p)(i := None))) P)"
    "(p, i) \<notin> places (F(p := (F p)(i := None))) P"
    using assms by (auto simp: places_def split: if_splits)
  then show ?thesis by simp
qed

lemma places_cong: "(\<And>p i d. p \<in> set slots \<Longrightarrow> i < 64 \<Longrightarrow> F p i = Some d \<Longrightarrow> P d = Q d) \<Longrightarrow> places F P = places F Q"
  by (auto simp: places_def)

definition counted :: "(nat \<Rightarrow> int) \<Rightarrow> files \<Rightarrow> (nat \<Rightarrow> file_desc) \<Rightarrow> (nat \<Rightarrow> inode) \<Rightarrow> bool" where
  "counted h F D T \<longleftrightarrow>
     (\<forall>p i d. p \<in> set slots \<longrightarrow> i < NR_FILES \<longrightarrow> F p i = Some d \<longrightarrow> d < NR_FILE_DESC \<and> fd_inode (D d) \<noteq> None) \<and>
     (\<forall>d<NR_FILE_DESC. \<forall>q. fd_inode (D d) = Some q \<longrightarrow>
        q < NR_INODE \<and> fd_cnt (D d) = int (card (places F (\<lambda>x. x = d))) \<and> 0 < fd_cnt (D d)) \<and>
     (\<forall>q<NR_INODE. 0 \<le> h q \<and> i_cnt (T q) = h q + int (card (places F (\<lambda>x. fd_inode (D x) = Some q))))"

lemma countedD:
  assumes "counted h F D T"
  shows "p \<in> set slots \<Longrightarrow> i < 64 \<Longrightarrow> F p i = Some d \<Longrightarrow> d < 64 \<and> fd_inode (D d) \<noteq> None"
    "d < 64 \<Longrightarrow> fd_inode (D d) = Some q \<Longrightarrow> q < 64"
    "d < 64 \<Longrightarrow> fd_inode (D d) = Some q \<Longrightarrow> fd_cnt (D d) = int (card (places F (\<lambda>x. x = d)))"
    "d < 64 \<Longrightarrow> fd_inode (D d) = Some q \<Longrightarrow> 0 < fd_cnt (D d)"
    "q < 64 \<Longrightarrow> 0 \<le> h q" "q < 64 \<Longrightarrow> i_cnt (T q) = h q + int (card (places F (\<lambda>x. fd_inode (D x) = Some q)))"
  using assms unfolding counted_def by blast+

text \<open>A place more, in a descriptor that is in use.\<close>

lemma counted_share:
  assumes "counted h F D T" "p \<in> set slots" "i < 64" "F p i = None" "d < 64" "fd_inode (D d) = Some q"
  shows "counted h (F(p := (F p)(i := Some d))) (D(d := (D d)\<lparr>fd_cnt := fd_cnt (D d) + 1\<rparr>)) (T(q := (T q)\<lparr>i_cnt := i_cnt (T q) + 1\<rparr>))"
proof -
  let ?F = "F(p := (F p)(i := Some d))" and ?D = "D(d := (D d)\<lparr>fd_cnt := fd_cnt (D d) + 1\<rparr>)"
  note C = countedD [OF assms(1)] and A = places_add [of p i F, OF assms(2-4)]
  have ino: "fd_inode (?D x) = fd_inode (D x)" for x by simp
  show ?thesis unfolding counted_def ino
  proof (intro conjI allI impI)
    fix p' i' d'
    assume "p' \<in> set slots" "i' < 64" "?F p' i' = Some d'"
    then show "d' < 64" "fd_inode (D d') \<noteq> None" using C(1) [of p' i' d'] assms(5,6) by (auto split: if_splits)
  next
    fix x y
    assume x: "x < 64" "fd_inode (D x) = Some y"
    show "y < 64" using C(2) x by blast
    show "fd_cnt (?D x) = int (card (places ?F (\<lambda>z. z = x)))" "0 < fd_cnt (?D x)"
      using C(3,4) [OF x] A [of d "\<lambda>z. z = x"] by auto
  next
    fix y :: nat
    assume y: "y < 64"
    show "0 \<le> h y" using C(5) y by blast
    show "i_cnt ((T(q := (T q)\<lparr>i_cnt := i_cnt (T q) + 1\<rparr>)) y) = h y + int (card (places ?F (\<lambda>x. fd_inode (D x) = Some y)))"
      using C(6) [OF y] A [of d "\<lambda>x. fd_inode (D x) = Some y"] assms(6) by auto
  qed
qed

text \<open>A place less; the last one gives the descriptor back.\<close>

lemma counted_drop:
  assumes "counted h F D T" "p \<in> set slots" "i < 64" "F p i = Some d" "fd_inode (D d) = Some q"
  shows "counted h (F(p := (F p)(i := None))) (D(d := drop_fdesc (D d))) (T(q := (T q)\<lparr>i_cnt := i_cnt (T q) - 1\<rparr>))"
proof -
  let ?F = "F(p := (F p)(i := None))" and ?D = "D(d := drop_fdesc (D d))"
  note C = countedD [OF assms(1)] and A = places_drop [of p i F d, OF assms(2-4)]
  have d: "d < 64" using C(1) assms(2-4) by blast
  have last: "fd_cnt (D d) = 1 \<Longrightarrow> places ?F (\<lambda>x. x = d) = {}" using C(3) [OF d assms(5)] A [of "\<lambda>x. x = d"] by simp
  have gone: "?F p' i' \<noteq> Some d" if "fd_cnt (D d) = 1" "p' \<in> set slots" "i' < 64" for p' i'
    using last [OF that(1)] that(2,3) by (auto simp: places_def)
  have ino: "fd_inode (?D x) = (if x = d \<and> fd_cnt (D d) = 1 then None else fd_inode (D x))" for x
    by (simp add: drop_fdesc_def Let_def)
  have cnt: "fd_cnt (?D x) = (if x = d then fd_cnt (D d) - 1 else fd_cnt (D x))" for x by (simp add: drop_fdesc_def Let_def)
  show ?thesis unfolding counted_def
  proof (intro conjI allI impI)
    fix p' i' d'
    assume a: "p' \<in> set slots" "i' < 64" "?F p' i' = Some d'"
    then have F: "F p' i' = Some d'" by (auto split: if_splits)
    show "d' < 64" using C(1) [OF a(1,2) F] by blast
    show "fd_inode (?D d') \<noteq> None" using C(1) [OF a(1,2) F] gone [OF _ a(1,2)] a(3) unfolding ino by auto
  next
    fix x y
    assume x: "x < 64" "fd_inode (?D x) = Some y"
    then have x2: "fd_inode (D x) = Some y" "\<not> (x = d \<and> fd_cnt (D d) = 1)" unfolding ino by (auto split: if_splits)
    show "y < 64" using C(2) [OF x(1) x2(1)] .
    show "fd_cnt (?D x) = int (card (places ?F (\<lambda>z. z = x)))" "0 < fd_cnt (?D x)"
      using C(3,4) [OF x(1) x2(1)] A [of "\<lambda>z. z = x"] x2(2) unfolding cnt by auto
  next
    fix y :: nat
    assume y: "y < 64"
    show "0 \<le> h y" using C(5) y by blast
    have "places ?F (\<lambda>x. fd_inode (?D x) = Some y) = places ?F (\<lambda>x. fd_inode (D x) = Some y)"
      unfolding ino using gone by (intro places_cong) auto
    then show "i_cnt ((T(q := (T q)\<lparr>i_cnt := i_cnt (T q) - 1\<rparr>)) y) = h y + int (card (places ?F (\<lambda>x. fd_inode (?D x) = Some y)))"
      using C(6) [OF y] A [of "\<lambda>x. fd_inode (D x) = Some y"] assms(5) by auto
  qed
qed

text \<open>The first place of a descriptor that was free.\<close>

lemma counted_open:
  assumes "counted h F D T" "p \<in> set slots" "i < 64" "F p i = None" "d < 64" "fd_inode (D d) = None" "q < 64"
    "fd_inode f = Some q" "fd_cnt f = 1" "\<And>y. y < 64 \<Longrightarrow> i_cnt (T' y) = i_cnt (T y) + (if y = q then 1 else 0)"
  shows "counted h (F(p := (F p)(i := Some d))) (D(d := f)) T'"
proof -
  let ?F = "F(p := (F p)(i := Some d))" and ?D = "D(d := f)"
  note C = countedD [OF assms(1)] and A = places_add [of p i F, OF assms(2-4)]
  have new: "F p' i' \<noteq> Some d" if "p' \<in> set slots" "i' < 64" for p' i' using C(1) [OF that] assms(6) by blast
  show ?thesis unfolding counted_def
  proof (intro conjI allI impI)
    fix p' i' d'
    assume a: "p' \<in> set slots" "i' < 64" "?F p' i' = Some d'"
    then show "d' < 64" "fd_inode (?D d') \<noteq> None" using C(1) [OF a(1,2), of d'] assms(5,8) by (auto split: if_splits)
  next
    fix x y
    assume x: "x < 64" "fd_inode (?D x) = Some y"
    show "y < 64" using C(2) [OF x(1), of y] x(2) assms(7,8) by (auto split: if_splits)
    have "places F (\<lambda>z. z = d) = {}" using new by (auto simp: places_def)
    then show "fd_cnt (?D x) = int (card (places ?F (\<lambda>z. z = x)))" "0 < fd_cnt (?D x)"
      using C(3,4) [OF x(1), of y] A [of d "\<lambda>z. z = x"] x(2) assms(9) by (auto split: if_splits)
  next
    fix y :: nat
    assume y: "y < 64"
    show "0 \<le> h y" using C(5) y by blast
    have "places F (\<lambda>x. fd_inode (?D x) = Some y) = places F (\<lambda>x. fd_inode (D x) = Some y)"
      using new by (intro places_cong) auto
    then show "i_cnt (T' y) = h y + int (card (places ?F (\<lambda>x. fd_inode (?D x) = Some y)))"
      using C(6) [OF y] A [of d "\<lambda>x. fd_inode (?D x) = Some y"] assms(8,10) y by auto
  qed
qed

subsection \<open>What an operation leaves alone\<close>

text \<open>All the counts depend on: the open files of every process, the inode and
  count of every descriptor, the count and number of every inode.\<close>

definition refs_same :: "fs \<Rightarrow> fs \<Rightarrow> bool" where
  "refs_same s t \<longleftrightarrow> filp t = filp s \<and> pcaller t = pcaller s \<and> root_inode t = root_inode s \<and>
     (\<forall>d. fd_inode (f_desc_table t d) = fd_inode (f_desc_table s d) \<and> fd_cnt (f_desc_table t d) = fd_cnt (f_desc_table s d)) \<and>
     (\<forall>q. i_cnt (inode_table t q) = i_cnt (inode_table s q) \<and> i_num (inode_table t q) = i_num (inode_table s q))"

definition file_inv :: "(nat \<Rightarrow> int) \<Rightarrow> fs \<Rightarrow> bool" where
  "file_inv h s \<longleftrightarrow> counted h (filp s) (f_desc_table s) (inode_table s)"

lemma refs_same_refl [simp]: "refs_same s s"
  by (simp add: refs_same_def)

lemma refs_same_trans: "refs_same s t \<Longrightarrow> refs_same t u \<Longrightarrow> refs_same s u"
  by (simp add: refs_same_def)

lemma refs_same_simps [simp]:
  "refs_same s (t\<lparr>fsbuf := b\<rparr>) \<longleftrightarrow> refs_same s t" "refs_same (s\<lparr>fsbuf := b\<rparr>) t \<longleftrightarrow> refs_same s t"
  "refs_same s (t\<lparr>disk := e\<rparr>) \<longleftrightarrow> refs_same s t" "refs_same s (t\<lparr>fs_mem := m\<rparr>) \<longleftrightarrow> refs_same s t"
  "refs_same s (t\<lparr>fs_outbox := ob\<rparr>) \<longleftrightarrow> refs_same s t" "refs_same s (t\<lparr>fs_msg := fm\<rparr>) \<longleftrightarrow> refs_same s t"
  by (simp_all add: refs_same_def)

lemma refs_same_upd:
  "(\<And>x. i_cnt (f x) = i_cnt x \<and> i_num (f x) = i_num x) \<Longrightarrow> refs_same s (upd_inode p f s)"
  "(\<And>x. fd_inode (g x) = fd_inode x \<and> fd_cnt (g x) = fd_cnt x) \<Longrightarrow> refs_same s (upd_fdesc d g s)"
  by (auto simp: refs_same_def)

lemma counted_cong:
  assumes "\<And>d. fd_inode (D' d) = fd_inode (D d) \<and> fd_cnt (D' d) = fd_cnt (D d)" "\<And>q. i_cnt (T' q) = i_cnt (T q)"
  shows "counted h F D' T' = counted h F D T"
  using assms by (simp add: counted_def)

lemma file_inv_same: "refs_same s t \<Longrightarrow> file_inv h t = file_inv h s"
  unfolding file_inv_def refs_same_def by (metis counted_cong)

text \<open>What holds of the result of a run that ends normally.\<close>

definition runs :: "('a \<Rightarrow> bool) \<Rightarrow> 'a res \<Rightarrow> bool" where
  "runs P m \<longleftrightarrow> (\<forall>x. m = Inr x \<longrightarrow> P x)"

lemma runs_simps [simp]:
  "runs P (Inr x) \<longleftrightarrow> P x" "runs P (Inl e)" "runs P (assertE b e' m) \<longleftrightarrow> (b \<longrightarrow> runs P m)"
  by (auto simp: runs_def assertE_def)

lemma runs_bind: "runs Q m \<Longrightarrow> (\<And>x. Q x \<Longrightarrow> runs P (f x)) \<Longrightarrow> runs P (bindE m f)"
  by (auto simp: runs_def bindE_def split: sum.splits)

lemma runs_bind_any: "(\<And>x. m = Inr x \<Longrightarrow> runs P (f x)) \<Longrightarrow> runs P (bindE m f)"
  by (auto simp: runs_def bindE_def split: sum.splits)

lemma runs_mono: "runs Q m \<Longrightarrow> (\<And>x. Q x \<Longrightarrow> P x) \<Longrightarrow> runs P m"
  by (auto simp: runs_def)

abbreviation same_snd :: "fs \<Rightarrow> 'a \<times> fs \<Rightarrow> bool" where
  "same_snd s \<equiv> \<lambda>x. refs_same s (snd x)"

lemma rw_sector_runs: "refs_same s0 s \<Longrightarrow> runs (refs_same s0) (rw_sector w dev pos n s)"
  unfolding rw_sector_def by (rule runs_bind_any) simp

lemma RD_SECT_runs: "refs_same s0 s \<Longrightarrow> runs (refs_same s0) (RD_SECT dev n s)"
  unfolding RD_SECT_def by (rule rw_sector_runs)

lemma WR_SECT_runs: "refs_same s0 s \<Longrightarrow> runs (refs_same s0) (WR_SECT dev n s)"
  unfolding WR_SECT_def by (rule rw_sector_runs)

lemma search_blocks_runs: "refs_same s0 s \<Longrightarrow> runs (same_snd s0) (search_blocks name dev blk0 nr n i m s)"
proof (induction n arbitrary: i m s)
  case (Suc n)
  show ?case unfolding search_blocks.simps
    by (rule runs_bind [OF RD_SECT_runs [OF Suc.prems]]) (auto split: prod.split option.split intro: Suc.IH)
qed simp

lemma search_file_runs: "runs (same_snd s) (search_file path s)"
  unfolding search_file_def Let_def
  by (auto split: option.split intro!: runs_bind_any search_blocks_runs)

lemma sync_inode_runs: "refs_same s0 s \<Longrightarrow> runs (refs_same s0) (sync_inode p s)"
  unfolding sync_inode_def Let_def
  by (rule runs_bind_any, rule runs_bind, erule RD_SECT_runs) (simp add: WR_SECT_runs)

lemma alloc_imap_bit_runs: "refs_same s0 s \<Longrightarrow> runs (same_snd s0) (alloc_imap_bit dev s)"
  unfolding alloc_imap_bit_def Let_def
  by (auto split: option.split intro!: runs_bind_any [of "get_super_block dev s"] runs_bind [OF RD_SECT_runs] runs_bind [OF WR_SECT_runs])

lemma smap_sectors_runs: "refs_same s0 s \<Longrightarrow> runs (\<lambda>(_, _, t). refs_same s0 t) (smap_sectors dev first blk0 n i left free s)"
proof (induction n arbitrary: i left free s)
  case (Suc n)
  have w: "runs (refs_same s0) (if f \<noteq> 0 then WR_SECT dev (blk0 + i) (s1\<lparr>fsbuf := b\<rparr>) else Inr (s1\<lparr>fsbuf := b\<rparr>))"
    if "refs_same s0 s1" for f :: int and s1 b using that by (simp add: WR_SECT_runs)
  show ?case unfolding smap_sectors.simps Let_def
    by (rule runs_bind [OF RD_SECT_runs [OF Suc.prems]], rule runs_bind_any)
      (auto intro!: runs_bind [OF w] Suc.IH)
qed simp

lemma alloc_smap_bit_runs: "refs_same s0 s \<Longrightarrow> runs (same_snd s0) (alloc_smap_bit dev n s)"
  unfolding alloc_smap_bit_def by (rule runs_bind_any, rule runs_bind, erule smap_sectors_runs) auto

lemma slot_blocks_runs: "refs_same s0 s \<Longrightarrow> runs (\<lambda>(_, _, _, t). refs_same s0 t) (slot_blocks dev blk0 nr n i m pde s)"
proof (induction n arbitrary: i m pde s)
  case (Suc n)
  show ?case unfolding slot_blocks.simps Let_def
    by (rule runs_bind [OF RD_SECT_runs [OF Suc.prems]]) (auto split: prod.split intro: Suc.IH)
qed simp

lemma refs_same_size: "refs_same s t \<Longrightarrow> refs_same s (upd_inode p (\<lambda>x. x\<lparr>i_size := f x\<rparr>) t)"
  by (erule refs_same_trans) (simp add: refs_same_upd)

lemma new_dir_entry_runs: "refs_same s0 s \<Longrightarrow> runs (refs_same s0) (new_dir_entry d nr name s)"
  unfolding new_dir_entry_def Let_def
  by (rule runs_bind, erule slot_blocks_runs)
    (auto split: option.split intro!: runs_bind [OF WR_SECT_runs] sync_inode_runs refs_same_size)

lemma free_imap_bit_runs: "refs_same s0 s \<Longrightarrow> runs (refs_same s0) (free_imap_bit dev nr s)"
  unfolding free_imap_bit_def Let_def
  by (auto intro!: runs_bind [OF RD_SECT_runs] WR_SECT_runs)

lemma next_sect_runs: "refs_same s0 s \<Longrightarrow> runs (\<lambda>(_, _, t). refs_same s0 t) (next_sect dev i sect s)"
  unfolding next_sect_def by (auto intro!: runs_bind [OF WR_SECT_runs] runs_bind [OF RD_SECT_runs])

lemma clear_bytes_runs: "refs_same s0 s \<Longrightarrow> runs (\<lambda>(_, _, _, t). refs_same s0 t) (clear_bytes dev n i sect left s)"
proof (induction n arbitrary: i sect left s)
  case (Suc n)
  show ?case unfolding clear_bytes.simps
    by (rule runs_bind [OF next_sect_runs [OF Suc.prems]]) (auto intro!: Suc.IH)
qed simp

lemma free_smap_bits_runs: "refs_same s0 s \<Longrightarrow> runs (refs_same s0) (free_smap_bits dev sb st n s)"
  unfolding free_smap_bits_def Let_def
  by (rule runs_bind, erule RD_SECT_runs, rule runs_bind_any)
    (auto intro!: runs_bind [OF clear_bytes_runs] runs_bind [OF next_sect_runs] WR_SECT_runs)

lemma unlink_blocks_runs: "refs_same s0 s \<Longrightarrow> runs (\<lambda>(_, _, _, t). refs_same s0 t) (unlink_blocks ino dev blk0 nr n i m dsz s)"
proof (induction n arbitrary: i m dsz s)
  case (Suc n)
  show ?case unfolding unlink_blocks.simps Let_def
    by (rule runs_bind [OF RD_SECT_runs [OF Suc.prems]]) (auto split: prod.split intro!: runs_bind [OF WR_SECT_runs] Suc.IH)
qed simp

lemma remove_dir_entry_runs: "refs_same s0 s \<Longrightarrow> runs (refs_same s0) (remove_dir_entry d nr s)"
  unfolding remove_dir_entry_def Let_def
  by (rule runs_bind, erule unlink_blocks_runs) (auto intro!: sync_inode_runs refs_same_size)

lemma rdwt_loop_runs:
  "refs_same s0 s \<Longrightarrow> runs (same_snd s0) (rdwt_loop r src buf d dev chunk smax i off rw left s)"
proof (induction "nat (smax + 1 - i)" arbitrary: i off rw left s rule: less_induct)
  case less
  have pos: "refs_same s0 (upd_fdesc d (\<lambda>f. f\<lparr>fd_pos := v f\<rparr>) t)" if "refs_same s0 t" for t v
    using that by (rule refs_same_trans) (simp add: refs_same_upd)
  show ?case
  proof (cases "i > smax \<or> chunk \<le> 0")
    case False
    then have IH: "refs_same s0 t \<Longrightarrow> runs (same_snd s0) (rdwt_loop r src buf d dev chunk smax (i + chunk) off' rw' left' t)" for t off' rw' left'
      using less.hyps [of "i + chunk"] by simp
    have IHs: "r \<Longrightarrow> refs_same s0 t \<Longrightarrow> runs (same_snd s0) (rdwt_loop True src buf d dev chunk smax (i + chunk) off' rw' left' t)"
      "\<not> r \<Longrightarrow> refs_same s0 t \<Longrightarrow> runs (same_snd s0) (rdwt_loop False src buf d dev chunk smax (i + chunk) off' rw' left' t)"
      for t off' rw' left' using IH [of t off' rw' left'] by simp_all
    from False show ?thesis
      by (subst rdwt_loop.simps)
        (auto simp: Let_def intro!: runs_bind [OF rw_sector_runs] runs_bind_any [of "va2la _ _ _"] IHs pos less.prems)
  qed (use less.prems in \<open>subst rdwt_loop.simps, auto\<close>)
qed

lemma do_rdwt_runs: "runs (same_snd s) (do_rdwt reply s)"
proof -
  have "runs (same_snd s) (rdwt_special reply dev s)" for dev
    unfolding rdwt_special_def Let_def by (auto intro!: runs_bind_any [of "driver _"])
  moreover have "runs (same_snd s) (rdwt_regular d p s)" for d p
    unfolding rdwt_regular_def Let_def
    by (auto intro!: runs_bind [OF rdwt_loop_runs] runs_bind [OF sync_inode_runs] refs_same_size)
  ultimately show ?thesis unfolding do_rdwt_def Let_def by (simp split: option.split)
qed

subsection \<open>Taking and giving back an inode\<close>

definition takes :: "fs \<Rightarrow> nat \<Rightarrow> fs \<Rightarrow> bool" where
  "takes s p t \<longleftrightarrow> p < NR_INODE \<and> filp t = filp s \<and> pcaller t = pcaller s \<and>
     (\<forall>d. fd_inode (f_desc_table t d) = fd_inode (f_desc_table s d) \<and> fd_cnt (f_desc_table t d) = fd_cnt (f_desc_table s d)) \<and>
     (\<forall>q. i_cnt (inode_table t q) = i_cnt (inode_table s q) + (if q = p then 1 else 0))"

lemma takes_same: "takes s p t \<Longrightarrow> refs_same t u \<Longrightarrow> takes s p u"
  by (simp add: takes_def refs_same_def)

lemma same_takes: "refs_same s t \<Longrightarrow> takes t p u \<Longrightarrow> takes s p u"
  by (simp add: takes_def refs_same_def)

lemma counted_held:
  assumes "counted h F D T" "\<And>q. q < 64 \<Longrightarrow> 0 \<le> h' q" "\<And>q. q < 64 \<Longrightarrow> i_cnt (T' q) - h' q = i_cnt (T q) - h q"
    "\<And>d. fd_inode (D' d) = fd_inode (D d) \<and> fd_cnt (D' d) = fd_cnt (D d)"
  shows "counted h' F D' T'"
proof -
  note C = countedD [OF assms(1)]
  have D: "fd_inode (D' d) = fd_inode (D d)" "fd_cnt (D' d) = fd_cnt (D d)" for d using assms(4) by blast+
  show ?thesis unfolding counted_def D
  proof (intro conjI allI impI)
    fix q :: nat
    assume q: "q < 64"
    show "0 \<le> h' q" using assms(2) q .
    show "i_cnt (T' q) = h' q + int (card (places F (\<lambda>x. fd_inode (D x) = Some q)))" using C(6) [OF q] assms(3) [OF q] by simp
  qed (use C in blast)+
qed

lemma file_inv_take: "file_inv h s \<Longrightarrow> takes s p t \<Longrightarrow> file_inv (h(p := h p + 1)) t"
proof -
  assume a: "file_inv h s" "takes s p t"
  have "0 \<le> (h(p := h p + 1)) q" if "q < 64" for q using countedD(5) [OF a(1) [unfolded file_inv_def] that] by auto
  then show ?thesis using a unfolding file_inv_def takes_def by (auto intro: counted_held)
qed

lemma scan_inodes_Some:
  "scan_inodes t dev num ps q = (Some p, q') \<Longrightarrow> p \<in> set ps \<and> i_cnt (t p) \<noteq> 0 \<and> i_num (t p) = num"
  by (induction ps arbitrary: q) (auto split: if_splits)

lemma scan_inodes_free:
  "scan_inodes t dev num ps q = (None, Some p) \<Longrightarrow> q = Some p \<or> (p \<in> set ps \<and> i_cnt (t p) = 0)"
  by (induction ps arbitrary: q) (auto split: if_splits)

text \<open>No inode in use has number \<open>num\<close>.\<close>

definition unused :: "int \<Rightarrow> fs \<Rightarrow> bool" where
  "unused num s \<longleftrightarrow> (\<forall>q<NR_INODE. i_cnt (inode_table s q) \<noteq> 0 \<longrightarrow> i_num (inode_table s q) \<noteq> num)"

lemma get_inode_runs:
  "runs (\<lambda>x. case fst x of None \<Rightarrow> refs_same s (snd x)
     | Some p \<Rightarrow> takes s p (snd x) \<and> (unused num s \<longrightarrow> i_cnt (inode_table s p) = 0)) (get_inode dev num s)"
proof -
  obtain r q where e: "scan_inodes (inode_table s) dev num [0..<64] None = (r, q)" by fastforce
  show ?thesis
  proof (cases r)
    case (Some p)
    then have "p < 64" "i_cnt (inode_table s p) \<noteq> 0" "i_num (inode_table s p) = num" using scan_inodes_Some [of "inode_table s" dev num "[0..<64]" None p q] e by auto
    then show ?thesis using Some e by (auto simp: get_inode_def takes_def unused_def)
  next
    case None
    show ?thesis
    proof (cases q)
      case (Some p)
      then have p: "p < 64" "i_cnt (inode_table s p) = 0" using scan_inodes_free [of "inode_table s" dev num "[0..<64]" None p] e None by auto
      let ?s1 = "upd_inode p (\<lambda>x. x\<lparr>i_dev := dev, i_num := num, i_cnt := 1\<rparr>) s"
      have rd: "runs (refs_same ?s1) (RD_SECT dev n ?s1)" for n by (rule RD_SECT_runs) simp
      have t: "takes s p (upd_inode p (load_inode b k) t)" if "refs_same ?s1 t" for t b k
        using that p by (auto simp: takes_def refs_same_def load_inode_def)
      show ?thesis using None Some e p(2)
        by (auto simp: get_inode_def Let_def intro!: runs_bind_any [of "get_super_block _ _"] runs_bind [OF rd] t)
    qed (use None e in \<open>simp add: get_inode_def\<close>)
  qed
qed

lemma new_inode_runs: "unused nr s \<Longrightarrow> runs (\<lambda>x. takes s (fst x) (snd x)) (new_inode dev nr st s)"
proof -
  assume u: "unused nr s"
  have t: "takes s p (upd_inode p (\<lambda>_. v) t)" if "takes s p t" "i_cnt (inode_table s p) = 0" "i_cnt v = 1" for p v t
    using that by (auto simp: takes_def)
  have sy: "runs (takes s p) (sync_inode p t)" if "takes s p t" for p t
    using sync_inode_runs [of t t p] that by (auto elim!: runs_mono intro: takes_same)
  show ?thesis unfolding new_inode_def
    by (rule runs_bind [OF get_inode_runs]) (use u in \<open>auto split: option.split_asm option.split intro!: runs_bind [OF sy] t\<close>)
qed

subsection \<open>The operations\<close>

text \<open>
  A new file gets the first free number of the inode map; that none of the inodes in use has
  that number is what the map promises.
\<close>

definition fresh_number :: "fs \<Rightarrow> bool" where
  "fresh_number s \<longleftrightarrow> (\<forall>b dev n u. alloc_imap_bit dev (s\<lparr>fsbuf := b\<rparr>) = Inr (n, u) \<longrightarrow> unused n s)"

lemma search_file_buf: "runs (\<lambda>x. \<exists>b. snd x = s\<lparr>fsbuf := b\<rparr>) (search_file path s)"
proof -
  have rd: "runs (\<lambda>u. \<exists>b. u = s\<lparr>fsbuf := b\<rparr>) (RD_SECT dev n (s\<lparr>fsbuf := c\<rparr>))" for dev n c
    unfolding RD_SECT_def rw_sector_def by (rule runs_bind_any) auto
  have bl: "runs (\<lambda>x. \<exists>b. snd x = s\<lparr>fsbuf := b\<rparr>) (search_blocks name dev blk0 nr n i m (s\<lparr>fsbuf := c\<rparr>))" for name dev blk0 nr n i m c
  proof (induction n arbitrary: i m c)
    case (Suc n)
    show ?case unfolding search_blocks.simps
      by (rule runs_bind [OF rd]) (auto split: prod.split option.split intro: Suc.IH)
  qed auto
  have "\<exists>b. s = s\<lparr>fsbuf := b\<rparr>" by (rule exI [of _ "fsbuf s"]) simp
  then show ?thesis using bl [where c = "fsbuf s"] unfolding search_file_def Let_def
    by (auto split: option.split intro!: runs_bind_any [of "dir_inode s"])
qed

lemma unused_same: "refs_same s t \<Longrightarrow> unused n t = unused n s"
  by (simp add: unused_def refs_same_def)

lemma create_file_runs:
  assumes "fresh_number s"
  shows "runs (\<lambda>x. case fst x of None \<Rightarrow> refs_same s (snd x) | Some p \<Rightarrow> takes s p (snd x)) (create_file path (s\<lparr>fsbuf := b\<rparr>))"
proof -
  let ?s = "s\<lparr>fsbuf := b\<rparr>"
  have im: "runs (\<lambda>x. refs_same s (snd x) \<and> unused (fst x) s) (alloc_imap_bit dev ?s)" for dev
    using alloc_imap_bit_runs [of s ?s dev] assms unfolding runs_def fresh_number_def by fastforce
  have sm: "runs (same_snd s) (alloc_smap_bit dev n t)" if "refs_same s t" for dev n t using that by (rule alloc_smap_bit_runs)
  have ni: "runs (\<lambda>x. takes s (fst x) (snd x)) (new_inode dev nr st t)" if "refs_same s t" "unused nr s" for dev nr st t
    using new_inode_runs [of nr t dev st] that unused_same [OF that(1)] by (auto elim!: runs_mono intro: same_takes)
  have de: "runs (takes s p) (new_dir_entry d nr name t)" if "takes s p t" for p d nr name t
    using new_dir_entry_runs [of t t d nr name] that by (auto elim!: runs_mono intro: takes_same)
  show ?thesis unfolding create_file_def
    by (auto split: option.split intro!: runs_bind_any [of "dir_inode _"] runs_bind [OF im] runs_bind [OF sm] runs_bind [OF ni] runs_bind [OF de])
qed

lemma open_inode_runs:
  assumes "file_inv h s" "takes s p t" "pcaller s \<in> set slots" "fd < 64" "filp s (pcaller s) fd = None" "d < 64"
    "fd_inode (f_desc_table s d) = None"
  shows "runs (\<lambda>x. file_inv h (snd x)) (open_inode junk fd d flags p t)"
proof -
  have t: "p < 64" "filp t = filp s" "pcaller t = pcaller s" "\<And>q. i_cnt (inode_table t q) = i_cnt (inode_table s q) + (if q = p then 1 else 0)"
    "\<And>d. fd_inode (f_desc_table t d) = fd_inode (f_desc_table s d) \<and> fd_cnt (f_desc_table t d) = fd_cnt (f_desc_table s d)"
    using assms(2) by (auto simp: takes_def)
  have ft: "filp t x = filp s x" for x using fun_cong [OF t(2)] .
  have C: "counted h (filp s) (f_desc_table t) (inode_table s)"
    using assms(1) t(5) counted_cong [of "f_desc_table t" "f_desc_table s"] by (simp add: file_inv_def)
  let ?u = "upd_fdesc d (\<lambda>_. \<lparr>fd_mode = flags, fd_pos = 0, fd_cnt = 1, fd_inode = Some p\<rparr>) (upd_filp (pcaller t) fd (Some d) t)"
  have "file_inv h ?u"
    using counted_open [OF C assms(3-6) _ t(1), of "\<lparr>fd_mode = flags, fd_pos = 0, fd_cnt = 1, fd_inode = Some p\<rparr>" "inode_table t"] assms(7) t
    by (simp add: file_inv_def ft)
  moreover have "file_inv h (u\<lparr>fs_outbox := ob\<rparr>) = file_inv h u" for u ob by (simp add: file_inv_def)
  ultimately show ?thesis unfolding open_inode_def Let_def by (auto intro!: runs_bind_any [of "driver _"])
qed

lemma do_open_runs:
  assumes "file_inv h s" "pcaller s \<in> set slots" "m3i1 (fs_msg s) AND O_CREAT \<noteq> 0 \<longrightarrow> fresh_number s"
  shows "runs (\<lambda>x. file_inv h (snd x)) (do_open junk loc s)"
proof -
  define Q where "Q x \<longleftrightarrow> (case fst x of None \<Rightarrow> refs_same s (snd x) | Some p \<Rightarrow> takes s p (snd x))" for x :: "nat option \<times> fs"
  have g: "runs Q (get_inode dev nr (s\<lparr>fsbuf := b\<rparr>))" for dev nr b
    using get_inode_runs [of "s\<lparr>fsbuf := b\<rparr>" nr dev] same_takes [of s "s\<lparr>fsbuf := b\<rparr>"]
    by (auto elim!: runs_mono simp: Q_def split: option.splits)
  have find: "runs Q (if m3i1 (fs_msg s) AND O_CREAT \<noteq> 0 then if nr \<noteq> 0 then Inr (None, s\<lparr>fsbuf := b\<rparr>) else create_file path (s\<lparr>fsbuf := b\<rparr>)
      else assertE a e (if strip_path path = None then Inr (None, s\<lparr>fsbuf := b\<rparr>)
        else bindE (dir_inode (s\<lparr>fsbuf := b\<rparr>)) (\<lambda>dir. get_inode (i_dev (inode_table (s\<lparr>fsbuf := b\<rparr>) dir)) nr (s\<lparr>fsbuf := b\<rparr>))))"
    for nr b path a e
    using create_file_runs [of s path b] assms(3) g by (auto simp: Q_def [abs_def] intro!: runs_bind_any [of "dir_inode _"])
  have fin: "runs (\<lambda>x. file_inv h (snd x)) (case r of None \<Rightarrow> Inr (- 1, t) | Some p \<Rightarrow> open_inode junk fd d flags p t)"
    if "Q (r, t)" "find (\<lambda>i. filp s (pcaller s) i = None) [0..<64] = Some fd" "find (\<lambda>i. fd_inode (f_desc_table s i) = None) [0..<64] = Some d"
    for r t fd d flags
    using that assms(1,2) file_inv_same [of s t] open_inode_runs [OF assms(1) _ assms(2), of _ t fd d junk flags]
    by (auto simp: Q_def find_upt_Some split: option.splits)
  have sf: "runs (\<lambda>x. \<exists>b. snd x = s\<lparr>fsbuf := b\<rparr>) (search_file path s)" for path by (rule search_file_buf)
  show ?thesis unfolding do_open_def Let_def
  proof (rule runs_bind_any, goal_cases)
    case (1 path)
    show ?case
    proof (cases "find (\<lambda>i. filp s (pcaller s) i = None) [0..<64]")
      case fd: (Some fd)
      show ?thesis
      proof (cases "find (\<lambda>i. fd_inode (f_desc_table s i) = None) [0..<64]")
        case d: (Some d)
        show ?thesis unfolding fd d option.case
        proof (rule runs_bind [OF sf], elim exE, goal_cases)
          case (1 x b)
          then obtain nr where x: "x = (nr, s\<lparr>fsbuf := b\<rparr>)" by (cases x) simp
          show ?case unfolding x prod.case by (rule runs_bind [OF find]) (auto intro: fin [OF _ fd d])
        qed
      qed (use fd in simp)
    qed simp
  qed
qed

lemma filp_upd_at: "filp (upd_filp p i v s) q j = (if q = p \<and> j = i then v else filp s q j)"
  by (simp add: upd_filp_def upd_proc_def)

lemma counted_positive:
  assumes "counted h F D T" "p \<in> set slots" "i < 64" "F p i = Some d" "fd_inode (D d) = Some q"
  shows "q < 64" "0 < i_cnt (T q)"
proof -
  note C = countedD [OF assms(1)]
  show q: "q < 64" using C(1) [OF assms(2-4)] C(2) [of d q] assms(5) by blast
  have "0 < card (places F (\<lambda>x. fd_inode (D x) = Some q))" using places_drop [of p i F d "\<lambda>x. fd_inode (D x) = Some q", OF assms(2-4)] assms(5) by simp
  then show "0 < i_cnt (T q)" using C(5,6) [OF q] by simp
qed

lemma do_close_run:
  assumes "file_inv h s" "pcaller s \<in> set slots" "0 \<le> m3i1 (fs_msg s)" "m3i1 (fs_msg s) < 64"
    "filp s (pcaller s) (nat (m3i1 (fs_msg s))) = Some d"
  shows "\<exists>s'. do_close s = Inr (0, s') \<and> file_inv h s' \<and>
    filp s' = (filp s)(pcaller s := (filp s (pcaller s))(nat (m3i1 (fs_msg s)) := None))"
proof -
  let ?i = "nat (m3i1 (fs_msg s))"
  have C: "counted h (filp s) (f_desc_table s) (inode_table s)" using assms(1) by (simp add: file_inv_def)
  have i: "?i < 64" using assms(4) by simp
  obtain q where q: "fd_inode (f_desc_table s d) = Some q" using countedD(1) [OF C assms(2) i assms(5)] by blast
  have "0 < i_cnt (inode_table s q)" by (rule counted_positive(2) [OF C assms(2) i assms(5) q])
  then show ?thesis using assms(3-5) q counted_drop [OF C assms(2) i assms(5) q]
    by (simp add: do_close_def fdesc_of_def inode_of_def put_inode_def file_inv_def Let_def)
qed

lemma do_close_runs:
  assumes "file_inv h s" "pcaller s \<in> set slots"
  shows "runs (\<lambda>x. file_inv h (snd x)) (do_close s)"
proof (cases "0 \<le> m3i1 (fs_msg s) \<and> m3i1 (fs_msg s) < 64 \<and> filp s (pcaller s) (nat (m3i1 (fs_msg s))) \<noteq> None")
  case True
  then show ?thesis using do_close_run [OF assms] by fastforce
next
  case False
  then show ?thesis by (auto simp: do_close_def fdesc_of_def Let_def)
qed

text \<open>Each round of the loop of \<open>fs_exit()\<close> gives one place back.\<close>

lemma exit_fds_run:
  assumes "file_inv h s" "p \<in> set slots" "\<forall>i \<in> set is. i < 64"
  shows "\<exists>s'. each_fd (exit_fd p) is s = Inr s' \<and> file_inv h s' \<and> pcaller s' = pcaller s \<and> fs_msg s' = fs_msg s \<and>
    filp s' = (filp s)(p := (\<lambda>i. if i \<in> set is then None else filp s p i)) \<and>
    (\<forall>p' i' d. p' \<in> set slots \<longrightarrow> i' < 64 \<longrightarrow> filp s' p' i' = Some d \<longrightarrow> fd_inode (f_desc_table s' d) = fd_inode (f_desc_table s d))"
  using assms(1,3)
proof (induction "is" arbitrary: s)
  case Nil
  then show ?case by (auto simp: fun_eq_iff)
next
  case (Cons i "is")
  have C: "counted h (filp s) (f_desc_table s) (inode_table s)" using Cons.prems(1) by (simp add: file_inv_def)
  show ?case
  proof (cases "filp s p i")
    case None
    have F: "(filp s)(p := (\<lambda>j. if j \<in> set (i # is) then None else filp s p j)) = (filp s)(p := (\<lambda>j. if j \<in> set is then None else filp s p j))"
      using None by (auto simp: fun_eq_iff)
    have "each_fd (exit_fd p) (i # is) s = each_fd (exit_fd p) is s" using None by (simp add: exit_fd_def)
    then show ?thesis using Cons.IH [OF Cons.prems(1)] Cons.prems(2) unfolding F by simp
  next
    case (Some d)
    have i: "i < 64" using Cons.prems(2) by simp
    obtain q where q: "fd_inode (f_desc_table s d) = Some q" using countedD(1) [OF C assms(2) i Some] by blast
    define s1 where "s1 = upd_filp p i None (upd_fdesc d drop_fdesc (upd_inode q (\<lambda>x. x\<lparr>i_cnt := i_cnt x - 1\<rparr>) s))"
    have "file_inv h s1" "\<forall>i \<in> set is. i < 64" using counted_drop [OF C assms(2) i Some q] Cons.prems(2) by (simp_all add: s1_def file_inv_def)
    from Cons.IH [OF this] obtain s' where
      s': "each_fd (exit_fd p) is s1 = Inr s'" "file_inv h s'" "pcaller s' = pcaller s1" "fs_msg s' = fs_msg s1"
        "filp s' = (filp s1)(p := (\<lambda>i. if i \<in> set is then None else filp s1 p i))"
        "\<And>p' i' d. p' \<in> set slots \<Longrightarrow> i' < 64 \<Longrightarrow> filp s' p' i' = Some d \<Longrightarrow> fd_inode (f_desc_table s' d) = fd_inode (f_desc_table s1 d)" by blast
    have "fd_inode (f_desc_table s' d') = fd_inode (f_desc_table s d')" if "p' \<in> set slots" "i' < 64" "filp s' p' i' = Some d'" for p' i' d'
      using s'(6) [OF that] countedD(1) [OF s'(2) [unfolded file_inv_def] that] by (auto simp: s1_def drop_fdesc_def Let_def split: if_splits)
    note kept = this
    have "filp s' = (filp s)(p := (\<lambda>j. if j \<in> set (i # is) then None else filp s p j))"
      unfolding s'(5) by (auto simp: s1_def fun_eq_iff filp_upd_at)
    moreover have "exit_fd p i s = Inr s1" using Some q by (simp add: exit_fd_def inode_of_def s1_def)
    then have "each_fd (exit_fd p) (i # is) s = Inr s'" using s'(1) by simp
    moreover have "pcaller s' = pcaller s" "fs_msg s' = fs_msg s" using s'(3,4) by (simp_all add: s1_def)
    ultimately show ?thesis using s'(2) kept by blast
  qed
qed

text \<open>Each round of the loop of \<open>fs_fork()\<close> counts one place of the child that was copied from its parent.\<close>

lemma fork_fds_run:
  assumes "counted h ((filp s)(c := (\<lambda>i. if i \<in> set is then None else filp s c i))) (f_desc_table s) (inode_table s)" "c \<in> set slots"
    "\<forall>i \<in> set is. i < 64 \<and> (\<forall>d. filp s c i = Some d \<longrightarrow> d < 64 \<and> fd_inode (f_desc_table s d) \<noteq> None)" "distinct is"
  shows "\<exists>s'. each_fd (fork_fd c) is s = Inr s' \<and> file_inv h s' \<and> pcaller s' = pcaller s \<and> fs_msg s' = fs_msg s \<and> fs_kern s' = fs_kern s \<and>
    (\<forall>d. fd_inode (f_desc_table s' d) = fd_inode (f_desc_table s d))"
  using assms(1,3,4)
proof (induction "is" arbitrary: s)
  case Nil
  have "(filp s)(c := (\<lambda>i. if i \<in> set [] then None else filp s c i)) = filp s" by (auto simp: fun_eq_iff)
  then show ?case using Nil(1) by (simp add: file_inv_def)
next
  case (Cons i "is")
  let ?F = "\<lambda>is. (filp s)(c := (\<lambda>i. if i \<in> set is then None else filp s c i))"
  show ?case
  proof (cases "filp s c i")
    case None
    then have "?F (i # is) = ?F is" by (auto simp: fun_eq_iff)
    then show ?thesis using Cons.IH [of s] Cons.prems None by (simp add: fork_fd_def)
  next
    case (Some d)
    then obtain q where q: "i < 64" "d < 64" "fd_inode (f_desc_table s d) = Some q" using Cons.prems(2) by auto
    define s1 where "s1 = upd_inode q (\<lambda>x. x\<lparr>i_cnt := i_cnt x + 1\<rparr>) (upd_fdesc d (\<lambda>f. f\<lparr>fd_cnt := fd_cnt f + 1\<rparr>) s)"
    have "?F (i # is) c i = None" by simp
    note S = counted_share [OF Cons.prems(1) assms(2) q(1) this q(2,3)]
    have F: "(?F (i # is))(c := (?F (i # is) c)(i := Some d)) = ?F is" using Some Cons.prems(3) by (auto simp: fun_eq_iff)
    have f1: "filp s1 x = filp s x" for x by (simp add: s1_def)
    have c1: "counted h ((filp s1)(c := (\<lambda>i. if i \<in> set is then None else filp s1 c i))) (f_desc_table s1) (inode_table s1)"
      using S unfolding F f1 by (simp add: s1_def)
    have ino: "fd_inode (f_desc_table s1 x) = fd_inode (f_desc_table s x)" for x by (simp add: s1_def)
    have "fork_fd c i s = Inr s1" using Some q by (simp add: fork_fd_def inode_of_def s1_def Let_def)
    moreover have "\<forall>i \<in> set is. i < 64 \<and> (\<forall>d. filp s1 c i = Some d \<longrightarrow> d < 64 \<and> fd_inode (f_desc_table s1 d) \<noteq> None)"
      using Cons.prems(2) unfolding ino by (simp add: s1_def)
    ultimately show ?thesis using Cons.IH [OF c1] Cons.prems(3) ino by (fastforce simp: s1_def)
  qed
qed

lemma file_inv_cong [simp]:
  "file_inv h (s\<lparr>fs_msg := m\<rparr>) = file_inv h s" "file_inv h (s\<lparr>pcaller := p\<rparr>) = file_inv h s"
  "file_inv h (s\<lparr>fs_outbox := ob\<rparr>) = file_inv h s" "file_inv h (s\<lparr>fs_msg := m, pcaller := p\<rparr>) = file_inv h s"
  by (simp_all add: file_inv_def)

lemma takes_lt: "takes s p t \<Longrightarrow> p < 64"
  by (simp add: takes_def)

text \<open>
  \<open>do_unlink()\<close> refuses a file that is not regular or that is open, and then returns without
  the \<open>put_inode()\<close> its \<open>get_inode()\<close> calls for: \<open>p\<close> keeps one reference too many.
\<close>

definition kept_inode :: "(nat \<Rightarrow> int) \<Rightarrow> (nat \<Rightarrow> int) \<Rightarrow> fs \<Rightarrow> bool" where
  "kept_inode h h' s \<longleftrightarrow> (\<exists>p<NR_INODE. h' = h(p := h p + 1) \<and>
     (i_mode (inode_table s p) \<noteq> I_REGULAR \<or> i_cnt (inode_table s p) > 1))"

lemma kept_inodeI:
  "p < NR_INODE \<Longrightarrow> i_mode (inode_table s p) \<noteq> I_REGULAR \<or> i_cnt (inode_table s p) > 1 \<Longrightarrow> kept_inode h (h(p := h p + 1)) s"
  unfolding kept_inode_def by blast

lemma kept_inode_cong [simp]:
  "kept_inode h h' (s\<lparr>fs_msg := m\<rparr>) = kept_inode h h' s" "kept_inode h h' (s\<lparr>fs_outbox := ob\<rparr>) = kept_inode h h' s"
  by (simp_all add: kept_inode_def)

lemma do_unlink_runs:
  assumes "file_inv h s"
  shows "runs (\<lambda>x. file_inv h (snd x) \<or> fst x = - 1 \<and> (\<exists>h'. file_inv h' (snd x) \<and> kept_inode h h' (snd x))) (do_unlink loc s)"
    (is "runs ?P _")
proof -
  have sf: "runs (\<lambda>x. file_inv h (snd x)) (search_file path s)" for path
    using search_file_runs [of s path] assms by (auto elim!: runs_mono simp: file_inv_same)
  have g: "runs (\<lambda>x. case fst x of None \<Rightarrow> file_inv h (snd x) | Some p \<Rightarrow> p < 64 \<and> file_inv (h(p := h p + 1)) (snd x)) (get_inode dev nr t)"
    if "file_inv h t" for dev nr t
    by (rule runs_mono [OF get_inode_runs]) (use that in \<open>auto simp: file_inv_same dest: takes_lt file_inv_take [OF that] split: option.splits\<close>)
  have k: "runs (file_inv h') (free_imap_bit dev nr t)" "runs (file_inv h') (free_smap_bits dev sb st n t)"
    "runs (file_inv h') (sync_inode q t)" "runs (file_inv h') (remove_dir_entry d nr t)" if "file_inv h' t" for h' dev nr t sb st n q d
    using free_imap_bit_runs [of t t dev nr] free_smap_bits_runs [of t t dev sb st n] sync_inode_runs [of t t q] remove_dir_entry_runs [of t t d nr] that
    by (auto elim!: runs_mono simp: file_inv_same)
  have z: "file_inv h' (upd_inode q (\<lambda>x. x\<lparr>i_mode := 0, i_size := 0, i_start_sect := 0, i_nr_sects := 0\<rparr>) t)" if "file_inv h' t" for h' q t
    using that file_inv_same [OF refs_same_upd(1), of "\<lambda>x. x\<lparr>i_mode := 0, i_size := 0, i_start_sect := 0, i_nr_sects := 0\<rparr>" h' q t] by simp
  have pi: "runs (file_inv h) (put_inode p t)" if "file_inv (h(p := h p + 1)) t" for p t
  proof -
    have "0 \<le> h q" if "q < 64" for q using assms countedD(5) that unfolding file_inv_def by blast
    then show ?thesis using that unfolding put_inode_def file_inv_def by (auto intro!: counted_held [OF that [unfolded file_inv_def]])
  qed
  have del: "runs ?P (bindE (get_super_block dev t) (\<lambda>sb. bindE (free_imap_bit dev nr t) (\<lambda>s3.
      bindE (free_smap_bits dev sb st n s3) (\<lambda>s4.
      bindE (sync_inode p (upd_inode p (\<lambda>x. x\<lparr>i_mode := 0, i_size := 0, i_start_sect := 0, i_nr_sects := 0\<rparr>) s4)) (\<lambda>s5.
      bindE (put_inode p s5) (\<lambda>s6. bindE (remove_dir_entry d nr s6) (\<lambda>s7. Inr (0, s7))))))))"
    if "file_inv (h(p := h p + 1)) t" for dev t nr st n p d
  proof (rule runs_bind_any)
    fix sb
    note K = k [where h' = "h(p := h p + 1)"]
    show "runs ?P (bindE (free_imap_bit dev nr t) (\<lambda>s3. bindE (free_smap_bits dev sb st n s3) (\<lambda>s4.
        bindE (sync_inode p (upd_inode p (\<lambda>x. x\<lparr>i_mode := 0, i_size := 0, i_start_sect := 0, i_nr_sects := 0\<rparr>) s4)) (\<lambda>s5.
        bindE (put_inode p s5) (\<lambda>s6. bindE (remove_dir_entry d nr s6) (\<lambda>s7. Inr (0, s7)))))))"
      by (rule runs_bind [OF K(1) [OF that]], rule runs_bind [OF K(2)], assumption, rule runs_bind [OF K(3) [OF z]], assumption,
          rule runs_bind [OF pi], assumption, rule runs_bind [OF k(4)], assumption) simp
  qed
  show ?thesis unfolding do_unlink_def Let_def
  proof (rule runs_bind_any, goal_cases)
    case (1 path)
    have "runs ?P (if nr = 0 then Inr (- 1, s1) else if strip_path path = None then Inr (- 1, s1)
        else bindE (dir_inode s1) (\<lambda>d. bindE (get_inode (i_dev (inode_table s1 d)) nr s1) (\<lambda>(p, s2). case p of None \<Rightarrow> Inl (Fault ''do_unlink'')
          | Some p \<Rightarrow> if i_mode (inode_table s2 p) \<noteq> I_REGULAR then Inr (- 1, s2) else if i_cnt (inode_table s2 p) > 1 then Inr (- 1, s2)
            else bindE (get_super_block (i_dev (inode_table s2 p)) s2) (\<lambda>sb. bindE (free_imap_bit (i_dev (inode_table s2 p)) nr s2) (\<lambda>s3.
              bindE (free_smap_bits (i_dev (inode_table s2 p)) sb (i_start_sect (inode_table s2 p)) (i_nr_sects (inode_table s2 p)) s3) (\<lambda>s4.
              bindE (sync_inode p (upd_inode p (\<lambda>x. x\<lparr>i_mode := 0, i_size := 0, i_start_sect := 0, i_nr_sects := 0\<rparr>) s4)) (\<lambda>s5.
              bindE (put_inode p s5) (\<lambda>s6. bindE (remove_dir_entry d nr s6) (\<lambda>s7. Inr (0, s7))))))))))"
      if "file_inv h s1" for nr s1
      using that by (auto split: option.split intro!: runs_bind_any [of "dir_inode s1"] runs_bind [OF g [OF that]] del exI conjI kept_inodeI)
    then show ?case using assms by (auto intro!: runs_bind [OF sf])
  qed
qed

text \<open>The state without the open files of process \<open>c\<close>.\<close>

definition clear_files :: "int \<Rightarrow> fs \<Rightarrow> fs" where
  "clear_files c s = s\<lparr>fs_kern := upd_proc c (\<lambda>x. x\<lparr>p_filp := (\<lambda>_. None)\<rparr>) (fs_kern s)\<rparr>"

lemma clear_files_simps [simp]:
  "filp (clear_files c s) = (filp s)(c := (\<lambda>_. None))" "f_desc_table (clear_files c s) = f_desc_table s" "inode_table (clear_files c s) = inode_table s"
  by (auto simp: clear_files_def upd_proc_def)

text \<open>Process \<open>c\<close> has been copied from another: it has no open file of its own.\<close>

definition copied :: "int \<Rightarrow> fs \<Rightarrow> bool" where
  "copied c s \<longleftrightarrow> c \<in> set slots \<and> (\<forall>i<NR_FILES. \<forall>d. filp s c i = Some d \<longrightarrow> (\<exists>p \<in> set slots. p \<noteq> c \<and> filp s p i = Some d))"

lemma counted_files_cong:
  assumes "counted h F D T" "\<And>p i. i < 64 \<Longrightarrow> G p i = F p i"
  shows "counted h G D T"
proof -
  note C = countedD [OF assms(1)]
  have P: "places G P = places F P" for P using assms(2) by (auto simp: places_def)
  show ?thesis unfolding counted_def P
  proof (intro conjI allI impI)
    fix p i d
    assume a: "p \<in> set slots" "i < 64" "G p i = Some d"
    then have "F p i = Some d" using assms(2) by simp
    with C(1) [OF a(1,2)] show "d < 64" "fd_inode (D d) \<noteq> None" by blast+
  qed (use C in blast)+
qed

lemma fork_run:
  assumes "file_inv h (clear_files c s)" "copied c s"
  shows "\<exists>s'. each_fd (fork_fd c) [0..<64] s = Inr s' \<and> file_inv h s' \<and> pcaller s' = pcaller s \<and> fs_msg s' = fs_msg s \<and> fs_kern s' = fs_kern s \<and>
    (\<forall>d. fd_inode (f_desc_table s' d) = fd_inode (f_desc_table s d))"
proof (rule fork_fds_run)
  have C: "counted h ((filp s)(c := (\<lambda>_. None))) (f_desc_table s) (inode_table s)" using assms(1) by (simp add: file_inv_def)
  show "c \<in> set slots" using assms(2) by (simp add: copied_def)
  show "\<forall>i\<in>set [0..<64]. i < 64 \<and> (\<forall>d. filp s c i = Some d \<longrightarrow> d < 64 \<and> fd_inode (f_desc_table s d) \<noteq> None)"
  proof (intro ballI conjI allI impI)
    fix i d
    assume i: "i \<in> set [0..<64]" and d: "filp s c i = Some d"
    then obtain p where p: "p \<in> set slots" "p \<noteq> c" "filp s p i = Some d" "i < 64" using assms(2) by (auto simp: copied_def)
    then have "((filp s)(c := (\<lambda>_. None))) p i = Some d" by simp
    from countedD(1) [OF C p(1,4) this] show "d < 64" "fd_inode (f_desc_table s d) \<noteq> None" by simp_all
  qed simp
  let ?G = "(filp s)(c := (\<lambda>i. if i \<in> set [0..<64] then None else filp s c i))"
  show "counted h ?G (f_desc_table s) (inode_table s)" by (rule counted_files_cong [OF C]) auto
qed simp

lemma fs_exit_run:
  assumes "file_inv h s" "m3i2 (fs_msg s) \<in> set slots"
  shows "\<exists>s'. fs_exit s = Inr (0, s') \<and> file_inv h s' \<and> (\<forall>p i. i < 64 \<longrightarrow> filp s' p i = (if p = m3i2 (fs_msg s) then None else filp s p i)) \<and>
    (\<forall>p' i' d. p' \<in> set slots \<longrightarrow> i' < 64 \<longrightarrow> filp s' p' i' = Some d \<longrightarrow> fd_inode (f_desc_table s' d) = fd_inode (f_desc_table s d))"
proof -
  from exit_fds_run [OF assms, of "[0..<64]"] obtain s' where s': "each_fd (exit_fd (m3i2 (fs_msg s))) [0..<64] s = Inr s'" "file_inv h s'"
    "filp s' = (filp s)(m3i2 (fs_msg s) := (\<lambda>i. if i \<in> set [0..<64] then None else filp s (m3i2 (fs_msg s)) i))"
    "\<forall>p' i' d. p' \<in> set slots \<longrightarrow> i' < 64 \<longrightarrow> filp s' p' i' = Some d \<longrightarrow> fd_inode (f_desc_table s' d) = fd_inode (f_desc_table s d)" by auto
  have "filp s' p i = (if p = m3i2 (fs_msg s) then None else filp s p i)" if "i < 64" for p i
    using fun_cong [OF fun_cong [OF s'(3), of p], of i] that by simp
  then show ?thesis using s'(1,2,4) by (simp add: fs_exit_def)
qed

lemma fs_fork_run:
  assumes "file_inv h (clear_files (m3i2 (fs_msg s)) s)" "copied (m3i2 (fs_msg s)) s"
  shows "\<exists>s'. fs_fork s = Inr (0, s') \<and> file_inv h s' \<and> fs_msg s' = fs_msg s \<and> fs_kern s' = fs_kern s \<and>
    (\<forall>d. fd_inode (f_desc_table s' d) = fd_inode (f_desc_table s d))"
  using fork_run [OF assms] by (auto simp: fs_fork_def)

text \<open>
  C29: The reference counts stay right whatever is asked of the file system: when every
  descriptor counts the places in \<open>filp[]\<close> that name it and every inode those that lead to it
  besides the references held elsewhere, this is so again after any message the file system
  answers, opening, creating, closing, reading, writing, removing, \<open>FORK\<close> of a process that was
  copied and \<open>EXIT\<close>. The one exception is an \<open>UNLINK\<close> that is answered with \<open>-1\<close> because the file
  is not regular or is open: the inode then keeps one reference that is not given back.
\<close>

theorem task_fs_keeps_counts:
  assumes "file_inv h (if mtype m = FORK then clear_files (m3i2 m) s else s)" "source m \<in> set slots"
    "mtype m = FORK \<Longrightarrow> copied (m3i2 m) s" "mtype m = EXIT \<Longrightarrow> m3i2 m \<in> set slots"
    "mtype m = OPEN \<Longrightarrow> m3i1 m AND O_CREAT \<noteq> 0 \<Longrightarrow> fresh_number (s\<lparr>fs_msg := m, pcaller := source m\<rparr>)"
    "task_fs_msg junk loc reply m s = Inr s'"
  shows "\<exists>h'. file_inv h' s' \<and> (h' = h \<or> mtype m = UNLINK \<and> m3i1 (fs_msg s') = - 1 \<and> kept_inode h h' s')"
proof -
  define s0 where "s0 = s\<lparr>fs_msg := m, pcaller := source m\<rparr>"
  define P where "P t \<longleftrightarrow> (\<exists>h'. file_inv h' t \<and> (h' = h \<or> mtype m = UNLINK \<and> m3i1 (fs_msg t) = - 1 \<and> kept_inode h h' t))" for t
  have P: "P (t\<lparr>fs_msg := x\<rparr>) = P t" "P (t\<lparr>fs_outbox := ob\<rparr>) = P t" if "m3i1 x = m3i1 (fs_msg t)" for t x ob
    using that by (simp_all add: P_def)
  have hP: "file_inv h t \<Longrightarrow> P t" "file_inv h t \<Longrightarrow> P (t\<lparr>fs_msg := x\<rparr>)" for t x by (auto simp: P_def)
  have uP: "mtype m = UNLINK \<Longrightarrow> file_inv h' t \<Longrightarrow> kept_inode h h' t \<Longrightarrow> P (t\<lparr>fs_msg := (fs_msg t)\<lparr>m3i1 := - 1\<rparr>\<rparr>)" for t h'
    by (auto simp: P_def)
  have pc: "pcaller s0 = source m" "fs_msg s0 = m" by (simp_all add: s0_def)
  have inv: "file_inv h s0" if "mtype m \<noteq> FORK" using assms(1) that by (simp add: s0_def)
  have op: "runs (\<lambda>x. file_inv h (snd x)) (do_open junk loc s0)" if "mtype m = OPEN"
    using do_open_runs [OF inv, of junk loc] that assms(2,5) by (auto elim!: runs_mono simp: pc s0_def [symmetric])
  have cl: "runs (\<lambda>x. file_inv h (snd x)) (do_close s0)" if "mtype m = CLOSE"
    using do_close_runs [OF inv] that assms(2) by (auto elim!: runs_mono simp: pc)
  have rw: "runs (\<lambda>x. file_inv h (snd x)) (do_rdwt reply s0)" if "mtype m = READ \<or> mtype m = WRITE"
    using do_rdwt_runs [of s0 reply] that inv by (auto elim!: runs_mono simp: file_inv_same)
  have ul: "runs (\<lambda>x. file_inv h (snd x) \<or> fst x = - 1 \<and> (\<exists>h'. file_inv h' (snd x) \<and> kept_inode h h' (snd x))) (do_unlink loc s0)"
    if "mtype m = UNLINK" using do_unlink_runs [OF inv] that by simp
  have fk: "runs (\<lambda>x. file_inv h (snd x)) (fs_fork s0)" if "mtype m = FORK"
  proof -
    have "clear_files c s0 = (clear_files c s)\<lparr>fs_msg := m, pcaller := source m\<rparr>" for c by (simp add: clear_files_def s0_def)
    then have "file_inv h (clear_files (m3i2 (fs_msg s0)) s0)" "copied (m3i2 (fs_msg s0)) s0"
      using assms(1,3) that by (simp_all add: pc copied_def s0_def)
    from fs_fork_run [OF this] show ?thesis by auto
  qed
  have ex: "runs (\<lambda>x. file_inv h (snd x)) (fs_exit s0)" if "mtype m = EXIT"
    using fs_exit_run [OF inv] that assms(4) by (auto simp: pc)
  have "runs P (task_fs_msg junk loc reply m s)"
    unfolding task_fs_msg_def s0_def [symmetric] Let_def
    by (rule runs_bind [where Q = "\<lambda>x. P (snd x)"])
      (auto simp: P split: prod.split intro: hP uP intro!: runs_bind [OF op] runs_bind [OF cl] runs_bind [OF rw] runs_bind [OF ul] runs_bind [OF fk] runs_bind [OF ex] hP(1) [OF inv])
  then show ?thesis using assms(6) by (simp add: P_def)
qed

text \<open>
  C30: A child that is created and ends leaves no trace in the counts: \<open>fs_fork()\<close> for a
  process copied from its parent and \<open>fs_exit()\<close> for that process afterwards both succeed, the
  child's files are closed, every file still open has its descriptor with the inode and count it
  had before, and every inode its count.
\<close>

theorem fork_then_exit:
  assumes "file_inv h (clear_files (m3i2 (fs_msg s)) s)" "copied (m3i2 (fs_msg s)) s"
  shows "\<exists>s1 s2. fs_fork s = Inr (0, s1) \<and> file_inv h s1 \<and> fs_exit s1 = Inr (0, s2) \<and> file_inv h s2 \<and>
    (\<forall>i<NR_FILES. filp s2 (m3i2 (fs_msg s)) i = None) \<and>
    (\<forall>p \<in> set slots. \<forall>i<NR_FILES. \<forall>d. filp s2 p i = Some d \<longrightarrow>
       fd_inode (f_desc_table s2 d) = fd_inode (f_desc_table s d) \<and> fd_cnt (f_desc_table s2 d) = fd_cnt (f_desc_table s d)) \<and>
    (\<forall>q<NR_INODE. i_cnt (inode_table s2 q) = i_cnt (inode_table s q))"
proof -
  let ?c = "m3i2 (fs_msg s)" and ?G = "(filp s)(m3i2 (fs_msg s) := (\<lambda>_. None))"
  from fs_fork_run [OF assms] obtain s1 where s1: "fs_fork s = Inr (0, s1)" "file_inv h s1" "fs_msg s1 = fs_msg s" "fs_kern s1 = fs_kern s"
    "\<And>d. fd_inode (f_desc_table s1 d) = fd_inode (f_desc_table s d)" by blast
  have "?c \<in> set slots" using assms(2) by (simp add: copied_def)
  with fs_exit_run [OF s1(2)] s1(3,4) obtain s2 where s2: "fs_exit s1 = Inr (0, s2)" "file_inv h s2"
    "\<And>p i. i < 64 \<Longrightarrow> filp s2 p i = (if p = ?c then None else filp s p i)"
    "\<And>p i d. p \<in> set slots \<Longrightarrow> i < 64 \<Longrightarrow> filp s2 p i = Some d \<Longrightarrow> fd_inode (f_desc_table s2 d) = fd_inode (f_desc_table s1 d)" by auto
  have C: "counted h ?G (f_desc_table s) (inode_table s)" using assms(1) by (simp add: file_inv_def)
  have C2: "counted h ?G (f_desc_table s2) (inode_table s2)"
    using s2(3) by (intro counted_files_cong [OF s2(2) [unfolded file_inv_def]]) auto
  have ino: "fd_inode (f_desc_table s2 d) = fd_inode (f_desc_table s d)" if "p \<in> set slots" "i < 64" "?G p i = Some d" for p i d
    using s2(4) [OF that(1,2), of d] s2(3) [OF that(2), of p] that(3) s1(5) by (auto split: if_splits)
  have "fd_cnt (f_desc_table s2 d) = fd_cnt (f_desc_table s d)" if g: "p \<in> set slots" "i < 64" "?G p i = Some d" for p i d
  proof -
    have d: "d < 64" "fd_inode (f_desc_table s d) \<noteq> None" using countedD(1) [OF C g] by auto
    then obtain q where "fd_inode (f_desc_table s d) = Some q" by blast
    then show ?thesis using countedD(3) [OF C d(1)] countedD(3) [OF C2 d(1)] ino [OF g] by simp
  qed
  moreover have "?G p i = Some d" if "i < 64" "filp s2 p i = Some d" for p i d using s2(3) [OF that(1), of p] that(2) by (auto split: if_splits)
  moreover have "i_cnt (inode_table s2 q) = i_cnt (inode_table s q)" if "q < 64" for q
  proof -
    have "places ?G (\<lambda>x. fd_inode (f_desc_table s2 x) = Some q) = places ?G (\<lambda>x. fd_inode (f_desc_table s x) = Some q)"
      using ino by (intro places_cong) simp
    then show ?thesis using countedD(6) [OF C that] countedD(6) [OF C2 that] by simp
  qed
  ultimately have "\<forall>p \<in> set slots. \<forall>i<64. \<forall>d. filp s2 p i = Some d \<longrightarrow>
      fd_inode (f_desc_table s2 d) = fd_inode (f_desc_table s d) \<and> fd_cnt (f_desc_table s2 d) = fd_cnt (f_desc_table s d)"
    "\<forall>q<64. i_cnt (inode_table s2 q) = i_cnt (inode_table s q)" using ino by blast+
  moreover have "\<forall>i<64. filp s2 ?c i = None" using s2(3) by simp
  ultimately show ?thesis using s1(1,2) s2(1,2) by blast
qed

subsection \<open>An example\<close>

text \<open>The example file system of \<open>Fsdata\<close>: process 5 has file 3 open, and process 9 has been copied from it.\<close>

definition demo_fork :: "int \<Rightarrow> fs" where
  "demo_fork mt = (demo_fs mt 9)\<lparr>fs_kern := upd_proc 9 (\<lambda>x. x\<lparr>p_filp := [3 \<mapsto> 2]\<rparr>) (fs_kern (demo_fs mt 9))\<rparr>"

lemma demo_places: "places ((\<lambda>_ _. None)(5 := [3 \<mapsto> 2])) P = (if P 2 then {(5, 3)} else {})"
  by (auto simp: places_def slots_def split: if_splits)

lemma demo_fork_facts:
  "file_inv (\<lambda>_. 0) (clear_files 9 (demo_fork mt))" "copied 9 (demo_fork mt)" "m3i2 (fs_msg (demo_fork mt)) = 9"
proof -
  have F: "filp (clear_files 9 (demo_fork mt)) = (\<lambda>_ _. None)(5 := [3 \<mapsto> 2])"
    by (auto simp: demo_fork_def demo_fs_def zero_process_def upd_proc_def clear_files_def fun_eq_iff)
  show "file_inv (\<lambda>_. 0) (clear_files 9 (demo_fork mt))" unfolding file_inv_def F counted_def demo_places
    by (auto simp: demo_fork_def demo_fs_def zero_file_desc_def zero_inode_def demo_inode_def clear_files_def)
  have "(5 :: int) \<in> set slots" "(9 :: int) \<in> set slots" by (simp_all add: slots_def)
  then show "copied 9 (demo_fork mt)" by (auto simp: copied_def demo_fork_def demo_fs_def upd_proc_def split: if_splits)
qed (simp add: demo_fork_def demo_fs_def)

theorem fork_then_exit_witness:
  "\<exists>s1 s2. fs_fork (demo_fork FORK) = Inr (0, s1) \<and> fs_exit s1 = Inr (0, s2) \<and> filp s2 9 3 = None \<and>
     i_cnt (inode_table s2 1) = i_cnt (inode_table (demo_fork FORK) 1)"
  using fork_then_exit [of "\<lambda>_. 0" "demo_fork FORK"] demo_fork_facts [of FORK] by auto

theorem task_fs_keeps_counts_witness:
  "\<exists>s'. task_fs_msg zero_msg 0 (\<lambda>m. m) (zero_msg\<lparr>source := 4, mtype := FORK, m3i2 := 9\<rparr>) (demo_fork FORK) = Inr s' \<and> file_inv (\<lambda>_. 0) s'"
proof -
  let ?m = "zero_msg\<lparr>source := 4, mtype := FORK, m3i2 := 9\<rparr>" and ?s = "demo_fork FORK"
  let ?t = "?s\<lparr>fs_msg := ?m, pcaller := 4\<rparr>"
  have "file_inv (\<lambda>_. 0) (clear_files (m3i2 (fs_msg ?t)) ?t)" "copied (m3i2 (fs_msg ?t)) ?t"
    using demo_fork_facts [of FORK] by (simp_all add: file_inv_def copied_def)
  from fs_fork_run [OF this] obtain s1 where "fs_fork ?t = Inr (0, s1)" by blast
  then obtain s' where s': "task_fs_msg zero_msg 0 (\<lambda>m. m) ?m ?s = Inr s'"
    by (cases "mtype (fs_msg s1) = SUSPEND_PROC") (auto simp: task_fs_msg_def Let_def)
  have sl: "source ?m \<in> set slots" by (simp add: slots_def)
  have "file_inv (\<lambda>_. 0) s'"
    using task_fs_keeps_counts [of "\<lambda>_. 0" ?m ?s, OF _ sl _ _ _ s'] demo_fork_facts [of FORK] by auto
  with s' show ?thesis by blast
qed

end
