(* ===== verification/Mm.thy ===== *)
theory Mm
  imports Kmain Fsref Lib
begin

section \<open>Memory manager (mm/main.c, mm/forkexit.c)\<close>

text \<open>
  The task that creates, ends and waits for processes. It writes the process table itself, asks
  the file system to follow (one message, handled by \<^const>\<open>task_fs_msg\<close>) and answers by the
  kernel's \<^const>\<open>sys_sendrec\<close>, so its state is that of the file system, which holds the
  kernel and the memory, with its own message and the size of memory. A \<open>SEND\<close> to a process
  that does not wait for it suspends the task; the model stops there with \<^const>\<open>Blocked\<close>. What
  \<open>printl()\<close> prints is not kept.
\<close>

record mm =
  mm_fs :: fs
  mm_msg :: MESSAGE
  memory_size :: int

abbreviation mm_kern :: "mm \<Rightarrow> kernel" where
  "mm_kern s \<equiv> fs_kern (mm_fs s)"

abbreviation ptab :: "mm \<Rightarrow> int \<Rightarrow> PROCESS" where
  "ptab s \<equiv> proc_table (mm_kern s)"

definition upd_kern :: "(kernel \<Rightarrow> kernel) \<Rightarrow> mm \<Rightarrow> mm" where
  "upd_kern f s = s\<lparr>mm_fs := (mm_fs s)\<lparr>fs_kern := f (mm_kern s)\<rparr>\<rparr>"

abbreviation (input) PROCS_BASE :: int where "PROCS_BASE \<equiv> 0xa00000"
abbreviation (input) PROC_IMAGE_SIZE_DEFAULT :: int where "PROC_IMAGE_SIZE_DEFAULT \<equiv> 0x100000"
abbreviation (input) PROCESS_NAME_LEN :: nat where "PROCESS_NAME_LEN \<equiv> 32"

subsection \<open>Memory\<close>

text \<open>
  \<open>get_boot_params()\<close> of \<^verbatim>\<open>lib/klib.c\<close> reads what the loader left at \<open>BOOT_PARAM_ADDR\<close>: the size of
  memory and the address of the kernel file.
\<close>

definition boot_param :: "(u32 \<Rightarrow> u8) \<Rightarrow> int \<Rightarrow> u32" where
  "boot_param b i = get32 (\<lambda>k. b (of_int k)) (0x900 + 4 * i)"

definition get_boot_params :: "(u32 \<Rightarrow> u8) \<Rightarrow> (int \<times> u32) res" where
  "get_boot_params b =
     assertE (boot_param b 0 = 0xb007) ''p[BI_MAG] == BOOT_PARAM_MAGIC'' (Inr (sint (boot_param b 1), boot_param b 2))"

definition init_mm :: "mm \<Rightarrow> mm res" where
  "init_mm s = bindE (get_boot_params (fs_mem (mm_fs s))) (\<lambda>(mem_size, _). Inr (s\<lparr>memory_size := mem_size\<rparr>))"

definition alloc_mem :: "int \<Rightarrow> int \<Rightarrow> mm \<Rightarrow> int res" where
  "alloc_mem pid memsize s =
     assertE (pid \<ge> NR_TASKS + NR_NATIVE_PROCS) ''pid >= NR_TASKS + NR_NATIVE_PROCS''
       (if memsize > PROC_IMAGE_SIZE_DEFAULT then Inl (Panic ''unsupported memory request'')
        else let base = PROCS_BASE + (pid - (NR_TASKS + NR_NATIVE_PROCS)) * PROC_IMAGE_SIZE_DEFAULT
             in if s32 (base + memsize) \<ge> memory_size s then Inl (Panic ''memory allocation failed'') else Inr base)"

text \<open>\<open>memcpy()\<close> copies byte by byte, upwards.\<close>

fun phys_copy :: "(u32 \<Rightarrow> u8) \<Rightarrow> u32 \<Rightarrow> u32 \<Rightarrow> nat \<Rightarrow> (u32 \<Rightarrow> u8)" where
  "phys_copy m dst src 0 = m"
| "phys_copy m dst src (Suc n) = phys_copy (m(dst := m src)) (dst + 1) (src + 1) n"

subsection \<open>Messages\<close>

text \<open>\<open>send_recv (SEND, dest, &m)\<close>; \<open>loc\<close> is the address of \<open>m\<close> on the task's stack.\<close>

definition mm_send :: "u32 \<Rightarrow> int \<Rightarrow> MESSAGE \<Rightarrow> mm \<Rightarrow> mm res" where
  "mm_send loc dest m s =
     (let k = mm_kern s
      in bindE (sys_sendrec SEND dest loc TASK_MM (k\<lparr>messages := (messages k)(loc := m)\<rparr>)) (\<lambda>k1.
           if p_flags (proc_table k1 TASK_MM) \<noteq> 0 then Inl (Blocked ''send_recv'')
           else Inr (upd_kern (\<lambda>_. k1) s)))"

text \<open>
  \<open>send_recv (BOTH, TASK_FS, &msg2fs)\<close> with a request that concerns process \<open>pid\<close>: the file
  system takes the message and answers it. The answer is not looked at. The first three
  arguments of \<^const>\<open>task_fs_msg\<close> belong to other requests.
\<close>

definition tell_fs :: "MESSAGE \<Rightarrow> int \<Rightarrow> int \<Rightarrow> mm \<Rightarrow> mm res" where
  "tell_fs junk mt pid s =
     bindE (task_fs_msg junk 0 (\<lambda>m. m) (junk\<lparr>source := TASK_MM, mtype := mt, m3i2 := pid\<rparr>) (mm_fs s)) (\<lambda>f. Inr (s\<lparr>mm_fs := f\<rparr>))"

subsection \<open>fork()\<close>

text \<open>Base, limit and size of a segment as \<open>do_fork()\<close> puts them together.\<close>

definition seg_base :: "DESCRIPTOR \<Rightarrow> u32" where
  "seg_base d = reassembly (ucast (base_high d)) 24 (ucast (base_mid d)) 16 (ucast (base_low d))"

definition seg_limit_T :: "DESCRIPTOR \<Rightarrow> u32" where
  "seg_limit_T d = reassembly 0 0 (ucast (limit_high_attr2 d AND 0xf)) 16 (ucast (limit_low d))"

definition seg_limit_D :: "DESCRIPTOR \<Rightarrow> u32" where
  "seg_limit_D d = reassembly (ucast (limit_high_attr2 d AND 0xf)) 16 0 0 (ucast (limit_low d))"

definition seg_size :: "u32 \<Rightarrow> DESCRIPTOR \<Rightarrow> u32" where
  "seg_size limit d = (limit + 1) * (if limit_high_attr2 d AND 0x80 \<noteq> 0 then 4096 else 1)"

text \<open>The child's entry of the process table and its image, up to the message to the file system.\<close>

definition fork_image :: "int \<Rightarrow> mm \<Rightarrow> mm res" where
  "fork_image child_pid s =
     (let pid = source (mm_msg s); parent = ptab s pid
      in bindE (vsprintf ''%s_%d'' [Str (p_name parent), Num child_pid]) (\<lambda>nm.
           if PROCESS_NAME_LEN \<le> length nm then Inl (Fault ''name'')
           else
             let child = parent\<lparr>p_ldt_sel := p_ldt_sel (ptab s child_pid), p_parent := pid, p_name := nm\<rparr>;
                 t = p_ldts parent INDEX_LDT_CODE; d = p_ldts parent INDEX_LDT_DATA;
                 caller_T_base = seg_base t; caller_T_limit = seg_limit_T t; caller_T_size = seg_size caller_T_limit t;
                 caller_D_S_base = seg_base d; caller_D_S_limit = seg_limit_D d; caller_D_S_size = seg_size caller_T_limit d
             in assertE (caller_T_base = caller_D_S_base \<and> caller_T_limit = caller_D_S_limit \<and> caller_T_size = caller_D_S_size) ''caller_T == caller_D_S''
                 (bindE (alloc_mem child_pid (sint caller_T_size) s) (\<lambda>base.
                    let child_base = of_int base;
                        f = (mm_fs s)\<lparr>fs_mem := phys_copy (fs_mem (mm_fs s)) child_base caller_T_base (unat caller_T_size)\<rparr>;
                        ldts = (p_ldts child)
                          (INDEX_LDT_CODE := init_desc child_base (drop_bit 12 (of_int (PROC_IMAGE_SIZE_DEFAULT - 1)))
                             (DA_LIMIT_4K OR DA_32 OR DA_C OR push_bit 5 (ucast PRIVILEGE_USER)),
                           INDEX_LDT_DATA := init_desc child_base (drop_bit 12 (of_int (PROC_IMAGE_SIZE_DEFAULT - 1)))
                             (DA_LIMIT_4K OR DA_32 OR DA_DRW OR push_bit 5 (ucast PRIVILEGE_USER)))
                    in Inr (s\<lparr>mm_fs := f\<lparr>fs_kern := upd_proc child_pid (\<lambda>_. child\<lparr>p_ldts := ldts\<rparr>) (fs_kern f)\<rparr>\<rparr>)))))"

definition do_fork :: "MESSAGE \<Rightarrow> u32 \<Rightarrow> mm \<Rightarrow> (int \<times> mm) res" where
  "do_fork junk loc s =
     (let i = (case find (\<lambda>p. p_flags (ptab s p) = FREE_SLOT) slots of Some i \<Rightarrow> i | None \<Rightarrow> NR_TASKS + NR_PROCS)
      in assertE (i \<ge> NR_TASKS + NR_NATIVE_PROCS) ''child_pid >= NR_TASKS + NR_NATIVE_PROCS''
        (if i = NR_TASKS + NR_PROCS then Inr (-1, s)
         else bindE (fork_image i s) (\<lambda>s1.
              bindE (tell_fs junk FORK i s1) (\<lambda>s2.
                let s3 = s2\<lparr>mm_msg := (mm_msg s2)\<lparr>m3i2 := i\<rparr>\<rparr>
                in bindE (mm_send loc i (junk\<lparr>mtype := SYSCALL_RET, m3i1 := 0, m3i2 := 0\<rparr>) s3) (\<lambda>s4. Inr (0, s4))))))"

subsection \<open>exit() and wait()\<close>

text \<open>\<open>cleanup()\<close>: the parent gets the number and status of its child, whose slot is free again.\<close>

definition cleanup :: "MESSAGE \<Rightarrow> u32 \<Rightarrow> int \<Rightarrow> mm \<Rightarrow> mm res" where
  "cleanup junk loc p s =
     bindE (mm_send loc (p_parent (ptab s p)) (junk\<lparr>mtype := SYSCALL_RET, m3i2 := p, m3i1 := p_exit_status (ptab s p)\<rparr>) s) (\<lambda>s1.
       Inr (upd_kern (upd_proc p (\<lambda>x. x\<lparr>p_flags := FREE_SLOT\<rparr>)) s1))"

text \<open>The loop that hands the children of \<open>pid\<close> to \<open>INIT\<close>.\<close>

fun exit_orphans :: "MESSAGE \<Rightarrow> u32 \<Rightarrow> int \<Rightarrow> int list \<Rightarrow> mm \<Rightarrow> mm res" where
  "exit_orphans junk loc pid [] s = Inr s"
| "exit_orphans junk loc pid (i # is) s =
     (if p_parent (ptab s i) = pid then
        let s1 = upd_kern (upd_proc i (\<lambda>x. x\<lparr>p_parent := INIT\<rparr>)) s
        in if p_flags (ptab s1 INIT) AND WAITING \<noteq> 0 \<and> p_flags (ptab s1 i) AND HANGING \<noteq> 0
           then bindE (cleanup junk loc i (upd_kern (upd_proc INIT (\<lambda>x. x\<lparr>p_flags := p_flags x AND NOT WAITING\<rparr>)) s1))
                  (\<lambda>_. Inl (AssertFailed ''0''))
           else exit_orphans junk loc pid is s1
      else exit_orphans junk loc pid is s)"

definition do_exit :: "MESSAGE \<Rightarrow> u32 \<Rightarrow> int \<Rightarrow> mm \<Rightarrow> mm res" where
  "do_exit junk loc status s =
     (let pid = source (mm_msg s); parent_pid = p_parent (ptab s pid)
      in bindE (tell_fs junk EXIT pid s) (\<lambda>s1.
         let s2 = upd_kern (upd_proc pid (\<lambda>x. x\<lparr>p_exit_status := status\<rparr>)) s1
         in if parent_pid \<notin> set slots then Inl (Fault ''proc_table'')
            else bindE (if p_flags (ptab s2 parent_pid) AND WAITING \<noteq> 0
                   then cleanup junk loc pid (upd_kern (upd_proc parent_pid (\<lambda>x. x\<lparr>p_flags := p_flags x AND NOT WAITING\<rparr>)) s2)
                   else Inr (upd_kern (upd_proc pid (\<lambda>x. x\<lparr>p_flags := p_flags x OR HANGING\<rparr>)) s2))
                 (exit_orphans junk loc pid slots)))"

text \<open>The loop of \<open>do_wait()\<close>: a child that hangs, and whether there is a child at all.\<close>

fun wait_scan :: "(int \<Rightarrow> PROCESS) \<Rightarrow> int \<Rightarrow> int list \<Rightarrow> int \<Rightarrow> int option \<times> int" where
  "wait_scan pt pid [] children = (None, children)"
| "wait_scan pt pid (i # is) children =
     (if p_parent (pt i) = pid then
        if p_flags (pt i) = HANGING then (Some i, children + 1) else wait_scan pt pid is (children + 1)
      else wait_scan pt pid is children)"

definition do_wait :: "MESSAGE \<Rightarrow> u32 \<Rightarrow> mm \<Rightarrow> mm res" where
  "do_wait junk loc s =
     (let pid = source (mm_msg s)
      in case wait_scan (ptab s) pid slots 0 of
           (Some i, _) \<Rightarrow> cleanup junk loc i s
         | (None, children) \<Rightarrow>
             if children \<noteq> 0 then Inr (upd_kern (upd_proc pid (\<lambda>x. x\<lparr>p_flags := p_flags x OR WAITING\<rparr>)) s)
             else mm_send loc pid (junk\<lparr>mtype := SYSCALL_RET, m3i2 := NO_TASK\<rparr>) s)"

subsection \<open>The task\<close>

text \<open>One message of the main loop, from its receipt to the answer.\<close>

definition task_mm_msg :: "MESSAGE \<Rightarrow> u32 \<Rightarrow> MESSAGE \<Rightarrow> mm \<Rightarrow> mm res" where
  "task_mm_msg junk loc m s0 =
     (let s = s0\<lparr>mm_msg := m\<rparr>
      in if mtype m = FORK then
           bindE (do_fork junk loc s) (\<lambda>(r, s1).
             let a = (mm_msg s1)\<lparr>m3i1 := r, mtype := SYSCALL_RET\<rparr>
             in mm_send loc (source m) a (s1\<lparr>mm_msg := a\<rparr>))
         else if mtype m = EXIT then do_exit junk loc (m3i1 m) s
         else if mtype m = WAIT then do_wait junk loc s
         else Inl (AssertFailed ''MM::unknown message''))"

subsection \<open>Copying an image\<close>

lemma phys_copy_other: "(\<And>i. i < n \<Longrightarrow> a \<noteq> dst + of_nat i) \<Longrightarrow> phys_copy m dst src n a = m a"
proof (induction n arbitrary: m dst src)
  case (Suc n)
  have "a \<noteq> dst + 1 + of_nat i" if "i < n" for i using Suc.prems [of "Suc i"] that by (simp add: algebra_simps)
  then have "phys_copy (m(dst := m src)) (dst + 1) (src + 1) n a = (m(dst := m src)) a" by (rule Suc.IH)
  then show ?case using Suc.prems [of 0] by simp
qed simp

lemma phys_copy_at:
  assumes "\<And>i j. i < n \<Longrightarrow> j < n \<Longrightarrow> dst + of_nat i \<noteq> src + of_nat j" "n \<le> 2 ^ 32" "k < n"
  shows "phys_copy m dst src n (dst + of_nat k) = m (src + of_nat k)"
  using assms
proof (induction n arbitrary: m dst src k)
  case (Suc n)
  have d: "dst + 1 + of_nat i \<noteq> src + 1 + of_nat j" if "i < n" "j < n" for i j
    using Suc.prems(1) [of "Suc i" "Suc j"] that by (simp add: algebra_simps)
  show ?case
  proof (cases k)
    case 0
    have "dst \<noteq> dst + 1 + of_nat i" if "i < n" for i
    proof
      assume "dst = dst + 1 + of_nat i"
      then have "(of_nat (Suc i) :: u32) = 0" by (simp add: add.assoc)
      moreover have "unat (of_nat (Suc i) :: u32) = Suc i" using that Suc.prems(2) unfolding unat_of_nat by simp
      ultimately show False by simp
    qed
    then show ?thesis using 0 phys_copy_other [of n dst "dst + 1"] by simp
  next
    case (Suc k')
    have "src + of_nat (Suc k') \<noteq> dst" using Suc.prems(1) [of 0 "Suc k'"] Suc \<open>k < Suc n\<close> by auto
    moreover have "phys_copy (m(dst := m src)) (dst + 1) (src + 1) n (dst + 1 + of_nat k') = (m(dst := m src)) (src + 1 + of_nat k')"
      using Suc \<open>k < Suc n\<close> Suc.prems(2) by (intro Suc.IH [OF d]) simp_all
    ultimately show ?thesis using Suc by (simp add: algebra_simps)
  qed
qed simp

lemma disjoint_areas:
  fixes b c :: u32
  assumes "unat b + n \<le> unat c \<or> unat c + n \<le> unat b" "unat b + n \<le> 2 ^ 32" "unat c + n \<le> 2 ^ 32" "i < n" "j < n"
  shows "c + of_nat i \<noteq> b + of_nat j"
proof
  assume e: "c + of_nat i = b + of_nat j"
  have "unat (of_nat i :: u32) = i" "unat (of_nat j :: u32) = j" using assms(2,4,5) unfolding unat_of_nat by simp_all
  then have "unat (c + of_nat i) = unat c + i" "unat (b + of_nat j) = unat b + j"
    using assms(2-5) by (simp_all add: unat_word_ariths)
  then show False using e assms(1,4,5) by auto
qed

lemma seg_base_desc: "seg_base d = desc_base d"
proof -
  have "push_bit 24 x + push_bit 16 y + z = (push_bit 24 x OR push_bit 16 y OR z :: u32)"
    if "take_bit 8 y = y" "take_bit 16 z = z" for x y z :: u32
  proof -
    have "push_bit 24 x AND push_bit 16 y = 0" "(push_bit 24 x OR push_bit 16 y) AND z = 0"
    proof -
      show "push_bit 24 x AND push_bit 16 y = 0" by (subst that(1) [symmetric]) (auto simp: bit_eq_iff bit_simps)
      show "(push_bit 24 x OR push_bit 16 y) AND z = 0" by (subst that(2) [symmetric]) (auto simp: bit_eq_iff bit_simps)
    qed
    then show ?thesis by (simp add: disjunctive_add_eq_or or.assoc)
  qed
  moreover have "take_bit 8 (ucast (base_mid d) :: u32) = ucast (base_mid d)" "take_bit 16 (ucast (base_low d) :: u32) = ucast (base_low d)"
    by (auto simp: bit_eq_iff bit_simps dest: bit_imp_le_length)
  ultimately show ?thesis by (simp add: seg_base_def reassembly_def desc_base_def)
qed

subsection \<open>fork()\<close>

abbreviation child_area :: "int \<Rightarrow> int" where
  "child_area c \<equiv> PROCS_BASE + (c - (NR_TASKS + NR_NATIVE_PROCS)) * PROC_IMAGE_SIZE_DEFAULT"

lemma vsprintf_name: "length nm < 1024 \<Longrightarrow> vsprintf ''%s_%d'' [Str nm, Num n] = Inr (nm @ ''_'' @ (if n < 0 then CHR ''-'' # i2a (s32 (- n)) 10 else i2a n 10))"
  by (simp add: vsprintf_def convert_def)

lemma i2a_short: "0 \<le> c \<Longrightarrow> c < 100 \<Longrightarrow> length (i2a c 10) \<le> 2"
proof -
  assume c: "0 \<le> c" "c < 100"
  have "length (i2a v 10) = 1" if "0 \<le> v" "v < 10" for v using that by (subst i2a.simps) (simp add: c_div_nonneg)
  then show ?thesis using c by (subst i2a.simps) (simp add: c_div_nonneg)
qed

text \<open>
  The parent's segments agree and fit into the child's area, and its name leaves room for the
  number: what filling the child's slot relies on.
\<close>

definition image_fits :: "int \<Rightarrow> mm \<Rightarrow> bool" where
  "image_fits c s \<longleftrightarrow>
     (let parent = ptab s (source (mm_msg s)); t = p_ldts parent INDEX_LDT_CODE; d = p_ldts parent INDEX_LDT_DATA;
          B = seg_base t; Z = seg_size (seg_limit_T t) t
      in 9 \<le> c \<and> c < 37 \<and> source (mm_msg s) \<noteq> c \<and> seg_base d = B \<and> seg_limit_D d = seg_limit_T t \<and>
        limit_high_attr2 d AND 0x80 = limit_high_attr2 t AND 0x80 \<and> unat Z \<le> 0x100000 \<and>
        child_area c + int (unat Z) < memory_size s \<and> length (p_name parent) < 20 \<and>
        (unat B + unat Z \<le> nat (child_area c) \<or> nat (child_area c) + unat Z \<le> unat B) \<and> unat B + unat Z \<le> 2 ^ 32)"

definition child_entry :: "int \<Rightarrow> mm \<Rightarrow> PROCESS" where
  "child_entry c s =
     (let parent = ptab s (source (mm_msg s)); C = of_int (child_area c) :: u32
      in parent\<lparr>p_ldt_sel := p_ldt_sel (ptab s c), p_parent := source (mm_msg s), p_name := p_name parent @ ''_'' @ i2a c 10,
        p_ldts := (p_ldts parent)(INDEX_LDT_CODE := init_desc C (drop_bit 12 (of_int (PROC_IMAGE_SIZE_DEFAULT - 1))) (DA_LIMIT_4K OR DA_32 OR DA_C OR push_bit 5 (ucast PRIVILEGE_USER)),
           INDEX_LDT_DATA := init_desc C (drop_bit 12 (of_int (PROC_IMAGE_SIZE_DEFAULT - 1))) (DA_LIMIT_4K OR DA_32 OR DA_DRW OR push_bit 5 (ucast PRIVILEGE_USER)))\<rparr>)"

lemma child_entry_simps [simp]:
  "p_regs (child_entry c s) = p_regs (ptab s (source (mm_msg s)))" "p_filp (child_entry c s) = p_filp (ptab s (source (mm_msg s)))"
  "p_flags (child_entry c s) = p_flags (ptab s (source (mm_msg s)))" "p_msg (child_entry c s) = p_msg (ptab s (source (mm_msg s)))"
  "p_recvfrom (child_entry c s) = p_recvfrom (ptab s (source (mm_msg s)))" "p_parent (child_entry c s) = source (mm_msg s)"
  "p_ldt_sel (child_entry c s) = p_ldt_sel (ptab s c)"
  by (simp_all add: child_entry_def Let_def)

lemma fork_image_run:
  fixes s :: mm
  defines "t \<equiv> p_ldts (ptab s (source (mm_msg s))) INDEX_LDT_CODE"
  defines "B \<equiv> seg_base t" and "Z \<equiv> seg_size (seg_limit_T t) t"
  assumes fits: "image_fits c s"
  shows "\<exists>s'. fork_image c s = Inr s' \<and> fs_mem (mm_fs s') = phys_copy (fs_mem (mm_fs s)) (of_int (child_area c)) B (unat Z) \<and>
      mm_kern s' = upd_proc c (\<lambda>_. child_entry c s) (mm_kern s) \<and>
      f_desc_table (mm_fs s') = f_desc_table (mm_fs s) \<and> inode_table (mm_fs s') = inode_table (mm_fs s) \<and> mm_msg s' = mm_msg s"
    "\<And>i j. i < unat Z \<Longrightarrow> j < unat Z \<Longrightarrow> of_int (child_area c) + of_nat i \<noteq> B + of_nat j"
proof -
  let ?C = "of_int (child_area c) :: u32" and ?p = "ptab s (source (mm_msg s))"
  let ?d = "p_ldts ?p INDEX_LDT_DATA"
  from fits have h: "9 \<le> c" "c < 37" "seg_base ?d = B" "seg_limit_D ?d = seg_limit_T t"
    "limit_high_attr2 ?d AND 0x80 = limit_high_attr2 t AND 0x80" "unat Z \<le> 0x100000" "child_area c + int (unat Z) < memory_size s"
    "length (p_name ?p) < 20" "unat B + unat Z \<le> nat (child_area c) \<or> nat (child_area c) + unat Z \<le> unat B" "unat B + unat Z \<le> 2 ^ 32"
    unfolding image_fits_def Let_def t_def [symmetric] B_def [symmetric] Z_def [symmetric] by blast+
  have ca: "0xa00000 \<le> child_area c" "child_area c < 0x2600000" using h(1,2) by simp_all
  have "uint (of_int x :: u32) = x" if "0 \<le> x" "x < 0x2600000" for x using that by (simp add: uint_word_of_int)
  from this [of "child_area c"] have "uint ?C = child_area c" using ca by linarith
  then have uC: "unat ?C = nat (child_area c)" by (simp only: unat_eq_nat_uint)
  have "unat Z < 2 ^ 31" using h(6) by simp
  then have "int (unat Z) < int (2 ^ 31)" by (simp only: of_nat_less_iff)
  then have sZ: "sint Z = int (unat Z)" by (simp add: sint_uint signed_take_bit_int_eq_self order_trans [OF _ uint_ge_0])
  have "int (unat Z) \<le> int 0x100000" using h(6) by (simp only: of_nat_le_iff)
  then have uz: "uint Z \<le> 0x100000" by simp
  have nm: "length (p_name ?p @ ''_'' @ i2a c 10) < 32" using h(8) i2a_short [of c] h(1,2) by simp
  have "s32 (child_area c + int (unat Z)) = child_area c + int (unat Z)" using ca uz order_trans [OF _ uint_ge_0, of "- 2147483648" Z] by (intro s32_small) simp_all
  then have al: "alloc_mem c (sint Z) s = Inr (child_area c)" unfolding sZ using h(1,7) uz by (simp add: alloc_mem_def Let_def)
  have D: "unat B + unat Z \<le> unat ?C \<or> unat ?C + unat Z \<le> unat B" "unat ?C + unat Z \<le> 2 ^ 32"
    using h(9,6) ca unfolding uC by simp_all
  show "\<And>i j. i < unat Z \<Longrightarrow> j < unat Z \<Longrightarrow> ?C + of_nat i \<noteq> B + of_nat j" using disjoint_areas [OF D(1) h(10) D(2)] .
  have sD: "seg_size (seg_limit_T t) ?d = Z" using h(5) by (simp add: Z_def seg_size_def)
  have "vsprintf ''%s_%d'' [Str (p_name ?p), Num c] = Inr (p_name ?p @ ''_'' @ i2a c 10)" using vsprintf_name [of "p_name ?p" c] h(1,8) by simp
  then show "\<exists>s'. fork_image c s = Inr s' \<and> fs_mem (mm_fs s') = phys_copy (fs_mem (mm_fs s)) ?C B (unat Z) \<and>
      mm_kern s' = upd_proc c (\<lambda>_. child_entry c s) (mm_kern s) \<and>
      f_desc_table (mm_fs s') = f_desc_table (mm_fs s) \<and> inode_table (mm_fs s') = inode_table (mm_fs s) \<and> mm_msg s' = mm_msg s"
    using nm al h(3,4) sD unfolding fork_image_def child_entry_def Let_def t_def [symmetric] B_def [symmetric] Z_def [symmetric] by simp
qed

text \<open>
  C32: The child is a copy of its parent: when the parent's segments agree and fit, filling the
  child's slot succeeds, the child's area of memory holds the parent's image byte for byte and no
  other byte changes, the child has the registers, the open files and the pending receive of
  its parent under its own LDT selector, its addresses lead into its own area, and no other
  process changes.
\<close>

theorem fork_child_image:
  fixes s :: mm
  defines "parent \<equiv> ptab s (source (mm_msg s))"
  defines "B \<equiv> seg_base (p_ldts parent INDEX_LDT_CODE)" and "Z \<equiv> seg_size (seg_limit_T (p_ldts parent INDEX_LDT_CODE)) (p_ldts parent INDEX_LDT_CODE)"
  assumes "9 \<le> c" "c < 37" "source (mm_msg s) \<noteq> c"
    "seg_base (p_ldts parent INDEX_LDT_DATA) = B" "seg_limit_D (p_ldts parent INDEX_LDT_DATA) = seg_limit_T (p_ldts parent INDEX_LDT_CODE)"
    "limit_high_attr2 (p_ldts parent INDEX_LDT_DATA) AND 0x80 = limit_high_attr2 (p_ldts parent INDEX_LDT_CODE) AND 0x80"
    "unat Z \<le> 0x100000" "child_area c + int (unat Z) < memory_size s" "length (p_name parent) < 20"
    "unat B + unat Z \<le> nat (child_area c) \<or> nat (child_area c) + unat Z \<le> unat B" "unat B + unat Z \<le> 2 ^ 32"
  shows "\<exists>s'. fork_image c s = Inr s' \<and>
    (\<forall>k<unat Z. fs_mem (mm_fs s') (of_int (child_area c) + of_nat k) = fs_mem (mm_fs s) (B + of_nat k)) \<and>
    (\<forall>a. (\<forall>k<unat Z. a \<noteq> of_int (child_area c) + of_nat k) \<longrightarrow> fs_mem (mm_fs s') a = fs_mem (mm_fs s) a) \<and>
    p_regs (ptab s' c) = p_regs parent \<and> p_filp (ptab s' c) = p_filp parent \<and> p_flags (ptab s' c) = p_flags parent \<and>
    p_msg (ptab s' c) = p_msg parent \<and> p_recvfrom (ptab s' c) = p_recvfrom parent \<and>
    p_parent (ptab s' c) = source (mm_msg s) \<and> p_ldt_sel (ptab s' c) = p_ldt_sel (ptab s c) \<and>
    (\<forall>va. va2la (mm_kern s') c va = Inr (of_int (child_area c) + va)) \<and> (\<forall>p. p \<noteq> c \<longrightarrow> ptab s' p = ptab s p)"
proof -
  let ?C = "of_int (child_area c) :: u32"
  have fits: "image_fits c s" using assms(4-14) unfolding image_fits_def Let_def parent_def B_def Z_def by blast
  from fork_image_run(1) [OF fits] obtain s' where s': "fork_image c s = Inr s'" "fs_mem (mm_fs s') = phys_copy (fs_mem (mm_fs s)) ?C B (unat Z)"
      "mm_kern s' = upd_proc c (\<lambda>_. child_entry c s) (mm_kern s)"
    unfolding B_def Z_def parent_def by blast
  note cp = fork_image_run(2) [OF fits, folded parent_def, folded B_def Z_def]
  have "desc_base (p_ldts (child_entry c s) INDEX_LDT_DATA) = ?C" by (simp add: child_entry_def Let_def)
  then have "va2la (mm_kern s') c va = Inr (?C + va)" for va
    using assms(4) by (simp add: va2la_def s'(3) upd_proc_def ldt_seg_linear_desc)
  moreover have "fs_mem (mm_fs s') (?C + of_nat k) = fs_mem (mm_fs s) (B + of_nat k)" if "k < unat Z" for k
    unfolding s'(2) using cp that assms(10) by (intro phys_copy_at) auto
  moreover have "fs_mem (mm_fs s') a = fs_mem (mm_fs s) a" if "\<forall>k<unat Z. a \<noteq> ?C + of_nat k" for a
    unfolding s'(2) using that by (intro phys_copy_other) blast
  ultimately show ?thesis using s'(1) by (intro exI [of _ s']) (simp add: s'(3) upd_proc_def parent_def)
qed

text \<open>Whatever the state, \<open>do_fork()\<close> does not return to its caller as long as a slot is free.\<close>

lemma do_fork_no_child:
  "(if \<exists>p \<in> set slots. p_flags (ptab s p) = FREE_SLOT then \<exists>e. do_fork junk loc s = Inl e else do_fork junk loc s = Inr (- 1, s))"
proof (cases "find (\<lambda>p. p_flags (ptab s p) = FREE_SLOT) slots")
  case None
  then have "\<forall>p \<in> set slots. p_flags (ptab s p) \<noteq> FREE_SLOT" by (simp add: find_None_iff)
  then show ?thesis using None by (auto simp: do_fork_def)
next
  case (Some i)
  then have i: "i \<in> set slots" "p_flags (ptab s i) = FREE_SLOT" by (auto simp: find_Some_iff)
  then have "i < 37" by (simp add: slots_def)
  have no: "runs (\<lambda>_. False) (mm_send loc i m t)" if "9 \<le> i" for m t
    using that \<open>i < 37\<close> by (auto simp: mm_send_def sys_sendrec_def assertE_def Let_def)
  have "runs (\<lambda>_. False) (do_fork junk loc s)"
  proof (cases "9 \<le> i")
    case True
    have "runs (\<lambda>_. False) (bindE (mm_send loc i m t) (\<lambda>s4. Inr (0, s4)))" for m t by (rule runs_bind [OF no [OF True]]) simp
    then show ?thesis using Some True \<open>i < 37\<close> unfolding do_fork_def Let_def
      by (auto intro!: runs_bind_any [of "fork_image _ _"] runs_bind_any [of "tell_fs _ _ _ _"])
  qed (use Some in \<open>simp add: do_fork_def\<close>)
  then have "\<exists>e. do_fork junk loc s = Inl e" by (cases "do_fork junk loc s") simp_all
  then show ?thesis using i by auto
qed

text \<open>The message to the file system for a slot that was filled from its parent.\<close>

lemma tell_fs_fork:
  assumes "file_inv h (clear_files c (mm_fs s))" "copied c (mm_fs s)"
  shows "\<exists>s'. tell_fs junk FORK c s = Inr s' \<and> file_inv h (mm_fs s') \<and> mm_kern s' = mm_kern s \<and> mm_msg s' = mm_msg s"
proof -
  let ?m = "junk\<lparr>source := TASK_MM, mtype := FORK, m3i2 := c\<rparr>"
  let ?t = "(mm_fs s)\<lparr>fs_msg := ?m, pcaller := TASK_MM\<rparr>"
  have "file_inv h (clear_files (m3i2 (fs_msg ?t)) ?t)" "copied (m3i2 (fs_msg ?t)) ?t"
    using assms by (simp_all add: file_inv_def copied_def)
  from fs_fork_run [OF this] obtain u where "fs_fork ?t = Inr (0, u)" "file_inv h u" "fs_kern u = mm_kern s" by auto
  then show ?thesis
    by (cases "mtype (fs_msg u) = SUSPEND_PROC") (auto simp: tell_fs_def task_fs_msg_def Let_def)
qed

lemma fork_child_counted:
  assumes inv: "file_inv h (mm_fs s)" and c: "c \<in> set slots" "source (mm_msg s) \<in> set slots" "source (mm_msg s) \<noteq> c"
    and free: "\<And>i. i < NR_FILES \<Longrightarrow> filp (mm_fs s) c i = None"
    and s1: "mm_kern s1 = upd_proc c (\<lambda>_. child_entry c s) (mm_kern s)"
      "f_desc_table (mm_fs s1) = f_desc_table (mm_fs s)" "inode_table (mm_fs s1) = inode_table (mm_fs s)"
  shows "file_inv h (clear_files c (mm_fs s1))" "copied c (mm_fs s1)"
proof -
  have F: "filp (mm_fs s1) = (filp (mm_fs s))(c := filp (mm_fs s) (source (mm_msg s)))" by (auto simp: s1(1) upd_proc_def)
  have "counted h ((filp (mm_fs s1))(c := (\<lambda>_. None))) (f_desc_table (mm_fs s)) (inode_table (mm_fs s))"
    by (rule counted_files_cong [OF inv [unfolded file_inv_def]]) (auto simp: F free)
  then show "file_inv h (clear_files c (mm_fs s1))" by (simp add: file_inv_def s1(2,3))
  have "filp (mm_fs s1) c = filp (mm_fs s1) (source (mm_msg s))" using c(3) by (simp add: s1(1) upd_proc_def)
  then show "copied c (mm_fs s1)" unfolding copied_def using c by auto
qed

text \<open>
  C34: No child is ever started. When the file system's counts are right, the first free slot \<open>c\<close> is
  above the native ones and has no files, and the parent's image fits, \<open>do_fork()\<close> fills the slot and
  the file system takes over the parent's files for it; but then the message that would start the
  child fails the assertion of \<open>sys_sendrec()\<close> on its destination, which lets only the native
  processes pass. With no slot free \<open>do_fork()\<close> returns \<open>-1\<close>.
\<close>

theorem fork_never_starts:
  assumes "file_inv h (mm_fs s)" "find (\<lambda>p. p_flags (ptab s p) = FREE_SLOT) slots = Some c" "image_fits c s"
    "source (mm_msg s) \<in> set slots" "\<And>i. i < NR_FILES \<Longrightarrow> filp (mm_fs s) c i = None" "k_reenter (mm_kern s) = 0"
  shows "(\<exists>s1 s2. fork_image c s = Inr s1 \<and> tell_fs junk FORK c s1 = Inr s2 \<and> file_inv h (mm_fs s2) \<and>
      mm_send loc c (junk\<lparr>mtype := SYSCALL_RET, m3i1 := 0, m3i2 := 0\<rparr>) (s2\<lparr>mm_msg := (mm_msg s2)\<lparr>m3i2 := c\<rparr>\<rparr>) =
        Inl (AssertFailed ''src_dest'')) \<and>
    do_fork junk loc s = Inl (AssertFailed ''src_dest'') \<and>
    (\<forall>t. (\<forall>p \<in> set slots. p_flags (ptab t p) \<noteq> FREE_SLOT) \<longrightarrow> do_fork junk loc t = Inr (- 1, t))"
proof -
  have c: "9 \<le> c" "c < 37" "source (mm_msg s) \<noteq> c" using assms(3) by (simp_all add: image_fits_def Let_def)
  then have cs: "c \<in> set slots" by (simp add: set_slots)
  from fork_image_run(1) [OF assms(3)] obtain s1 where
    s1: "fork_image c s = Inr s1" "mm_kern s1 = upd_proc c (\<lambda>_. child_entry c s) (mm_kern s)"
      "f_desc_table (mm_fs s1) = f_desc_table (mm_fs s)" "inode_table (mm_fs s1) = inode_table (mm_fs s)" by blast
  note f = fork_child_counted [OF assms(1) cs assms(4) c(3) assms(5) s1(2-4)]
  from tell_fs_fork [OF f, of junk] obtain s2 where
    s2: "tell_fs junk FORK c s1 = Inr s2" "file_inv h (mm_fs s2)" "mm_kern s2 = mm_kern s1" by blast
  have "k_reenter (mm_kern s2) = 0" using assms(6) by (simp add: s2(3) s1(2) upd_proc_def)
  then have send: "mm_send loc c m (s2\<lparr>mm_msg := x\<rparr>) = Inl (AssertFailed ''src_dest'')" for m x
    using c by (simp add: mm_send_def sys_sendrec_def assertE_def Let_def)
  have "do_fork junk loc s = Inl (AssertFailed ''src_dest'')"
    using c s1(1) s2(1) send by (simp add: do_fork_def assms(2))
  moreover have "do_fork junk loc t = Inr (- 1, t)" if "\<forall>p \<in> set slots. p_flags (ptab t p) \<noteq> FREE_SLOT" for t
    using that do_fork_no_child [of t junk loc] by auto
  ultimately show ?thesis using s1(1) s2(1,2) send by blast
qed

subsection \<open>exit() and wait()\<close>

lemma upd_filp_triv: "upd_proc p (\<lambda>x. x\<lparr>p_filp := p_filp (proc_table k p)\<rparr>) k = k"
  by (simp add: upd_proc_def)

lemma upd_filp_twice: "upd_proc p (\<lambda>x. x\<lparr>p_filp := g\<rparr>) (upd_proc p (\<lambda>x. x\<lparr>p_filp := f\<rparr>) k) = upd_proc p (\<lambda>x. x\<lparr>p_filp := g\<rparr>) k"
  by (simp add: upd_proc_def)

lemma upd_filp_kern: "fs_kern (upd_filp p i v s) = upd_proc p (\<lambda>x. x\<lparr>p_filp := (p_filp (proc_table (fs_kern s) p))(i := v)\<rparr>) (fs_kern s)"
  by (simp add: upd_filp_def upd_proc_def)

text \<open>The part of the state \<open>fs_exit()\<close> leaves alone.\<close>

definition kern_but_files :: "int \<Rightarrow> fs \<Rightarrow> fs \<Rightarrow> bool" where
  "kern_but_files p s t \<longleftrightarrow> (\<exists>f. fs_kern t = upd_proc p (\<lambda>x. x\<lparr>p_filp := f\<rparr>) (fs_kern s))"

lemma exit_fds_kern: "kern_but_files p s0 s \<Longrightarrow> runs (kern_but_files p s0) (each_fd (exit_fd p) is s)"
proof (induction "is" arbitrary: s)
  case (Cons i "is")
  have "runs (kern_but_files p s0) (exit_fd p i s)"
    using Cons.prems unfolding exit_fd_def
    by (auto simp: upd_filp_kern kern_but_files_def upd_filp_twice split: option.split intro!: runs_bind_any [of "inode_of _ _"])
  then show ?case unfolding each_fd.simps by (rule runs_bind) (rule Cons.IH)
qed simp

lemma tell_fs_exit:
  assumes "file_inv h (mm_fs s)" "pid \<in> set slots"
  shows "\<exists>s' f. tell_fs junk EXIT pid s = Inr s' \<and> file_inv h (mm_fs s') \<and> mm_kern s' = upd_proc pid (\<lambda>x. x\<lparr>p_filp := f\<rparr>) (mm_kern s) \<and>
    mm_msg s' = mm_msg s \<and> (\<forall>i<64. filp (mm_fs s') pid i = None)"
proof -
  let ?m = "junk\<lparr>source := TASK_MM, mtype := EXIT, m3i2 := pid\<rparr>"
  let ?t = "(mm_fs s)\<lparr>fs_msg := ?m, pcaller := TASK_MM\<rparr>"
  have "file_inv h ?t" "m3i2 (fs_msg ?t) \<in> set slots" using assms by simp_all
  from fs_exit_run [OF this] obtain u where u: "fs_exit ?t = Inr (0, u)" "file_inv h u" "\<And>i. i < 64 \<Longrightarrow> filp u pid i = None" by auto
  have "kern_but_files pid ?t ?t" unfolding kern_but_files_def using upd_filp_triv [of pid "fs_kern ?t"] by metis
  from exit_fds_kern [OF this, of "[0..<64]"] u(1) have "kern_but_files pid ?t u" by (auto simp: fs_exit_def runs_def res_simps)
  then obtain f where f: "fs_kern u = upd_proc pid (\<lambda>x. x\<lparr>p_filp := f\<rparr>) (mm_kern s)" by (auto simp: kern_but_files_def)
  show ?thesis using u f
    by (cases "mtype (fs_msg u) = SUSPEND_PROC") (auto simp: tell_fs_def task_fs_msg_def Let_def intro!: exI [of _ f])
qed

text \<open>
  The memory manager while it handles a message: not taking part in a transfer, its data
  segment flat as \<open>va2la()\<close> asserts. A process that waits for its answer: blocked in \<open>RECEIVE\<close>.
\<close>

definition mm_ready :: "mm \<Rightarrow> bool" where
  "mm_ready s \<longleftrightarrow> k_reenter (mm_kern s) = 0 \<and> p_flags (ptab s TASK_MM) = 0 \<and> p_msg (ptab s TASK_MM) = 0 \<and>
     p_recvfrom (ptab s TASK_MM) = NO_TASK \<and> p_sendto (ptab s TASK_MM) = NO_TASK \<and> desc_base (p_ldts (ptab s TASK_MM) INDEX_LDT_DATA) = 0"

definition waits_for_mm :: "PROCESS \<Rightarrow> bool" where
  "waits_for_mm p \<longleftrightarrow> (p_recvfrom p = TASK_MM \<or> p_recvfrom p = ANY) \<and> p_msg p \<noteq> 0 \<and> p_sendto p = NO_TASK \<and>
     desc_base (p_ldts p INDEX_LDT_DATA) = 0"

lemma mm_send_deliver:
  assumes "mm_ready s" "0 \<le> q" "q < 9" "q \<noteq> 4" "waits_for_mm (ptab s q)" "p_flags (ptab s q) = RECEIVING" "loc \<noteq> 0"
  shows "mm_send loc q m s = Inr (upd_kern (\<lambda>k. upd_proc q (\<lambda>p. p\<lparr>p_msg := 0, p_flags := 0, p_recvfrom := NO_TASK\<rparr>)
    (k\<lparr>messages := (messages k)(loc := m\<lparr>source := 4\<rparr>, p_msg (ptab s q) := m\<lparr>source := 4\<rparr>)\<rparr>)) s)"
proof -
  let ?k = "(mm_kern s)\<lparr>messages := (messages (mm_kern s))(loc := m\<lparr>source := 4\<rparr>)\<rparr>"
  have va: "va2la k 4 loc' = Inr loc'" "va2la k q loc' = Inr loc'" if "proc_table k = ptab s" for k loc'
    using that assms(1,3,5) by (simp_all add: va2la_def ldt_seg_linear_desc mm_ready_def waits_for_mm_def)
  have dl: "deadlock ?k 4 q = Inr False" using assms(6) by (simp add: deadlock_def deadlock_from.simps)
  have del: "send_deliver 4 q loc ?k = Inr (upd_proc q (\<lambda>p. p\<lparr>p_msg := 0, p_flags := 0, p_recvfrom := NO_TASK\<rparr>)
      (?k\<lparr>messages := (messages ?k)(p_msg (ptab s q) := m\<lparr>source := 4\<rparr>)\<rparr>))"
    using assms va [of ?k]
    by (simp add: send_deliver_def Let_def unblock_def assert_idle_def mm_ready_def waits_for_mm_def upd_proc_def)
  have "sys_sendrec SEND q loc 4 ((mm_kern s)\<lparr>messages := (messages (mm_kern s))(loc := m)\<rparr>) = send_deliver 4 q loc ?k"
    using assms va [of "(mm_kern s)\<lparr>messages := (messages (mm_kern s))(loc := m)\<rparr>"] dl
    by (auto simp: sys_sendrec_def msg_send_def Let_def mm_ready_def waits_for_mm_def)
  then show ?thesis using del assms(1,4) by (simp add: mm_send_def Let_def upd_kern_def upd_proc_def mm_ready_def)
qed

lemma exit_orphans_none: "(\<And>i. i \<in> set is \<Longrightarrow> p_parent (ptab s i) \<noteq> pid) \<Longrightarrow> exit_orphans junk loc pid is s = Inr s"
  by (induction "is") auto

lemma upd_kern_simps [simp]:
  "mm_kern (upd_kern f s) = f (mm_kern s)" "mm_msg (upd_kern f s) = mm_msg s" "fs_mem (mm_fs (upd_kern f s)) = fs_mem (mm_fs s)"
  "f_desc_table (mm_fs (upd_kern f s)) = f_desc_table (mm_fs s)" "inode_table (mm_fs (upd_kern f s)) = inode_table (mm_fs s)"
  by (simp_all add: upd_kern_def)

lemma upd_proc_fields:
  "proc_table (upd_proc p f k) = (proc_table k)(p := f (proc_table k p))" "messages (upd_proc p f k) = messages k" "k_reenter (upd_proc p f k) = k_reenter k"
  by (simp_all add: upd_proc_def)

text \<open>
  C31: A process without children that ends while its parent, a native process, waits is reaped:
  \<open>do_exit()\<close> returns, the file system has closed the child's files, the parent is woken with a message that has the child's
  number and its exit status, and the child's slot is free.
\<close>

theorem exit_wakes_parent:
  assumes "file_inv h (mm_fs s)" "mm_ready s" "loc \<noteq> 0" "c = source (mm_msg s)" "c \<in> set slots" "q = p_parent (ptab s c)"
    "0 \<le> q" "q < 9" "q \<noteq> 4" "q \<noteq> c" "c \<noteq> 4" "waits_for_mm (ptab s q)" "p_flags (ptab s q) = RECEIVING OR WAITING"
    "\<And>i. i \<in> set slots \<Longrightarrow> p_parent (ptab s i) \<noteq> c"
  shows "\<exists>s' m. do_exit junk loc status s = Inr s' \<and> file_inv h (mm_fs s') \<and> (\<forall>i<NR_FILES. filp (mm_fs s') c i = None) \<and>
    p_flags (ptab s' c) = FREE_SLOT \<and> p_flags (ptab s' q) = 0 \<and> messages (mm_kern s') (p_msg (ptab s q)) = m \<and>
    source m = TASK_MM \<and> mtype m = SYSCALL_RET \<and> m3i2 m = c \<and> m3i1 m = status"
proof -
  from tell_fs_exit [OF assms(1,5)] obtain s1 f where
    s1: "tell_fs junk EXIT c s = Inr s1" "file_inv h (mm_fs s1)" "mm_kern s1 = upd_proc c (\<lambda>x. x\<lparr>p_filp := f\<rparr>) (mm_kern s)" "\<forall>i<64. filp (mm_fs s1) c i = None" by blast
  define s2 where "s2 = upd_kern (upd_proc c (\<lambda>x. x\<lparr>p_exit_status := status\<rparr>)) s1"
  define s3 where "s3 = upd_kern (upd_proc q (\<lambda>x. x\<lparr>p_flags := p_flags x AND NOT WAITING\<rparr>)) s2"
  have q: "q \<in> set slots" using assms(7,8) by (simp add: slots_def)
  have K: "mm_kern s3 = upd_proc q (\<lambda>x. x\<lparr>p_flags := RECEIVING\<rparr>) (upd_proc c (\<lambda>x. x\<lparr>p_filp := f, p_exit_status := status\<rparr>) (mm_kern s))"
    using assms(10,13) by (simp add: s3_def s2_def s1(3) upd_proc_def)
  have r: "mm_ready s3" "waits_for_mm (ptab s3 q)" "p_flags (ptab s3 q) = RECEIVING" "p_parent (ptab s3 c) = q" "p_exit_status (ptab s3 c) = status" "p_msg (ptab s3 q) = p_msg (ptab s q)"
    using assms(2,9-12) assms(6) [symmetric] by (simp_all add: mm_ready_def waits_for_mm_def K upd_proc_fields)
  let ?m = "junk\<lparr>mtype := SYSCALL_RET, m3i2 := c, m3i1 := status, source := 4\<rparr>"
  from mm_send_deliver [OF r(1) assms(7-9) r(2,3) assms(3)] r(4-6)
  have cl: "cleanup junk loc c s3 = Inr (upd_kern (upd_proc c (\<lambda>x. x\<lparr>p_flags := FREE_SLOT\<rparr>)) (upd_kern (\<lambda>k. upd_proc q (\<lambda>p. p\<lparr>p_msg := 0, p_flags := 0, p_recvfrom := NO_TASK\<rparr>)
    (k\<lparr>messages := (messages k)(loc := ?m, p_msg (ptab s q) := ?m)\<rparr>)) s3))" (is "_ = Inr ?s4") by (simp add: cleanup_def)
  have "exit_orphans junk loc c slots ?s4 = Inr ?s4"
    using assms(10,14) by (intro exit_orphans_none) (auto simp: K upd_proc_fields)
  moreover have "p_flags (ptab s2 q) AND WAITING \<noteq> 0" using assms(10,13) by (simp add: s2_def s1(3) upd_proc_def)
  ultimately have run: "do_exit junk loc status s = Inr ?s4"
    using s1(1) cl q assms(4,6) by (simp add: do_exit_def Let_def s2_def s3_def)
  have fp: "filp (mm_fs ?s4) = filp (mm_fs s1)" by (auto simp: s3_def s2_def upd_proc_fields fun_eq_iff)
  have "file_inv h (mm_fs ?s4)" using s1(2) fp unfolding file_inv_def by (simp add: s3_def s2_def)
  moreover have "\<forall>i<64. filp (mm_fs ?s4) c i = None" using s1(4) unfolding fun_cong [OF fp] .
  ultimately show ?thesis using run assms(10) by (intro exI [of _ ?s4] exI [of _ ?m]) (simp add: upd_proc_fields)
qed

text \<open>
  C33: A child that ends before its parent waits is not reaped by the parent's next \<open>wait()\<close>: it is blocked in the
  \<open>RECEIVE\<close> of its \<open>exit()\<close>, so its flags are \<open>RECEIVING | HANGING\<close>, while \<open>do_wait()\<close> looks for
  a child whose flags equal \<open>HANGING\<close>; the parent is made to wait, gets no message, and the
  child keeps its slot.
\<close>

theorem zombie_not_reaped:
  assumes "file_inv h (mm_fs s)" "c = source (mm_msg s)" "c \<in> set slots" "q = p_parent (ptab s c)" "q \<in> set slots" "q \<noteq> c"
    "p_flags (ptab s q) = RECEIVING" "p_flags (ptab s c) = RECEIVING" "\<And>i. i \<in> set slots \<Longrightarrow> p_parent (ptab s i) \<noteq> c"
    "\<And>i. p_parent (ptab s i) = q \<Longrightarrow> p_flags (ptab s i) \<noteq> HANGING" "source m = q"
  shows "\<exists>s1 s2. do_exit junk loc status s = Inr s1 \<and> do_wait junk loc (s1\<lparr>mm_msg := m\<rparr>) = Inr s2 \<and>
    p_flags (ptab s2 c) = RECEIVING OR HANGING \<and> p_flags (ptab s2 q) = RECEIVING OR WAITING \<and> messages (mm_kern s2) = messages (mm_kern s)"
proof -
  from tell_fs_exit [OF assms(1,3)] obtain s1 f where
    s1: "tell_fs junk EXIT c s = Inr s1" "mm_kern s1 = upd_proc c (\<lambda>x. x\<lparr>p_filp := f\<rparr>) (mm_kern s)" by blast
  define s2 where "s2 = upd_kern (upd_proc c (\<lambda>x. x\<lparr>p_flags := p_flags x OR HANGING\<rparr>)) (upd_kern (upd_proc c (\<lambda>x. x\<lparr>p_exit_status := status\<rparr>)) s1)"
  have K: "mm_kern s2 = upd_proc c (\<lambda>x. x\<lparr>p_filp := f, p_exit_status := status, p_flags := RECEIVING OR HANGING\<rparr>) (mm_kern s)"
    using assms(8) by (simp add: s2_def s1(2) upd_proc_def)
  have "exit_orphans junk loc c slots s2 = Inr s2" using assms(9) by (intro exit_orphans_none) (auto simp: K upd_proc_fields)
  then have ex: "do_exit junk loc status s = Inr s2"
    using s1 assms(2,4-7) by (simp add: do_exit_def Let_def s2_def upd_proc_fields)
  have nh: "p_flags (ptab s2 i) \<noteq> HANGING" if "p_parent (ptab s2 i) = q" for i
    using assms(8) assms(10) [of i] that by (auto simp: K upd_proc_fields split: if_splits)
  have sc: "\<exists>n. wait_scan (ptab s2) q is k = (None, n) \<and> k \<le> n \<and> (c \<in> set is \<longrightarrow> k < n)" for "is" k
    using nh assms(4) by (induction "is" arbitrary: k) (fastforce simp: K upd_proc_fields)+
  obtain n where "wait_scan (ptab s2) q slots 0 = (None, n)" "0 < n" using sc [of slots 0] assms(3) by auto
  then have "do_wait junk loc (s2\<lparr>mm_msg := m\<rparr>) = Inr (upd_kern (upd_proc q (\<lambda>x. x\<lparr>p_flags := p_flags x OR WAITING\<rparr>)) (s2\<lparr>mm_msg := m\<rparr>))"
    using assms(11) by (simp add: do_wait_def)
  then show ?thesis using ex assms(6,7) by (intro exI [of _ s2] exI conjI) (assumption | simp add: K upd_proc_fields)+
qed

subsection \<open>An example\<close>

text \<open>Process 5, with a segment of 1 MB and an open file, asks; process 6 is its parent.\<close>

definition demo_mm :: "u32 \<Rightarrow> mm" where
  "demo_mm fl =
     \<lparr>mm_fs = (demo_fs EXIT 9)\<lparr>fs_kern := (fs_kern (demo_fs EXIT 9))\<lparr>proc_table := (\<lambda>p.
        (if p = 5 then zero_process\<lparr>p_filp := [3 \<mapsto> 2], p_flags := RECEIVING, p_ldts := (\<lambda>_. init_desc 0 0xff 0xc098)\<rparr>
         else if p = 6 then zero_process\<lparr>p_flags := fl, p_msg := 0x1000\<rparr> else zero_process)
        \<lparr>p_parent := (if p = 5 then 6 else NO_TASK), p_recvfrom := (if p = 6 then 4 else NO_TASK), p_sendto := NO_TASK\<rparr>)\<rparr>\<rparr>,
      mm_msg = zero_msg\<lparr>source := 5, mtype := EXIT\<rparr>, memory_size = 0x4000000\<rparr>"

lemma demo_mm_facts:
  "file_inv (\<lambda>_. 0) (mm_fs (demo_mm fl))" "mm_ready (demo_mm fl)" "waits_for_mm (ptab (demo_mm fl) 6)" "source (mm_msg (demo_mm fl)) = 5"
  "p_parent (ptab (demo_mm fl) p) = (if p = 5 then 6 else 57)" "p_flags (ptab (demo_mm fl) 6) = fl" "p_flags (ptab (demo_mm fl) 5) = 4"
  "p_msg (ptab (demo_mm fl) 6) = 0x1000"
proof -
  have F: "filp (mm_fs (demo_mm fl)) = (\<lambda>_ _. None)(5 := [3 \<mapsto> 2])"
    by (auto simp: demo_mm_def zero_process_def fun_eq_iff)
  show "file_inv (\<lambda>_. 0) (mm_fs (demo_mm fl))" unfolding file_inv_def F counted_def demo_places
    by (auto simp: demo_mm_def demo_fs_def zero_file_desc_def zero_inode_def demo_inode_def)
  show "mm_ready (demo_mm fl)" "waits_for_mm (ptab (demo_mm fl) 6)"
    by (simp_all add: demo_mm_def mm_ready_def waits_for_mm_def demo_fs_def zero_process_def zero_desc_base)
qed (simp_all add: demo_mm_def zero_process_def)

theorem exit_wakes_parent_witness:
  "\<exists>s' m. do_exit zero_msg 0x2000 7 (demo_mm (RECEIVING OR WAITING)) = Inr s' \<and> p_flags (ptab s' 5) = FREE_SLOT \<and> p_flags (ptab s' 6) = 0 \<and>
     messages (mm_kern s') 0x1000 = m \<and> m3i2 m = 5 \<and> m3i1 m = 7"
proof -
  let ?s = "demo_mm (RECEIVING OR WAITING)"
  have f: "(0x2000 :: u32) \<noteq> 0" "5 = source (mm_msg ?s)" "(5 :: int) \<in> set slots" "6 = p_parent (ptab ?s 5)" "(0 :: int) \<le> 6" "(6 :: int) < 9"
    "(6 :: int) \<noteq> 4" "(6 :: int) \<noteq> 5" "(5 :: int) \<noteq> 4" by (simp_all add: demo_mm_facts slots_def)
  have n: "p_parent (ptab ?s i) \<noteq> 5" for i using demo_mm_facts(5) [of "RECEIVING OR WAITING" i] by simp
  from exit_wakes_parent [OF demo_mm_facts(1,2) f demo_mm_facts(3,6) n, of zero_msg 7]
  show ?thesis unfolding demo_mm_facts(8) by blast
qed

theorem zombie_not_reaped_witness:
  "\<exists>s1 s2. do_exit zero_msg 0x2000 7 (demo_mm RECEIVING) = Inr s1 \<and> do_wait zero_msg 0x2000 (s1\<lparr>mm_msg := zero_msg\<lparr>source := 6\<rparr>\<rparr>) = Inr s2 \<and>
     p_flags (ptab s2 5) = RECEIVING OR HANGING \<and> p_flags (ptab s2 6) = RECEIVING OR WAITING"
proof -
  have n: "p_parent (ptab (demo_mm fl) i) \<noteq> 5" for i fl using demo_mm_facts(5) [of fl i] by simp
  have h: "p_flags (ptab (demo_mm RECEIVING) i) \<noteq> HANGING" if "p_parent (ptab (demo_mm RECEIVING) i) = 6" for i
    using that demo_mm_facts(5) [of RECEIVING i] demo_mm_facts(7) [of RECEIVING] by (auto split: if_splits)
  have f: "5 = source (mm_msg (demo_mm RECEIVING))" "(5 :: int) \<in> set slots" "6 = p_parent (ptab (demo_mm RECEIVING) 5)" "(6 :: int) \<in> set slots"
    "(6 :: int) \<noteq> 5" by (simp_all add: demo_mm_facts slots_def)
  have m: "source (zero_msg\<lparr>source := 6\<rparr>) = 6" by simp
  from zombie_not_reaped [OF demo_mm_facts(1) f demo_mm_facts(6,7) n h m, of zero_msg "0x2000" 7] show ?thesis by blast
qed

theorem fork_child_image_witness:
  "\<exists>s'. fork_image 9 (demo_mm 0) = Inr s' \<and> fs_mem (mm_fs s') 0xa00123 = fs_mem (mm_fs (demo_mm 0)) 0x123 \<and>
     va2la (mm_kern s') 9 0x123 = Inr 0xa00123 \<and> p_filp (ptab s' 9) = p_filp (ptab (demo_mm 0) 5)"
proof -
  let ?p = "ptab (demo_mm 0) 5"
  have d: "p_ldts ?p i = init_desc 0 0xff 0xc098" "p_name ?p = ''''" "memory_size (demo_mm 0) = 0x4000000" for i
    by (simp_all add: demo_mm_def zero_process_def)
  have v: "seg_base (init_desc 0 0xff 0xc098) = 0" "seg_limit_T (init_desc 0 0xff 0xc098) = 0xff" "seg_limit_D (init_desc 0 0xff 0xc098) = 0xff"
    "seg_size 0xff (init_desc 0 0xff 0xc098) = 0x100000"
    by (simp add: seg_base_desc) (simp_all add: seg_limit_T_def seg_limit_D_def seg_size_def reassembly_def init_desc_def)
  from fork_child_image [of 9 "demo_mm 0", unfolded demo_mm_facts(4) d v] obtain s' where
    s': "fork_image 9 (demo_mm 0) = Inr s'" "\<And>k. k < 0x100000 \<Longrightarrow> fs_mem (mm_fs s') (0xa00000 + of_nat k) = fs_mem (mm_fs (demo_mm 0)) (of_nat k)"
      "\<And>va. va2la (mm_kern s') 9 va = Inr (0xa00000 + va)" "p_filp (ptab s' 9) = p_filp ?p"
    by auto
  have "fs_mem (mm_fs s') (0xa00000 + of_nat 0x123) = fs_mem (mm_fs (demo_mm 0)) (of_nat 0x123)" by (rule s'(2)) simp
  moreover have "va2la (mm_kern s') 9 0x123 = Inr (0xa00000 + 0x123)" by (rule s'(3))
  ultimately show ?thesis using s'(1,4) by (intro exI [of _ s']) simp
qed

text \<open>Process 5 asks for a child; slot 9 is the first free one.\<close>

definition demo_fork_mm :: mm where
  "demo_fork_mm = upd_kern (\<lambda>k. k\<lparr>proc_table := (\<lambda>p. if 9 \<le> p then (proc_table k p)\<lparr>p_flags := FREE_SLOT\<rparr> else proc_table k p)\<rparr>) (demo_mm 0)"

lemma demo_fork_mm_facts:
  "file_inv (\<lambda>_. 0) (mm_fs demo_fork_mm)" "find (\<lambda>p. p_flags (ptab demo_fork_mm p) = FREE_SLOT) slots = Some 9"
  "image_fits 9 demo_fork_mm" "source (mm_msg demo_fork_mm) = 5" "filp (mm_fs demo_fork_mm) 9 i = None" "k_reenter (mm_kern demo_fork_mm) = 0"
proof -
  let ?s = demo_fork_mm
  have t: "ptab ?s p = (if 9 \<le> p then (ptab (demo_mm 0) p)\<lparr>p_flags := FREE_SLOT\<rparr> else ptab (demo_mm 0) p)" for p by (simp add: demo_fork_mm_def)
  have F: "filp (mm_fs ?s) = filp (mm_fs (demo_mm 0))" by (auto simp: t)
  show "file_inv (\<lambda>_. 0) (mm_fs ?s)" using demo_mm_facts(1) [of 0] unfolding file_inv_def F by (simp add: demo_fork_mm_def)
  have fl: "p_flags (ptab ?s p) = FREE_SLOT \<longleftrightarrow> 9 \<le> p" for p by (simp add: t demo_mm_def zero_process_def)
  show "find (\<lambda>p. p_flags (ptab ?s p) = FREE_SLOT) slots = Some 9" unfolding fl by (simp add: slots_def upto_rec1)
  show src: "source (mm_msg ?s) = 5" by (simp add: demo_fork_mm_def demo_mm_facts)
  have v: "seg_base (init_desc 0 0xff 0xc098) = 0" "seg_limit_T (init_desc 0 0xff 0xc098) = 0xff" "seg_limit_D (init_desc 0 0xff 0xc098) = 0xff"
    "seg_size 0xff (init_desc 0 0xff 0xc098) = 0x100000"
    by (simp add: seg_base_desc) (simp_all add: seg_limit_T_def seg_limit_D_def seg_size_def reassembly_def init_desc_def)
  have p5: "p_ldts (ptab ?s 5) i = init_desc 0 0xff 0xc098" "p_name (ptab ?s 5) = []" for i by (simp_all add: t demo_mm_def zero_process_def)
  have "memory_size ?s = 0x4000000" by (simp add: demo_fork_mm_def upd_kern_def demo_mm_def)
  then show "image_fits 9 ?s" by (simp add: image_fits_def Let_def src p5 v)
  show "filp (mm_fs ?s) 9 i = None" by (simp add: t demo_mm_def zero_process_def)
  show "k_reenter (mm_kern ?s) = 0" by (simp add: demo_fork_mm_def demo_mm_def demo_fs_def)
qed

theorem fork_never_starts_witness:
  "(\<exists>s1 s2. fork_image 9 demo_fork_mm = Inr s1 \<and> tell_fs zero_msg FORK 9 s1 = Inr s2 \<and>
     mm_send 0x2000 9 (zero_msg\<lparr>mtype := SYSCALL_RET\<rparr>) (s2\<lparr>mm_msg := (mm_msg s2)\<lparr>m3i2 := 9\<rparr>\<rparr>) = Inl (AssertFailed ''src_dest'')) \<and>
   do_fork zero_msg 0x2000 demo_fork_mm = Inl (AssertFailed ''src_dest'')"
proof -
  have z: "zero_msg\<lparr>mtype := SYSCALL_RET, m3i1 := 0, m3i2 := 0\<rparr> = zero_msg\<lparr>mtype := SYSCALL_RET\<rparr>" by (simp add: zero_msg_def)
  have s5: "source (mm_msg demo_fork_mm) \<in> set slots" by (simp add: demo_fork_mm_facts set_slots)
  from fork_never_starts [OF demo_fork_mm_facts(1-3) s5 demo_fork_mm_facts(5,6), of zero_msg "0x2000"] show ?thesis unfolding z by blast
qed

end
