(* ===== verification/Klib.thy ===== *)
theory Klib
  imports Mm
begin

section \<open>Where the kernel lies in memory (lib/klib.c)\<close>

text \<open>
  \<open>get_kernel_map()\<close> reads the section headers of the kernel file the loader left in memory. The
  offsets of the fields are those of \<open>Elf32_Ehdr\<close> and \<open>Elf32_Shdr\<close> of the ELF standard
  (\<^verbatim>\<open>elf.h\<close> of the C library).
\<close>

definition ld32 :: "(u32 \<Rightarrow> u8) \<Rightarrow> u32 \<Rightarrow> u32" where
  "ld32 b a = get32 (\<lambda>k. b (a + of_int k)) 0"

definition ld16 :: "(u32 \<Rightarrow> u8) \<Rightarrow> u32 \<Rightarrow> u16" where
  "ld16 b a = ucast (b a) OR push_bit 8 (ucast (b (a + 1)))"

text \<open>Fields of \<open>elf_header\<close>.\<close>

abbreviation e_shoff :: "(u32 \<Rightarrow> u8) \<Rightarrow> u32 \<Rightarrow> u32" where "e_shoff b h \<equiv> ld32 b (h + 32)"
abbreviation e_shentsize :: "(u32 \<Rightarrow> u8) \<Rightarrow> u32 \<Rightarrow> u16" where "e_shentsize b h \<equiv> ld16 b (h + 46)"
abbreviation e_shnum :: "(u32 \<Rightarrow> u8) \<Rightarrow> u32 \<Rightarrow> u16" where "e_shnum b h \<equiv> ld16 b (h + 48)"

definition section_header :: "(u32 \<Rightarrow> u8) \<Rightarrow> u32 \<Rightarrow> nat \<Rightarrow> u32" where
  "section_header b kf i = kf + e_shoff b kf + of_nat i * ucast (e_shentsize b kf)"

text \<open>\<open>sh_flags & SHF_ALLOC\<close>, \<open>bottom\<close> and \<open>top\<close> of section \<open>i\<close>.\<close>

definition sh_alloc :: "(u32 \<Rightarrow> u8) \<Rightarrow> u32 \<Rightarrow> nat \<Rightarrow> bool" where
  "sh_alloc b kf i \<longleftrightarrow> ld32 b (section_header b kf i + 8) AND 2 \<noteq> 0"

definition sh_bottom :: "(u32 \<Rightarrow> u8) \<Rightarrow> u32 \<Rightarrow> nat \<Rightarrow> u32" where
  "sh_bottom b kf i = ld32 b (section_header b kf i + 12)"

definition sh_top :: "(u32 \<Rightarrow> u8) \<Rightarrow> u32 \<Rightarrow> nat \<Rightarrow> u32" where
  "sh_top b kf i = ld32 b (section_header b kf i + 12) + ld32 b (section_header b kf i + 20)"

definition map_section :: "(u32 \<Rightarrow> u8) \<Rightarrow> u32 \<Rightarrow> nat \<Rightarrow> u32 \<times> u32 \<Rightarrow> u32 \<times> u32" where
  "map_section b kf i = (\<lambda>(lo, t).
     if sh_alloc b kf i
     then (if lo > sh_bottom b kf i then sh_bottom b kf i else lo, if t < sh_top b kf i then sh_top b kf i else t)
     else (lo, t))"

text \<open>\<open>elfmag\<close> is the address of the string \<open>ELFMAG\<close>; the result \<open>None\<close> stands for the return value -1.\<close>

definition get_kernel_map :: "(u32 \<Rightarrow> u8) \<Rightarrow> u32 \<Rightarrow> (u32 \<times> u32) option res" where
  "get_kernel_map b elfmag =
     bindE (get_boot_params b) (\<lambda>(mem_size, kf).
       if memcmp b kf elfmag 4 \<noteq> 0 then Inr None
       else let (lo, t) = fold (map_section b kf) [0..<unat (e_shnum b kf)] (NOT 0, 0)
            in assertE (lo < t) ''*b < t'' (Inr (Some (lo, t - lo - 1))))"

subsection \<open>The map is the hull of the sections\<close>

lemma fold_map_section:
  "fold (map_section b kf) is (lo, t) =
    (foldl min lo (map (sh_bottom b kf) (filter (sh_alloc b kf) is)), foldl max t (map (sh_top b kf) (filter (sh_alloc b kf) is)))"
  by (induction "is" arbitrary: lo t) (auto simp: map_section_def min_def max_def)

lemma foldl_min_Min: "foldl min (x :: 'a :: linorder) xs = Min (set (x # xs))"
proof (induction xs arbitrary: x)
  case (Cons a xs)
  then show ?case by (cases "xs = []") (simp_all add: min.assoc)
qed simp

lemma foldl_max_Max: "foldl max (x :: 'a :: linorder) xs = Max (set (x # xs))"
proof (induction xs arbitrary: x)
  case (Cons a xs)
  then show ?case by (cases "xs = []") (simp_all add: max.assoc)
qed simp

text \<open>
  C37: When the file is an ELF file and has an allocated section that is not empty,
  \<open>get_kernel_map()\<close> succeeds with base \<open>lo\<close> and limit \<open>len\<close> such that \<open>lo\<close> is the lowest address
  and \<open>lo + len\<close> the last byte of the allocated sections: all of them lie in between, and both
  ends are reached.
\<close>

theorem kernel_map_hull:
  assumes "get_boot_params b = Inr (n, kf)" "memcmp b kf elfmag 4 = 0"
    and S: "S = {i. i < unat (e_shnum b kf) \<and> sh_alloc b kf i}" and "i \<in> S" "sh_bottom b kf i < sh_top b kf i"
  shows "\<exists>lo len. get_kernel_map b elfmag = Inr (Some (lo, len)) \<and> lo = Min (sh_bottom b kf ` S) \<and>
    uint lo + uint len + 1 = uint (Max (sh_top b kf ` S))"
proof -
  let ?is = "filter (sh_alloc b kf) [0..<unat (e_shnum b kf)]"
  have S': "set ?is = S" "finite S" "S \<noteq> {}" using S assms(4) by auto
  define lo where "lo = Min (sh_bottom b kf ` S)"
  define t where "t = Max (sh_top b kf ` S)"
  have "foldl min (NOT 0) (map (sh_bottom b kf) ?is) = lo"
    unfolding foldl_min_Min lo_def using S' by (simp add: min_absorb2)
  moreover have "foldl max 0 (map (sh_top b kf) ?is) = t"
    unfolding foldl_max_Max t_def using S' by (simp add: max_absorb2)
  moreover have lt: "lo < t"
  proof -
    have "lo \<le> sh_bottom b kf i" "sh_top b kf i \<le> t" using S' assms(4) by (simp_all add: lo_def t_def)
    then show ?thesis using assms(5) by order
  qed
  ultimately have "get_kernel_map b elfmag = Inr (Some (lo, t - lo - 1))"
    using assms(1,2) by (simp add: get_kernel_map_def fold_map_section assertE_def)
  moreover have "uint lo + uint (t - lo - 1) + 1 = uint t"
  proof -
    have "uint (t - lo) = uint t - uint lo" using iffD1 [OF uint_minus_simple_alt [of lo t] less_imp_le [OF lt]] .
    moreover have "1 \<le> t - lo" using lt by (metis less_irrefl linorder_not_less right_minus_eq word_less_1)
    then have "uint (t - lo - 1) = uint (t - lo) - 1" by (simp add: uint_minus_simple_alt)
    ultimately show ?thesis by simp
  qed
  ultimately show ?thesis unfolding lo_def t_def by blast
qed


text \<open>A kernel file at address \<open>0x1000\<close> with an empty section and one of \<open>0x2300\<close> bytes at \<open>0x30400\<close>.\<close>

definition demo_elf :: "u32 \<Rightarrow> u8" where
  "demo_elf a = (case map_of [(0x900, 0x07), (0x901, 0xb0), (0x909, 0x10),
     (0x1000, 0x7f), (0x1001, 0x45), (0x1002, 0x4c), (0x1003, 0x46), (0x2000, 0x7f), (0x2001, 0x45), (0x2002, 0x4c), (0x2003, 0x46),
     (0x1020, 64), (0x102e, 40), (0x1030, 2),
     (0x1070, 2), (0x1075, 4), (0x1076, 3), (0x107d, 0x23)] a of Some v \<Rightarrow> v | None \<Rightarrow> 0)"

lemma demo_elf_facts:
  "get_boot_params demo_elf = Inr (0, 0x1000)" "memcmp demo_elf 0x1000 0x2000 4 = 0" "e_shnum demo_elf 0x1000 = 2"
  "\<not> sh_alloc demo_elf 0x1000 0" "sh_alloc demo_elf 0x1000 1" "sh_bottom demo_elf 0x1000 1 = 0x30400" "sh_top demo_elf 0x1000 1 = 0x32700"
proof -
  show "get_boot_params demo_elf = Inr (0, 0x1000)" by code_simp
  show "memcmp demo_elf 0x1000 0x2000 4 = 0" by code_simp
  show "e_shnum demo_elf 0x1000 = 2" by code_simp
  show "\<not> sh_alloc demo_elf 0x1000 0" by code_simp
  show "sh_alloc demo_elf 0x1000 1" by code_simp
  show "sh_bottom demo_elf 0x1000 1 = 0x30400" by code_simp
  show "sh_top demo_elf 0x1000 1 = 0x32700" by code_simp
qed

theorem kernel_map_hull_witness: "\<exists>lo len. get_kernel_map demo_elf 0x2000 = Inr (Some (lo, len)) \<and> lo = 0x30400 \<and> uint lo + uint len + 1 = 0x32700"
proof -
  have "{i. i < unat (e_shnum demo_elf 0x1000) \<and> sh_alloc demo_elf 0x1000 i} = {1}"
    using demo_elf_facts by (auto simp: less_2_cases_iff)
  from kernel_map_hull [OF demo_elf_facts(1,2) this [symmetric], of 1] demo_elf_facts show ?thesis by simp
qed

end
