(* ===== verification/Start.thy ===== *)
theory Start
  imports Debug Klib
begin

section \<open>The start of the kernel (kernel/start.c)\<close>

text \<open>
  \<open>cstart()\<close> moves the descriptor table the loader built into the kernel's own \<open>gdt\<close>, writes the
  operands of \<open>lgdt\<close> and \<open>lidt\<close>, and fills the tables with \<open>init_protect()\<close>. Memory is \<open>b\<close>; the
  addresses of \<open>gdt_ptr\<close>, \<open>idt_ptr\<close>, \<open>gdt\<close> and \<open>idt\<close> are arguments.
\<close>

definition st16 :: "(u32 \<Rightarrow> u8) \<Rightarrow> u32 \<Rightarrow> u16 \<Rightarrow> (u32 \<Rightarrow> u8)" where
  "st16 b a w = phys_write b a [ucast w, ucast (drop_bit 8 w)]"

definition st32 :: "(u32 \<Rightarrow> u8) \<Rightarrow> u32 \<Rightarrow> u32 \<Rightarrow> (u32 \<Rightarrow> u8)" where
  "st32 b a w = phys_write b a (bytes32 w)"

text \<open>The descriptor in the eight bytes at \<open>a\<close>.\<close>

definition desc_at :: "(u32 \<Rightarrow> u8) \<Rightarrow> u32 \<Rightarrow> DESCRIPTOR" where
  "desc_at b a = \<lparr>limit_low = ld16 b a, base_low = ld16 b (a + 2), base_mid = b (a + 4), attr1 = b (a + 5),
     limit_high_attr2 = b (a + 6), base_high = b (a + 7)\<rparr>"

definition move_gdt :: "u32 \<Rightarrow> u32 \<Rightarrow> u32 \<Rightarrow> u32 \<Rightarrow> (u32 \<Rightarrow> u8) \<Rightarrow> (u32 \<Rightarrow> u8)" where
  "move_gdt gdt_ptr idt_ptr gdt_at idt_at b =
     (let gdt_limit = ld16 b gdt_ptr; gdt_base = ld32 b (gdt_ptr + 2);
          b1 = phys_copy b gdt_at gdt_base (unat gdt_limit + 1);
          b2 = st32 (st16 b1 gdt_ptr (128 * 8 - 1)) (gdt_ptr + 2) gdt_at
      in st32 (st16 b2 idt_ptr (256 * 8 - 1)) (idt_ptr + 2) idt_at)"

definition cstart :: "u32 \<Rightarrow> u32 \<Rightarrow> u32 \<Rightarrow> u32 \<Rightarrow> (entry_point \<Rightarrow> u32) \<Rightarrow> u32 \<Rightarrow> (nat \<Rightarrow> u32) \<Rightarrow> (u32 \<Rightarrow> u8) \<Rightarrow> prot \<Rightarrow> screen \<Rightarrow>
    ((u32 \<Rightarrow> u8) \<times> prot \<times> screen) res" where
  "cstart gdt_ptr idt_ptr gdt_at idt_at addr tss_addr ldts_addr b s v =
     (let v1 = disp_str (nl @ nl @ nl @ ''------cstart begin------'' @ nl) v;
          b1 = move_gdt gdt_ptr idt_ptr gdt_at idt_at b
      in bindE (init_protect addr tss_addr ldts_addr (s\<lparr>gdt := (\<lambda>i. desc_at b1 (gdt_at + 8 * of_nat i))\<rparr>)) (\<lambda>s1.
           Inr (b1, s1, disp_str (''------cstart end------'' @ nl) v1)))"

subsection \<open>The loader's descriptors survive\<close>

lemma ld16_st16: "ld16 (st16 b a w) a = w"
proof (rule bit_word_eqI)
  fix n assume "n < LENGTH(16)"
  then show "bit (ld16 (st16 b a w) a) n \<longleftrightarrow> bit w n" by (auto simp: ld16_def st16_def phys_write_def bit_simps)
qed

lemma ld32_st32: "ld32 (st32 b a w) a = w"
proof -
  have "ld32 (st32 b a w) a = get32 (put32 0 w (\<lambda>_. 0)) 0"
    unfolding ld32_def
  proof (rule get32_cong)
    fix i :: int assume "0 \<le> i" "i < 0 + 4"
    then have "i = 0 \<or> i = 1 \<or> i = 2 \<or> i = 3" by auto
    then show "st32 b a w (a + of_int i) = put32 0 w (\<lambda>_. 0) i"
      by (elim disjE) (simp_all add: st32_def phys_write_def put32_def buf_write_def bytes32_def)
  qed
  then show ?thesis by simp
qed

lemma phys_write_other: "(\<And>j. j < length xs \<Longrightarrow> a \<noteq> p + of_nat j) \<Longrightarrow> phys_write b p xs a = b a"
proof -
  assume o: "\<And>j. j < length xs \<Longrightarrow> a \<noteq> p + of_nat j"
  have "a = p + of_nat (unat (a - p))" by simp
  then have "\<not> unat (a - p) < length xs" using o by blast
  then show ?thesis by (simp add: phys_write_def)
qed

lemma st_other:
  "(\<And>j. j < 2 \<Longrightarrow> x \<noteq> a + of_nat j) \<Longrightarrow> st16 b a w x = b x"
  "(\<And>j. j < 4 \<Longrightarrow> x \<noteq> a + of_nat j) \<Longrightarrow> st32 b a v x = b x"
  unfolding st16_def st32_def by (rule phys_write_other, simp add: bytes32_def)+

text \<open>The six bytes of a table pointer: limit and address.\<close>

definition st_ptr :: "(u32 \<Rightarrow> u8) \<Rightarrow> u32 \<Rightarrow> u16 \<Rightarrow> u32 \<Rightarrow> (u32 \<Rightarrow> u8)" where
  "st_ptr b p limit addr = st32 (st16 b p limit) (p + 2) addr"

lemma st_ptr_other: "(\<And>j. j < 6 \<Longrightarrow> x \<noteq> p + of_nat j) \<Longrightarrow> st_ptr b p limit addr x = b x"
proof -
  assume o: "\<And>j. j < 6 \<Longrightarrow> x \<noteq> p + of_nat j"
  have "x \<noteq> p + 2 + of_nat j" if "j < 4" for j using o [of "j + 2"] that by (simp add: algebra_simps)
  moreover have "x \<noteq> p + of_nat j" if "j < 2" for j using o [of j] that by simp
  ultimately show ?thesis by (simp add: st_ptr_def st_other)
qed

lemma st_ptr_reads: "ld16 (st_ptr b p limit addr) p = limit" "ld32 (st_ptr b p limit addr) (p + 2) = addr"
proof -
  have "st_ptr b p limit addr p = st16 b p limit p" "st_ptr b p limit addr (p + 1) = st16 b p limit (p + 1)"
    by (simp_all add: st_ptr_def st32_def phys_write_def bytes32_def unsigned_minus_1_eq_mask mask_eq_exp_minus_1)
  then show "ld16 (st_ptr b p limit addr) p = limit" using ld16_st16 [of b p limit] by (simp add: ld16_def)
qed (simp add: st_ptr_def ld32_st32)

lemma desc_at_cong: "(\<And>k. k < 8 \<Longrightarrow> b (a + of_nat k) = b' (a' + of_nat k)) \<Longrightarrow> desc_at b a = desc_at b' a'"
proof -
  assume e: "\<And>k. k < 8 \<Longrightarrow> b (a + of_nat k) = b' (a' + of_nat k)"
  show ?thesis using e [of 0] e [of 1] e [of 2] e [of 3] e [of 4] e [of 5] e [of 6] e [of 7] by (simp add: desc_at_def ld16_def add.assoc)
qed

text \<open>
  \<open>cstart()\<close> succeeds; every descriptor of the loader below the TSS is in the kernel's table as the
  loader made it, and the operands of \<open>lgdt\<close> and \<open>lidt\<close> name the kernel's tables of 128 and 256
  entries. The loader's table and the kernel's do not overlap, and neither pointer lies in the
  kernel's table.
\<close>

theorem cstart_tables:
  fixes b :: "u32 \<Rightarrow> u8" and gdt_ptr :: u32
  defines "old \<equiv> ld32 b (gdt_ptr + 2)" and "n \<equiv> unat (ld16 b gdt_ptr) + 1"
  assumes apart: "\<And>i j. i < n \<Longrightarrow> j < n \<Longrightarrow> gdt_at + of_nat i \<noteq> old + of_nat j"
    and ptrs: "\<And>i j. i < n \<Longrightarrow> j < 6 \<Longrightarrow> gdt_at + of_nat i \<noteq> gdt_ptr + of_nat j \<and> gdt_at + of_nat i \<noteq> idt_ptr + of_nat j"
    and two: "\<And>i j. i < 6 \<Longrightarrow> j < 6 \<Longrightarrow> gdt_ptr + of_nat i \<noteq> idt_ptr + of_nat j"
  shows "\<exists>b' s' v'. cstart gdt_ptr idt_ptr gdt_at idt_at addr tss_addr ldts_addr b s v = Inr (b', s', v') \<and>
    (\<forall>i. i < INDEX_TSS \<longrightarrow> 8 * i + 8 \<le> n \<longrightarrow> gdt s' i = desc_at b (old + 8 * of_nat i)) \<and>
    ld16 b' gdt_ptr = 1023 \<and> ld32 b' (gdt_ptr + 2) = gdt_at \<and> ld16 b' idt_ptr = 2047 \<and> ld32 b' (idt_ptr + 2) = idt_at"
proof -
  define b1 where "b1 = phys_copy b gdt_at old n"
  define b2 where "b2 = st_ptr b1 gdt_ptr 1023 gdt_at"
  define b' where "b' = st_ptr b2 idt_ptr 2047 idt_at"
  have mv: "move_gdt gdt_ptr idt_ptr gdt_at idt_at b = b'"
    by (simp add: move_gdt_def Let_def b'_def b2_def b1_def old_def n_def st_ptr_def)
  have "unat (ld16 b gdt_ptr) < 2 ^ 16" using unsigned_less [of "ld16 b gdt_ptr"] by simp
  then have n: "n \<le> 2 ^ 32" by (simp add: n_def)
  have at: "b' (gdt_at + of_nat k) = b (old + of_nat k)" if "k < n" for k
    using st_ptr_other [of "gdt_at + of_nat k" idt_ptr b2] st_ptr_other [of "gdt_at + of_nat k" gdt_ptr b1] ptrs [OF that] phys_copy_at [OF apart n that]
    by (simp add: b'_def b2_def b1_def)
  have d: "desc_at b' (gdt_at + 8 * of_nat i) = desc_at b (old + 8 * of_nat i)" if "8 * i + 8 \<le> n" for i
  proof (rule desc_at_cong)
    fix k :: nat assume "k < 8"
    then show "b' (gdt_at + 8 * of_nat i + of_nat k) = b (old + 8 * of_nat i + of_nat k)" using at [of "8 * i + k"] that by (simp add: add.assoc)
  qed
  define s0 where "s0 = s\<lparr>gdt := (\<lambda>i. desc_at b' (gdt_at + 8 * of_nat i))\<rparr>"
  obtain s' where s': "init_protect addr tss_addr ldts_addr s0 = Inr s'" "\<And>i. i < INDEX_TSS \<Longrightarrow> gdt s' i = gdt s0 i"
    using init_protect_frame [of addr tss_addr ldts_addr s0] by blast
  have g: "gdt s' i = desc_at b (old + 8 * of_nat i)" if "i < INDEX_TSS" "8 * i + 8 \<le> n" for i
    using s'(2) [OF that(1)] d [OF that(2)] by (simp add: s0_def)
  have o: "b' (gdt_ptr + of_nat j) = b2 (gdt_ptr + of_nat j)" if "j < 6" for j
    unfolding b'_def using two [OF that] by (intro st_ptr_other) auto
  have "ld16 b' gdt_ptr = ld16 b2 gdt_ptr" using o [of 0] o [of 1] by (simp add: ld16_def)
  moreover have "ld32 b' (gdt_ptr + 2) = ld32 b2 (gdt_ptr + 2)"
    using o [of 2] o [of 3] o [of 4] o [of 5] by (simp add: ld32_def get32_def add.assoc)
  moreover have "\<exists>v'. cstart gdt_ptr idt_ptr gdt_at idt_at addr tss_addr ldts_addr b s v = Inr (b', s', v')"
    using s'(1) by (simp add: cstart_def Let_def mv s0_def)
  ultimately show ?thesis using g st_ptr_reads [of b1 gdt_ptr 1023 gdt_at] st_ptr_reads [of b2 idt_ptr 2047 idt_at]
    by (auto simp: b2_def b'_def)
qed

end
