(* ===== verification/Spec2Isabelle.thy ===== *)
theory Spec2Isabelle
  imports Userio Ttytask Start
begin

text \<open>
  lwos: a small multitasking kernel for 32-bit x86 with message passing, drivers, a file system
  and a process manager as tasks. This development models its C code and proves what makes each
  part correct; where the code does something else, a theorem states what it does.

  \<^bold>\<open>The program.\<close> The kernel proper (kernel/proc.c, clock.c, protect.c, main.c) keeps one table of
  processes, schedules them by ticks and priority, and offers one system call, the rendezvous
  \<open>sendrec\<close>. Everything else is a task that waits for messages: terminals (kernel/tty.c, with
  console.c and keyboard.c below it), the system task (systask.c), the disk driver (hd.c), the file
  system (fs/) and the memory manager (mm/). User programs reach them through lib/. Interrupt
  handlers put a message into the waiting task with \<open>inform_init()\<close>.

  \<^bold>\<open>Conventions.\<close> A C struct is a record, an enum or a tagged pointer a datatype, an unsigned
  integer a word of its width, a signed one an \<open>int\<close> with \<open>s32\<close> where a result may leave the range;
  \<open>c_div\<close> and \<open>c_mod\<close> round as C does. Statements that may fail return \<open>'a res\<close>: \<open>AssertFailed\<close> for an
  assertion, \<open>Panic\<close> for \<open>panic()\<close>, \<open>Hang\<close> for a loop that never ends or \<open>spin()\<close>, \<open>Fault\<close> for an
  access outside an object, \<open>Blocked\<close> for a wait whose event has not come. Static variables and
  tables are fields of a state record that operations take and return. Hardware that answers
  (the disk, the keyboard controller, the clock chip) is a parameter or a list of the values
  read; bytes written to ports are kept. Memory is a function from addresses to bytes, except
  that the kernel's model keeps messages whole, as values at their addresses.

  \<^bold>\<open>The theories.\<close>
    \<^item> \<open>Prelude\<close>: words, C arithmetic, results, buffers, the locale \<open>state_machine\<close>.
      \<open>Ktypes\<close>: constants and \<open>MESSAGE\<close> of include/.
    \<^item> \<open>Protect\<close> (protect.c, protect.h): descriptors, gates, TSS, \<open>init_protect()\<close> with the
      \<open>init_8259A()\<close> of \<open>Irq\<close>; what is installed reads back the intended addresses and privileges.
    \<^item> \<open>Proc\<close> (proc.c, clock.c): process table, \<open>schedule()\<close>, \<open>msg_send()\<close>, \<open>msg_receive()\<close>,
      \<open>inform_init()\<close>, \<open>sys_sendrec()\<close>, \<open>clock_handler()\<close>. \<open>Sched\<close>: the scheduler ends exactly when a
      process can be chosen, and whom it chooses. \<open>Ipc\<close>: an abstract machine of process states and
      sender queues, and that every kernel operation refines it on every branch. \<open>Ksteps\<close>: the
      system call, interrupt and clock tick as steps, the kernel invariant, delivery, interrupts.
      \<open>Kmain\<close> (main.c, global.c): \<open>kernel_main()\<close>, and the states reachable from boot: the invariant,
      no circular wait, deadlock detection. \<open>kernel_main()\<close> never sets a priority, so that the booted
      machine stops at its first clock tick; the runs therefore start from the booted table with
      arbitrary priorities (\<open>with_priorities\<close>, zero being the code as it is), and a run of the
      machine with the priorities of the task tables shows senders that block and are served.
    \<^item> \<open>Ring\<close>: the locale \<open>bounded_fifo\<close> of the two input buffers. \<open>Keyboard\<close> (keyboard.c, keymap.h),
      \<open>Console\<close> (console.c), \<open>Tty\<close> (tty.c): scan codes to keys, keys to lines, characters to cells of
      the screen; both buffers interpret the locale. \<open>Ttytask\<close> (\<open>task_tty()\<close>): its rounds end.
    \<^item> \<open>Fs\<close>, \<open>Fsops\<close> (fs/main.c, open.c, misc.c, link.c, read_write.c): super block, inodes, every
      request of the task. \<open>Fsdata\<close>: reads and writes refine operations on a list of bytes when they
      touch at most 256 sectors, and never return when they touch more.
      \<open>Fsmap\<close>: allocation and release of inodes and sectors. \<open>Fsdir\<close>: what a search finds after an
      entry was made or removed. \<open>Fsref\<close>: descriptors and inodes are counted exactly, for every
      request, with the calculus \<open>runs\<close> for code that may stop.
    \<^item> \<open>Lib\<close> (lib/misc.c, vsprintf.c, klib.c): strings and formatting. \<open>Klib\<close> (klib.c): the extent
      of the kernel file in memory.
    \<^item> \<open>Mm\<close> (mm/main.c, forkexit.c): \<open>fork\<close>, \<open>exit\<close> and \<open>wait\<close>, composed with the file system's and the
      kernel's operations they call.
    \<^item> \<open>Hd\<close> (hd.c): partitions, commands and transfers of the disk driver, with the interrupts the
      disk sends for a command, and that it carries out what \<open>Fs\<close> states of \<open>rw_sector()\<close>: transfers of
      up to 256 sectors, and no end of longer ones. \<open>Irq\<close> (i8259.c, clock.c): interrupt controllers and timer.
    \<^item> \<open>Syscall\<close> (\<open>send_recv()\<close>, lib/, systask.c): the library's calls and the system task; the
      locale \<open>task_call\<close> is what a caller relies on, interpreted by an exchange of four system calls
      of the kernel's model. \<open>Disklog\<close> (fs/disklog.c): the log is append-only, but the sectors its first
      call reserves are not the ones it writes.
    \<^item> \<open>Print\<close> (lib/printf.c, syslog.c, misc.c, \<open>panic()\<close>, the halt in \<open>sys_printx()\<close>): what a failed assertion
      or a panic leaves on the screen. \<open>Userio\<close>: \<open>printf()\<close> and \<open>read()\<close> of a process through the file
      system task and the terminal task, and \<open>Init()\<close>. \<open>Debug\<close> (dump routines of proc.c, tty.c, hd.c,
      \<open>exception_handler()\<close>): the texts they print and where. \<open>Start\<close> (start.c): \<open>cstart()\<close> keeps the
      loader's descriptors.

  \<^bold>\<open>How the parts meet.\<close> \<open>Mm\<close> runs the file system's \<open>fs_fork()\<close> and \<open>fs_exit()\<close> and the kernel's
  system call on one shared process table. \<open>Tty\<close> answers through messages and prints through
  \<open>Console\<close>. \<open>Fs\<close> treats a disk as an array of bytes for each minor device; \<open>Hd\<close> discharges this for the
  driver, for requests of up to 256 sectors, and shows that it finishes no longer one. \<open>Syscall\<close> goes from a library call through \<open>Ipc\<close> to the
  answer of the task; \<open>Userio\<close> from a library call through \<open>task_fs()\<close> and \<open>task_tty()\<close> to the screen and
  back, on one shared memory.

  \<^bold>\<open>Bounds and loops.\<close> Loops over tables and bit maps recurse on the rounds that are left. Loops
  that may not end are partial functions into options (\<open>schedule()\<close>, the string routines, the
  console's scrolling loop) with theorems that say when they return, or read from a list of the
  values the hardware gives. Theorems on the disk assume positions below \<open>2 ^ 31\<close> bytes and sector
  numbers below \<open>2 ^ 28\<close>, the range of the code's \<open>int\<close> positions and of the command registers.

  \<^bold>\<open>Not modelled.\<close> The boot sector, the loader and the assembly of kernel.asm and lib (entry and exit
  of interrupts, traps, port and string instructions), which are not C, except for the text output
  and the interrupt mask of kliba.asm, which C code relies on. \<open>dump_fd_graph()\<close> behind its first
  statement: its calls are compiled out, and with them compiled in it stops there, as \<open>Userio\<close> shows.
  \<open>delay()\<close>, \<open>free_mem()\<close> and the test processes, which do nothing. Where the disk driver and the
  tasks print a report while they work (\<open>print_hdinfo()\<close>, \<open>dump_msg()\<close>), the report is modelled on its
  own and not as a step of the driver. Task loops are modelled one message or one round at a time. In
  the kernel's model a message buffer does not overlap another one. The process table has the 37
  slots the loops of the code walk, each with memory of its own, although its array has nine.
\<close>

end
